(* ===== verification/Maze_Prelude.thy ===== *)
theory Maze_Prelude
  imports Main "HOL-Library.Word" "HOL-Library.Signed_Division" "HOL-Library.Monad_Syntax"
begin

text \<open>
  Vocabulary shared by every component of the LCOMaze model.

  A C expression whose evaluation is undefined (a NULL or dangling dereference, an index
  outside an array, a signed overflow) has no value: the operations that can meet one return an
  option, with None for undefined behaviour, and are written in the option monad. A loop of the
  source is a partial_function (option), so that None also stands for a loop that never ends; a
  theorem that such an operation returns Some therefore says that it ends and that nothing
  undefined happens on the way. C's int is modelled by the unbounded int, with the overflow
  check written out where a computation can reach INT_MAX; the fixed-width unsigned types are
  words. The division and remainder of C truncate towards zero: sdiv and smod.
\<close>

type_synonym u8 = "8 word"
type_synonym u16 = "16 word"
type_synonym u32 = "32 word"

definition INT_MAX :: int where
  "INT_MAX = 2147483647"

text \<open>A value that C computes in type int.\<close>

definition c_int :: "int \<Rightarrow> int option" where
  "c_int v = (if - INT_MAX - 1 \<le> v \<and> v \<le> INT_MAX then Some v else None)"

lemma c_int_small [simp]: "\<bar>v\<bar> \<le> 1000000000 \<Longrightarrow> c_int v = Some v"
  by (auto simp: c_int_def INT_MAX_def)

lemma c_int_nonneg: "0 \<le> v \<Longrightarrow> v \<le> INT_MAX \<Longrightarrow> c_int v = Some v"
  by (simp add: c_int_def INT_MAX_def)

named_theorems model_defs \<open>defining equations that evaluate the model on concrete inputs\<close>
named_theorems rep_intros \<open>introduction rules for the representation relations\<close>

declare INT_MAX_def [model_defs] c_int_def [model_defs]

subsection \<open>The option monad\<close>

definition guard_ub :: "bool \<Rightarrow> unit option" where
  "guard_ub b = (if b then Some () else None)"

lemma guard_ub_simps [simp]:
  "guard_ub True = Some ()"
  "guard_ub False = None"
  "guard_ub b = Some u \<longleftrightarrow> b"
  "guard_ub b = None \<longleftrightarrow> \<not> b"
  by (auto simp: guard_ub_def)

lemma bind_map_option: "do { out \<leftarrow> m; Some (f out) } = map_option f m"
  by (cases m) auto

lemma bind_SomeE:
  assumes "Option.bind m f = Some y"
  obtains x where "m = Some x" "f x = Some y"
  using assms by (cases m) auto

text \<open>A counting loop: f for each element of the list in turn, until one is undefined.\<close>

fun for_each :: "('a \<Rightarrow> 's \<Rightarrow> 's option) \<Rightarrow> 'a list \<Rightarrow> 's \<Rightarrow> 's option" where
  "for_each f [] s = Some s"
| "for_each f (x # xs) s = do { s' \<leftarrow> f x s; for_each f xs s' }"

lemma for_each_append:
  "for_each f (xs @ ys) s = do { s' \<leftarrow> for_each f xs s; for_each f ys s' }"
  by (induction xs arbitrary: s) (auto split: bind_splits)

text \<open>The rule for an invariant that speaks about the elements already done.\<close>

text \<open>A loop in which at most one element does anything.\<close>

lemma for_each_idle: "\<forall>x \<in> set xs. f x s = Some s \<Longrightarrow> for_each f xs s = Some s"
  by (induction xs) auto

lemma for_each_one:
  assumes "\<And>x s. x \<in> set xs \<Longrightarrow> ok s \<Longrightarrow> f x s = (if hit x then g x s else Some s)"
    and "\<And>x s s'. ok s \<Longrightarrow> g x s = Some s' \<Longrightarrow> ok s'"
    and "distinct xs" and "\<forall>x \<in> set xs. \<forall>y \<in> set xs. hit x \<and> hit y \<longrightarrow> x = y" and "ok s"
  shows "for_each f xs s = (case filter hit xs of [] \<Rightarrow> Some s | x # _ \<Rightarrow> g x s)"
  using assms(1,3,4)
proof (induction xs)
  case (Cons x xs)
  show ?case
  proof (cases "hit x")
    case True
    then have none: "\<forall>y \<in> set xs. \<not> hit y" using Cons.prems(2,3) by auto
    have "for_each f xs s' = Some s'" if "g x s = Some s'" for s'
      using none Cons.prems(1) assms(2) [OF \<open>ok s\<close> that] by (intro for_each_idle) simp
    then show ?thesis using True Cons.prems(1) [of x s] \<open>ok s\<close> by (cases "g x s") simp_all
  next
    case False
    then show ?thesis using Cons \<open>ok s\<close> by simp
  qed
qed simp

lemma for_each_inv:
  assumes "\<And>xs x ys s. zs = xs @ x # ys \<Longrightarrow> I xs s \<Longrightarrow> \<exists>s'. f x s = Some s' \<and> I (xs @ [x]) s'"
    and "I [] s"
  shows "\<exists>s'. for_each f zs s = Some s' \<and> I zs s'"
proof -
  have "\<exists>s'. for_each f xs s = Some s' \<and> I xs s'" if "zs = xs @ ys" for xs ys
    using that
  proof (induction xs arbitrary: ys rule: rev_induct)
    case Nil
    then show ?case using assms(2) by simp
  next
    case (snoc x xs)
    then obtain s1 where "for_each f xs s = Some s1" "I xs s1" by auto
    moreover from this obtain s2 where "f x s1 = Some s2" "I (xs @ [x]) s2"
      using assms(1) [of xs x ys s1] snoc.prems by auto
    ultimately show ?case by (auto simp: for_each_append)
  qed
  from this [of zs "[]"] show ?thesis by simp
qed

lemma split_upto: "[a..b] = xs @ x # ys \<Longrightarrow> a \<le> x \<and> x \<le> (b::int) \<and> xs = [a..x - 1]"
proof (induction xs arbitrary: a)
  case Nil
  then have "a \<le> b" by (cases "a \<le> b") auto
  with Nil show ?case by (simp add: upto_rec1)
next
  case (Cons z zs)
  then have "a \<le> b" by (cases "a \<le> b") auto
  with Cons.prems have "z = a" "[a + 1..b] = zs @ x # ys" by (auto simp: upto_rec1)
  with Cons.IH [of "a + 1"] show ?case by (auto simp: upto_rec1)
qed

subsection \<open>C's integer division\<close>

lemma c_mod_nonneg [simp]: "0 \<le> a \<Longrightarrow> 0 < b \<Longrightarrow> (a::int) smod b = a mod b"
  by (simp add: signed_modulo_int_def signed_divide_int_def minus_div_mult_eq_mod [symmetric] sgn_if)

lemma c_div_nonneg [simp]: "0 \<le> a \<Longrightarrow> 0 < b \<Longrightarrow> (a::int) sdiv b = a div b"
  by (auto simp: signed_divide_int_def sgn_if)

subsection \<open>Lists\<close>

lemma map_snd_Cons_conv:
  "map snd ps = v # vs \<longleftrightarrow> (\<exists>a qs. ps = (a, v) # qs \<and> map snd qs = vs)"
  by (cases ps) auto

lemma distinct_map_fst_append:
  "distinct (map fst (xs @ ys)) \<longleftrightarrow>
     distinct (map fst xs) \<and> distinct (map fst ys) \<and> fst ` set xs \<inter> fst ` set ys = {}"
  by auto

end
