(* ===== verification/C_Heap.thy ===== *)
theory C_Heap
  imports Maze_Prelude
begin

text \<open>
  The part of C's heap the data structures use: blocks of one node type, the addresses malloc
  hands out, loads and stores through pointers, and free. A pointer is a nat option with None
  for NULL. malloc is modelled as always succeeding (the sources that call it here do not look
  at its result) and as returning an address that no earlier call has returned; load and store
  of NULL or of a block that was never allocated or has been freed are undefined (None).

  lseg relates a heap to the nodes on a chain of next pointers. Its frame and update lemmas
  carry the correctness proofs of the stack and of the linked list.
\<close>

record 'n nheap =
  blocks :: "nat \<Rightarrow> 'n option"
  fresh :: nat

definition empty_heap :: "'n nheap" where
  "empty_heap = \<lparr>blocks = (\<lambda>_. None), fresh = 0\<rparr>"

definition h_alloc :: "'n \<Rightarrow> 'n nheap \<Rightarrow> nat \<times> 'n nheap" where
  "h_alloc n h = (fresh h, h\<lparr>blocks := (blocks h)(fresh h := Some n), fresh := Suc (fresh h)\<rparr>)"

fun h_load :: "'n nheap \<Rightarrow> nat option \<Rightarrow> 'n option" where
  "h_load h None = None"
| "h_load h (Some a) = blocks h a"

fun h_store :: "'n nheap \<Rightarrow> nat option \<Rightarrow> ('n \<Rightarrow> 'n) \<Rightarrow> 'n nheap option" where
  "h_store h None f = None"
| "h_store h (Some a) f =
     (case blocks h a of
        None \<Rightarrow> None
      | Some n \<Rightarrow> Some (h\<lparr>blocks := (blocks h)(a := Some (f n))\<rparr>))"

fun h_free :: "'n nheap \<Rightarrow> nat option \<Rightarrow> 'n nheap option" where
  "h_free h None = Some h"
| "h_free h (Some a) =
     (if blocks h a = None then None else Some (h\<lparr>blocks := (blocks h)(a := None)\<rparr>))"

definition heap_ok :: "'n nheap \<Rightarrow> bool" where
  "heap_ok h \<longleftrightarrow> (\<forall>a. fresh h \<le> a \<longrightarrow> blocks h a = None)"

declare empty_heap_def [model_defs] h_alloc_def [model_defs]

lemma heap_ok_empty [simp]: "heap_ok empty_heap"
  by (simp add: heap_ok_def empty_heap_def)

lemma heap_ok_alloc: "heap_ok h \<Longrightarrow> h_alloc n h = (a, h') \<Longrightarrow> heap_ok h'"
  by (auto simp: heap_ok_def h_alloc_def)

lemma heap_ok_store: "heap_ok h \<Longrightarrow> h_store h p f = Some h' \<Longrightarrow> heap_ok h'"
  by (cases p) (auto simp: heap_ok_def split: option.splits)

lemma heap_ok_free: "heap_ok h \<Longrightarrow> h_free h p = Some h' \<Longrightarrow> heap_ok h'"
  by (cases p) (auto simp: heap_ok_def split: if_splits)

lemma heap_ok_fresh [simp]: "heap_ok h \<Longrightarrow> blocks h (fresh h) = None"
  by (simp add: heap_ok_def)

subsection \<open>Chains of nodes\<close>

text \<open>
  lseg vl nx h p avs q: following nx from p through h visits the blocks and values avs, in
  order, and arrives at q.
\<close>

fun lseg :: "('n \<Rightarrow> 'v) \<Rightarrow> ('n \<Rightarrow> nat option) \<Rightarrow> 'n nheap \<Rightarrow> nat option \<Rightarrow>
    (nat \<times> 'v) list \<Rightarrow> nat option \<Rightarrow> bool" where
  "lseg vl nx h p [] q \<longleftrightarrow> p = q"
| "lseg vl nx h p (av # avs) q \<longleftrightarrow>
     p = Some (fst av) \<and>
     (\<exists>n. blocks h (fst av) = Some n \<and> vl n = snd av \<and> lseg vl nx h (nx n) avs q)"

lemma lseg_append:
  "lseg vl nx h p (avs @ bws) q \<longleftrightarrow> (\<exists>r. lseg vl nx h p avs r \<and> lseg vl nx h r bws q)"
  by (induction avs arbitrary: p) auto

lemma lseg_frame:
  "(\<And>a. a \<in> fst ` set avs \<Longrightarrow> blocks h' a = blocks h a) \<Longrightarrow>
   lseg vl nx h' p avs q = lseg vl nx h p avs q"
  by (induction avs arbitrary: p) auto

lemma lseg_allocated: "lseg vl nx h p avs q \<Longrightarrow> a \<in> fst ` set avs \<Longrightarrow> blocks h a \<noteq> None"
  by (induction avs arbitrary: p) auto

lemma lseg_not_fresh: "heap_ok h \<Longrightarrow> lseg vl nx h p avs q \<Longrightarrow> fresh h \<notin> fst ` set avs"
  using lseg_allocated by fastforce

lemma lseg_unique: "lseg vl nx h p avs None \<Longrightarrow> lseg vl nx h p bws None \<Longrightarrow> avs = bws"
proof (induction avs arbitrary: p bws)
  case Nil
  then show ?case by (cases bws) auto
next
  case (Cons av avs)
  then show ?case by (cases bws) (auto simp: prod_eq_iff)
qed

lemma lseg_null [simp]: "lseg vl nx h None avs None \<longleftrightarrow> avs = []"
  by (cases avs) auto

lemma lseg_distinct: "lseg vl nx h p avs None \<Longrightarrow> distinct (map fst avs)"
proof (induction avs arbitrary: p)
  case Nil
  then show ?case by simp
next
  case (Cons av avs)
  have "fst av \<notin> fst ` set avs"
  proof
    assume "fst av \<in> fst ` set avs"
    then obtain xs v ys where avs: "avs = xs @ (fst av, v) # ys"
      by (metis (no_types, lifting) image_iff prod.collapse split_list)
    from Cons.prems obtain n where n: "blocks h (fst av) = Some n" "lseg vl nx h (nx n) avs None"
      by auto
    from Cons.prems avs have "lseg vl nx h (Some (fst av)) ((fst av, v) # ys) None"
      by (auto simp: lseg_append)
    with n have "lseg vl nx h (nx n) ys None" by auto
    with n(2) have "avs = ys" by (rule lseg_unique)
    with avs show False by simp
  qed
  with Cons show ?case by auto
qed

lemma lseg_alloc:
  "heap_ok h \<Longrightarrow> h_alloc n h = (a, h') \<Longrightarrow> lseg vl nx h p avs q \<Longrightarrow> lseg vl nx h' p avs q"
  using lseg_not_fresh [of h vl nx p avs q]
  by (subst lseg_frame [of _ _ h]) (auto simp: h_alloc_def rev_image_eqI)

end
