(* ===== verification/Maze_Types.thy ===== *)
theory Maze_Types
  imports Maze_Prelude
begin

text \<open>
  The data of game/maze.h: struct Cell, struct Maze, and get_cell of game/maze.c.

  A cell lives in a block of its own, allocated by generate_maze in iteration (i, j) of its
  initialisation loops; the block is named by that pair (row i, column j), so a struct Cell
  pointer is a pair or NULL. A cell_store is the contents of those blocks. The array of arrays
  cells holds the pointer to block (i, j) at cells[i][j] and is never written afterwards:
  grid_ptr is the expression cells[i][j], undefined outside the array.

  The file also holds the vocabulary for what a maze is: its grid, the passages between cells
  whose wall is down, agreement of the two walls between neighbours, and closed borders.
\<close>

record vbe_mode_info =
  XResolution :: u16
  YResolution :: u16
  BitsPerPixel :: u8
  PhysBasePtr :: u32

text \<open>struct packet, the decoded mouse packet, and its initial contents.\<close>

record packet =
  bytes :: "u8 list"
  rb :: bool
  mb :: bool
  lb :: bool
  delta_x :: "16 word"
  delta_y :: "16 word"
  x_ov :: bool
  y_ov :: bool

definition zero_packet :: packet where
  "zero_packet = \<lparr>bytes = [0, 0, 0], rb = False, mb = False, lb = False, delta_x = 0, delta_y = 0,
     x_ov = False, y_ov = False\<rparr>"

type_synonym cell_id = "int \<times> int"
type_synonym cell_ptr = "cell_id option"

record cell =
  c_x :: int
  c_y :: int
  visited :: bool
  top_wall :: bool
  bottom_wall :: bool
  left_wall :: bool
  right_wall :: bool
  c_dist :: int
  c_prev :: cell_ptr

type_synonym cell_store = "cell_id \<Rightarrow> cell option"

record maze =
  m_width :: int
  m_height :: int
  m_cell_size :: int
  m_cells :: cell_store

definition grid_ptr :: "int \<Rightarrow> int \<Rightarrow> int \<Rightarrow> int \<Rightarrow> cell_ptr option" where
  "grid_ptr w h i j = (if 0 \<le> i \<and> i < h \<and> 0 \<le> j \<and> j < w then Some (Some (i, j)) else None)"

fun load_cell :: "cell_store \<Rightarrow> cell_ptr \<Rightarrow> cell option" where
  "load_cell st None = None"
| "load_cell st (Some p) = st p"

fun store_cell :: "cell_store \<Rightarrow> cell_ptr \<Rightarrow> (cell \<Rightarrow> cell) \<Rightarrow> cell_store option" where
  "store_cell st None f = None"
| "store_cell st (Some p) f =
     (case st p of None \<Rightarrow> None | Some c \<Rightarrow> Some (st(p := Some (f c))))"

definition get_cell :: "maze \<Rightarrow> int \<Rightarrow> int \<Rightarrow> cell_ptr option" where
  "get_cell m x y =
     (if x < 0 then Some None
      else do {
        width \<leftarrow> c_int (m_width m * m_cell_size m);
        if x \<ge> width \<or> y < 0 then Some None
        else do {
          height \<leftarrow> c_int (m_height m * m_cell_size m);
          if y \<ge> height then Some None
          else grid_ptr (m_width m) (m_height m) (y sdiv m_cell_size m) (x sdiv m_cell_size m)
        }
      })"

text \<open>The width and the height of a maze in pixels are values of type int.\<close>

definition pixels_fit :: "maze \<Rightarrow> bool" where
  "pixels_fit m \<longleftrightarrow> m_width m * m_cell_size m \<le> INT_MAX \<and> m_height m * m_cell_size m \<le> INT_MAX"

declare grid_ptr_def [model_defs] get_cell_def [model_defs]

lemma grid_ptr_Some [simp]:
  "grid_ptr w h i j = Some p \<longleftrightarrow> 0 \<le> i \<and> i < h \<and> 0 \<le> j \<and> j < w \<and> p = Some (i, j)"
  by (auto simp: grid_ptr_def)

lemma store_cell_Some:
  "store_cell st p f = Some st' \<longleftrightarrow>
     (\<exists>a c. p = Some a \<and> st a = Some c \<and> st' = st(a := Some (f c)))"
  by (cases p) (auto split: option.splits)

subsection \<open>The grid and its passages\<close>

definition grid :: "int \<Rightarrow> int \<Rightarrow> cell_id set" where
  "grid w h = {0..<h} \<times> {0..<w}"

lemma in_grid [simp]: "(i, j) \<in> grid w h \<longleftrightarrow> 0 \<le> i \<and> i < h \<and> 0 \<le> j \<and> j < w"
  by (auto simp: grid_def)

lemma finite_grid [simp]: "finite (grid w h)"
  by (simp add: grid_def)

lemma card_grid: "card (grid w h) = nat h * nat w"
  by (simp add: grid_def card_cartesian_product)

text \<open>The cells a step up, down, left or right of p.\<close>

definition next_to :: "cell_id \<Rightarrow> cell_id \<Rightarrow> bool" where
  "next_to p q \<longleftrightarrow>
     q \<in> {(fst p, snd p - 1), (fst p, snd p + 1), (fst p - 1, snd p), (fst p + 1, snd p)}"

lemma next_to_sym: "next_to p q \<Longrightarrow> next_to q p"
  by (auto simp: next_to_def prod_eq_iff)

lemma next_to_irrefl [simp]: "\<not> next_to p p"
  by (auto simp: next_to_def prod_eq_iff)

text \<open>The wall flag of cell c, which lies at p, on its side towards the neighbour q.\<close>

definition wall_towards :: "cell \<Rightarrow> cell_id \<Rightarrow> cell_id \<Rightarrow> bool" where
  "wall_towards c p q =
     (if q = (fst p, snd p - 1) then left_wall c
      else if q = (fst p, snd p + 1) then right_wall c
      else if q = (fst p - 1, snd p) then top_wall c
      else bottom_wall c)"

definition passages :: "cell_store \<Rightarrow> (cell_id \<times> cell_id) set" where
  "passages st = {(p, q). next_to p q \<and> (\<exists>c. st p = Some c \<and> \<not> wall_towards c p q)}"

text \<open>
  What the generator establishes and the rest of the game relies on: exactly the grid's cells
  exist and know their coordinates; neighbours agree on the wall between them; no passage leaves
  the grid.
\<close>

definition store_wf :: "int \<Rightarrow> int \<Rightarrow> cell_store \<Rightarrow> bool" where
  "store_wf w h st \<longleftrightarrow>
     (\<forall>p. p \<in> grid w h \<longleftrightarrow> st p \<noteq> None) \<and>
     (\<forall>p c. st p = Some c \<longrightarrow> c_y c = fst p \<and> c_x c = snd p)"

definition walls_wf :: "int \<Rightarrow> int \<Rightarrow> cell_store \<Rightarrow> bool" where
  "walls_wf w h st \<longleftrightarrow> sym (passages st) \<and> passages st \<subseteq> grid w h \<times> grid w h"

definition maze_wf :: "maze \<Rightarrow> bool" where
  "maze_wf m \<longleftrightarrow> 0 < m_width m \<and> 0 < m_height m \<and> 0 < m_cell_size m \<and>
     store_wf (m_width m) (m_height m) (m_cells m) \<and>
     walls_wf (m_width m) (m_height m) (m_cells m)"

lemma store_wfD:
  assumes "store_wf w h st" and "p \<in> grid w h"
  obtains c where "st p = Some c" "c_y c = fst p" "c_x c = snd p"
  using assms unfolding store_wf_def by blast

lemma store_wf_grid: "store_wf w h st \<Longrightarrow> st p = Some c \<Longrightarrow> p \<in> grid w h"
  unfolding store_wf_def by blast

lemma div_pos_less: "0 < (k::int) \<Longrightarrow> a < n * k \<Longrightarrow> a div k < n"
  using mult_right_mono [of n "a div k" k] div_mult_mod_eq [of a k] pos_mod_sign [of k a]
  by linarith

lemma store_wf_coords: "store_wf w h st \<Longrightarrow> st p = Some c \<Longrightarrow> c_y c = fst p \<and> c_x c = snd p"
  unfolding store_wf_def by blast

lemma get_cell_defined:
  assumes "maze_wf m" and "pixels_fit m"
  shows "get_cell m x y =
    Some (if 0 \<le> x \<and> x < m_width m * m_cell_size m \<and> 0 \<le> y \<and> y < m_height m * m_cell_size m
          then Some (y div m_cell_size m, x div m_cell_size m) else None)"
proof -
  have pos: "0 < m_width m" "0 < m_height m" "0 < m_cell_size m" using assms(1) by (auto simp: maze_wf_def)
  then have "c_int (m_width m * m_cell_size m) = Some (m_width m * m_cell_size m)"
    "c_int (m_height m * m_cell_size m) = Some (m_height m * m_cell_size m)"
    using assms(2) by (simp_all add: c_int_nonneg pixels_fit_def)
  then show ?thesis
    using pos div_pos_less [of "m_cell_size m" x "m_width m"] div_pos_less [of "m_cell_size m" y "m_height m"]
    by (auto simp: get_cell_def grid_ptr_def pos_imp_zdiv_nonneg_iff)
qed

subsection \<open>Passages in terms of the wall flags\<close>

lemma passage_iffs:
  assumes "st (i, j) = Some c"
  shows "((i, j), (i, j - 1)) \<in> passages st \<longleftrightarrow> \<not> left_wall c"
    and "((i, j), (i, j + 1)) \<in> passages st \<longleftrightarrow> \<not> right_wall c"
    and "((i, j), (i - 1, j)) \<in> passages st \<longleftrightarrow> \<not> top_wall c"
    and "((i, j), (i + 1, j)) \<in> passages st \<longleftrightarrow> \<not> bottom_wall c"
  using assms by (auto simp: passages_def next_to_def wall_towards_def)

text \<open>Neighbours agree on the wall they share, and the outer walls stand.\<close>

definition walls_agree :: "int \<Rightarrow> int \<Rightarrow> cell_store \<Rightarrow> bool" where
  "walls_agree w h st \<longleftrightarrow>
     (\<forall>i j c d. st (i, j) = Some c \<longrightarrow> st (i, j + 1) = Some d \<longrightarrow> right_wall c = left_wall d) \<and>
     (\<forall>i j c d. st (i, j) = Some c \<longrightarrow> st (i + 1, j) = Some d \<longrightarrow> bottom_wall c = top_wall d) \<and>
     (\<forall>i j c. st (i, j) = Some c \<longrightarrow>
        (j = 0 \<longrightarrow> left_wall c) \<and> (j = w - 1 \<longrightarrow> right_wall c) \<and>
        (i = 0 \<longrightarrow> top_wall c) \<and> (i = h - 1 \<longrightarrow> bottom_wall c))"

lemma walls_wf_agree:
  assumes "walls_wf w h st"
  shows "walls_agree w h st"
proof -
  have sym: "(p, q) \<in> passages st \<longleftrightarrow> (q, p) \<in> passages st"
    and within: "(p, q) \<in> passages st \<Longrightarrow> q \<in> grid w h" for p q
    using assms by (auto simp: walls_wf_def dest: symD)
  have "right_wall c = left_wall d" if "st (i, j) = Some c" "st (i, j + 1) = Some d" for i j c d
    using passage_iffs(2) [of st i j c] passage_iffs(1) [of st i "j + 1" d] that
      sym [of "(i, j)" "(i, j + 1)"] by simp
  moreover have "bottom_wall c = top_wall d"
    if "st (i, j) = Some c" "st (i + 1, j) = Some d" for i j c d
    using passage_iffs(4) [of st i j c] passage_iffs(3) [of st "i + 1" j d] that
      sym [of "(i, j)" "(i + 1, j)"] by simp
  moreover have "(j = 0 \<longrightarrow> left_wall c) \<and> (j = w - 1 \<longrightarrow> right_wall c) \<and>
      (i = 0 \<longrightarrow> top_wall c) \<and> (i = h - 1 \<longrightarrow> bottom_wall c)" if "st (i, j) = Some c" for i j c
    using passage_iffs [of st i j c] that within [of "(i, j)"] by fastforce
  ultimately show ?thesis by (auto simp: walls_agree_def)
qed

end
