(* ===== verification/Stack_Model.thy ===== *)
theory Stack_Model
  imports C_Heap Maze_Types
begin

text \<open>
  data_structures/stack.h and stack.c: a LIFO of cell pointers as a chain of StackNode blocks.
  The operations are translated on the explicit heap. The locale lifo is the contract the maze
  generator uses; the interpretation lifo_stack proves it for the code's operations, with
  stack_rep as the relation between heap, struct Stack and the list of pointers it holds.
  The size field is an int: size++ on INT_MAX is undefined, so a push has a value only while fewer
  than INT_MAX nodes are on the stack. malloc does not fail in the model (C_Heap): stack_push
  writes through its result unchecked. stack_pop does not free the node it removes.
\<close>

record stack_node =
  sn_cell :: cell_ptr
  sn_next :: "nat option"

record stack =
  st_top :: "nat option"
  st_size :: int

type_synonym stack_heap = "stack_node nheap"

definition stack_push :: "stack_heap \<Rightarrow> stack \<Rightarrow> cell_ptr \<Rightarrow> (stack_heap \<times> stack) option" where
  "stack_push h s c =
     (let (new_node, h') = h_alloc \<lparr>sn_cell = c, sn_next = st_top s\<rparr> h in
      do {
        size \<leftarrow> c_int (st_size s + 1);
        Some (h', s\<lparr>st_top := Some new_node, st_size := size\<rparr>)
      })"

definition stack_pop :: "stack_heap \<Rightarrow> stack \<Rightarrow> (cell_ptr \<times> stack) option" where
  "stack_pop h s =
     (if st_size s = 0 then Some (None, s)
      else do {
        top_node \<leftarrow> h_load h (st_top s);
        size \<leftarrow> c_int (st_size s - 1);
        Some (sn_cell top_node, s\<lparr>st_top := sn_next top_node, st_size := size\<rparr>)
      })"

definition stack_top :: "stack_heap \<Rightarrow> stack \<Rightarrow> cell_ptr option" where
  "stack_top h s =
     (if st_size s = 0 then Some None
      else do {
        top_node \<leftarrow> h_load h (st_top s);
        Some (sn_cell top_node)
      })"

definition empty_stack :: stack where
  "empty_stack = \<lparr>st_top = None, st_size = 0\<rparr>"

definition stack_rep :: "stack_heap \<Rightarrow> stack \<Rightarrow> cell_ptr list \<Rightarrow> bool" where
  "stack_rep h s cs \<longleftrightarrow>
     heap_ok h \<and> st_size s = int (length cs) \<and> int (length cs) \<le> INT_MAX \<and>
     (\<exists>ns. lseg sn_cell sn_next h (st_top s) ns None \<and> map snd ns = cs)"

declare stack_push_def [model_defs] stack_pop_def [model_defs] stack_top_def [model_defs]
  empty_stack_def [model_defs]

lemma stack_rep_empty: "heap_ok h \<Longrightarrow> stack_rep h empty_stack []"
  by (auto simp: stack_rep_def empty_stack_def INT_MAX_def)

lemma stack_rep_push:
  assumes "stack_rep h s cs" and room: "int (length cs) < INT_MAX"
  shows "\<exists>h' s'. stack_push h s c = Some (h', s') \<and> stack_rep h' s' (c # cs)"
proof -
  from assms obtain ns where ns: "lseg sn_cell sn_next h (st_top s) ns None" "map snd ns = cs"
    and ok: "heap_ok h" and size: "st_size s = int (length cs)"
    by (auto simp: stack_rep_def)
  obtain a h1 where alloc: "h_alloc \<lparr>sn_cell = c, sn_next = st_top s\<rparr> h = (a, h1)"
    by (cases "h_alloc \<lparr>sn_cell = c, sn_next = st_top s\<rparr> h")
  let ?s = "s\<lparr>st_top := Some a, st_size := st_size s + 1\<rparr>"
  have "c_int (st_size s + 1) = Some (st_size s + 1)" using size room by (simp add: c_int_nonneg)
  with alloc have push: "stack_push h s c = Some (h1, ?s)" by (simp add: stack_push_def)
  have "lseg sn_cell sn_next h1 (Some a) ((a, c) # ns) None"
    using lseg_alloc [OF ok alloc ns(1)] alloc by (auto simp: h_alloc_def)
  with ns(2) size room heap_ok_alloc [OF ok alloc] have "stack_rep h1 ?s (c # cs)"
    by (auto simp: stack_rep_def intro!: exI [of _ "(a, c) # ns"])
  with push show ?thesis by blast
qed

text \<open>Beyond that the size field overflows.\<close>

lemma stack_rep_push_full:
  "stack_rep h s cs \<Longrightarrow> \<not> int (length cs) < INT_MAX \<Longrightarrow> stack_push h s c = None"
  by (simp add: stack_rep_def stack_push_def c_int_def split: prod.split)

lemma stack_rep_pop:
  assumes "stack_rep h s (c # cs)"
  shows "\<exists>s'. stack_pop h s = Some (c, s') \<and> stack_rep h s' cs"
  using assms by (fastforce simp: stack_rep_def stack_pop_def map_snd_Cons_conv c_int_nonneg)

lemma stack_rep_pop_nil: "stack_rep h s [] \<Longrightarrow> stack_pop h s = Some (None, s)"
  by (simp add: stack_rep_def stack_pop_def)

lemma stack_rep_top:
  "stack_rep h s cs \<Longrightarrow> stack_top h s = Some (case cs of [] \<Rightarrow> None | c # _ \<Rightarrow> c)"
  by (cases cs) (auto simp: stack_rep_def stack_top_def map_snd_Cons_conv)

subsection \<open>The contract of a LIFO\<close>

locale lifo =
  fixes rep :: "'h \<Rightarrow> 's \<Rightarrow> 'v list \<Rightarrow> bool"
    and push :: "'h \<Rightarrow> 's \<Rightarrow> 'v \<Rightarrow> ('h \<times> 's) option"
    and pop :: "'h \<Rightarrow> 's \<Rightarrow> ('v \<times> 's) option"
    and size_of :: "'s \<Rightarrow> int"
    and room :: int
  assumes rep_push: "rep h s vs \<Longrightarrow> int (length vs) < room \<Longrightarrow>
      \<exists>h' s'. push h s v = Some (h', s') \<and> rep h' s' (v # vs)"
    and rep_pop: "rep h s (v # vs) \<Longrightarrow> \<exists>s'. pop h s = Some (v, s') \<and> rep h s' vs"
    and rep_size: "rep h s vs \<Longrightarrow> size_of s = int (length vs)"
begin

lemma pop_exact:
  "rep h s (v # vs) \<Longrightarrow> pop h s = Some (u, s') \<Longrightarrow> u = v \<and> rep h s' vs"
  using rep_pop by fastforce

lemma size_pos_iff: "rep h s vs \<Longrightarrow> 0 < size_of s \<longleftrightarrow> vs \<noteq> []"
  using rep_size by fastforce

text \<open>Two pushes in a row, as in the body of the generator's loop.\<close>

lemma rep_push2:
  assumes "rep h s vs" and "int (length vs) + 1 < room"
  obtains h1 s1 h2 s2 where "push h s u = Some (h1, s1)" and "push h1 s1 v = Some (h2, s2)"
    and "rep h2 s2 (v # u # vs)"
proof -
  obtain h1 s1 where one: "push h s u = Some (h1, s1)" "rep h1 s1 (u # vs)"
    using rep_push [OF assms(1), of u] assms(2) by auto
  obtain h2 s2 where two: "push h1 s1 v = Some (h2, s2)" "rep h2 s2 (v # u # vs)"
    using rep_push [OF one(2), of v] assms(2) by auto
  show thesis by (rule that [OF one(1) two])
qed

fun push_all :: "'h \<Rightarrow> 's \<Rightarrow> 'v list \<Rightarrow> ('h \<times> 's) option" where
  "push_all h s [] = Some (h, s)"
| "push_all h s (v # vs) = do { (h', s') \<leftarrow> push h s v; push_all h' s' vs }"

fun pop_all :: "nat \<Rightarrow> 'h \<Rightarrow> 's \<Rightarrow> 'v list option" where
  "pop_all 0 h s = Some []"
| "pop_all (Suc n) h s =
     do { (v, s') \<leftarrow> pop h s; vs \<leftarrow> pop_all n h s'; Some (v # vs) }"

lemma rep_push_all:
  "rep h s vs \<Longrightarrow> int (length us) + int (length vs) \<le> room \<Longrightarrow>
   \<exists>h' s'. push_all h s us = Some (h', s') \<and> rep h' s' (rev us @ vs)"
proof (induction us arbitrary: h s vs)
  case Nil
  then show ?case by simp
next
  case (Cons u us)
  then obtain h1 s1 where p: "push h s u = Some (h1, s1)" "rep h1 s1 (u # vs)"
    using rep_push [of h s vs u] by auto
  with Cons.IH [OF p(2)] Cons.prems(2) show ?case by simp
qed

lemma rep_pop_all: "rep h s (us @ vs) \<Longrightarrow> pop_all (length us) h s = Some us"
  by (induction us arbitrary: s) (use rep_pop in fastforce)+

lemma push_all_pop_all:
  assumes "rep h s vs" and "int (length us) + int (length vs) \<le> room"
  shows "\<exists>h' s'. push_all h s us = Some (h', s') \<and> pop_all (length us) h' s' = Some (rev us)"
  using rep_push_all [OF assms] rep_pop_all [of _ _ "rev us" vs] by fastforce

end

interpretation lifo_stack: lifo stack_rep stack_push stack_pop st_size INT_MAX
  by unfold_locales (simp_all add: stack_rep_push stack_rep_pop stack_rep_def [THEN iffD1])

subsection \<open>Sequences of operations\<close>

text \<open>
  What a caller observes: the results of the pops and tops, on the code and on a list. The
  specification has no value where the code has undefined behaviour: a push on INT_MAX elements.
\<close>

datatype stack_op = SPush cell_ptr | SPop | STop

fun run_stack :: "stack_op list \<Rightarrow> stack_heap \<Rightarrow> stack \<Rightarrow> cell_ptr list option" where
  "run_stack [] h s = Some []"
| "run_stack (SPush c # ops) h s = do { (h', s') \<leftarrow> stack_push h s c; run_stack ops h' s' }"
| "run_stack (SPop # ops) h s =
     do { (c, s') \<leftarrow> stack_pop h s; out \<leftarrow> run_stack ops h s'; Some (c # out) }"
| "run_stack (STop # ops) h s =
     do { c \<leftarrow> stack_top h s; out \<leftarrow> run_stack ops h s; Some (c # out) }"

fun spec_stack :: "stack_op list \<Rightarrow> cell_ptr list \<Rightarrow> cell_ptr list option" where
  "spec_stack [] cs = Some []"
| "spec_stack (SPush c # ops) cs =
     (if int (length cs) < INT_MAX then spec_stack ops (c # cs) else None)"
| "spec_stack (SPop # ops) cs =
     map_option (Cons (if cs = [] then None else hd cs)) (spec_stack ops (tl cs))"
| "spec_stack (STop # ops) cs =
     map_option (Cons (if cs = [] then None else hd cs)) (spec_stack ops cs)"

lemma run_stack_rep: "stack_rep h s cs \<Longrightarrow> run_stack ops h s = spec_stack ops cs"
proof (induction ops cs arbitrary: h s rule: spec_stack.induct)
  case (2 c ops cs)
  with lifo_stack.rep_push [OF 2(2), of c] stack_rep_push_full [OF 2(2), of c] show ?case
    by fastforce
next
  case (3 ops cs)
  show ?case
  proof (cases cs)
    case Nil
    with 3 show ?thesis by (simp add: stack_rep_pop_nil bind_map_option)
  next
    case (Cons c ds)
    with 3 lifo_stack.rep_pop [of h s c ds] show ?thesis by (auto simp: bind_map_option)
  qed
next
  case (4 ops cs)
  with stack_rep_top [OF 4(2)] show ?case by (cases cs) (simp_all add: bind_map_option)
qed simp

text \<open>At most INT_MAX calls never overflow the size field.\<close>

lemma spec_stack_defined:
  "int (length ops) + int (length cs) \<le> INT_MAX \<Longrightarrow> spec_stack ops cs \<noteq> None"
  by (induction ops cs rule: spec_stack.induct) auto

text \<open>C40: any sequence of stack_push, stack_pop and stack_top calls on a new stack gives exactly
  the results of the same calls on a LIFO list (NULL when it is empty); it is undefined exactly
  where stack_push is called on INT_MAX elements, where size++ overflows, so no sequence of at
  most INT_MAX calls is undefined. (As everywhere on this heap, malloc does not fail: stack_push
  dereferences its result unchecked.)\<close>

theorem stack_implements_lifo:
  "run_stack ops empty_heap empty_stack = spec_stack ops [] \<and>
   (int (length ops) \<le> INT_MAX \<longrightarrow> run_stack ops empty_heap empty_stack \<noteq> None)"
  using run_stack_rep [OF stack_rep_empty] spec_stack_defined [of ops "[]"] by simp

theorem stack_implements_lifo_witness:
  "run_stack [SPush (Some (0, 0)), SPush (Some (0, 1)), STop, SPop, SPop, SPop] empty_heap empty_stack =
     Some [Some (0, 1), Some (0, 1), Some (0, 0), None]"
  using stack_implements_lifo [of "[SPush (Some (0, 0)), SPush (Some (0, 1)), STop, SPop, SPop, SPop]"]
  by (simp add: INT_MAX_def)

end
