(* ===== verification/Queue_Model.thy ===== *)
theory Queue_Model
  imports Maze_Prelude
begin

text \<open>
  data_structures/queue.h and queue.c: a FIFO of at most BUFFER_SIZE chars in a ring buffer, used
  by the serial port driver. A queue_t pointer is an option with None for NULL, which every
  operation checks. new_queue is given what its two malloc calls return: whether each succeeds
  and the (uninitialised) contents of the buffer. Accesses to the buffer are undefined outside
  it; queue_ok is the invariant under which none is, and queue_list the list of waiting chars.
\<close>

definition BUFFER_SIZE :: int where
  "BUFFER_SIZE = 100"

record queue_t =
  q_buf :: "u8 list"
  q_front :: int
  q_rear :: int
  q_size :: int

type_synonym queue_ptr = "queue_t option"

definition new_queue :: "bool \<Rightarrow> bool \<Rightarrow> u8 list \<Rightarrow> queue_ptr" where
  "new_queue buff_allocated queue_allocated contents =
     (if \<not> buff_allocated then None
      else if \<not> queue_allocated then None
      else Some \<lparr>q_buf = contents, q_front = 0, q_rear = -1, q_size = 0\<rparr>)"

definition push_q :: "queue_ptr \<Rightarrow> u8 \<Rightarrow> (int \<times> queue_ptr) option" where
  "push_q qp c =
     (case qp of
        None \<Rightarrow> Some (1, qp)
      | Some q \<Rightarrow>
          if q_size q \<ge> BUFFER_SIZE then Some (1, qp)
          else
            (let rear' = (q_rear q + 1) smod BUFFER_SIZE in
             do {
               guard_ub (0 \<le> rear' \<and> rear' < int (length (q_buf q)));
               Some (0, Some (q\<lparr>q_rear := rear', q_buf := (q_buf q)[nat rear' := c],
                                q_size := q_size q + 1\<rparr>))
             }))"

definition top_q :: "queue_ptr \<Rightarrow> u8 option" where
  "top_q qp =
     (case qp of
        None \<Rightarrow> Some 0
      | Some q \<Rightarrow>
          if q_size q = 0 then Some 0
          else do {
            guard_ub (0 \<le> q_front q \<and> q_front q < int (length (q_buf q)));
            Some (q_buf q ! nat (q_front q))
          })"

definition pop_q :: "queue_ptr \<Rightarrow> queue_ptr" where
  "pop_q qp =
     (case qp of
        None \<Rightarrow> qp
      | Some q \<Rightarrow>
          if q_size q = 0 then qp
          else Some (q\<lparr>q_front := (q_front q + 1) smod BUFFER_SIZE, q_size := q_size q - 1\<rparr>))"

definition empty_q :: "queue_ptr \<Rightarrow> bool" where
  "empty_q qp = (case qp of None \<Rightarrow> True | Some q \<Rightarrow> q_size q = 0)"

declare BUFFER_SIZE_def [model_defs] new_queue_def [model_defs] push_q_def [model_defs]
  top_q_def [model_defs] pop_q_def [model_defs] empty_q_def [model_defs]

subsection \<open>The list a queue holds\<close>

definition queue_ok :: "queue_t \<Rightarrow> bool" where
  "queue_ok q \<longleftrightarrow>
     length (q_buf q) = 100 \<and> 0 \<le> q_size q \<and> q_size q \<le> 100 \<and>
     0 \<le> q_front q \<and> q_front q < 100 \<and> -1 \<le> q_rear q \<and> q_rear q < 100 \<and>
     (q_rear q + 1) mod 100 = (q_front q + q_size q) mod 100"

definition queue_list :: "queue_t \<Rightarrow> u8 list" where
  "queue_list q =
     map (\<lambda>k. q_buf q ! nat ((q_front q + int k) mod 100)) [0..<nat (q_size q)]"

lemma queue_list_length: "queue_ok q \<Longrightarrow> length (queue_list q) = nat (q_size q)"
  by (simp add: queue_list_def)

lemma queue_list_nil: "queue_ok q \<Longrightarrow> queue_list q = [] \<longleftrightarrow> q_size q = 0"
  by (auto simp: queue_list_def queue_ok_def)

text \<open>Two slots less than 100 apart in the ring are different.\<close>

lemma ring_slots_differ:
  assumes "0 \<le> k" "k < n" "n < (100::int)"
  shows "(f + k) mod 100 \<noteq> (f + n) mod 100"
proof
  assume "(f + k) mod 100 = (f + n) mod 100"
  then have "100 dvd (f + n) - (f + k)" by (metis mod_eq_dvd_iff)
  then have "100 dvd n - k" by simp
  with assms show False by (auto dest: zdvd_imp_le)
qed

lemma push_q_ok:
  assumes "queue_ok q" and "q_size q < 100"
  obtains q' where "push_q (Some q) c = Some (0, Some q')" and "queue_ok q'"
    and "queue_list q' = queue_list q @ [c]"
proof -
  let ?r = "(q_rear q + 1) mod 100"
  let ?q = "q\<lparr>q_rear := ?r, q_buf := (q_buf q)[nat ?r := c], q_size := q_size q + 1\<rparr>"
  from assms have smod: "(q_rear q + 1) smod 100 = ?r" and r: "0 \<le> ?r" "?r < 100"
    "?r = (q_front q + q_size q) mod 100"
    by (auto simp: queue_ok_def)
  have "push_q (Some q) c = Some (0, Some ?q)"
    using assms smod r by (simp add: push_q_def BUFFER_SIZE_def queue_ok_def Let_def)
  moreover have "(?r + 1) mod 100 = (q_front q + (q_size q + 1)) mod 100"
    unfolding r(3) by (simp add: mod_simps add.assoc)
  then have "queue_ok ?q" using assms r by (auto simp: queue_ok_def)
  moreover have "queue_list ?q = queue_list q @ [c]"
  proof -
    have "(q_buf q)[nat ?r := c] ! nat ((q_front q + int k) mod 100) =
        q_buf q ! nat ((q_front q + int k) mod 100)" if k: "k < nat (q_size q)" for k
    proof -
      from k have "int k < q_size q" by simp
      then have "(q_front q + int k) mod 100 \<noteq> ?r"
        using ring_slots_differ [of "int k" "q_size q" "q_front q"] assms(2) r(3) by simp
      with r(1) show ?thesis by (simp add: nat_eq_iff)
    qed
    moreover have "(q_buf q)[nat ?r := c] ! nat ((q_front q + int (nat (q_size q))) mod 100) = c"
      using assms r by (simp add: queue_ok_def)
    moreover have "nat (q_size q + 1) = Suc (nat (q_size q))"
      using assms by (simp add: queue_ok_def nat_add_distrib)
    ultimately show ?thesis by (simp add: queue_list_def)
  qed
  ultimately show thesis by (rule that)
qed

lemma push_q_full: "q_size q \<ge> 100 \<Longrightarrow> push_q (Some q) c = Some (1, Some q)"
  by (simp add: push_q_def BUFFER_SIZE_def)

lemma top_q_ok:
  assumes "queue_ok q"
  shows "top_q (Some q) = Some (case queue_list q of [] \<Rightarrow> 0 | c # _ \<Rightarrow> c)"
proof (cases "q_size q = 0")
  case True
  with assms show ?thesis by (simp add: top_q_def queue_list_def)
next
  case False
  with assms have "[0..<nat (q_size q)] = 0 # [1..<nat (q_size q)]"
    by (simp add: queue_ok_def upt_conv_Cons)
  with assms False show ?thesis by (simp add: top_q_def queue_list_def queue_ok_def)
qed

lemma pop_q_ok:
  assumes "queue_ok q"
  obtains q' where "pop_q (Some q) = Some q'" and "queue_ok q'" and "queue_list q' = tl (queue_list q)"
proof (cases "q_size q = 0")
  case True
  with assms show thesis by (intro that [of q]) (simp_all add: pop_q_def queue_list_def)
next
  case False
  let ?q = "q\<lparr>q_front := (q_front q + 1) mod 100, q_size := q_size q - 1\<rparr>"
  from assms have "(q_front q + 1) smod 100 = (q_front q + 1) mod 100" by (simp add: queue_ok_def)
  with False have "pop_q (Some q) = Some ?q" by (simp add: pop_q_def BUFFER_SIZE_def)
  moreover have "((q_front q + 1) mod 100 + (q_size q - 1)) mod 100 = (q_front q + q_size q) mod 100"
    using mod_add_left_eq [of "q_front q + 1" 100 "q_size q - 1"] by simp
  then have "queue_ok ?q" using assms False by (auto simp: queue_ok_def)
  moreover have "queue_list ?q = tl (queue_list q)"
  proof -
    have "tl [0..<nat (q_size q)] = map Suc [0..<nat (q_size q - 1)]"
      using assms False by (simp add: queue_ok_def map_Suc_upt nat_diff_distrib)
    then show ?thesis
      by (simp add: queue_list_def map_tl [symmetric] comp_def mod_simps algebra_simps)
  qed
  ultimately show thesis by (rule that)
qed

lemma empty_q_ok: "queue_ok q \<Longrightarrow> empty_q (Some q) \<longleftrightarrow> queue_list q = []"
  by (simp add: empty_q_def queue_list_nil)

lemma new_queue_ok:
  assumes "length contents = 100"
  obtains q where "new_queue True True contents = Some q" "queue_ok q" "queue_list q = []"
  using assms by (simp add: new_queue_def queue_ok_def queue_list_def)

subsection \<open>The contract of a bounded FIFO\<close>

locale bounded_fifo =
  fixes ok :: "'q \<Rightarrow> bool"
    and items :: "'q \<Rightarrow> 'v list"
    and capacity :: nat
    and enq :: "'q \<Rightarrow> 'v \<Rightarrow> (int \<times> 'q) option"
    and front :: "'q \<Rightarrow> 'v option"
    and deq :: "'q \<Rightarrow> 'q"
    and is_empty :: "'q \<Rightarrow> bool"
    and default :: 'v
  assumes enq_room: "ok q \<Longrightarrow> length (items q) < capacity \<Longrightarrow>
      \<exists>q'. enq q v = Some (0, q') \<and> ok q' \<and> items q' = items q @ [v]"
    and enq_full: "ok q \<Longrightarrow> capacity \<le> length (items q) \<Longrightarrow> enq q v = Some (1, q)"
    and front_items: "ok q \<Longrightarrow> front q = Some (case items q of [] \<Rightarrow> default | v # _ \<Rightarrow> v)"
    and deq_items: "ok q \<Longrightarrow> ok (deq q) \<and> items (deq q) = tl (items q)"
    and empty_items: "ok q \<Longrightarrow> is_empty q \<longleftrightarrow> items q = []"
begin

lemma deq_pow: "ok q \<Longrightarrow> ok ((deq ^^ n) q) \<and> items ((deq ^^ n) q) = drop n (items q)"
  by (induction n arbitrary: q) (auto simp: deq_items funpow_swap1 drop_Suc simp del: funpow.simps(2) simp add: funpow_Suc_right)

lemma deq_all_empties: "ok q \<Longrightarrow> is_empty ((deq ^^ length (items q)) q)"
  using deq_pow empty_items by fastforce

text \<open>Enqueuing a list of items keeps the ones for which there is room.\<close>

fun enq_all :: "'q \<Rightarrow> 'v list \<Rightarrow> 'q option" where
  "enq_all q [] = Some q"
| "enq_all q (v # vs) = do { (r, q') \<leftarrow> enq q v; enq_all q' vs }"

lemma enq_all_items:
  "ok q \<Longrightarrow> length (items q) \<le> capacity \<Longrightarrow>
   \<exists>q'. enq_all q vs = Some q' \<and> ok q' \<and> items q' = take capacity (items q @ vs)"
proof (induction vs arbitrary: q)
  case Nil
  then show ?case by simp
next
  case (Cons v vs)
  show ?case
  proof (cases "length (items q) < capacity")
    case True
    with enq_room [OF Cons.prems(1), of v] obtain q1 where "enq q v = Some (0, q1)" "ok q1"
      "items q1 = items q @ [v]" by blast
    with Cons.IH [of q1] True show ?thesis by simp
  next
    case False
    with enq_full [OF Cons.prems(1), of v] Cons.IH [OF Cons.prems] Cons.prems(2) show ?thesis by simp
  qed
qed

end

definition queue_ptr_ok :: "queue_ptr \<Rightarrow> bool" where
  "queue_ptr_ok qp = (case qp of None \<Rightarrow> False | Some q \<Rightarrow> queue_ok q)"

definition queue_items :: "queue_ptr \<Rightarrow> u8 list" where
  "queue_items qp = (case qp of None \<Rightarrow> [] | Some q \<Rightarrow> queue_list q)"

lemma queue_ptr_okE:
  assumes "queue_ptr_ok qp"
  obtains q where "qp = Some q" "queue_ok q" "queue_items qp = queue_list q"
  using assms by (auto simp: queue_ptr_ok_def queue_items_def split: option.splits)

lemma queue_items_le: "queue_ptr_ok qp \<Longrightarrow> length (queue_items qp) \<le> 100"
  by (erule queue_ptr_okE) (simp add: queue_list_length queue_ok_def nat_le_iff)

lemma push_q_room:
  assumes "queue_ptr_ok qp" and "length (queue_items qp) < 100"
  shows "\<exists>qp'. push_q qp c = Some (0, qp') \<and> queue_ptr_ok qp' \<and> queue_items qp' = queue_items qp @ [c]"
proof -
  from assms(1) obtain q where q: "qp = Some q" "queue_ok q" "queue_items qp = queue_list q"
    by (rule queue_ptr_okE)
  with assms(2) have "q_size q < 100" by (simp add: queue_list_length queue_ok_def nat_less_iff)
  from push_q_ok [OF q(2) this, of c] obtain q' where q': "push_q (Some q) c = Some (0, Some q')"
    "queue_ok q'" "queue_list q' = queue_list q @ [c]" by blast
  then have "queue_ptr_ok (Some q') \<and> queue_items (Some q') = queue_items qp @ [c]"
    using q(3) by (simp add: queue_ptr_ok_def queue_items_def)
  with q(1) q'(1) show ?thesis by blast
qed

lemma push_q_no_room:
  assumes "queue_ptr_ok qp" and "100 \<le> length (queue_items qp)"
  shows "push_q qp c = Some (1, qp)"
proof -
  from assms(1) obtain q where q: "qp = Some q" "queue_ok q" "queue_items qp = queue_list q"
    by (rule queue_ptr_okE)
  with assms(2) have "100 \<le> q_size q" by (simp add: queue_list_length)
  with q show ?thesis by (simp add: push_q_full)
qed

lemma pop_q_items:
  assumes "queue_ptr_ok qp"
  shows "queue_ptr_ok (pop_q qp) \<and> queue_items (pop_q qp) = tl (queue_items qp)"
proof -
  from assms obtain q where q: "qp = Some q" "queue_ok q" "queue_items qp = queue_list q"
    by (rule queue_ptr_okE)
  from pop_q_ok [OF q(2)] obtain q' where "pop_q (Some q) = Some q'" "queue_ok q'"
    "queue_list q' = tl (queue_list q)" .
  then show ?thesis unfolding q(1) by (simp add: queue_ptr_ok_def queue_items_def)
qed

interpretation char_queue: bounded_fifo queue_ptr_ok queue_items 100 push_q top_q pop_q empty_q 0
proof unfold_locales
  fix qp and c :: u8
  assume "queue_ptr_ok qp"
  then obtain q where q: "qp = Some q" "queue_ok q" "queue_items qp = queue_list q"
    by (rule queue_ptr_okE)
  then show "top_q qp = Some (case queue_items qp of [] \<Rightarrow> 0 | c # _ \<Rightarrow> c)"
    and "empty_q qp \<longleftrightarrow> queue_items qp = []"
    by (simp_all add: top_q_ok empty_q_ok)
qed (simp_all add: push_q_room push_q_no_room pop_q_items)

subsection \<open>Sequences of operations\<close>

datatype queue_op = QPush u8 | QTop | QPop | QEmpty

fun run_queue :: "queue_op list \<Rightarrow> queue_ptr \<Rightarrow> int list option" where
  "run_queue [] q = Some []"
| "run_queue (QPush c # ops) q =
     do { (r, q') \<leftarrow> push_q q c; out \<leftarrow> run_queue ops q'; Some (r # out) }"
| "run_queue (QTop # ops) q =
     do { c \<leftarrow> top_q q; out \<leftarrow> run_queue ops q; Some (uint c # out) }"
| "run_queue (QPop # ops) q = run_queue ops (pop_q q)"
| "run_queue (QEmpty # ops) q =
     do { out \<leftarrow> run_queue ops q; Some (of_bool (empty_q q) # out) }"

fun spec_queue :: "queue_op list \<Rightarrow> u8 list \<Rightarrow> int list" where
  "spec_queue [] cs = []"
| "spec_queue (QPush c # ops) cs =
     (if length cs < 100 then 0 # spec_queue ops (cs @ [c]) else 1 # spec_queue ops cs)"
| "spec_queue (QTop # ops) cs = uint (if cs = [] then 0 else hd cs) # spec_queue ops cs"
| "spec_queue (QPop # ops) cs = spec_queue ops (tl cs)"
| "spec_queue (QEmpty # ops) cs = of_bool (cs = []) # spec_queue ops cs"

lemma run_queue_items:
  "queue_ptr_ok q \<Longrightarrow> queue_items q = cs \<Longrightarrow> run_queue ops q = Some (spec_queue ops cs)"
proof (induction ops cs arbitrary: q rule: spec_queue.induct)
  case (2 c ops cs)
  show ?case
  proof (cases "length cs < 100")
    case True
    with char_queue.enq_room [OF 2(3), of c] 2 show ?thesis by auto
  next
    case False
    with char_queue.enq_full [OF 2(3), of c] 2 show ?thesis by auto
  qed
next
  case (3 ops cs)
  with char_queue.front_items [OF 3(2)] show ?case by (cases cs) auto
next
  case (4 ops cs)
  with char_queue.deq_items [OF 4(2)] show ?case by simp
next
  case (5 ops cs)
  with char_queue.empty_items [OF 5(2)] show ?case by simp
qed simp

text \<open>C37: any sequence of push, top, pop and empty calls on a queue from new_queue gives exactly the
  results of the same calls on a FIFO list of capacity 100 (push answers 1, not the -1 of queue.h, and
  drops the char when it is full, top of an empty queue is 0), however often the ring wraps around, and never touches
  memory outside the buffer. Without memory new_queue gives NULL.\<close>

theorem queue_implements_bounded_fifo:
  assumes "length contents = 100"
  shows "run_queue ops (new_queue True True contents) = Some (spec_queue ops []) \<and>
    new_queue False b contents = None \<and> new_queue b False contents = None"
proof -
  from new_queue_ok [OF assms] obtain q where "new_queue True True contents = Some q"
    "queue_ok q" "queue_list q = []" .
  then have "run_queue ops (new_queue True True contents) = Some (spec_queue ops [])"
    by (intro run_queue_items) (simp_all add: queue_ptr_ok_def queue_items_def)
  then show ?thesis by (simp add: new_queue_def)
qed

theorem queue_implements_bounded_fifo_witness:
  "run_queue [QPush 65, QPush 66, QTop, QPop, QTop, QPop, QEmpty] (new_queue True True (replicate 100 0)) =
     Some [0, 0, 65, 66, 1]"
  using queue_implements_bounded_fifo [of "replicate 100 0"
      "[QPush 65, QPush 66, QTop, QPop, QTop, QPop, QEmpty]"]
  by simp

end
