(* ===== verification/Queue_Memory.thy ===== *)
theory Queue_Memory
  imports Queue_Model
begin

text \<open>
  The memory of the queues: delete_queue of queue.c, and how serial.c allocates and releases its two queues.

  Queue_Model and Serial_Port follow the contents of a queue. This theory follows the blocks: a queue is the address of its
  struct and of its buffer, the memory is the set of live blocks and the next address, and free of a block that is not
  live is undefined (None). Whether an allocation succeeds is an argument.
\<close>

subsection \<open>The code\<close>

record memory_state =
  live :: "nat set"
  next_block :: nat

definition c_malloc :: "bool \<Rightarrow> memory_state \<Rightarrow> nat option \<times> memory_state" where
  "c_malloc ok m =
     (if ok then (Some (next_block m), m\<lparr>live := insert (next_block m) (live m), next_block := next_block m + 1\<rparr>)
      else (None, m))"

definition c_free :: "nat \<Rightarrow> memory_state \<Rightarrow> memory_state option" where
  "c_free b m = do { guard_ub (b \<in> live m); Some (m\<lparr>live := live m - {b}\<rparr>) }"

record queue_block =
  struct_at :: nat
  buf_at :: nat

definition new_queue_block :: "bool \<times> bool \<Rightarrow> memory_state \<Rightarrow> (queue_block option \<times> memory_state) option" where
  "new_queue_block oks m =
     (case c_malloc (fst oks) m of
        (None, m) \<Rightarrow> Some (None, m)
      | (Some buff, m) \<Rightarrow>
          (case c_malloc (snd oks) m of
             (None, m) \<Rightarrow> do { m \<leftarrow> c_free buff m; Some (None, m) }
           | (Some q, m) \<Rightarrow> Some (Some \<lparr>struct_at = q, buf_at = buff\<rparr>, m)))"

definition delete_queue :: "queue_block option \<Rightarrow> memory_state \<Rightarrow> memory_state option" where
  "delete_queue q m =
     (case q of
        None \<Rightarrow> Some m
      | Some q \<Rightarrow> do { m \<leftarrow> c_free (buf_at q) m; c_free (struct_at q) m })"

text \<open>The static pointers of serial.c, and the memory.\<close>

record serial_blocks =
  transmit_at :: "queue_block option"
  receive_at :: "queue_block option"
  memory :: memory_state

text \<open>The allocations of sp_subscribe_int, after the subscription itself.\<close>

definition allocate_queues :: "bool \<times> bool \<Rightarrow> bool \<times> bool \<Rightarrow> serial_blocks \<Rightarrow> (int \<times> serial_blocks) option" where
  "allocate_queues oks1 oks2 s =
     do {
       (q, m) \<leftarrow> new_queue_block oks1 (memory s);
       let s = s\<lparr>transmit_at := q, memory := m\<rparr>;
       if transmit_at s = None then Some (1, s)
       else do {
         (q, m) \<leftarrow> new_queue_block oks2 (memory s);
         let s = s\<lparr>receive_at := q, memory := m\<rparr>;
         if receive_at s = None then do {
           m \<leftarrow> delete_queue (transmit_at s) (memory s);
           Some (1, s\<lparr>memory := m\<rparr>)
         }
         else Some (0, s)
       }
     }"

text \<open>The first line of sp_send_int.\<close>

definition renew_transmit :: "bool \<times> bool \<Rightarrow> serial_blocks \<Rightarrow> serial_blocks option" where
  "renew_transmit oks s =
     do { (q, m) \<leftarrow> new_queue_block oks (memory s); Some (s\<lparr>transmit_at := q, memory := m\<rparr>) }"

text \<open>clean_queue, and the end of sp_unsubscribe.\<close>

definition clean_queue :: "serial_blocks \<Rightarrow> serial_blocks option" where
  "clean_queue s =
     do {
       m \<leftarrow> delete_queue (transmit_at s) (memory s);
       m \<leftarrow> delete_queue (receive_at s) m;
       Some (s\<lparr>memory := m\<rparr>)
     }"

subsection \<open>Blocks of a queue\<close>

definition memory_ok :: "memory_state \<Rightarrow> bool" where
  "memory_ok m \<longleftrightarrow> finite (live m) \<and> (\<forall>b \<in> live m. b < next_block m)"

fun queue_blocks :: "queue_block option \<Rightarrow> nat set" where
  "queue_blocks None = {}"
| "queue_blocks (Some q) = {struct_at q, buf_at q}"

definition whole :: "queue_block option \<Rightarrow> bool" where
  "whole q \<longleftrightarrow> card (queue_blocks q) = (if q = None then 0 else 2)"

lemma new_queue_block_run:
  assumes "memory_ok m"
  obtains q m' where "new_queue_block oks m = Some (q, m')" "memory_ok m'" "live m' = live m \<union> queue_blocks q"
    "live m \<inter> queue_blocks q = {}" "whole q" "q \<noteq> None \<longleftrightarrow> fst oks \<and> snd oks"
proof -
  have new: "next_block m \<notin> live m" "Suc (next_block m) \<notin> live m" using assms by (auto simp: memory_ok_def)
  then have "insert (next_block m) (live m) - {next_block m} = live m" by blast
  with new have free: "c_free (next_block m) (m\<lparr>live := insert (next_block m) (live m), next_block := next_block m + 1\<rparr>) =
      Some (m\<lparr>live := live m, next_block := next_block m + 1\<rparr>)"
    by (simp add: c_free_def guard_ub_def)
  have below: "b \<in> live m \<Longrightarrow> b < next_block m" for b using assms by (simp add: memory_ok_def)
  consider "\<not> fst oks" | "fst oks" "\<not> snd oks" | "fst oks" "snd oks" by blast
  then show thesis
  proof cases
    case 1
    then show thesis using assms by (intro that [of None m]) (simp_all add: new_queue_block_def c_malloc_def whole_def)
  next
    case 2
    then show thesis using assms free below
      by (intro that [of None "m\<lparr>live := live m, next_block := next_block m + 1\<rparr>"])
        (auto simp: new_queue_block_def c_malloc_def whole_def memory_ok_def less_SucI)
  next
    case 3
    then show thesis using assms new below
      by (intro that [of "Some \<lparr>struct_at = next_block m + 1, buf_at = next_block m\<rparr>"
            "m\<lparr>live := insert (next_block m + 1) (insert (next_block m) (live m)), next_block := next_block m + 2\<rparr>"])
        (auto simp: new_queue_block_def c_malloc_def whole_def memory_ok_def less_SucI)
  qed
qed

lemma delete_queue_run:
  assumes "queue_blocks q \<subseteq> live m" and "whole q"
  shows "delete_queue q m = Some (m\<lparr>live := live m - queue_blocks q\<rparr>)"
proof (cases q)
  case (Some b)
  then have "struct_at b \<noteq> buf_at b" using assms(2) by (auto simp: whole_def)
  then show ?thesis using assms(1) Some by (auto simp: delete_queue_def c_free_def guard_ub_def intro: arg_cong [of _ _ "\<lambda>l. m\<lparr>live := l\<rparr>"])
qed (simp add: delete_queue_def)

lemma delete_queue_dead: "q \<noteq> None \<Longrightarrow> queue_blocks q \<inter> live m = {} \<Longrightarrow> delete_queue q m = None"
  by (cases q) (auto simp: delete_queue_def c_free_def guard_ub_def)

subsection \<open>The life of the driver\<close>

definition blocks_ok :: "serial_blocks \<Rightarrow> bool" where
  "blocks_ok s \<longleftrightarrow> memory_ok (memory s) \<and> whole (transmit_at s) \<and> whole (receive_at s) \<and>
     queue_blocks (transmit_at s) \<subseteq> live (memory s) \<and> queue_blocks (receive_at s) \<subseteq> live (memory s) \<and>
     queue_blocks (transmit_at s) \<inter> queue_blocks (receive_at s) = {}"

definition both :: "bool \<times> bool \<Rightarrow> bool" where
  "both oks \<longleftrightarrow> fst oks \<and> snd oks"

fun renew_all :: "(bool \<times> bool) list \<Rightarrow> serial_blocks \<Rightarrow> serial_blocks option" where
  "renew_all [] s = Some s"
| "renew_all (oks # sends) s = do { s \<leftarrow> renew_transmit oks s; renew_all sends s }"

lemma renew_transmit_run:
  assumes "blocks_ok s"
  obtains s' where "renew_transmit oks s = Some s'" "blocks_ok s'" "receive_at s' = receive_at s"
    "transmit_at s' \<noteq> None \<longleftrightarrow> both oks" "card (live (memory s')) = card (live (memory s)) + (if both oks then 2 else 0)"
proof -
  have m: "memory_ok (memory s)" using assms by (simp add: blocks_ok_def)
  obtain q m' where q: "new_queue_block oks (memory s) = Some (q, m')" "memory_ok m'" "live m' = live (memory s) \<union> queue_blocks q"
    "live (memory s) \<inter> queue_blocks q = {}" "whole q" "q \<noteq> None \<longleftrightarrow> fst oks \<and> snd oks"
    by (rule new_queue_block_run [OF m])
  have "finite (live (memory s))" "finite (queue_blocks q)" using m by (simp_all add: memory_ok_def, cases q) simp_all
  then have "card (live m') = card (live (memory s)) + (if both oks then 2 else 0)"
    using q(3-6) by (auto simp: card_Un_disjoint whole_def both_def)
  moreover have "blocks_ok (s\<lparr>transmit_at := q, memory := m'\<rparr>)"
    using assms q by (auto simp: blocks_ok_def)
  ultimately show thesis using that [of "s\<lparr>transmit_at := q, memory := m'\<rparr>"] q(1,6) by (simp add: renew_transmit_def both_def)
qed

lemma renew_all_run:
  "blocks_ok s \<Longrightarrow> \<exists>s'. renew_all sends s = Some s' \<and> blocks_ok s' \<and> receive_at s' = receive_at s \<and>
     (sends \<noteq> [] \<longrightarrow> (transmit_at s' \<noteq> None \<longleftrightarrow> both (last sends))) \<and> (sends = [] \<longrightarrow> s' = s) \<and>
     card (live (memory s')) = card (live (memory s)) + 2 * length (filter both sends)"
proof (induction sends arbitrary: s)
  case (Cons oks sends)
  obtain s1 where s1: "renew_transmit oks s = Some s1" "blocks_ok s1" "receive_at s1 = receive_at s"
    "transmit_at s1 \<noteq> None \<longleftrightarrow> both oks" "card (live (memory s1)) = card (live (memory s)) + (if both oks then 2 else 0)"
    by (rule renew_transmit_run [OF Cons.prems])
  from Cons.IH [OF s1(2)] s1 show ?case by (cases sends) auto
qed simp

lemma clean_queue_run:
  assumes "blocks_ok s"
  shows "\<exists>s'. clean_queue s = Some s' \<and> card (live (memory s')) =
      card (live (memory s)) - (if transmit_at s = None then 0 else 2) - (if receive_at s = None then 0 else 2) \<and>
    (transmit_at s \<noteq> None \<or> receive_at s \<noteq> None \<longrightarrow> clean_queue s' = None)"
proof -
  let ?t = "transmit_at s" and ?r = "receive_at s" and ?m = "memory s"
  have ok: "whole ?t" "whole ?r" "queue_blocks ?t \<subseteq> live ?m" "queue_blocks ?r \<subseteq> live ?m" "queue_blocks ?t \<inter> queue_blocks ?r = {}" "finite (live ?m)"
    using assms by (simp_all add: blocks_ok_def memory_ok_def)
  let ?m1 = "?m\<lparr>live := live ?m - queue_blocks ?t\<rparr>" and ?m2 = "?m\<lparr>live := live ?m - queue_blocks ?t - queue_blocks ?r\<rparr>"
  have "delete_queue ?t ?m = Some ?m1" by (rule delete_queue_run [OF ok(3,1)])
  moreover have r: "queue_blocks ?r \<subseteq> live ?m1" using ok by auto
  then have "delete_queue ?r ?m1 = Some ?m2" using delete_queue_run [OF _ ok(2), of ?m1] by simp
  ultimately have run: "clean_queue s = Some (s\<lparr>memory := ?m2\<rparr>)" by (simp add: clean_queue_def)
  have "finite (queue_blocks ?t)" "finite (queue_blocks ?r)" using ok finite_subset by blast+
  then have "card (live ?m2) = card (live ?m) - (if ?t = None then 0 else 2) - (if ?r = None then 0 else 2)"
    using ok r by (simp add: card_Diff_subset whole_def)
  moreover have "clean_queue (s\<lparr>memory := ?m2\<rparr>) = None" if "?t \<noteq> None \<or> ?r \<noteq> None"
  proof (cases "?t = None")
    case True
    then have "delete_queue ?r ?m2 = None" using that by (intro delete_queue_dead) auto
    then show ?thesis using True by (simp add: clean_queue_def delete_queue_def [of None])
  next
    case False
    then have "delete_queue ?t ?m2 = None" by (intro delete_queue_dead) auto
    then show ?thesis by (simp add: clean_queue_def)
  qed
  ultimately show ?thesis using run by auto
qed

subsection \<open>Properties\<close>

definition no_blocks :: serial_blocks where
  "no_blocks = \<lparr>transmit_at = None, receive_at = None, memory = \<lparr>live = {}, next_block = 0\<rparr>\<rparr>"

text \<open>From the subscription to its end, with the sends in between.\<close>

definition driver_life :: "bool \<times> bool \<Rightarrow> bool \<times> bool \<Rightarrow> (bool \<times> bool) list \<Rightarrow> serial_blocks option" where
  "driver_life oks1 oks2 sends =
     do {
       (err, s) \<leftarrow> allocate_queues oks1 oks2 no_blocks;
       if err \<noteq> 0 then Some s else do { s \<leftarrow> renew_all sends s; clean_queue s }
     }"

lemma start_blocks:
  assumes "both oks1" "both oks2"
  obtains s where "allocate_queues oks1 oks2 no_blocks = Some (0, s)" "blocks_ok s" "card (live (memory s)) = 4"
    "transmit_at s \<noteq> None" "receive_at s \<noteq> None"
proof -
  let ?s = "\<lparr>transmit_at = Some \<lparr>struct_at = 1, buf_at = 0\<rparr>, receive_at = Some \<lparr>struct_at = 3, buf_at = 2\<rparr>,
    memory = \<lparr>live = {3, 2, 1, 0}, next_block = 4\<rparr>\<rparr>"
  have "allocate_queues oks1 oks2 no_blocks = Some (0, ?s)"
    using assms by (simp add: allocate_queues_def new_queue_block_def c_malloc_def no_blocks_def both_def numeral_eq_Suc)
  moreover have "blocks_ok ?s" by (simp add: blocks_ok_def memory_ok_def whole_def)
  ultimately show thesis by (rule that) simp_all
qed

lemma failed_start:
  assumes "\<not> (both oks1 \<and> both oks2)"
  shows "\<exists>s. allocate_queues oks1 oks2 no_blocks = Some (1, s) \<and> live (memory s) = {}"
proof -
  obtain a b c d where oks: "oks1 = (a, b)" "oks2 = (c, d)" by (metis prod.collapse)
  show ?thesis
    using assms unfolding oks
    by (cases a; cases b; cases c; cases d) (simp_all add: allocate_queues_def new_queue_block_def c_malloc_def c_free_def
      delete_queue_def no_blocks_def both_def guard_ub_def Let_def insert_Diff_if)
qed

text \<open>C38: releasing the queues is safe, and incomplete. Whatever allocations succeed, sp_subscribe_int, any sends and the
  end of sp_unsubscribe free no block twice and no block that is not live. A subscription that fails leaves nothing
  allocated. After one that succeeds, every send abandons the transmit queue of the one before, two blocks,
  when there was one; nothing else is lost. clean_queue after sp_unsubscribe would free the queues again.\<close>

theorem queues_released:
  "\<exists>s. driver_life oks1 oks2 sends = Some s \<and>
    card (live (memory s)) =
      (if both oks1 \<and> both oks2 then 2 * length (filter both (butlast ((True, True) # sends))) else 0) \<and>
    (if both oks1 \<and> both oks2 then clean_queue s = None else live (memory s) = {})"
proof (cases "both oks1 \<and> both oks2")
  case False
  then obtain s where "allocate_queues oks1 oks2 no_blocks = Some (1, s)" "live (memory s) = {}" using failed_start by blast
  then show ?thesis using False by (auto simp: driver_life_def)
next
  case True
  then obtain s where s: "allocate_queues oks1 oks2 no_blocks = Some (0, s)" "blocks_ok s" "card (live (memory s)) = 4"
    "transmit_at s \<noteq> None" "receive_at s \<noteq> None" using start_blocks by metis
  obtain s1 where s1: "renew_all sends s = Some s1" "blocks_ok s1" "receive_at s1 = receive_at s"
    "sends \<noteq> [] \<longrightarrow> (transmit_at s1 \<noteq> None \<longleftrightarrow> both (last sends))" "sends = [] \<longrightarrow> s1 = s"
    "card (live (memory s1)) = 4 + 2 * length (filter both sends)"
    using renew_all_run [OF s(2), of sends] s(3) by auto
  obtain s2 where s2: "clean_queue s1 = Some s2" "clean_queue s2 = None" "card (live (memory s2)) =
      4 + 2 * length (filter both sends) - (if transmit_at s1 = None then 0 else 2) - 2"
    using clean_queue_run [OF s1(2)] s1(3,6) s(5) by auto
  have "card (live (memory s2)) = 2 * length (filter both (butlast ((True, True) # sends)))"
  proof (cases sends rule: rev_cases)
    case Nil
    then show ?thesis using s1(5) s(4) s2(3) by auto
  next
    case (snoc before oks)
    then show ?thesis using s1(4) s2(3) by (auto simp: both_def butlast_append)
  qed
  then show ?thesis using True s(1) s1(1) s2(1,2) by (auto simp: driver_life_def)
qed

end
