(* ===== verification/Video.thy ===== *)
theory Video
  imports Maze_Types
begin

text \<open>
  The drawing core of controllers/graphics.c: the mode, the buffers, pixels and rectangles.

  A buffer is the list of bytes that malloc or the mapping of video memory gave, in an option for
  NULL; an access outside it is undefined. The machine is little-endian, so the bytes of a color
  are its low byte first. video holds the globals: the mode information, the bytes per pixel that
  setFrameBuffer computes, and the buffers (maze_buffer belongs to game/maze.c).

  pixel reads a pixel back. frame_ok says that a buffer has the size of the screen; under it
  drawing is defined everywhere and touches exactly the pixels it should.
\<close>

subsection \<open>The code\<close>

record video =
  mode_info :: vbe_mode_info
  bytesPerPixel :: u32
  frame_buffer :: "u8 list option"
  back_buffer :: "u8 list option"
  maze_buffer :: "u8 list option"

record reg86 =
  intno :: u8
  ah :: u8
  al :: u8
  bx :: u16

text \<open>The calls to the kernel, and malloc.\<close>

record 'k video_kernel =
  vbe_get_mode_info :: "u16 \<Rightarrow> 'k \<Rightarrow> int \<times> vbe_mode_info \<times> 'k"
  sys_privctl_add_mem :: "u32 \<Rightarrow> u32 \<Rightarrow> 'k \<Rightarrow> int \<times> 'k"
  vm_map_phys :: "u32 \<Rightarrow> u32 \<Rightarrow> 'k \<Rightarrow> u8 list option \<times> 'k"
  malloc :: "u32 \<Rightarrow> 'k \<Rightarrow> u8 list option \<times> 'k"
  sys_int86 :: "reg86 \<Rightarrow> 'k \<Rightarrow> int \<times> 'k"

abbreviation x_res :: "vbe_mode_info \<Rightarrow> int" where
  "x_res mi \<equiv> uint (XResolution mi)"

abbreviation y_res :: "vbe_mode_info \<Rightarrow> int" where
  "y_res mi \<equiv> uint (YResolution mi)"

definition bytes_per_pixel :: "vbe_mode_info \<Rightarrow> int" where
  "bytes_per_pixel mi = (uint (BitsPerPixel mi) + 7) div 8"

text \<open>XResolution * YResolution is a product of ints; the factor bytesPerPixel makes it unsigned.\<close>

definition frame_size :: "vbe_mode_info \<Rightarrow> u32 \<Rightarrow> u32 option" where
  "frame_size mi bpp = do { a \<leftarrow> c_int (x_res mi * y_res mi); Some (word_of_int a * bpp) }"

definition setFrameBuffer ::
  "'k video_kernel \<Rightarrow> u16 \<Rightarrow> video \<Rightarrow> 'k \<Rightarrow> (int \<times> video \<times> 'k) option" where
  "setFrameBuffer K mode v k =
     (let (err, mi, k) = vbe_get_mode_info K mode k;
          v = v\<lparr>mode_info := mi\<rparr> in
      if err \<noteq> 0 then Some (1, v, k)
      else
        (let v = v\<lparr>bytesPerPixel := word_of_int (bytes_per_pixel mi)\<rparr> in
         do {
           size \<leftarrow> frame_size mi (bytesPerPixel v);
           let (err, k) = sys_privctl_add_mem K (PhysBasePtr mi) (PhysBasePtr mi + size) k;
           if err \<noteq> 0 then Some (1, v, k)
           else do {
             let (mapped, k) = vm_map_phys K (PhysBasePtr mi) size k;
             let (allocated, k) = malloc K size k;
             Some (of_bool (mapped = None), v\<lparr>frame_buffer := mapped, back_buffer := allocated\<rparr>, k)
           }
         }))"

definition setGraphicsMode :: "'k video_kernel \<Rightarrow> u16 \<Rightarrow> 'k \<Rightarrow> int \<times> 'k" where
  "setGraphicsMode K mode k =
     (let (err, k) = sys_int86 K \<lparr>intno = 0x10, ah = 0x4F, al = 0x02, bx = or mode (push_bit 14 1)\<rparr> k in
      if err \<noteq> 0 then (1, k) else (0, k))"

definition vg_exit_to_text :: "'k video_kernel \<Rightarrow> 'k \<Rightarrow> int \<times> 'k" where
  "vg_exit_to_text K k =
     (let (err, k) = sys_int86 K \<lparr>intno = 0x10, ah = 0x00, al = 0x03, bx = 0x0000\<rparr> k in
      if err \<noteq> 0 then (1, k) else (0, k))"

text \<open>The mask of normalizeColor: BIT(BitsPerPixel) is undefined from 32 bits on.\<close>

definition normalizeColor :: "vbe_mode_info \<Rightarrow> u32 \<Rightarrow> u32 option" where
  "normalizeColor mi color =
     (if BitsPerPixel mi = 32 then Some color
      else do {
        guard_ub (uint (BitsPerPixel mi) < 31);
        Some (and color (push_bit (unat (BitsPerPixel mi)) 1 - 1))
      })"

definition color_bytes :: "u32 \<Rightarrow> u8 list" where
  "color_bytes color = [ucast color, ucast (drop_bit 8 color), ucast (drop_bit 16 color), ucast (drop_bit 24 color)]"

text \<open>memcpy of bs to buffer + index.\<close>

definition copy_into :: "u8 list \<Rightarrow> nat \<Rightarrow> u8 list \<Rightarrow> u8 list option" where
  "copy_into buffer index bs =
     (if index + length bs \<le> length buffer
      then Some (take index buffer @ bs @ drop (index + length bs) buffer) else None)"

definition vg_draw_pixel ::
  "vbe_mode_info \<Rightarrow> u16 \<Rightarrow> u16 \<Rightarrow> u32 \<Rightarrow> u8 list \<Rightarrow> (int \<times> u8 list) option" where
  "vg_draw_pixel mi x y color buffer =
     (if x \<ge> XResolution mi \<or> y \<ge> YResolution mi then Some (1, buffer)
      else do {
        row \<leftarrow> c_int (x_res mi * uint y);
        pos \<leftarrow> c_int (row + uint x);
        let index = unat (word_of_int pos * word_of_int (bytes_per_pixel mi) :: u32);
        guard_ub (bytes_per_pixel mi \<le> 4);
        buffer \<leftarrow> copy_into buffer index (take (nat (bytes_per_pixel mi)) (color_bytes color));
        Some (0, buffer)
      })"

partial_function (option) rectangle_column ::
  "vbe_mode_info \<Rightarrow> u16 \<Rightarrow> u16 \<Rightarrow> int \<Rightarrow> u32 \<Rightarrow> u8 list \<Rightarrow> (int \<times> u8 list) option" where
  "rectangle_column mi i j bottom color buffer =
     (if uint j < bottom
      then do {
        (err, buffer) \<leftarrow> vg_draw_pixel mi i j color buffer;
        if err \<noteq> 0 then Some (1, buffer)
        else rectangle_column mi i (j + 1) bottom color buffer
      }
      else Some (0, buffer))"

partial_function (option) rectangle_columns ::
  "vbe_mode_info \<Rightarrow> u16 \<Rightarrow> int \<Rightarrow> u16 \<Rightarrow> int \<Rightarrow> u32 \<Rightarrow> u8 list \<Rightarrow> (int \<times> u8 list) option" where
  "rectangle_columns mi i right y bottom color buffer =
     (if uint i < right
      then do {
        (err, buffer) \<leftarrow> rectangle_column mi i y bottom color buffer;
        if err \<noteq> 0 then Some (1, buffer)
        else rectangle_columns mi (i + 1) right y bottom color buffer
      }
      else Some (0, buffer))"

definition vg_draw_rectangle_to_buffer ::
  "vbe_mode_info \<Rightarrow> u16 \<Rightarrow> u16 \<Rightarrow> u16 \<Rightarrow> u16 \<Rightarrow> u32 \<Rightarrow> u8 list \<Rightarrow> (int \<times> u8 list) option" where
  "vg_draw_rectangle_to_buffer mi x y width height color buffer =
     rectangle_columns mi x (uint width + uint x) y (uint height + uint y) color buffer"

definition fill_color :: "vbe_mode_info \<Rightarrow> u32 \<Rightarrow> u8 list \<Rightarrow> (int \<times> u8 list) option" where
  "fill_color mi color buffer =
     vg_draw_rectangle_to_buffer mi 0 0 (XResolution mi) (YResolution mi) color buffer"

definition clear :: "vbe_mode_info \<Rightarrow> u32 \<Rightarrow> u8 list \<Rightarrow> u8 list option" where
  "clear mi bpp buffer =
     do { size \<leftarrow> frame_size mi bpp; copy_into buffer 0 (replicate (unat size) 0) }"

definition swap :: "video \<Rightarrow> video option" where
  "swap v =
     do {
       size \<leftarrow> frame_size (mode_info v) (bytesPerPixel v);
       frame \<leftarrow> frame_buffer v;
       back \<leftarrow> back_buffer v;
       guard_ub (unat size \<le> length back);
       frame \<leftarrow> copy_into frame 0 (take (unat size) back);
       Some (v\<lparr>frame_buffer := Some frame\<rparr>)
     }"

declare bytes_per_pixel_def [model_defs] frame_size_def [model_defs] normalizeColor_def [model_defs]
  color_bytes_def [model_defs] copy_into_def [model_defs] vg_draw_pixel_def [model_defs]
  rectangle_column.simps [model_defs] rectangle_columns.simps [model_defs]
  vg_draw_rectangle_to_buffer_def [model_defs] fill_color_def [model_defs] clear_def [model_defs]
  swap_def [model_defs]

subsection \<open>Pixels in a buffer\<close>

definition frame_ok :: "vbe_mode_info \<Rightarrow> u8 list \<Rightarrow> bool" where
  "frame_ok mi buffer \<longleftrightarrow>
     1 \<le> bytes_per_pixel mi \<and> bytes_per_pixel mi \<le> 4 \<and> x_res mi * y_res mi \<le> INT_MAX \<and>
     x_res mi * y_res mi * bytes_per_pixel mi < 2 ^ 32 \<and>
     int (length buffer) = x_res mi * y_res mi * bytes_per_pixel mi"

definition pixel :: "vbe_mode_info \<Rightarrow> u8 list \<Rightarrow> int \<Rightarrow> int \<Rightarrow> u8 list" where
  "pixel mi buffer a b =
     take (nat (bytes_per_pixel mi)) (drop (nat ((x_res mi * b + a) * bytes_per_pixel mi)) buffer)"

definition on_screen :: "vbe_mode_info \<Rightarrow> int \<Rightarrow> int \<Rightarrow> bool" where
  "on_screen mi a b \<longleftrightarrow> 0 \<le> a \<and> a < x_res mi \<and> 0 \<le> b \<and> b < y_res mi"

definition pixel_value :: "vbe_mode_info \<Rightarrow> u32 \<Rightarrow> u8 list" where
  "pixel_value mi color = take (nat (bytes_per_pixel mi)) (color_bytes color)"

lemma pixel_value_length: "bytes_per_pixel mi \<le> 4 \<Longrightarrow> length (pixel_value mi color) = nat (bytes_per_pixel mi)"
  by (simp add: pixel_value_def color_bytes_def)

text \<open>Reading block m of size k after block n was overwritten.\<close>

lemma block_write:
  assumes "length bs = k" and "n * k + k \<le> length buf" and "m * k + k \<le> length buf"
  shows "take k (drop (m * k) (take (n * k) buf @ bs @ drop (n * k + k) buf)) =
    (if m = n then bs else take k (drop (m * k) buf))"
proof -
  consider "m = n" | "m < n" | "n < m" by linarith
  then show ?thesis
  proof cases
    case 1
    with assms show ?thesis by simp
  next
    case 2
    then have "m * k + k \<le> n * k" by (metis Suc_leI add.commute mult_Suc mult_le_mono1)
    then have "k \<le> n * k - m * k" "m * k \<le> n * k" by linarith+
    moreover have "length (take (n * k) buf) = n * k" using assms(2) by simp
    ultimately have "take k (drop (m * k) (take (n * k) buf @ bs @ drop (n * k + k) buf)) =
        take k (drop (m * k) (take (n * k) buf))"
      by (simp add: take_append)
    also have "\<dots> = take k (drop (m * k) buf)"
      using \<open>k \<le> n * k - m * k\<close> by (simp add: drop_take min_def)
    finally show ?thesis using 2 by simp
  next
    case 3
    then have le: "n * k + k \<le> m * k" by (metis Suc_leI add.commute mult_Suc mult_le_mono1)
    then have "m * k - (n * k + k) + (n * k + k) = m * k" by simp
    with 3 le assms show ?thesis by simp
  qed
qed

lemma screen_index:
  assumes "on_screen mi a b"
  shows "0 \<le> x_res mi * b + a" and "x_res mi * b + a < x_res mi * y_res mi"
proof -
  show "0 \<le> x_res mi * b + a" using assms by (simp add: on_screen_def)
  have "x_res mi * b + x_res mi \<le> x_res mi * y_res mi"
    using mult_left_mono [of "b + 1" "y_res mi" "x_res mi"] assms
    by (simp add: on_screen_def distrib_left)
  then show "x_res mi * b + a < x_res mi * y_res mi" using assms by (simp add: on_screen_def)
qed

lemma screen_index_inj:
  assumes "on_screen mi a b" and "on_screen mi c d" and "x_res mi * b + a = x_res mi * d + c"
  shows "a = c \<and> b = d"
proof -
  have "(x_res mi * b + a) div x_res mi = b" "(x_res mi * d + c) div x_res mi = d"
    using assms(1,2) by (auto simp: on_screen_def)
  with assms(3) show ?thesis by auto
qed

lemma screen_block:
  assumes "frame_ok mi buf" and "on_screen mi a b"
  shows "nat (x_res mi * b + a) * nat (bytes_per_pixel mi) + nat (bytes_per_pixel mi) \<le> length buf"
    and "nat ((x_res mi * b + a) * bytes_per_pixel mi) = nat (x_res mi * b + a) * nat (bytes_per_pixel mi)"
    and "(x_res mi * b + a) * bytes_per_pixel mi < 2 ^ 32"
proof -
  let ?i = "x_res mi * b + a" and ?k = "bytes_per_pixel mi"
  note i = screen_index [OF assms(2)]
  have k: "1 \<le> ?k" "int (length buf) = x_res mi * y_res mi * ?k" "x_res mi * y_res mi * ?k < 2 ^ 32"
    using assms(1) by (auto simp: frame_ok_def)
  have "(?i + 1) * ?k \<le> x_res mi * y_res mi * ?k" using i k by (intro mult_right_mono) auto
  then have le: "?i * ?k + ?k \<le> int (length buf)" unfolding k(2) by (simp add: distrib_right)
  then show "?i * ?k < 2 ^ 32" using k by linarith
  show eq: "nat (?i * ?k) = nat ?i * nat ?k" using i(1) by (simp add: nat_mult_distrib)
  have "nat (?i * ?k + ?k) = nat (?i * ?k) + nat ?k" using i(1) k(1) by (intro nat_add_distrib) auto
  moreover have "nat (?i * ?k + ?k) \<le> length buf" using le by linarith
  ultimately show "nat ?i * nat ?k + nat ?k \<le> length buf" unfolding eq by simp
qed

text \<open>Drawing a pixel: on the screen it changes that pixel only, off the screen nothing.\<close>

lemma draw_pixel_off: "\<not> on_screen mi (uint x) (uint y) \<Longrightarrow> vg_draw_pixel mi x y color buf = Some (1, buf)"
  by (auto simp: vg_draw_pixel_def on_screen_def word_le_def not_less)

text \<open>The index computed for a pixel, in 32 bits, and a write of its bytes there.\<close>

lemma pixel_index:
  assumes ok: "frame_ok mi buf" and on: "on_screen mi a b"
  shows "c_int (x_res mi * b) = Some (x_res mi * b)"
    and "c_int (x_res mi * b + a) = Some (x_res mi * b + a)"
    and "unat (word_of_int (x_res mi * b + a) * word_of_int (bytes_per_pixel mi) :: u32) =
      nat (x_res mi * b + a) * nat (bytes_per_pixel mi)"
proof -
  let ?i = "x_res mi * b + a" and ?k = "bytes_per_pixel mi"
  note i = screen_index [OF on] and block = screen_block [OF ok on]
  have k: "1 \<le> ?k" "x_res mi * y_res mi \<le> INT_MAX" using ok by (auto simp: frame_ok_def)
  have "x_res mi * b \<le> ?i" "0 \<le> x_res mi * b" using on by (simp_all add: on_screen_def)
  moreover from this i(2) k(2) have "x_res mi * b \<le> INT_MAX" "?i \<le> INT_MAX" by linarith+
  ultimately show "c_int (x_res mi * b) = Some (x_res mi * b)" and "c_int ?i = Some ?i"
    using i(1) by (blast intro: c_int_nonneg)+
  have "unat (word_of_int ?i * word_of_int ?k :: u32) = nat (uint (word_of_int (?i * ?k) :: u32))"
    by (simp only: wi_hom_mult unat_eq_nat_uint)
  also have "\<dots> = nat ((?i * ?k) mod 2 ^ 32)" by (simp only: uint_word_of_int) simp
  also have "\<dots> = nat (?i * ?k)" using block(3) i(1) k(1) by simp
  finally show "unat (word_of_int ?i * word_of_int ?k :: u32) = nat ?i * nat ?k" using block(2) by simp
qed

lemma write_block:
  assumes ok: "frame_ok mi buf" and on: "on_screen mi x y" and len: "length bs = nat (bytes_per_pixel mi)"
  obtains buf' where "copy_into buf (nat (x_res mi * y + x) * nat (bytes_per_pixel mi)) bs = Some buf'"
    and "frame_ok mi buf'"
    and "\<And>a b. on_screen mi a b \<Longrightarrow> pixel mi buf' a b = (if a = x \<and> b = y then bs else pixel mi buf a b)"
proof -
  let ?i = "x_res mi * y + x" and ?k = "bytes_per_pixel mi"
  let ?n = "nat ?i * nat ?k"
  let ?buf = "take ?n buf @ bs @ drop (?n + nat ?k) buf"
  note i = screen_index [OF on] and block = screen_block [OF ok on]
  have "copy_into buf ?n bs = Some ?buf" using block(1) len by (simp add: copy_into_def)
  moreover have "frame_ok mi ?buf" using ok len block(1) by (simp add: frame_ok_def)
  moreover have "pixel mi ?buf a b = (if a = x \<and> b = y then bs else pixel mi buf a b)"
    if ab: "on_screen mi a b" for a b
  proof -
    have "nat (x_res mi * b + a) = nat ?i \<longleftrightarrow> a = x \<and> b = y"
      using screen_index(1) [OF ab] i(1) screen_index_inj [OF ab on] by (auto simp: eq_nat_nat_iff)
    then show ?thesis
      using block_write [OF len block(1) screen_block(1) [OF ok ab]]
      unfolding pixel_def screen_block(2) [OF ok ab] by simp
  qed
  ultimately show thesis by (rule that)
qed

lemma draw_pixel_on:
  assumes ok: "frame_ok mi buf" and on: "on_screen mi (uint x) (uint y)"
  obtains buf' where "vg_draw_pixel mi x y color buf = Some (0, buf')" and "frame_ok mi buf'"
    and "\<And>a b. on_screen mi a b \<Longrightarrow> pixel mi buf' a b =
      (if a = uint x \<and> b = uint y then pixel_value mi color else pixel mi buf a b)"
proof -
  have k: "bytes_per_pixel mi \<le> 4" using ok by (simp add: frame_ok_def)
  obtain buf' where buf': "copy_into buf (nat (x_res mi * uint y + uint x) * nat (bytes_per_pixel mi))
      (pixel_value mi color) = Some buf'" "frame_ok mi buf'"
    "\<And>a b. on_screen mi a b \<Longrightarrow> pixel mi buf' a b =
      (if a = uint x \<and> b = uint y then pixel_value mi color else pixel mi buf a b)"
    using write_block [OF ok on pixel_value_length [OF k, of color]] by blast
  have "x < XResolution mi" "y < YResolution mi"
    using on by (auto simp: on_screen_def word_less_def)
  then have "vg_draw_pixel mi x y color buf = Some (0, buf')"
    using pixel_index [OF ok on] k buf'(1)
    by (simp add: vg_draw_pixel_def pixel_value_def Let_def not_le)
  with buf'(2,3) show thesis using that by blast
qed

subsection \<open>Rectangles\<close>

lemma uint_next: "uint (j :: u16) < 65535 \<Longrightarrow> uint (j + 1) = uint j + 1"
  using uint_word_ariths(1) [of j 1] by simp

lemma resolution_bounds: "x_res mi \<le> 65535" "y_res mi \<le> 65535"
  using uint_lt2p [of "XResolution mi"] uint_lt2p [of "YResolution mi"] by simp_all

text \<open>A column is drawn down to its end or to the end of the screen, or not at all when it lies off the
  screen; the result is 1 in the last two cases.\<close>

lemma column_exact:
  assumes "frame_ok mi buf"
  shows "\<exists>buf'. rectangle_column mi i j bottom color buf =
      Some (of_bool (uint j < bottom \<and> (x_res mi \<le> uint i \<or> y_res mi < bottom)), buf') \<and> frame_ok mi buf' \<and>
    (\<forall>a b. on_screen mi a b \<longrightarrow> pixel mi buf' a b =
      (if a = uint i \<and> uint j \<le> b \<and> b < bottom then pixel_value mi color else pixel mi buf a b))"
  using assms
proof (induction "nat (bottom - uint j)" arbitrary: j buf)
  case 0
  then have "\<not> uint j < bottom" by simp
  then show ?case
    using 0(2) by (auto simp: rectangle_column.simps)
next
  case (Suc n)
  then have less: "uint j < bottom" by simp
  show ?case
  proof (cases "on_screen mi (uint i) (uint j)")
    case False
    then have off: "vg_draw_pixel mi i j color buf = Some (1, buf)" by (rule draw_pixel_off)
    have "x_res mi \<le> uint i \<or> y_res mi \<le> uint j" using False by (auto simp: on_screen_def)
    then have "x_res mi \<le> uint i \<or> y_res mi < bottom" using less by auto
    moreover have "\<not> (a = uint i \<and> uint j \<le> b \<and> b < bottom)" if "on_screen mi a b" for a b
      using that False by (auto simp: on_screen_def)
    ultimately show ?thesis
      using off less Suc.prems by (auto simp: rectangle_column.simps [of _ _ j])
  next
    case True
    obtain buf1 where buf1: "vg_draw_pixel mi i j color buf = Some (0, buf1)" "frame_ok mi buf1"
      "\<And>a b. on_screen mi a b \<Longrightarrow> pixel mi buf1 a b =
        (if a = uint i \<and> b = uint j then pixel_value mi color else pixel mi buf a b)"
      using draw_pixel_on [OF Suc.prems True, of color] by blast
    have next_: "uint (j + 1) = uint j + 1"
      using True resolution_bounds(2) [of mi] by (intro uint_next) (auto simp: on_screen_def)
    then have "n = nat (bottom - uint (j + 1))" using Suc.hyps(2) by linarith
    from Suc.hyps(1) [OF this buf1(2)] obtain buf' where
      buf': "rectangle_column mi i (j + 1) bottom color buf1 =
        Some (of_bool (uint j + 1 < bottom \<and> (x_res mi \<le> uint i \<or> y_res mi < bottom)), buf')"
      "frame_ok mi buf'"
      "\<And>a b. on_screen mi a b \<Longrightarrow> pixel mi buf' a b =
        (if a = uint i \<and> uint j + 1 \<le> b \<and> b < bottom then pixel_value mi color else pixel mi buf1 a b)"
      unfolding next_ by blast
    have run: "rectangle_column mi i j bottom color buf = rectangle_column mi i (j + 1) bottom color buf1"
      using less buf1(1) by (simp add: rectangle_column.simps [of _ _ j])
    have result: "uint j + 1 < bottom \<and> (x_res mi \<le> uint i \<or> y_res mi < bottom) \<longleftrightarrow>
        uint j < bottom \<and> (x_res mi \<le> uint i \<or> y_res mi < bottom)"
      using True by (auto simp: on_screen_def)
    have "pixel mi buf' a b =
        (if a = uint i \<and> uint j \<le> b \<and> b < bottom then pixel_value mi color else pixel mi buf a b)"
      if "on_screen mi a b" for a b
      using buf'(3) [OF that] buf1(3) [OF that] less by auto
    then show ?thesis using run buf'(1,2) unfolding result by (intro exI [of _ buf']) simp
  qed
qed

lemma columns_exact:
  assumes "frame_ok mi buf" and "uint y < bottom"
  shows "\<exists>buf'. rectangle_columns mi i right y bottom color buf =
      Some (of_bool (uint i < right \<and> (x_res mi < right \<or> y_res mi < bottom)), buf') \<and> frame_ok mi buf' \<and>
    (\<forall>a b. on_screen mi a b \<longrightarrow> pixel mi buf' a b =
      (if uint i \<le> a \<and> a < right \<and> uint y \<le> b \<and> b < bottom \<and> (bottom \<le> y_res mi \<or> a = uint i)
       then pixel_value mi color else pixel mi buf a b))"
  using assms(1)
proof (induction "nat (right - uint i)" arbitrary: i buf)
  case 0
  then have "\<not> uint i < right" by simp
  then show ?case
    using 0(2) by (auto simp: rectangle_columns.simps)
next
  case (Suc n)
  then have less: "uint i < right" by simp
  obtain buf1 where buf1: "rectangle_column mi i y bottom color buf =
      Some (of_bool (uint y < bottom \<and> (x_res mi \<le> uint i \<or> y_res mi < bottom)), buf1)" "frame_ok mi buf1"
    "\<And>a b. on_screen mi a b \<Longrightarrow> pixel mi buf1 a b =
      (if a = uint i \<and> uint y \<le> b \<and> b < bottom then pixel_value mi color else pixel mi buf a b)"
    using column_exact [OF Suc.prems, of i y bottom color] by blast
  show ?case
  proof (cases "x_res mi \<le> uint i \<or> y_res mi < bottom")
    case True
    have run: "rectangle_columns mi i right y bottom color buf = Some (1, buf1)"
      using True less assms(2) buf1(1) by (simp add: rectangle_columns.simps [of _ i])
    have "pixel mi buf1 a b =
      (if uint i \<le> a \<and> a < right \<and> uint y \<le> b \<and> b < bottom \<and> (bottom \<le> y_res mi \<or> a = uint i)
       then pixel_value mi color else pixel mi buf a b)" if "on_screen mi a b" for a b
      using buf1(3) [OF that] that True less by (auto simp: on_screen_def)
    moreover have "x_res mi < right \<or> y_res mi < bottom" using True less by auto
    ultimately show ?thesis using run less buf1(2) by auto
  next
    case False
    then have next_: "uint (i + 1) = uint i + 1"
      using resolution_bounds(1) [of mi] by (intro uint_next) auto
    then have "n = nat (right - uint (i + 1))" using Suc.hyps(2) by linarith
    from Suc.hyps(1) [OF this buf1(2)] obtain buf' where
      buf': "rectangle_columns mi (i + 1) right y bottom color buf1 =
        Some (of_bool (uint i + 1 < right \<and> (x_res mi < right \<or> y_res mi < bottom)), buf')"
      "frame_ok mi buf'"
      "\<And>a b. on_screen mi a b \<Longrightarrow> pixel mi buf' a b =
        (if uint i + 1 \<le> a \<and> a < right \<and> uint y \<le> b \<and> b < bottom \<and> (bottom \<le> y_res mi \<or> a = uint i + 1)
         then pixel_value mi color else pixel mi buf1 a b)"
      unfolding next_ by blast
    have run: "rectangle_columns mi i right y bottom color buf =
        rectangle_columns mi (i + 1) right y bottom color buf1"
      using False less buf1(1) by (simp add: rectangle_columns.simps [of _ i])
    have result: "uint i + 1 < right \<and> (x_res mi < right \<or> y_res mi < bottom) \<longleftrightarrow>
        uint i < right \<and> (x_res mi < right \<or> y_res mi < bottom)"
      using False by auto
    have "pixel mi buf' a b =
      (if uint i \<le> a \<and> a < right \<and> uint y \<le> b \<and> b < bottom \<and> (bottom \<le> y_res mi \<or> a = uint i)
       then pixel_value mi color else pixel mi buf a b)" if "on_screen mi a b" for a b
      using buf'(3) [OF that] buf1(3) [OF that] False less by auto
    then show ?thesis using run buf'(1,2) unfolding result by (intro exI [of _ buf']) simp
  qed
qed

text \<open>A rectangle on the screen, and one that starts off the screen.\<close>

lemma rectangle_on:
  assumes "frame_ok mi buf" and "0 < uint h"
    and "uint x + uint w \<le> x_res mi" and "uint y + uint h \<le> y_res mi"
  shows "\<exists>buf'. vg_draw_rectangle_to_buffer mi x y w h color buf = Some (0, buf') \<and> frame_ok mi buf' \<and>
    (\<forall>a b. on_screen mi a b \<longrightarrow> pixel mi buf' a b =
      (if uint x \<le> a \<and> a < uint x + uint w \<and> uint y \<le> b \<and> b < uint y + uint h
       then pixel_value mi color else pixel mi buf a b))"
  using columns_exact [OF assms(1), of y "uint h + uint y" x "uint w + uint x" color] assms(2-)
  by (simp add: vg_draw_rectangle_to_buffer_def add.commute)

lemma rectangle_off:
  assumes "frame_ok mi buf" and "0 < uint h" and "0 < uint w"
    and "x_res mi \<le> uint x \<or> y_res mi \<le> uint y"
  shows "\<exists>buf'. vg_draw_rectangle_to_buffer mi x y w h color buf = Some (1, buf') \<and> frame_ok mi buf' \<and>
    (\<forall>a b. on_screen mi a b \<longrightarrow> pixel mi buf' a b = pixel mi buf a b)"
proof -
  obtain buf' where buf': "vg_draw_rectangle_to_buffer mi x y w h color buf = Some (1, buf')"
    "frame_ok mi buf'"
    "\<And>a b. on_screen mi a b \<Longrightarrow> pixel mi buf' a b =
      (if uint x \<le> a \<and> a < uint w + uint x \<and> uint y \<le> b \<and> b < uint h + uint y \<and>
          (uint h + uint y \<le> y_res mi \<or> a = uint x)
       then pixel_value mi color else pixel mi buf a b)"
    using columns_exact [OF assms(1), of y "uint h + uint y" x "uint w + uint x" color] assms(2-)
    by (auto simp: vg_draw_rectangle_to_buffer_def)
  moreover have "\<not> (uint x \<le> a \<and> uint y \<le> b)" if "on_screen mi a b" for a b
    using that assms(4) by (auto simp: on_screen_def)
  ultimately show ?thesis by (metis (no_types, lifting))
qed

subsection \<open>Whole frames\<close>

lemma frame_size_ok:
  assumes "frame_ok mi buf"
  shows "\<exists>n. frame_size mi (word_of_int (bytes_per_pixel mi)) = Some n \<and> unat n = length buf"
proof -
  let ?a = "x_res mi * y_res mi" and ?k = "bytes_per_pixel mi"
  have a: "0 \<le> ?a" "?a \<le> INT_MAX" "1 \<le> ?k" "?a * ?k < 2 ^ 32" "int (length buf) = ?a * ?k"
    using assms by (auto simp: frame_ok_def)
  have "unat (word_of_int ?a * word_of_int ?k :: u32) = nat (uint (word_of_int (?a * ?k) :: u32))"
    by (simp only: wi_hom_mult unat_eq_nat_uint)
  also have "\<dots> = nat ((?a * ?k) mod 2 ^ 32)" by (simp only: uint_word_of_int) simp
  also have "\<dots> = nat (?a * ?k)" using a by simp
  also have "\<dots> = length buf" using a(5) by linarith
  finally show ?thesis
    using c_int_nonneg [OF a(1,2)] by (simp add: frame_size_def)
qed

lemma clear_exact:
  assumes "frame_ok mi buf"
  shows "clear mi (word_of_int (bytes_per_pixel mi)) buf = Some (replicate (length buf) 0)"
  using frame_size_ok [OF assms] by (auto simp: clear_def copy_into_def)

definition video_ok :: "video \<Rightarrow> bool" where
  "video_ok v \<longleftrightarrow> bytesPerPixel v = word_of_int (bytes_per_pixel (mode_info v)) \<and>
     (\<exists>b. back_buffer v = Some b \<and> frame_ok (mode_info v) b) \<and>
     (\<exists>f. frame_buffer v = Some f \<and> frame_ok (mode_info v) f)"

lemma swap_exact:
  assumes "video_ok v"
  shows "swap v = Some (v\<lparr>frame_buffer := back_buffer v\<rparr>)"
proof -
  obtain b f where b: "back_buffer v = Some b" "frame_ok (mode_info v) b"
    and f: "frame_buffer v = Some f" "frame_ok (mode_info v) f"
    and bpp: "bytesPerPixel v = word_of_int (bytes_per_pixel (mode_info v))"
    using assms by (auto simp: video_ok_def)
  obtain n where n: "frame_size (mode_info v) (bytesPerPixel v) = Some n" "unat n = length b"
    using frame_size_ok [OF b(2)] bpp by auto
  have "length f = length b" using b(2) f(2) by (auto simp: frame_ok_def)
  with n b(1) f(1) show ?thesis by (simp add: swap_def copy_into_def)
qed

lemma fill_color_exact:
  assumes "frame_ok mi buf" and "0 < y_res mi"
  shows "\<exists>buf'. fill_color mi color buf = Some (0, buf') \<and> frame_ok mi buf' \<and>
    (\<forall>a b. on_screen mi a b \<longrightarrow> pixel mi buf' a b = pixel_value mi color)"
  using rectangle_on [OF assms(1), of "YResolution mi" 0 "XResolution mi" 0 color] assms(2)
  by (fastforce simp: fill_color_def on_screen_def)

subsection \<open>Properties\<close>

text \<open>C21: what vg_draw_rectangle_to_buffer draws for a rectangle at least one pixel wide and high, on the screen or across its border: its loops
  end, no byte outside the buffer is written, and 1 is returned just when the rectangle does not fit. A rectangle that crosses the
  lower border stops after its first column; one that crosses the right border only is drawn up to the border.\<close>

theorem rectangle_drawn_exactly:
  assumes "frame_ok mi buf" and "0 < uint h" and "0 < uint w"
  shows "\<exists>buf'. vg_draw_rectangle_to_buffer mi x y w h color buf =
      Some (of_bool (x_res mi < uint x + uint w \<or> y_res mi < uint y + uint h), buf') \<and>
    frame_ok mi buf' \<and>
    (\<forall>a b. on_screen mi a b \<longrightarrow> pixel mi buf' a b =
      (if uint x \<le> a \<and> a < uint x + uint w \<and> uint y \<le> b \<and> b < uint y + uint h \<and>
          (uint y + uint h \<le> y_res mi \<or> a = uint x)
       then pixel_value mi color else pixel mi buf a b))"
  using columns_exact [OF assms(1), of y "uint h + uint y" x "uint w + uint x" color] assms(2,3)
  by (simp add: vg_draw_rectangle_to_buffer_def add.commute)

definition tiny_mode :: vbe_mode_info where
  "tiny_mode = \<lparr>XResolution = 4, YResolution = 3, BitsPerPixel = 8, PhysBasePtr = 0\<rparr>"

lemma tiny_frame: "frame_ok tiny_mode (replicate 12 0)"
  by (simp add: frame_ok_def tiny_mode_def bytes_per_pixel_def INT_MAX_def)

theorem rectangle_drawn_exactly_witness:
  "\<exists>buf'. vg_draw_rectangle_to_buffer tiny_mode 1 2 2 2 7 (replicate 12 0) = Some (1, buf') \<and>
    pixel tiny_mode buf' 1 2 = [7] \<and> pixel tiny_mode buf' 2 2 = [0]"
proof -
  have pos: "0 < uint (2 :: u16)" by simp
  have on: "on_screen tiny_mode 1 2" "on_screen tiny_mode 2 2"
    by (simp_all add: on_screen_def tiny_mode_def)
  have val: "pixel_value tiny_mode 7 = [7]" "pixel tiny_mode (replicate 12 0) 2 2 = [0]"
    by (simp_all add: pixel_value_def pixel_def tiny_mode_def bytes_per_pixel_def color_bytes_def)
  obtain buf' where b: "vg_draw_rectangle_to_buffer tiny_mode 1 2 2 2 7 (replicate 12 0) =
      Some (of_bool (x_res tiny_mode < uint (1 :: u16) + uint (2 :: u16) \<or>
        y_res tiny_mode < uint (2 :: u16) + uint (2 :: u16)), buf')"
    and px: "\<forall>a b. on_screen tiny_mode a b \<longrightarrow> pixel tiny_mode buf' a b =
      (if uint (1 :: u16) \<le> a \<and> a < uint (1 :: u16) + uint (2 :: u16) \<and> uint (2 :: u16) \<le> b \<and>
          b < uint (2 :: u16) + uint (2 :: u16) \<and>
          (uint (2 :: u16) + uint (2 :: u16) \<le> y_res tiny_mode \<or> a = uint (1 :: u16))
       then pixel_value tiny_mode 7 else pixel tiny_mode (replicate 12 0) a b)"
    using rectangle_drawn_exactly [OF tiny_frame pos pos, of 1 2 7] by blast
  have "pixel tiny_mode buf' 1 2 = [7]" "pixel tiny_mode buf' 2 2 = [0]"
    using px on val by (auto simp: tiny_mode_def)
  with b show ?thesis by (simp add: tiny_mode_def)
qed

text \<open>A pixel written with vg_draw_pixel is read back, every other pixel keeps its value, and a
  pixel off the screen is refused without any write.\<close>

lemma pixel_roundtrip:
  assumes "frame_ok mi buf"
  shows "\<exists>buf'. vg_draw_pixel mi x y color buf =
      Some (of_bool (\<not> on_screen mi (uint x) (uint y)), buf') \<and> frame_ok mi buf' \<and>
    (\<forall>a b. on_screen mi a b \<longrightarrow> pixel mi buf' a b =
      (if a = uint x \<and> b = uint y then pixel_value mi color else pixel mi buf a b))"
proof (cases "on_screen mi (uint x) (uint y)")
  case True
  obtain buf' where "vg_draw_pixel mi x y color buf = Some (0, buf')" "frame_ok mi buf'"
    "\<And>a b. on_screen mi a b \<Longrightarrow> pixel mi buf' a b =
      (if a = uint x \<and> b = uint y then pixel_value mi color else pixel mi buf a b)"
    using draw_pixel_on [OF assms True, of color] by blast
  with True show ?thesis by auto
next
  case False
  with draw_pixel_off [OF False, of color buf] assms show ?thesis by auto
qed

lemma pixel_roundtrip_witness:
  "\<exists>buf'. vg_draw_pixel tiny_mode 3 2 9 (replicate 12 0) = Some (0, buf') \<and> pixel tiny_mode buf' 3 2 = [9]"
proof -
  have on: "on_screen tiny_mode 3 2" by (simp add: on_screen_def tiny_mode_def)
  have "pixel_value tiny_mode 9 = [9]"
    by (simp add: pixel_value_def tiny_mode_def bytes_per_pixel_def color_bytes_def)
  with on pixel_roundtrip [OF tiny_frame, of 3 2 9] show ?thesis by auto
qed

end
