(* ===== verification/Linked_List_Model.thy ===== *)
theory Linked_List_Model
  imports C_Heap Maze_Types
begin

text \<open>
  data_structures/linked_list.h and linked_list.c: a singly linked list of cell pointers with a
  pointer to its last node. The operations are translated on the explicit heap. The size field is
  an int: size++ on INT_MAX and size-- on its minimum are undefined. malloc does not fail in the
  model (C_Heap): linked_list_push writes through its result unchecked.

  list_chain relates a heap and a struct LinkedList to the pointers on the chain from head;
  list_rep also asks that the last field points to the last node. Every operation keeps
  list_chain; linked_list_remove does not keep list_rep, because it never writes the last field.
  The locales sequence and work_list are the contracts the maze solver uses; the interpretation
  cell_list proves them for the code's operations.
\<close>

record list_node =
  ln_cell :: cell_ptr
  ln_next :: "nat option"

record linked_list =
  ll_head :: "nat option"
  ll_last :: "nat option"
  ll_size :: int

type_synonym list_heap = "list_node nheap"

definition empty_list :: linked_list where
  "empty_list = \<lparr>ll_head = None, ll_last = None, ll_size = 0\<rparr>"

definition linked_list_push ::
  "list_heap \<Rightarrow> linked_list \<Rightarrow> cell_ptr \<Rightarrow> (list_heap \<times> linked_list) option" where
  "linked_list_push h l c =
     (let (new_node, h1) = h_alloc \<lparr>ln_cell = c, ln_next = None\<rparr> h in
      if ll_size l = 0
      then do {
        size \<leftarrow> c_int (ll_size l + 1);
        Some (h1, l\<lparr>ll_head := Some new_node, ll_last := Some new_node, ll_size := size\<rparr>)
      }
      else do {
        h2 \<leftarrow> h_store h1 (ll_last l) (ln_next_update (\<lambda>_. Some new_node));
        size \<leftarrow> c_int (ll_size l + 1);
        Some (h2, l\<lparr>ll_last := Some new_node, ll_size := size\<rparr>)
      })"

definition linked_list_pop_first ::
  "list_heap \<Rightarrow> linked_list \<Rightarrow> (cell_ptr \<times> list_heap \<times> linked_list) option" where
  "linked_list_pop_first h l =
     (if ll_size l = 0 then Some (None, h, l)
      else do {
        first_node \<leftarrow> h_load h (ll_head l);
        h1 \<leftarrow> h_free h (ll_head l);
        size \<leftarrow> c_int (ll_size l - 1);
        Some (ln_cell first_node, h1, l\<lparr>ll_head := ln_next first_node, ll_size := size\<rparr>)
      })"

partial_function (option) before_last :: "list_heap \<Rightarrow> nat option \<Rightarrow> nat option \<Rightarrow> nat option option" where
  "before_last h current_node last_node =
     do {
       n \<leftarrow> h_load h current_node;
       if ln_next n \<noteq> last_node then before_last h (ln_next n) last_node else Some current_node
     }"

definition linked_list_pop_last ::
  "list_heap \<Rightarrow> linked_list \<Rightarrow> (cell_ptr \<times> list_heap \<times> linked_list) option" where
  "linked_list_pop_last h l =
     (if ll_size l = 0 then Some (None, h, l)
      else do {
        last_node \<leftarrow> h_load h (ll_last l);
        current_node \<leftarrow> before_last h (ll_head l) (ll_last l);
        h1 \<leftarrow> h_store h current_node (ln_next_update (\<lambda>_. None));
        h2 \<leftarrow> h_free h1 (ll_last l);
        size \<leftarrow> c_int (ll_size l - 1);
        Some (ln_cell last_node, h2, l\<lparr>ll_last := current_node, ll_size := size\<rparr>)
      })"

definition linked_list_first :: "list_heap \<Rightarrow> linked_list \<Rightarrow> cell_ptr option" where
  "linked_list_first h l =
     (if ll_size l = 0 then Some None
      else do { n \<leftarrow> h_load h (ll_head l); Some (ln_cell n) })"

definition linked_list_last :: "list_heap \<Rightarrow> linked_list \<Rightarrow> cell_ptr option" where
  "linked_list_last h l =
     (if ll_size l = 0 then Some None
      else do { n \<leftarrow> h_load h (ll_last l); Some (ln_cell n) })"

partial_function (option) min_distance_loop ::
  "cell_store \<Rightarrow> list_heap \<Rightarrow> nat option \<Rightarrow> cell_ptr \<Rightarrow> int \<Rightarrow> cell_ptr option" where
  "min_distance_loop st h current_node min_cell min_dist =
     (if current_node = None then Some min_cell
      else do {
        n \<leftarrow> h_load h current_node;
        c \<leftarrow> load_cell st (ln_cell n);
        if c_dist c < min_dist
        then min_distance_loop st h (ln_next n) (ln_cell n) (c_dist c)
        else min_distance_loop st h (ln_next n) min_cell min_dist
      })"

definition get_minimum_distance :: "cell_store \<Rightarrow> list_heap \<Rightarrow> linked_list \<Rightarrow> cell_ptr option" where
  "get_minimum_distance st h l =
     (if ll_size l = 0 then Some None
      else do {
        n \<leftarrow> h_load h (ll_head l);
        c \<leftarrow> load_cell st (ln_cell n);
        min_distance_loop st h (ll_head l) (ln_cell n) (c_dist c)
      })"

partial_function (option) remove_loop ::
  "list_heap \<Rightarrow> linked_list \<Rightarrow> cell_ptr \<Rightarrow> nat option \<Rightarrow> nat option \<Rightarrow>
     (list_heap \<times> linked_list) option" where
  "remove_loop h l c current_node prev_node =
     (if current_node = None then Some (h, l)
      else do {
        n \<leftarrow> h_load h current_node;
        if ln_cell n = c
        then (if prev_node = None
              then do {
                size \<leftarrow> c_int (ll_size l - 1);
                Some (h, l\<lparr>ll_head := ln_next n, ll_size := size\<rparr>)
              }
              else do {
                h1 \<leftarrow> h_store h prev_node (ln_next_update (\<lambda>_. ln_next n));
                size \<leftarrow> c_int (ll_size l - 1);
                Some (h1, l\<lparr>ll_size := size\<rparr>)
              })
        else remove_loop h l c (ln_next n) current_node
      })"

definition linked_list_remove ::
  "list_heap \<Rightarrow> linked_list \<Rightarrow> cell_ptr \<Rightarrow> (list_heap \<times> linked_list) option" where
  "linked_list_remove h l c = remove_loop h l c (ll_head l) None"

partial_function (option) contains_loop :: "list_heap \<Rightarrow> cell_ptr \<Rightarrow> nat option \<Rightarrow> bool option" where
  "contains_loop h c current_node =
     (if current_node = None then Some False
      else do {
        n \<leftarrow> h_load h current_node;
        if ln_cell n = c then Some True else contains_loop h c (ln_next n)
      })"

definition linked_list_contains :: "list_heap \<Rightarrow> linked_list \<Rightarrow> cell_ptr \<Rightarrow> bool option" where
  "linked_list_contains h l c = contains_loop h c (ll_head l)"

declare empty_list_def [model_defs] linked_list_push_def [model_defs]
  linked_list_pop_first_def [model_defs] before_last.simps [model_defs]
  linked_list_pop_last_def [model_defs] linked_list_first_def [model_defs]
  linked_list_last_def [model_defs] min_distance_loop.simps [model_defs]
  get_minimum_distance_def [model_defs] remove_loop.simps [model_defs]
  linked_list_remove_def [model_defs] contains_loop.simps [model_defs]
  linked_list_contains_def [model_defs]

subsection \<open>What a list holds\<close>

abbreviation list_seg :: "list_heap \<Rightarrow> nat option \<Rightarrow> (nat \<times> cell_ptr) list \<Rightarrow> nat option \<Rightarrow> bool" where
  "list_seg \<equiv> lseg ln_cell ln_next"

definition list_chain :: "list_heap \<Rightarrow> linked_list \<Rightarrow> cell_ptr list \<Rightarrow> bool" where
  "list_chain h l cs \<longleftrightarrow>
     heap_ok h \<and> ll_size l = int (length cs) \<and> int (length cs) \<le> INT_MAX \<and>
     (\<exists>ns. list_seg h (ll_head l) ns None \<and> map snd ns = cs)"

definition list_rep :: "list_heap \<Rightarrow> linked_list \<Rightarrow> cell_ptr list \<Rightarrow> bool" where
  "list_rep h l cs \<longleftrightarrow>
     heap_ok h \<and> ll_size l = int (length cs) \<and> int (length cs) \<le> INT_MAX \<and>
     (\<exists>ns. list_seg h (ll_head l) ns None \<and> map snd ns = cs \<and>
           (ns \<noteq> [] \<longrightarrow> ll_last l = Some (fst (last ns))))"

lemma list_repD: "list_rep h l cs \<Longrightarrow> list_chain h l cs"
  by (auto simp: list_rep_def list_chain_def)

lemma list_chain_size: "list_chain h l cs \<Longrightarrow> ll_size l = int (length cs)"
  by (simp add: list_chain_def)

lemma list_chain_unique:
  assumes "list_chain h l cs" and "list_chain h l ds"
  shows "cs = ds"
proof -
  from assms obtain ns ms where "list_seg h (ll_head l) ns None" "map snd ns = cs"
    "list_seg h (ll_head l) ms None" "map snd ms = ds"
    by (auto simp: list_chain_def)
  then show ?thesis using lseg_unique by blast
qed

lemma list_rep_empty: "heap_ok h \<Longrightarrow> list_rep h empty_list []"
  by (simp add: list_rep_def empty_list_def INT_MAX_def)

text \<open>Writing the next field of the node that ends a chain.\<close>

lemma list_seg_store_end:
  assumes seg: "list_seg h p (ns @ [(a, v)]) None"
    and upd: "h_store h (Some a) (ln_next_update (\<lambda>_. q)) = Some h'"
  shows "list_seg h' p (ns @ [(a, v)]) q"
proof -
  have a: "a \<notin> fst ` set ns"
    using lseg_distinct [OF seg] by auto
  from seg have "list_seg h p ns (Some a)" "blocks h a \<noteq> None"
    by (auto simp: lseg_append)
  moreover from upd have h': "\<And>b. b \<noteq> a \<Longrightarrow> blocks h' b = blocks h b"
    "blocks h' a = map_option (ln_next_update (\<lambda>_. q)) (blocks h a)"
    by (auto split: option.splits)
  moreover have "\<And>b. b \<in> fst ` set ns \<Longrightarrow> blocks h' b = blocks h b"
    using a h'(1) by metis
  ultimately have "list_seg h' p ns (Some a)"
    by (simp add: lseg_frame [of ns h' h])
  moreover from seg h'(2) have "list_seg h' (Some a) [(a, v)] q"
    by (auto simp: lseg_append)
  ultimately show ?thesis by (auto simp: lseg_append)
qed

text \<open>Appending at the end of a list whose last field is right.\<close>

lemma list_rep_push:
  assumes rep: "list_rep h l cs" and room: "int (length cs) < INT_MAX"
  shows "\<exists>h' l'. linked_list_push h l c = Some (h', l') \<and> list_rep h' l' (cs @ [c])"
proof -
  obtain a h1 where alloc: "h_alloc \<lparr>ln_cell = c, ln_next = None\<rparr> h = (a, h1)"
    by (cases "h_alloc \<lparr>ln_cell = c, ln_next = None\<rparr> h")
  from rep obtain ns where ns: "list_seg h (ll_head l) ns None" "map snd ns = cs"
    and last: "ns \<noteq> [] \<Longrightarrow> ll_last l = Some (fst (last ns))"
    and ok: "heap_ok h" and size: "ll_size l = int (length cs)"
    by (auto simp: list_rep_def)
  have inc: "c_int (ll_size l + 1) = Some (ll_size l + 1)" using size room by (simp add: c_int_nonneg)
  have ok1: "heap_ok h1" by (rule heap_ok_alloc [OF ok alloc])
  have a1: "blocks h1 a = Some \<lparr>ln_cell = c, ln_next = None\<rparr>"
    using alloc by (auto simp: h_alloc_def)
  have seg1: "list_seg h1 (ll_head l) ns None" by (rule lseg_alloc [OF ok alloc ns(1)])
  show ?thesis
  proof (cases ns rule: rev_cases)
    case Nil
    with size ns(2) alloc ok1 a1 inc room show ?thesis
      by (auto simp: linked_list_push_def list_rep_def intro!: exI [of _ "[(a, c)]"])
  next
    case (snoc ms bw)
    then obtain b w where snoc: "ns = ms @ [(b, w)]" by (cases bw) auto
    from seg1 snoc have "blocks h1 b \<noteq> None" by (auto simp: lseg_append)
    then obtain h2 where upd: "h_store h1 (Some b) (ln_next_update (\<lambda>_. Some a)) = Some h2"
      by auto
    have "fresh h \<notin> fst ` set ns" by (rule lseg_not_fresh [OF ok ns(1)])
    with alloc snoc have ab: "a \<noteq> b" by (auto simp: h_alloc_def)
    from list_seg_store_end seg1 upd snoc have "list_seg h2 (ll_head l) ns (Some a)" by blast
    moreover from ab upd a1 have "blocks h2 a = Some \<lparr>ln_cell = c, ln_next = None\<rparr>"
      by (auto split: option.splits)
    ultimately have "list_seg h2 (ll_head l) (ns @ [(a, c)]) None" by (auto simp: lseg_append)
    moreover have "heap_ok h2" by (rule heap_ok_store [OF ok1 upd])
    moreover have "ll_size l \<noteq> 0" using size ns(2) snoc by auto
    ultimately show ?thesis
      using alloc upd size ns(2) snoc last inc room
      by (auto simp: linked_list_push_def list_rep_def intro!: exI [of _ "ns @ [(a, c)]"])
  qed
qed

text \<open>Beyond that the size field overflows.\<close>

lemma list_rep_push_full:
  assumes "list_rep h l cs" and "\<not> int (length cs) < INT_MAX"
  shows "linked_list_push h l c = None"
proof -
  from assms have "ll_size l = INT_MAX" by (simp add: list_rep_def)
  then show ?thesis by (simp add: linked_list_push_def c_int_def INT_MAX_def bind_eq_None_conv split: prod.split)
qed

lemma list_rep_pop_first:
  assumes "list_rep h l (c # cs)"
  shows "\<exists>h' l'. linked_list_pop_first h l = Some (c, h', l') \<and> list_rep h' l' cs"
proof -
  from assms obtain a ns n where ns: "ll_head l = Some a" "blocks h a = Some n" "ln_cell n = c"
    "list_seg h (ln_next n) ns None" "map snd ns = cs"
    and last: "ll_last l = Some (fst (last ((a, c) # ns)))"
    and whole: "list_seg h (Some a) ((a, c) # ns) None"
    and ok: "heap_ok h" and size: "ll_size l = 1 + int (length cs)" "1 + int (length cs) \<le> INT_MAX"
    by (fastforce simp: list_rep_def map_snd_Cons_conv)
  from ns obtain h1 where free: "h_free h (Some a) = Some h1"
    and h1: "blocks h1 = (blocks h)(a := None)" by auto
  have "a \<notin> fst ` set ns" using lseg_distinct [OF whole] by simp
  with ns(4) h1 have "list_seg h1 (ln_next n) ns None" by (subst lseg_frame [of _ _ h]) auto
  with ns size last free heap_ok_free [OF ok free] show ?thesis
    by (auto simp: linked_list_pop_first_def list_rep_def c_int_nonneg intro!: exI [of _ ns])
qed

text \<open>The loop of linked_list_pop_last stops at the last but one node, where there is one.\<close>

lemma before_last_seg:
  "list_seg h p (ns @ [(b, w), (a, v)]) None \<Longrightarrow> before_last h p (Some a) = Some (Some b)"
proof (induction ns arbitrary: p)
  case Nil
  then show ?case by (subst before_last.simps) auto
next
  case (Cons m ns)
  have "a \<notin> fst ` set ((m # ns) @ [(b, w)])"
    using lseg_distinct [OF Cons.prems] by auto
  moreover from Cons.prems obtain n where n: "p = Some (fst m)" "blocks h (fst m) = Some n"
    "list_seg h (ln_next n) (ns @ [(b, w), (a, v)]) None" by auto
  moreover from n(3) have "ln_next n = Some (fst (hd (ns @ [(b, w)])))" by (cases ns) auto
  moreover have "fst (hd (ns @ [(b, w)])) \<in> fst ` set ((m # ns) @ [(b, w)])"
    by (cases ns) auto
  ultimately have "ln_next n \<noteq> Some a" by auto
  with n Cons.IH [OF n(3)] show ?case by (subst before_last.simps) auto
qed

lemma list_rep_pop_last:
  assumes rep: "list_rep h l (cs @ [d, c])"
  shows "\<exists>h' l'. linked_list_pop_last h l = Some (c, h', l') \<and> list_rep h' l' (cs @ [d])"
proof -
  from rep obtain ns b a where ns: "list_seg h (ll_head l) (ns @ [(b, d), (a, c)]) None"
    "map snd ns = cs" and last: "ll_last l = Some a"
    and ok: "heap_ok h" and size: "ll_size l = int (length cs) + 2" "int (length cs) + 2 \<le> INT_MAX"
    by (fastforce simp: list_rep_def map_eq_append_conv map_snd_Cons_conv)
  have ab: "a \<noteq> b" "a \<notin> fst ` set ns" using lseg_distinct [OF ns(1)] by auto
  from ns(1) obtain na nb where na: "blocks h a = Some na" "ln_cell na = c" "ln_next na = None"
    and nb: "blocks h b = Some nb" by (auto simp: lseg_append)
  from nb obtain h1 where upd: "h_store h (Some b) (ln_next_update (\<lambda>_. None)) = Some h1"
    and h1: "blocks h1 = (blocks h)(b := Some (nb\<lparr>ln_next := None\<rparr>))" by auto
  from na ab h1 obtain h2 where free: "h_free h1 (Some a) = Some h2"
    and h2: "blocks h2 = (blocks h1)(a := None)" by auto
  from ns(1) have pre: "list_seg h (ll_head l) ns (Some b)" "ln_cell nb = d"
    using nb by (auto simp: lseg_append)
  have "b \<notin> fst ` set ns" using lseg_distinct [OF ns(1)] by auto
  with pre ab have "list_seg h2 (ll_head l) ns (Some b)"
    by (subst lseg_frame [of _ _ h]) (auto simp: h1 h2)
  with ab pre have "list_seg h2 (ll_head l) (ns @ [(b, d)]) None"
    by (auto simp: lseg_append h1 h2)
  moreover have "heap_ok h2" using heap_ok_free [OF heap_ok_store [OF ok upd] free] .
  moreover have "before_last h (ll_head l) (ll_last l) = Some (Some b)"
    using before_last_seg [OF ns(1)] last by simp
  moreover have "ll_size l \<noteq> 0" using size by auto
  ultimately show ?thesis
    using last na upd free size ns(2)
    by (auto simp: linked_list_pop_last_def list_rep_def c_int_nonneg intro!: exI [of _ "ns @ [(b, d)]"]
        simp del: h_store.simps h_free.simps)
qed

text \<open>
  With a single node the loop walks off the end: it compares the next field with the last field
  before it looks at the node itself.
\<close>

lemma list_rep_pop_last_single:
  assumes "list_rep h l [c]"
  shows "linked_list_pop_last h l = None"
proof -
  from assms obtain a n where "ll_head l = Some a" "blocks h a = Some n" "ln_next n = None"
    "ll_last l = Some a" "ll_size l = 1"
    by (auto simp: list_rep_def map_snd_Cons_conv)
  then show ?thesis
    by (simp add: linked_list_pop_last_def before_last.simps [of h "Some a"]
        before_last.simps [of h None])
qed

subsection \<open>Removal, membership and the minimum\<close>

text \<open>The chain with the first node that holds c taken out.\<close>

fun drop_node :: "cell_ptr \<Rightarrow> (nat \<times> cell_ptr) list \<Rightarrow> (nat \<times> cell_ptr) list" where
  "drop_node c [] = []"
| "drop_node c (m # ms) = (if snd m = c then ms else m # drop_node c ms)"

lemma map_snd_drop_node [simp]: "map snd (drop_node c ms) = remove1 c (map snd ms)"
  by (induction ms) auto

lemma drop_node_snoc: "c \<notin> snd ` set ms \<Longrightarrow> drop_node c (ms @ [(a, c)]) = ms"
  by (induction ms) auto

lemma remove_loop_seg:
  assumes "list_seg h (ll_head l) pre cur" and "list_seg h cur suf None"
    and "prev = (if pre = [] then None else Some (fst (last pre)))" and "heap_ok h"
    and "\<bar>ll_size l\<bar> \<le> INT_MAX"
  shows "\<exists>h' hd'. remove_loop h l c cur prev =
           Some (h', l\<lparr>ll_head := hd', ll_size := ll_size l - (if c \<in> snd ` set suf then 1 else 0)\<rparr>) \<and>
         heap_ok h' \<and> list_seg h' hd' (pre @ drop_node c suf) None \<and>
         (\<forall>b. blocks h' b = None \<longleftrightarrow> blocks h b = None)"
  using assms
proof (induction suf arbitrary: pre cur prev)
  case Nil
  then show ?case
    by (intro exI [of _ h] exI [of _ "ll_head l"])
      (auto simp: remove_loop.simps [of _ _ _ None])
next
  case (Cons m suf)
  have dec: "c_int (ll_size l - 1) = Some (ll_size l - 1)" 
    using Cons.prems(5) by (auto simp: c_int_def INT_MAX_def)
  from Cons.prems obtain n where n: "cur = Some (fst m)" "blocks h (fst m) = Some n"
    "ln_cell n = snd m" "list_seg h (ln_next n) suf None" by auto
  show ?case
  proof (cases "snd m = c")
    case False
    have pre: "list_seg h (ll_head l) (pre @ [m]) (ln_next n)"
      using Cons.prems(1) n by (auto simp: lseg_append)
    obtain h' hd' where IH: "remove_loop h l c (ln_next n) cur =
        Some (h', l\<lparr>ll_head := hd', ll_size := ll_size l - (if c \<in> snd ` set suf then 1 else 0)\<rparr>)"
      "heap_ok h'" "list_seg h' hd' ((pre @ [m]) @ drop_node c suf) None"
      "\<forall>b. blocks h' b = None \<longleftrightarrow> blocks h b = None"
      using Cons.IH [OF pre n(4), of cur] n(1) Cons.prems(4,5) by auto
    then show ?thesis
      using n False
      by (intro exI [of _ h'] exI [of _ hd']) (auto simp: remove_loop.simps [of _ _ _ "Some _"])
  next
    case True
    show ?thesis
    proof (cases pre rule: rev_cases)
      case Nil
      with True n Cons.prems dec show ?thesis
        by (intro exI [of _ h] exI [of _ "ln_next n"]) (auto simp: remove_loop.simps [of _ _ _ "Some _"])
    next
      case (snoc ps bw)
      then obtain b w where snoc: "pre = ps @ [(b, w)]" by (cases bw) auto
      have whole: "list_seg h (ll_head l) (pre @ m # suf) None"
        using Cons.prems(1,2) by (auto simp: lseg_append)
      have dist: "b \<notin> fst ` set ps" "b \<notin> fst ` set suf"
        using lseg_distinct [OF whole] snoc by auto
      from whole snoc obtain nb where nb: "blocks h b = Some nb" "ln_cell nb = w"
        "list_seg h (ll_head l) ps (Some b)" by (auto simp: lseg_append)
      then obtain h1 where upd: "h_store h (Some b) (ln_next_update (\<lambda>_. ln_next n)) = Some h1"
        and h1: "blocks h1 = (blocks h)(b := Some (nb\<lparr>ln_next := ln_next n\<rparr>))" by auto
      have "list_seg h1 (ll_head l) ps (Some b)"
        using dist nb by (subst lseg_frame [of _ _ h]) (auto simp: h1)
      moreover have "list_seg h1 (ln_next n) suf None"
        using dist n by (subst lseg_frame [of _ _ h]) (auto simp: h1)
      ultimately have "list_seg h1 (ll_head l) (pre @ suf) None"
        using nb snoc by (auto simp: lseg_append h1)
      with True n snoc upd dec Cons.prems(3) heap_ok_store [OF Cons.prems(4) upd] show ?thesis
        by (intro exI [of _ h1] exI [of _ "ll_head l"])
          (auto simp: remove_loop.simps [of _ _ _ "Some _"] h1 nb)
    qed
  qed
qed

lemma list_chain_remove:
  assumes "list_chain h l cs"
  shows "\<exists>h' l'. linked_list_remove h l c = Some (h', l') \<and> list_chain h' l' (remove1 c cs)"
proof -
  from assms obtain ns where ns: "list_seg h (ll_head l) ns None" "map snd ns = cs"
    and ok: "heap_ok h" and size: "ll_size l = int (length cs)" "int (length cs) \<le> INT_MAX"
    by (auto simp: list_chain_def)
  have mem: "c \<in> snd ` set ns \<longleftrightarrow> c \<in> set cs" using ns(2) by (metis list.set_map)
  have "c \<in> set cs \<Longrightarrow> 1 \<le> length cs" by (cases cs) auto
  then have len: "int (length (remove1 c cs)) = int (length cs) - (if c \<in> snd ` set ns then 1 else 0)"
    unfolding mem by (simp add: length_remove1 of_nat_diff)
  obtain h' hd' where run: "linked_list_remove h l c = Some (h', l\<lparr>ll_head := hd',
      ll_size := ll_size l - (if c \<in> snd ` set ns then 1 else 0)\<rparr>)"
    "heap_ok h'" "list_seg h' hd' (drop_node c ns) None"
    using remove_loop_seg [of h l "[]" "ll_head l" ns None c] ns ok size
    by (auto simp: linked_list_remove_def)
  moreover have "map snd (drop_node c ns) = remove1 c cs" using ns(2) by simp
  ultimately have "list_chain h' (l\<lparr>ll_head := hd',
      ll_size := ll_size l - (if c \<in> snd ` set ns then 1 else 0)\<rparr>) (remove1 c cs)"
    unfolding list_chain_def using size len by (auto simp del: map_snd_drop_node)
  with run(1) show ?thesis by blast
qed

lemma contains_loop_seg:
  "list_seg h p ns None \<Longrightarrow> contains_loop h c p = Some (c \<in> snd ` set ns)"
  by (induction ns arbitrary: p) (auto simp: contains_loop.simps [of _ _ p] contains_loop.simps [of _ _ None] contains_loop.simps [of _ _ "Some _"])

lemma list_chain_contains:
  "list_chain h l cs \<Longrightarrow> linked_list_contains h l c = Some (c \<in> set cs)"
  by (auto simp: list_chain_def linked_list_contains_def contains_loop_seg)

text \<open>The first of the elements of least key, as the loop of get_minimum_distance finds it.\<close>

fun first_min :: "('v \<Rightarrow> int) \<Rightarrow> 'v \<Rightarrow> 'v list \<Rightarrow> 'v" where
  "first_min key m [] = m"
| "first_min key m (v # vs) = first_min key (if key v < key m then v else m) vs"

lemma first_min_in: "first_min key m vs \<in> insert m (set vs)"
  by (induction vs arbitrary: m) (auto split: if_splits)

lemma first_min_le: "v \<in> insert m (set vs) \<Longrightarrow> key (first_min key m vs) \<le> key v"
proof (induction vs arbitrary: m v)
  case Nil
  then show ?case by simp
next
  case (Cons u us)
  let ?m = "if key u < key m then u else m"
  have "key ?m \<le> key m" "key ?m \<le> key u" by auto
  moreover have "key (first_min key ?m us) \<le> key w" if "w \<in> insert ?m (set us)" for w
    using Cons.IH that by blast
  ultimately have "key (first_min key ?m us) \<le> key v" if "v \<in> {m, u} \<union> set us" for v
    using that by (metis UnE empty_iff insert_iff order_trans)
  with Cons.prems show ?case by auto
qed

definition dist_of :: "cell_store \<Rightarrow> cell_ptr \<Rightarrow> int" where
  "dist_of st p = (case load_cell st p of None \<Rightarrow> 0 | Some c \<Rightarrow> c_dist c)"

lemma min_distance_loop_seg:
  assumes "list_seg h p ns None" and "\<And>v. v \<in> snd ` set ns \<Longrightarrow> load_cell st v \<noteq> None"
  shows "min_distance_loop st h p m (dist_of st m) = Some (first_min (dist_of st) m (map snd ns))"
  using assms
proof (induction ns arbitrary: p m)
  case Nil
  then show ?case by (simp add: min_distance_loop.simps)
next
  case (Cons a ns)
  from Cons.prems obtain n where n: "p = Some (fst a)" "blocks h (fst a) = Some n"
    "ln_cell n = snd a" "list_seg h (ln_next n) ns None" by auto
  from Cons.prems(2) obtain c where c: "load_cell st (snd a) = Some c" by auto
  then have d: "c_dist c = dist_of st (snd a)" by (simp add: dist_of_def)
  show ?case
    using Cons.IH [OF n(4), of m] Cons.IH [OF n(4), of "snd a"] Cons.prems(2) n c
    by (auto simp: min_distance_loop.simps [of _ _ "Some _"] d)
qed

lemma list_chain_min:
  assumes "list_chain h l (c # cs)" and "\<And>v. v \<in> set (c # cs) \<Longrightarrow> load_cell st v \<noteq> None"
  shows "get_minimum_distance st h l = Some (first_min (dist_of st) c cs)"
proof -
  from assms(1) obtain a ns where seg: "list_seg h (ll_head l) ((a, c) # ns) None"
    and ns: "map snd ns = cs" and size: "ll_size l \<noteq> 0"
    by (fastforce simp: list_chain_def map_snd_Cons_conv)
  from assms(2) obtain cl where cl: "load_cell st c = Some cl" by auto
  have "snd ` set ((a, c) # ns) = set (c # cs)" by (simp flip: ns)
  with assms(2) have "\<And>v. v \<in> snd ` set ((a, c) # ns) \<Longrightarrow> load_cell st v \<noteq> None"
    by blast
  from min_distance_loop_seg [OF seg this, of c]
  have "min_distance_loop st h (ll_head l) c (dist_of st c) = Some (first_min (dist_of st) c cs)"
    using ns by simp
  with seg size cl show ?thesis
    by (auto simp: get_minimum_distance_def dist_of_def)
qed

lemma list_rep_first:
  "list_chain h l cs \<Longrightarrow> linked_list_first h l = Some (case cs of [] \<Rightarrow> None | c # _ \<Rightarrow> c)"
  by (cases cs) (auto simp: list_chain_def linked_list_first_def map_snd_Cons_conv)

lemma list_rep_last:
  assumes "list_rep h l cs"
  shows "linked_list_last h l = Some (if cs = [] then None else last cs)"
proof (cases "cs = []")
  case True
  with assms show ?thesis by (simp add: list_rep_def linked_list_last_def)
next
  case False
  from assms obtain ns where ns: "list_seg h (ll_head l) ns None" "map snd ns = cs"
    "ns \<noteq> [] \<longrightarrow> ll_last l = Some (fst (last ns))" "ll_size l = int (length cs)"
    by (auto simp: list_rep_def)
  with False obtain ms b w where "ns = ms @ [(b, w)]" by (cases ns rule: rev_cases) auto
  with ns show ?thesis by (auto simp: linked_list_last_def lseg_append)
qed

text \<open>
  Removal keeps the last field right unless it takes out the last node: then the field still
  points to the removed node, and what is pushed next is linked behind that node.
\<close>

lemma list_rep_remove_inner:
  assumes rep: "list_rep h l (cs @ [d])" and c: "c \<in> set cs \<or> c \<noteq> d"
  shows "\<exists>h' l'. linked_list_remove h l c = Some (h', l') \<and> list_rep h' l' (remove1 c cs @ [d])"
proof -
  from rep obtain ns a where ns: "list_seg h (ll_head l) (ns @ [(a, d)]) None" "map snd ns = cs"
    and last: "ll_last l = Some a" and ok: "heap_ok h"
    and size: "ll_size l = int (length cs) + 1" "int (length cs) + 1 \<le> INT_MAX"
    by (fastforce simp: list_rep_def map_eq_append_conv map_snd_Cons_conv)
  have drop: "drop_node c (ns @ [(a, d)]) = drop_node c ns @ [(a, d)]" if "c \<in> snd ` set ns \<or> c \<noteq> d"
    using that by (induction ns) auto
  have mem: "c \<in> snd ` set ns \<longleftrightarrow> c \<in> set cs" using ns(2) by (metis list.set_map)
  have ds: "drop_node c (ns @ [(a, d)]) = drop_node c ns @ [(a, d)]" using drop c mem by blast
  have "c \<in> set cs \<Longrightarrow> 1 \<le> length cs" by (cases cs) auto
  then have len: "int (length (remove1 c cs @ [d])) =
      int (length cs) + 1 - (if c \<in> snd ` set (ns @ [(a, d)]) then 1 else 0)"
    using c mem by (auto simp: length_remove1 of_nat_diff)
  obtain h' hd' where run: "linked_list_remove h l c = Some (h', l\<lparr>ll_head := hd',
      ll_size := ll_size l - (if c \<in> snd ` set (ns @ [(a, d)]) then 1 else 0)\<rparr>)"
    "heap_ok h'" "list_seg h' hd' (drop_node c ns @ [(a, d)]) None"
    using remove_loop_seg [of h l "[]" "ll_head l" "ns @ [(a, d)]" None c] ns ok size
    by (auto simp: linked_list_remove_def simp flip: ds)
  moreover have "map snd (drop_node c ns @ [(a, d)]) = remove1 c cs @ [d]" using ns(2) by simp
  ultimately have "list_rep h' (l\<lparr>ll_head := hd',
      ll_size := ll_size l - (if c \<in> snd ` set (ns @ [(a, d)]) then 1 else 0)\<rparr>) (remove1 c cs @ [d])"
    unfolding list_rep_def using size last len
    by (auto simp del: map_snd_drop_node intro!: exI [of _ "drop_node c ns @ [(a, d)]"])
  with run(1) show ?thesis by blast
qed

lemma stale_last_after_remove:
  assumes rep: "list_rep h l (cs @ [c])" and "c \<notin> set cs" and "cs \<noteq> []"
    and rem: "linked_list_remove h l c = Some (h1, l1)"
    and push: "linked_list_push h1 l1 d = Some (h2, l2)"
  shows "list_seg h2 (ll_head l2) ns None \<Longrightarrow> map snd ns = cs"
    and "ll_size l2 = int (length cs) + 1"
    and "linked_list_contains h2 l2 d = Some (d \<in> set cs)"
proof -
  from rep obtain ns0 a where ns0: "list_seg h (ll_head l) (ns0 @ [(a, c)]) None" "map snd ns0 = cs"
    and last: "ll_last l = Some a" and ok: "heap_ok h"
    and size: "ll_size l = int (length cs) + 1" "int (length cs) + 1 \<le> INT_MAX"
    by (fastforce simp: list_rep_def map_eq_append_conv map_snd_Cons_conv)
  from assms(2) ns0(2) have cns: "c \<notin> snd ` set ns0" by (metis list.set_map)
  obtain h' hd' where "linked_list_remove h l c = Some (h', l\<lparr>ll_head := hd', ll_size := ll_size l - 1\<rparr>)"
    "heap_ok h'" "list_seg h' hd' ns0 None" "\<forall>b. blocks h' b = None \<longleftrightarrow> blocks h b = None"
    using remove_loop_seg [of h l "[]" "ll_head l" "ns0 @ [(a, c)]" None c] ns0 ok size
    by (auto simp: linked_list_remove_def drop_node_snoc [OF cns])
  with rem last size have l1: "heap_ok h1" "list_seg h1 (ll_head l1) ns0 None" "ll_last l1 = Some a"
    "ll_size l1 = int (length cs)" by auto
  from lseg_distinct [OF ns0(1)] have a: "a \<notin> fst ` set ns0" by auto
  obtain b h' where alloc: "h_alloc \<lparr>ln_cell = d, ln_next = None\<rparr> h1 = (b, h')"
    by (cases "h_alloc \<lparr>ln_cell = d, ln_next = None\<rparr> h1")
  have seg': "list_seg h' (ll_head l1) ns0 None" by (rule lseg_alloc [OF l1(1) alloc l1(2)])
  from push alloc l1 assms(3) have st: "h_store h' (Some a) (ln_next_update (\<lambda>_. Some b)) = Some h2"
    and l2: "l2 = l1\<lparr>ll_last := Some b, ll_size := ll_size l1 + 1\<rparr>"
    by (auto simp: linked_list_push_def c_int_nonneg size(2) elim!: bind_SomeE simp del: h_store.simps)
  from st have "\<And>x. x \<noteq> a \<Longrightarrow> blocks h2 x = blocks h' x" by (auto split: option.splits)
  then have "\<And>x. x \<in> fst ` set ns0 \<Longrightarrow> blocks h2 x = blocks h' x" using a by metis
  with seg' l2 have seg2: "list_seg h2 (ll_head l2) ns0 None"
    by (simp add: lseg_frame [of ns0 h2 h'])
  show "map snd ns = cs" if "list_seg h2 (ll_head l2) ns None"
    using lseg_unique [OF that seg2] ns0(2) by simp
  show "ll_size l2 = int (length cs) + 1" using l2 l1(4) by simp
  have "snd ` set ns0 = set cs" by (simp flip: ns0(2))
  then show "linked_list_contains h2 l2 d = Some (d \<in> set cs)"
    using contains_loop_seg [OF seg2] by (simp add: linked_list_contains_def)
qed

subsection \<open>The contracts of the list\<close>

locale sequence =
  fixes rep :: "'h \<Rightarrow> 'l \<Rightarrow> 'v list \<Rightarrow> bool"
    and chain :: "'h \<Rightarrow> 'l \<Rightarrow> 'v list \<Rightarrow> bool"
    and push :: "'h \<Rightarrow> 'l \<Rightarrow> 'v \<Rightarrow> ('h \<times> 'l) option"
    and contains :: "'h \<Rightarrow> 'l \<Rightarrow> 'v \<Rightarrow> bool option"
    and size_of :: "'l \<Rightarrow> int"
    and room :: int
  assumes rep_chain: "rep h l vs \<Longrightarrow> chain h l vs"
    and rep_push: "rep h l vs \<Longrightarrow> int (length vs) < room \<Longrightarrow>
      \<exists>h' l'. push h l v = Some (h', l') \<and> rep h' l' (vs @ [v])"
    and chain_contains: "chain h l vs \<Longrightarrow> contains h l v = Some (v \<in> set vs)"
    and chain_size: "chain h l vs \<Longrightarrow> size_of l = int (length vs)"
begin

lemma push_exact:
  "rep h l vs \<Longrightarrow> int (length vs) < room \<Longrightarrow> push h l v = Some (h', l') \<Longrightarrow> rep h' l' (vs @ [v])"
  using rep_push [of h l vs v] by auto

lemma contains_pushed:
  "rep h l vs \<Longrightarrow> int (length vs) < room \<Longrightarrow> push h l v = Some (h', l') \<Longrightarrow>
   contains h' l' v = Some True"
  using chain_contains [OF rep_chain [OF push_exact]] by simp

lemma size_pos_iff: "chain h l vs \<Longrightarrow> 0 < size_of l \<longleftrightarrow> vs \<noteq> []"
  using chain_size by fastforce

end

locale work_list = sequence rep chain push contains size_of room
  for rep :: "'h \<Rightarrow> 'l \<Rightarrow> 'v list \<Rightarrow> bool"
    and chain :: "'h \<Rightarrow> 'l \<Rightarrow> 'v list \<Rightarrow> bool"
    and push :: "'h \<Rightarrow> 'l \<Rightarrow> 'v \<Rightarrow> ('h \<times> 'l) option"
    and contains :: "'h \<Rightarrow> 'l \<Rightarrow> 'v \<Rightarrow> bool option"
    and size_of :: "'l \<Rightarrow> int"
    and room :: int +
  fixes remove :: "'h \<Rightarrow> 'l \<Rightarrow> 'v \<Rightarrow> ('h \<times> 'l) option"
    and minimum :: "'s \<Rightarrow> 'h \<Rightarrow> 'l \<Rightarrow> 'v option"
    and readable :: "'s \<Rightarrow> 'v \<Rightarrow> bool"
    and key :: "'s \<Rightarrow> 'v \<Rightarrow> int"
  assumes chain_remove: "chain h l vs \<Longrightarrow> \<exists>h' l'. remove h l v = Some (h', l') \<and> chain h' l' (remove1 v vs)"
    and chain_minimum: "chain h l (v # vs) \<Longrightarrow> (\<And>u. u \<in> set (v # vs) \<Longrightarrow> readable st u) \<Longrightarrow>
      minimum st h l = Some (first_min (key st) v vs)"
begin

lemma remove_exact: "chain h l vs \<Longrightarrow> remove h l v = Some (h', l') \<Longrightarrow> chain h' l' (remove1 v vs)"
  using chain_remove [of h l vs v] by auto

text \<open>Taking out a minimum: it is defined, least among the elements, and leaves the others.\<close>

lemma take_minimum:
  assumes "chain h l vs" and "vs \<noteq> []" and "\<And>u. u \<in> set vs \<Longrightarrow> readable st u"
  obtains v h' l' where "minimum st h l = Some v" and "v \<in> set vs"
    and "\<And>u. u \<in> set vs \<Longrightarrow> key st v \<le> key st u"
    and "remove h l v = Some (h', l')" and "chain h' l' (remove1 v vs)"
proof -
  from assms(2) obtain w ws where vs: "vs = w # ws" by (cases vs) auto
  let ?v = "first_min (key st) w ws"
  have "minimum st h l = Some ?v" using chain_minimum assms(1,3) unfolding vs by blast
  moreover have "?v \<in> set vs" using first_min_in [of "key st" w ws] vs by auto
  moreover have "\<And>u. u \<in> set vs \<Longrightarrow> key st ?v \<le> key st u"
    using first_min_le [of _ w ws "key st"] vs by auto
  moreover obtain h' l' where "remove h l ?v = Some (h', l')" "chain h' l' (remove1 ?v vs)"
    using chain_remove [OF assms(1)] by blast
  ultimately show thesis by (rule that)
qed

end

interpretation cell_list: work_list list_rep list_chain linked_list_push linked_list_contains ll_size
    INT_MAX linked_list_remove get_minimum_distance "\<lambda>st p. load_cell st p \<noteq> None" dist_of
  by unfold_locales
    (auto simp: list_repD list_rep_push list_chain_contains list_chain_size list_chain_remove
      intro!: list_chain_min)

subsection \<open>Sequences of operations\<close>

text \<open>
  What a caller observes of the operations other than removal, on the code and on a list. The
  specification has no value where the code has undefined behaviour: linked_list_pop_last on a
  list of one element, and linked_list_push on a list of INT_MAX elements.
\<close>

datatype list_op = LPush cell_ptr | LPopFirst | LPopLast | LFirst | LLast | LContains cell_ptr

datatype list_out = OCell cell_ptr | OBool bool

fun run_list :: "list_op list \<Rightarrow> list_heap \<Rightarrow> linked_list \<Rightarrow> list_out list option" where
  "run_list [] h l = Some []"
| "run_list (LPush c # ops) h l = do { (h', l') \<leftarrow> linked_list_push h l c; run_list ops h' l' }"
| "run_list (LPopFirst # ops) h l =
     do { (c, h', l') \<leftarrow> linked_list_pop_first h l; out \<leftarrow> run_list ops h' l'; Some (OCell c # out) }"
| "run_list (LPopLast # ops) h l =
     do { (c, h', l') \<leftarrow> linked_list_pop_last h l; out \<leftarrow> run_list ops h' l'; Some (OCell c # out) }"
| "run_list (LFirst # ops) h l =
     do { c \<leftarrow> linked_list_first h l; out \<leftarrow> run_list ops h l; Some (OCell c # out) }"
| "run_list (LLast # ops) h l =
     do { c \<leftarrow> linked_list_last h l; out \<leftarrow> run_list ops h l; Some (OCell c # out) }"
| "run_list (LContains c # ops) h l =
     do { b \<leftarrow> linked_list_contains h l c; out \<leftarrow> run_list ops h l; Some (OBool b # out) }"

fun spec_list :: "list_op list \<Rightarrow> cell_ptr list \<Rightarrow> list_out list option" where
  "spec_list [] cs = Some []"
| "spec_list (LPush c # ops) cs =
     (if int (length cs) < INT_MAX then spec_list ops (cs @ [c]) else None)"
| "spec_list (LPopFirst # ops) cs =
     map_option (Cons (OCell (if cs = [] then None else hd cs))) (spec_list ops (tl cs))"
| "spec_list (LPopLast # ops) cs =
     (if length cs = 1 then None
      else map_option (Cons (OCell (if cs = [] then None else last cs))) (spec_list ops (butlast cs)))"
| "spec_list (LFirst # ops) cs =
     map_option (Cons (OCell (if cs = [] then None else hd cs))) (spec_list ops cs)"
| "spec_list (LLast # ops) cs =
     map_option (Cons (OCell (if cs = [] then None else last cs))) (spec_list ops cs)"
| "spec_list (LContains c # ops) cs = map_option (Cons (OBool (c \<in> set cs))) (spec_list ops cs)"

lemma list_rep_pop_first_nil: "list_rep h l [] \<Longrightarrow> linked_list_pop_first h l = Some (None, h, l)"
  and list_rep_pop_last_nil: "list_rep h l [] \<Longrightarrow> linked_list_pop_last h l = Some (None, h, l)"
  by (simp_all add: list_rep_def linked_list_pop_first_def linked_list_pop_last_def)

lemma run_list_rep: "list_rep h l cs \<Longrightarrow> run_list ops h l = spec_list ops cs"
proof (induction ops cs arbitrary: h l rule: spec_list.induct)
  case (2 c ops cs)
  with list_rep_push [OF 2(2), of c] list_rep_push_full [OF 2(2), of c] show ?case by fastforce
next
  case (3 ops cs)
  show ?case
  proof (cases cs)
    case Nil
    with 3 show ?thesis by (simp add: list_rep_pop_first_nil bind_map_option)
  next
    case (Cons c ds)
    with list_rep_pop_first [of h l c ds] 3 show ?thesis by (auto simp: bind_map_option)
  qed
next
  case (4 ops cs)
  show ?case
  proof (cases cs rule: rev_cases)
    case Nil
    with 4 show ?thesis by (simp add: list_rep_pop_last_nil bind_map_option)
  next
    case (snoc ds c)
    show ?thesis
    proof (cases ds rule: rev_cases)
      case Nil
      with snoc 4(2) show ?thesis by (simp add: list_rep_pop_last_single)
    next
      case (snoc es d)
      with \<open>cs = ds @ [c]\<close> list_rep_pop_last [of h l es d c] 4 show ?thesis
        by (auto simp: bind_map_option butlast_append)
    qed
  qed
next
  case (5 ops cs)
  with list_rep_first [OF list_repD [OF 5(2)]] show ?case
    by (cases cs) (simp_all add: bind_map_option)
next
  case (6 ops cs)
  with list_rep_last [OF 6(2)] show ?case by (simp add: bind_map_option)
next
  case (7 c ops cs)
  with list_chain_contains [OF list_repD [OF 7(2)], of c] show ?case by (simp add: bind_map_option)
qed simp

text \<open>C35: any sequence of linked_list_push, pop_first, pop_last, first, last and contains calls on a
  new list gives exactly the results of the same calls on a list. It is undefined exactly where
  linked_list_pop_last is called on a list of one element (its loop runs past the end, although
  linked_list.h promises the last cell) and where linked_list_push is called on INT_MAX elements
  (size++ overflows). (As everywhere on this heap, malloc does not fail: linked_list_push
  dereferences its result unchecked.)\<close>

theorem linked_list_implements_sequence:
  "run_list ops empty_heap empty_list = spec_list ops []"
  by (simp add: run_list_rep list_rep_empty)

text \<open>C36: linked_list_remove takes out the first node that holds the cell and nothing else: on a
  well-formed list it is defined, later membership tests see the list without that element, and
  the size field is right; the list stays well-formed when the removed node is not the last.\<close>

theorem linked_list_remove_correct:
  assumes "list_rep h l (cs @ [d])"
  shows "\<exists>h' l'. linked_list_remove h l c = Some (h', l') \<and>
    ll_size l' = int (length (remove1 c (cs @ [d]))) \<and>
    (\<forall>e. linked_list_contains h' l' e = Some (e \<in> set (remove1 c (cs @ [d])))) \<and>
    (c \<in> set cs \<or> c \<noteq> d \<longrightarrow> list_rep h' l' (remove1 c cs @ [d]))"
proof -
  obtain h' l' where run: "linked_list_remove h l c = Some (h', l')"
    and chain: "list_chain h' l' (remove1 c (cs @ [d]))"
    using list_chain_remove [OF list_repD [OF assms]] by blast
  moreover have "list_rep h' l' (remove1 c cs @ [d])" if "c \<in> set cs \<or> c \<noteq> d"
    using list_rep_remove_inner [OF assms that] run by auto
  ultimately show ?thesis
    using cell_list.chain_contains [OF chain] cell_list.chain_size [OF chain] by blast
qed

text \<open>Linked_list_remove leaves the last field on the node it removed when that node was the
  last one: a cell pushed next is counted by the size field but is on no chain from head, so
  linked_list_contains does not find it.\<close>

lemma remove_last_then_push_loses_cell:
  assumes "list_rep h l (cs @ [c])" and "c \<notin> set cs" and "cs \<noteq> []" and "d \<notin> set cs"
    and "linked_list_remove h l c = Some (h1, l1)"
    and "linked_list_push h1 l1 d = Some (h2, l2)"
  shows "linked_list_contains h2 l2 d = Some False \<and> ll_size l2 = int (length cs) + 1 \<and>
    \<not> list_chain h2 l2 (cs @ [d])"
proof -
  note stale = stale_last_after_remove [OF assms(1,2,3,5,6)]
  have "\<not> list_chain h2 l2 (cs @ [d])"
  proof
    assume "list_chain h2 l2 (cs @ [d])"
    then obtain ns where "list_seg h2 (ll_head l2) ns None" "map snd ns = cs @ [d]"
      by (auto simp: list_chain_def)
    with stale(1) show False by force
  qed
  with stale(2,3) assms(4) show ?thesis by simp
qed

text \<open>Concrete heaps for the witnesses: the list of the cells (0, 0), (0, 1).\<close>

definition two_heap :: list_heap where
  "two_heap = \<lparr>blocks = (\<lambda>_. None)
     (0 := Some \<lparr>ln_cell = Some (0, 0), ln_next = Some 1\<rparr>,
      1 := Some \<lparr>ln_cell = Some (0, 1), ln_next = None\<rparr>), fresh = 2\<rparr>"

definition two_list :: linked_list where
  "two_list = \<lparr>ll_head = Some 0, ll_last = Some 1, ll_size = 2\<rparr>"

lemma list_rep_two: "list_rep two_heap two_list ([Some (0, 0)] @ [Some (0, 1)])"
  by (auto simp: list_rep_def two_heap_def two_list_def heap_ok_def INT_MAX_def
      intro!: exI [of _ "[(0, Some (0, 0)), (1, Some (0, 1))]"])

theorem linked_list_remove_correct_witness:
  "\<exists>h' l'. linked_list_remove two_heap two_list (Some (0, 0)) = Some (h', l') \<and>
    list_rep h' l' [Some (0, 1)]"
  using linked_list_remove_correct [OF list_rep_two, of "Some (0, 0)"] by auto

lemma remove_last_then_push_loses_cell_witness:
  "\<exists>h1 l1 h2 l2. linked_list_remove two_heap two_list (Some (0, 1)) = Some (h1, l1) \<and>
    linked_list_push h1 l1 (Some (5, 5)) = Some (h2, l2) \<and>
    linked_list_contains h2 l2 (Some (5, 5)) = Some False"
proof -
  have rem: "linked_list_remove two_heap two_list (Some (0, 1)) =
      Some (two_heap\<lparr>blocks := (blocks two_heap)
        (0 := Some \<lparr>ln_cell = Some (0, 0), ln_next = None\<rparr>)\<rparr>, two_list\<lparr>ll_size := 1\<rparr>)"
    (is "_ = Some (?h1, ?l1)")
    by (simp add: model_defs two_heap_def two_list_def)
  obtain h2 l2 where push: "linked_list_push ?h1 ?l1 (Some (5, 5)) = Some (h2, l2)"
    by (simp add: model_defs two_heap_def two_list_def)
  have "linked_list_contains h2 l2 (Some (5, 5)) = Some False"
    using remove_last_then_push_loses_cell [OF list_rep_two _ _ _ rem push] by simp
  with rem push show ?thesis by blast
qed

end
