(* ===== verification/Grid_Graph.thy ===== *)
theory Grid_Graph
  imports Maze_Types
begin

text \<open>
  Graph theory for mazes, on a symmetric edge relation: trees grown leaf by leaf, walks given by
  the vertices they visit, and the grid's connectivity. A tree in this sense connects any two of
  its vertices by exactly one walk without repetition, which is what makes a maze perfect.
\<close>

subsection \<open>Walks\<close>

fun walk :: "('v \<times> 'v) set \<Rightarrow> 'v list \<Rightarrow> bool" where
  "walk E [] = False"
| "walk E [u] = True"
| "walk E (u # v # ps) = ((u, v) \<in> E \<and> walk E (v # ps))"

definition simple_walk :: "('v \<times> 'v) set \<Rightarrow> 'v \<Rightarrow> 'v list \<Rightarrow> 'v \<Rightarrow> bool" where
  "simple_walk E u ps v \<longleftrightarrow> walk E ps \<and> hd ps = u \<and> last ps = v \<and> distinct ps"

lemma walk_nonempty [simp]: "walk E ps \<Longrightarrow> ps \<noteq> []"
  by auto

lemma walk_Cons: "walk E (u # ps) \<longleftrightarrow> ps = [] \<or> (u, hd ps) \<in> E \<and> walk E ps"
  by (cases ps) auto

lemma walk_append:
  "ps \<noteq> [] \<Longrightarrow> qs \<noteq> [] \<Longrightarrow>
   walk E (ps @ qs) \<longleftrightarrow> walk E ps \<and> (last ps, hd qs) \<in> E \<and> walk E qs"
  by (induction ps) (auto simp: walk_Cons)

lemma walk_rev: "sym E \<Longrightarrow> walk E ps \<Longrightarrow> walk E (rev ps)"
proof (induction ps)
  case Nil
  then show ?case by simp
next
  case (Cons u ps)
  then show ?case
    by (cases "ps = []") (auto simp: walk_append walk_Cons last_rev dest: symD)
qed

lemma walk_mono: "E \<subseteq> F \<Longrightarrow> walk E ps \<Longrightarrow> walk F ps"
  by (induction ps) (auto simp: walk_Cons)

lemma walk_rtrancl: "walk E ps \<Longrightarrow> (hd ps, last ps) \<in> E\<^sup>*"
  by (induction ps) (auto simp: walk_Cons intro: converse_rtrancl_into_rtrancl)

lemma walk_relpow: "walk E ps \<Longrightarrow> (hd ps, last ps) \<in> E ^^ (length ps - 1)"
proof (induction ps)
  case Nil
  then show ?case by simp
next
  case (Cons u ps)
  show ?case
  proof (cases "ps = []")
    case True
    then show ?thesis by simp
  next
    case False
    with Cons have "(u, hd ps) \<in> E" "(hd ps, last ps) \<in> E ^^ (length ps - 1)"
      by (auto simp: walk_Cons)
    then have "(u, last ps) \<in> E ^^ Suc (length ps - 1)" by (rule relpow_Suc_I2)
    with False show ?thesis by simp
  qed
qed

lemma simple_walk_rev: "sym E \<Longrightarrow> simple_walk E u ps v \<Longrightarrow> simple_walk E v (rev ps) u"
  by (auto simp: simple_walk_def walk_rev hd_rev last_rev)

text \<open>A walk that avoids a vertex does not use the edges at it.\<close>

lemma walk_avoid: "walk (E \<union> {(u, w), (w, u)}) ps \<Longrightarrow> w \<notin> set ps \<Longrightarrow> walk E ps"
  by (induction ps) (auto simp: walk_Cons)

subsection \<open>Trees\<close>

inductive tree_graph :: "'v set \<Rightarrow> ('v \<times> 'v) set \<Rightarrow> bool" where
  tree_root: "tree_graph {r} {}"
| tree_leaf: "tree_graph V E \<Longrightarrow> u \<in> V \<Longrightarrow> w \<notin> V \<Longrightarrow>
     tree_graph (insert w V) (E \<union> {(u, w), (w, u)})"

lemma tree_finite: "tree_graph V E \<Longrightarrow> finite V"
  by (induction rule: tree_graph.induct) auto

lemma tree_nonempty: "tree_graph V E \<Longrightarrow> V \<noteq> {}"
  by (induction rule: tree_graph.induct) auto

lemma tree_within: "tree_graph V E \<Longrightarrow> E \<subseteq> V \<times> V"
  by (induction rule: tree_graph.induct) auto

lemma tree_sym: "tree_graph V E \<Longrightarrow> sym E"
  by (induction rule: tree_graph.induct) (auto simp: sym_def)

lemma tree_card: "tree_graph V E \<Longrightarrow> card E = 2 * (card V - 1)"
proof (induction rule: tree_graph.induct)
  case (tree_root r)
  then show ?case by simp
next
  case (tree_leaf V E u w)
  have "(u, w) \<notin> E" "(w, u) \<notin> E" "u \<noteq> w"
    using tree_within [OF tree_leaf(1)] tree_leaf(2,3) by auto
  moreover have "finite V" by (rule tree_finite [OF tree_leaf(1)])
  moreover from this have "finite E"
    using tree_within [OF tree_leaf(1)] by (auto intro: finite_subset)
  moreover have "0 < card V" using tree_leaf(2) \<open>finite V\<close> by (auto simp: card_gt_0_iff)
  ultimately show ?case using tree_leaf by simp
qed

lemma walk_within: "walk E ps \<Longrightarrow> E \<subseteq> V \<times> V \<Longrightarrow> hd ps \<in> V \<Longrightarrow> set ps \<subseteq> V"
  by (induction ps) (auto simp: walk_Cons)

text \<open>A new leaf w at u: a walk without repetition meets w at an end only.\<close>

lemma leaf_not_inside:
  assumes "walk (E \<union> {(u, w), (w, u)}) ps" and "distinct ps" and "E \<subseteq> V \<times> V" and "w \<notin> V"
    and "hd ps \<noteq> w" and "last ps \<noteq> w"
  shows "w \<notin> set ps"
proof
  assume "w \<in> set ps"
  then obtain xs ys where ps: "ps = xs @ w # ys" by (auto dest: split_list)
  with assms(5,6) have ne: "xs \<noteq> []" "ys \<noteq> []" by (auto split: if_splits)
  with assms(1) ps have "(last xs, w) \<in> E \<union> {(u, w), (w, u)}" "(w, hd ys) \<in> E \<union> {(u, w), (w, u)}"
    by (auto simp: walk_append walk_Cons)
  with assms(3,4) have "last xs = u \<or> w = u" "hd ys = u" by auto
  moreover have "last xs \<in> set xs" "hd ys \<in> set ys" using ne by auto
  ultimately show False using assms(2) ps by auto
qed

text \<open>A leaf w hung on x: walks inside the tree do not visit it, walks from it begin at x.\<close>

lemma leaf_walk_inside:
  assumes within: "E \<subseteq> V \<times> V" and w: "w \<notin> V" and ab: "a \<in> V" "b \<in> V" and one: "\<exists>!ps. simple_walk E a ps b"
  shows "\<exists>!ps. simple_walk (E \<union> {(x, w), (w, x)}) a ps b"
proof -
  let ?F = "E \<union> {(x, w), (w, x)}"
  from one obtain ps where ps: "simple_walk E a ps b"
    and uniq: "\<And>qs. simple_walk E a qs b \<Longrightarrow> qs = ps" by auto
  have "simple_walk ?F a ps b" using ps walk_mono [of E ?F] by (auto simp: simple_walk_def)
  moreover have "qs = ps" if qs: "simple_walk ?F a qs b" for qs
  proof -
    have "w \<notin> set qs"
      using qs ab w by (intro leaf_not_inside [OF _ _ within w]) (auto simp: simple_walk_def)
    with qs have "simple_walk E a qs b" using walk_avoid by (auto simp: simple_walk_def)
    then show ?thesis by (rule uniq)
  qed
  ultimately show ?thesis by blast
qed

lemma leaf_walk_from:
  assumes within: "E \<subseteq> V \<times> V" and w: "w \<notin> V" and xb: "x \<in> V" "b \<in> V"
    and one: "\<exists>!ps. simple_walk (E \<union> {(x, w), (w, x)}) x ps b"
  shows "\<exists>!ps. simple_walk (E \<union> {(x, w), (w, x)}) w ps b"
proof -
  let ?F = "E \<union> {(x, w), (w, x)}"
  from one obtain ps where ps: "simple_walk ?F x ps b" and uniq: "\<And>qs. simple_walk ?F x qs b \<Longrightarrow> qs = ps" by auto
  have "w \<notin> set ps"
    using ps xb w by (intro leaf_not_inside [OF _ _ within w]) (auto simp: simple_walk_def)
  with ps have "simple_walk ?F w (w # ps) b" by (auto simp: simple_walk_def walk_Cons)
  moreover have "qs = w # ps" if qs: "simple_walk ?F w qs b" for qs
  proof -
    from qs obtain rs where rs: "qs = w # rs" by (cases qs) (auto simp: simple_walk_def)
    with qs xb w have "rs \<noteq> []" by (auto simp: simple_walk_def)
    with qs rs have "(w, hd rs) \<in> ?F" "walk ?F rs" "w \<notin> set rs" "distinct rs" "last rs = b"
      by (auto simp: simple_walk_def walk_Cons)
    moreover from this within w have "hd rs = x" by (auto dest: subsetD)
    ultimately have "simple_walk ?F x rs b" by (simp add: simple_walk_def)
    with uniq rs show ?thesis by simp
  qed
  ultimately show ?thesis by blast
qed

lemma tree_unique_walk:
  "tree_graph V E \<Longrightarrow> u \<in> V \<Longrightarrow> v \<in> V \<Longrightarrow> \<exists>!ps. simple_walk E u ps v"
proof (induction arbitrary: u v rule: tree_graph.induct)
  case (tree_root r)
  have "ps = [r]" if "simple_walk {} r ps r" for ps
    using that by (cases ps) (auto simp: simple_walk_def walk_Cons)
  moreover have "simple_walk {} r [r] r" by (simp add: simple_walk_def)
  ultimately show ?case using tree_root by auto
next
  case (tree_leaf V E x w)
  let ?F = "E \<union> {(x, w), (w, x)}"
  note within = tree_within [OF tree_leaf(1)]
  have symF: "sym ?F" using tree_sym [OF tree_leaf(1)] by (auto simp: sym_def)
  have inside: "\<exists>!ps. simple_walk ?F a ps b" if "a \<in> V" "b \<in> V" for a b
    by (rule leaf_walk_inside [OF within tree_leaf(3) that tree_leaf(4) [OF that]])
  have from_leaf: "\<exists>!ps. simple_walk ?F w ps b" if "b \<in> V" for b
    by (rule leaf_walk_from [OF within tree_leaf(3,2) that inside [OF tree_leaf(2) that]])
  have at_leaf: "\<exists>!ps. simple_walk ?F w ps w"
  proof -
    have "ps = [w]" if "simple_walk ?F w ps w" for ps
      using that by (cases ps) (auto simp: simple_walk_def split: if_splits)
    moreover have "simple_walk ?F w [w] w" by (simp add: simple_walk_def)
    ultimately show ?thesis by blast
  qed
  have to_leaf: "\<exists>!ps. simple_walk ?F a ps w" if "a \<in> V" for a
    using from_leaf [OF that] simple_walk_rev [OF symF] by (metis rev_rev_ident)
  from tree_leaf(5,6) consider "u = w" "v = w" | "u = w" "v \<in> V" | "u \<in> V" "v = w"
    | "u \<in> V" "v \<in> V" by blast
  then show ?case
    by cases (simp_all only: inside from_leaf at_leaf to_leaf)
qed

lemma tree_connected: "tree_graph V E \<Longrightarrow> u \<in> V \<Longrightarrow> v \<in> V \<Longrightarrow> (u, v) \<in> E\<^sup>*"
  using tree_unique_walk [of V E u v] walk_rtrancl by (fastforce simp: simple_walk_def)

text \<open>A walk without repetition has fewer steps than there are vertices.\<close>

lemma tree_relpow_bound:
  assumes "tree_graph V E" "u \<in> V" "v \<in> V"
  obtains n where "n < card V" and "(u, v) \<in> E ^^ n"
proof -
  from tree_unique_walk [OF assms] obtain ps where ps: "simple_walk E u ps v" by blast
  then have walk: "walk E ps" "hd ps = u" "last ps = v" "distinct ps"
    by (auto simp: simple_walk_def)
  have "set ps \<subseteq> V" using walk_within [OF walk(1) tree_within [OF assms(1)]] walk(2) assms(2) by simp
  then have "length ps \<le> card V"
    using walk(4) tree_finite [OF assms(1)] by (metis card_mono distinct_card)
  moreover have "0 < length ps" using walk(1) by auto
  ultimately have "length ps - 1 < card V" by linarith
  moreover have "(u, v) \<in> E ^^ (length ps - 1)" using walk_relpow [OF walk(1)] walk(2,3) by simp
  ultimately show thesis by (rule that)
qed

subsection \<open>The grid\<close>

lemma grid_closed_set:
  assumes start: "(0, 0) \<in> S"
    and closed: "\<And>p q. p \<in> S \<Longrightarrow> q \<in> grid w h \<Longrightarrow> next_to p q \<Longrightarrow> q \<in> S"
    and sub: "S \<subseteq> grid w h"
  shows "S = grid w h"
proof -
  have rows: "int i < h \<Longrightarrow> (int i, 0) \<in> S" for i
  proof (induction i)
    case 0
    with start show ?case by simp
  next
    case (Suc i)
    then have "(int i, 0) \<in> S" by simp
    moreover have "0 < w" using start sub by auto
    ultimately show ?case
      using Suc.prems closed [of "(int i, 0)" "(int (Suc i), 0)"] by (auto simp: next_to_def)
  qed
  have "int i < h \<Longrightarrow> int j < w \<Longrightarrow> (int i, int j) \<in> S" for i j
  proof (induction j)
    case 0
    with rows show ?case by simp
  next
    case (Suc j)
    then have "(int i, int j) \<in> S" by simp
    then show ?case
      using Suc.prems closed [of "(int i, int j)" "(int i, int (Suc j))"]
      by (auto simp: next_to_def)
  qed
  then have "grid w h \<subseteq> S"
    by (auto simp: grid_def) (metis int_nat_eq zless_nat_eq_int_zless)
  with sub show ?thesis by simp
qed

end
