(* ===== verification/Maze_Gen.thy ===== *)
theory Maze_Gen
  imports Stack_Model Grid_Graph
begin

text \<open>
  generate_maze of game/maze.c: the randomised depth-first maze generator, on the explicit stack
  of Stack_Model and the store of cells.

  Parameters stand for what the code takes from outside: rnd k is the value of the k-th call of
  rand, and junk p the contents malloc leaves in cell block p (the code does not initialise dist
  and prev). gen_state is the state of the while loop: the cells, the stack with its heap, and the
  number of calls of rand so far. gen_body is one iteration of the loop, gen_loop the loop.

  The invariant gen_inv says that the visited cells and the passages form a tree and that a
  visited cell that is off the stack has only visited neighbours. No cell is on the stack twice, so
  on a grid of at most INT_MAX cells its size field does not overflow. Twice the number of unvisited
  cells plus the height of the stack falls by one in every iteration.
\<close>

subsection \<open>The code\<close>

definition init_cell :: "int \<Rightarrow> int \<Rightarrow> cell \<Rightarrow> cell" where
  "init_cell i j c =
     c\<lparr>c_x := j, c_y := i, visited := False, top_wall := True, bottom_wall := True,
       left_wall := True, right_wall := True\<rparr>"

text \<open>The initialisation loops, row by row; block (i, j) appears when it is allocated.\<close>

definition init_row :: "(cell_id \<Rightarrow> cell) \<Rightarrow> int \<Rightarrow> int \<Rightarrow> cell_store \<Rightarrow> cell_store" where
  "init_row junk w i st = fold (\<lambda>j st. st((i, j) := Some (init_cell i j (junk (i, j))))) [0..w - 1] st"

definition init_cells :: "(cell_id \<Rightarrow> cell) \<Rightarrow> int \<Rightarrow> int \<Rightarrow> cell_store" where
  "init_cells junk w h = fold (init_row junk w) [0..h - 1] (\<lambda>_. None)"

record gen_state =
  g_cells :: cell_store
  g_heap :: stack_heap
  g_stack :: stack
  g_rand :: nat

text \<open>One of the four tests for an unvisited neighbour; cond is its bounds check.\<close>

definition add_unvisited ::
  "cell_store \<Rightarrow> int \<Rightarrow> int \<Rightarrow> bool \<Rightarrow> int \<Rightarrow> int \<Rightarrow> cell_ptr list \<Rightarrow> cell_ptr list option" where
  "add_unvisited st w h cond i j neighbours =
     (if cond then do {
        p \<leftarrow> grid_ptr w h i j;
        c \<leftarrow> load_cell st p;
        Some (if visited c then neighbours else neighbours @ [p])
      } else Some neighbours)"

definition gen_neighbours ::
  "cell_store \<Rightarrow> int \<Rightarrow> int \<Rightarrow> int \<Rightarrow> int \<Rightarrow> cell_ptr list option" where
  "gen_neighbours st w h x y =
     do {
       ns \<leftarrow> add_unvisited st w h (x > 0) y (x - 1) [];
       ns \<leftarrow> add_unvisited st w h (x < w - 1) y (x + 1) ns;
       ns \<leftarrow> add_unvisited st w h (y > 0) (y - 1) x ns;
       add_unvisited st w h (y < h - 1) (y + 1) x ns
     }"

definition remove_wall ::
  "cell_store \<Rightarrow> cell_ptr \<Rightarrow> cell_ptr \<Rightarrow> int \<Rightarrow> int \<Rightarrow> cell_store option" where
  "remove_wall st current_cell neighbour x y =
     do {
       n \<leftarrow> load_cell st neighbour;
       if c_x n = x - 1 then do {
         st \<leftarrow> store_cell st current_cell (left_wall_update (\<lambda>_. False));
         store_cell st neighbour (right_wall_update (\<lambda>_. False))
       }
       else if c_x n = x + 1 then do {
         st \<leftarrow> store_cell st current_cell (right_wall_update (\<lambda>_. False));
         store_cell st neighbour (left_wall_update (\<lambda>_. False))
       }
       else if c_y n = y - 1 then do {
         st \<leftarrow> store_cell st current_cell (top_wall_update (\<lambda>_. False));
         store_cell st neighbour (bottom_wall_update (\<lambda>_. False))
       }
       else if c_y n = y + 1 then do {
         st \<leftarrow> store_cell st current_cell (bottom_wall_update (\<lambda>_. False));
         store_cell st neighbour (top_wall_update (\<lambda>_. False))
       }
       else Some st
     }"

definition gen_body :: "(nat \<Rightarrow> nat) \<Rightarrow> int \<Rightarrow> int \<Rightarrow> gen_state \<Rightarrow> gen_state option" where
  "gen_body rnd w h g =
     do {
       (current_cell, stack) \<leftarrow> stack_pop (g_heap g) (g_stack g);
       c \<leftarrow> load_cell (g_cells g) current_cell;
       let x = c_x c;
       let y = c_y c;
       neighbours \<leftarrow> gen_neighbours (g_cells g) w h x y;
       if length neighbours > 0 then do {
         (heap, stack) \<leftarrow> stack_push (g_heap g) stack current_cell;
         let neighbour = neighbours ! (rnd (g_rand g) mod length neighbours);
         st \<leftarrow> remove_wall (g_cells g) current_cell neighbour x y;
         st \<leftarrow> store_cell st neighbour (visited_update (\<lambda>_. True));
         (heap, stack) \<leftarrow> stack_push heap stack neighbour;
         Some \<lparr>g_cells = st, g_heap = heap, g_stack = stack, g_rand = Suc (g_rand g)\<rparr>
       }
       else Some (g\<lparr>g_stack := stack\<rparr>)
     }"

partial_function (option) gen_loop ::
  "(nat \<Rightarrow> nat) \<Rightarrow> int \<Rightarrow> int \<Rightarrow> gen_state \<Rightarrow> gen_state option" where
  "gen_loop rnd w h g =
     (if st_size (g_stack g) > 0
      then do { g' \<leftarrow> gen_body rnd w h g; gen_loop rnd w h g' }
      else Some g)"

text \<open>The code before the loop: the cells, the mark on cells[0][0], and the first push.\<close>

definition gen_start :: "(cell_id \<Rightarrow> cell) \<Rightarrow> int \<Rightarrow> int \<Rightarrow> gen_state option" where
  "gen_start junk w h =
     do {
       current_cell \<leftarrow> grid_ptr w h 0 0;
       st \<leftarrow> store_cell (init_cells junk w h) current_cell (visited_update (\<lambda>_. True));
       (heap, stack) \<leftarrow> stack_push empty_heap empty_stack current_cell;
       Some \<lparr>g_cells = st, g_heap = heap, g_stack = stack, g_rand = 0\<rparr>
     }"

definition generate_maze ::
  "(nat \<Rightarrow> nat) \<Rightarrow> (cell_id \<Rightarrow> cell) \<Rightarrow> vbe_mode_info \<Rightarrow> maze option" where
  "generate_maze rnd junk mode_info =
     (let cell_size = 100;
          maze_width = uint (XResolution mode_info) sdiv cell_size;
          maze_height = uint (YResolution mode_info) sdiv cell_size in
      do {
        g0 \<leftarrow> gen_start junk maze_width maze_height;
        g \<leftarrow> gen_loop rnd maze_width maze_height g0;
        Some \<lparr>m_width = maze_width, m_height = maze_height, m_cell_size = cell_size,
              m_cells = g_cells g\<rparr>
      })"

declare init_cell_def [model_defs] init_row_def [model_defs] init_cells_def [model_defs]
  add_unvisited_def [model_defs] gen_neighbours_def [model_defs] remove_wall_def [model_defs]
  gen_body_def [model_defs] gen_loop.simps [model_defs] gen_start_def [model_defs]
  generate_maze_def [model_defs]

subsection \<open>Initialisation\<close>

lemma fold_upd_upto:
  "fold (\<lambda>j st. st((i, j) := Some (f j))) js st p =
     (if fst p = i \<and> snd p \<in> set js then Some (f (snd p)) else st p)"
  by (induction js arbitrary: st) (auto simp: prod_eq_iff)

lemma init_row_apply:
  "init_row junk w i st p =
     (if fst p = i \<and> 0 \<le> snd p \<and> snd p < w then Some (init_cell i (snd p) (junk p)) else st p)"
  by (cases p) (auto simp: init_row_def fold_upd_upto)

lemma init_rows_apply:
  "fold (init_row junk w) is st p =
     (if fst p \<in> set is \<and> 0 \<le> snd p \<and> snd p < w then Some (init_cell (fst p) (snd p) (junk p)) else st p)"
  by (induction "is" arbitrary: st) (auto simp: init_row_apply)

lemma init_cells_apply:
  "init_cells junk w h p =
     (if p \<in> grid w h then Some (init_cell (fst p) (snd p) (junk p)) else None)"
  by (cases p) (auto simp: init_cells_def init_rows_apply)

subsection \<open>The visited cells\<close>

definition visited_set :: "cell_store \<Rightarrow> cell_id set" where
  "visited_set st = {p. \<exists>c. st p = Some c \<and> visited c}"

lemma visited_set_sub: "store_wf w h st \<Longrightarrow> visited_set st \<subseteq> grid w h"
  by (auto simp: visited_set_def intro: store_wf_grid)

text \<open>Cell c, which lies at p, with its wall towards q taken down.\<close>

definition open_towards :: "cell_id \<Rightarrow> cell_id \<Rightarrow> cell \<Rightarrow> cell" where
  "open_towards p q c =
     (if q = (fst p, snd p - 1) then c\<lparr>left_wall := False\<rparr>
      else if q = (fst p, snd p + 1) then c\<lparr>right_wall := False\<rparr>
      else if q = (fst p - 1, snd p) then c\<lparr>top_wall := False\<rparr>
      else c\<lparr>bottom_wall := False\<rparr>)"

lemma wall_open_towards:
  "next_to p q \<Longrightarrow> next_to p r \<Longrightarrow>
   wall_towards (open_towards p q c) p r \<longleftrightarrow> wall_towards c p r \<and> r \<noteq> q"
  by (cases p) (auto simp: next_to_def wall_towards_def open_towards_def)

lemma open_towards_fields [simp]:
  "c_x (open_towards p q c) = c_x c" "c_y (open_towards p q c) = c_y c"
  "visited (open_towards p q c) = visited c"
  by (simp_all add: open_towards_def)

definition carve :: "cell_id \<Rightarrow> cell_id \<Rightarrow> cell_store \<Rightarrow> cell_store" where
  "carve p q st =
     st(p := map_option (open_towards p q) (st p), q := map_option (open_towards q p) (st q))"

lemma passages_carve:
  assumes "next_to p q" and "st p \<noteq> None" and "st q \<noteq> None"
  shows "passages (carve p q st) = passages st \<union> {(p, q), (q, p)}"
proof -
  have "p \<noteq> q" "next_to q p" using assms(1) next_to_sym by auto
  then have "(a, b) \<in> passages (carve p q st) \<longleftrightarrow> (a, b) \<in> passages st \<union> {(p, q), (q, p)}" for a b
    using assms wall_open_towards [of p q b] wall_open_towards [of q p b]
    by (cases "a = p"; cases "a = q") (auto simp: passages_def carve_def)
  then show ?thesis by auto
qed

lemma passages_visited [simp]:
  "passages (st(q := map_option (visited_update f) (st q))) = passages st"
proof -
  have "wall_towards (visited_update f c) a b = wall_towards c a b" for a b c
    by (simp add: wall_towards_def)
  then show ?thesis by (auto simp: passages_def split: if_splits)
qed

lemma remove_wall_carve:
  assumes wf: "store_wf w h st" and p: "st p = Some c" and q: "q \<in> grid w h" and n: "next_to p q"
  shows "remove_wall st (Some p) (Some q) (c_x c) (c_y c) = Some (carve p q st)"
proof -
  from wf q obtain d where d: "st q = Some d" "c_y d = fst q" "c_x d = snd q" by (rule store_wfD)
  have c: "c_y c = fst p" "c_x c = snd p" using store_wf_coords [OF wf p] by auto
  obtain i j where ij: "p = (i, j)" by (cases p)
  from n ij consider "q = (i, j - 1)" | "q = (i, j + 1)" | "q = (i - 1, j)" | "q = (i + 1, j)"
    by (auto simp: next_to_def)
  then show ?thesis
    using p d c unfolding ij
    by cases (simp_all add: remove_wall_def carve_def open_towards_def)
qed

lemma store_wf_update:
  assumes "store_wf w h st" and "\<And>c. c_x (f c) = c_x c \<and> c_y (f c) = c_y c"
  shows "store_wf w h (st(q := map_option f (st q)))"
  using assms by (auto simp: store_wf_def)

lemma store_wf_carve: "store_wf w h st \<Longrightarrow> store_wf w h (carve p q st)"
  unfolding carve_def by (auto simp: store_wf_def)

lemma visited_carve [simp]: "visited_set (carve p q st) = visited_set st"
  by (auto simp: visited_set_def carve_def split: if_splits)

subsection \<open>One iteration\<close>

definition gen_inv :: "int \<Rightarrow> int \<Rightarrow> gen_state \<Rightarrow> cell_id list \<Rightarrow> bool" where
  "gen_inv w h g ps \<longleftrightarrow>
     stack_rep (g_heap g) (g_stack g) (map Some ps) \<and>
     store_wf w h (g_cells g) \<and>
     tree_graph (visited_set (g_cells g)) (passages (g_cells g)) \<and>
     (0, 0) \<in> visited_set (g_cells g) \<and>
     set ps \<subseteq> visited_set (g_cells g) \<and> distinct ps \<and>
     (\<forall>p \<in> visited_set (g_cells g) - set ps. \<forall>q \<in> grid w h. next_to p q \<longrightarrow> q \<in> visited_set (g_cells g))"

text \<open>The unvisited neighbours of a cell are the entries of neighbours.\<close>

lemma add_unvisited_eq:
  assumes wf: "store_wf w h st" and "cond \<Longrightarrow> (i, j) \<in> grid w h"
  shows "add_unvisited st w h cond i j (map Some ns) =
    Some (map Some (ns @ (if cond \<and> (i, j) \<notin> visited_set st then [(i, j)] else [])))"
proof (cases cond)
  case True
  with assms(2) have ij: "(i, j) \<in> grid w h" by simp
  from wf ij obtain c where "st (i, j) = Some c" by (rule store_wfD)
  with ij True show ?thesis by (auto simp: add_unvisited_def grid_ptr_def visited_set_def)
qed (simp add: add_unvisited_def)

lemma gen_neighbours_eq:
  assumes wf: "store_wf w h st" and p: "(y, x) \<in> grid w h"
  obtains qs where "gen_neighbours st w h x y = Some (map Some qs)"
    and "set qs = {q \<in> grid w h. next_to (y, x) q \<and> q \<notin> visited_set st}"
proof -
  let ?one = "\<lambda>cond q. if cond \<and> q \<notin> visited_set st then [q] else []"
  let ?qs = "?one (x > 0) (y, x - 1) @ ?one (x < w - 1) (y, x + 1) @
    ?one (y > 0) (y - 1, x) @ ?one (y < h - 1) (y + 1, x)"
  have "gen_neighbours st w h x y = Some (map Some ?qs)"
    using p add_unvisited_eq [OF wf, of "x > 0" y "x - 1" "[]"]
    by (simp add: gen_neighbours_def add_unvisited_eq [OF wf] del: map_append)
  moreover have "set ?qs = {q \<in> grid w h. next_to (y, x) q \<and> q \<notin> visited_set st}"
    using p by (auto simp: next_to_def)
  ultimately show thesis by (rule that)
qed

text \<open>A dead end: the cell is dropped from the stack, the maze is unchanged.\<close>

lemma gen_body_dead_end:
  assumes inv: "gen_inv w h g (p # ps)"
    and dead: "\<forall>q \<in> grid w h. next_to p q \<longrightarrow> q \<in> visited_set (g_cells g)"
  obtains s where "gen_body rnd w h g = Some (g\<lparr>g_stack := s\<rparr>)"
    and "gen_inv w h (g\<lparr>g_stack := s\<rparr>) ps"
proof -
  from inv have rep: "stack_rep (g_heap g) (g_stack g) (Some p # map Some ps)"
    and wf: "store_wf w h (g_cells g)" and p: "p \<in> visited_set (g_cells g)"
    by (auto simp: gen_inv_def)
  from lifo_stack.rep_pop [OF rep] obtain s where s: "stack_pop (g_heap g) (g_stack g) = Some (Some p, s)"
    "stack_rep (g_heap g) s (map Some ps)" by blast
  from p obtain c where c: "g_cells g p = Some c" by (auto simp: visited_set_def)
  with wf have xy: "p = (c_y c, c_x c)" and pg: "p \<in> grid w h"
    by (auto simp: prod_eq_iff dest: store_wf_coords store_wf_grid)
  from gen_neighbours_eq [OF wf, of "c_y c" "c_x c"] pg xy obtain qs where
    qs: "gen_neighbours (g_cells g) w h (c_x c) (c_y c) = Some (map Some qs)"
    "set qs = {q \<in> grid w h. next_to p q \<and> q \<notin> visited_set (g_cells g)}" by auto
  have "set qs = {}" unfolding qs(2) using dead by blast
  then have "qs = []" by simp
  with s c qs have "gen_body rnd w h g = Some (g\<lparr>g_stack := s\<rparr>)" by (simp add: gen_body_def)
  moreover have "gen_inv w h (g\<lparr>g_stack := s\<rparr>) ps" using inv s(2) dead by (auto simp: gen_inv_def)
  ultimately show thesis by (rule that)
qed

text \<open>The stack never holds more cells than the grid has.\<close>

lemma gen_inv_height:
  assumes "gen_inv w h g ps" and "q \<in> grid w h" and "q \<notin> visited_set (g_cells g)"
  shows "int (length ps) < w * h"
proof -
  have "set ps \<subset> grid w h"
    using assms visited_set_sub [of w h "g_cells g"] by (auto simp: gen_inv_def)
  then have "card (set ps) < card (grid w h)" by (rule psubset_card_mono [OF finite_grid])
  then have "length ps < nat h * nat w"
    using assms(1) by (simp add: gen_inv_def distinct_card card_grid)
  then have "int (length ps) < int (nat h * nat w)" by (simp only: of_nat_less_iff)
  moreover have "0 < w" "0 < h" using assms(2) by (cases q; auto)+
  ultimately show ?thesis by (simp add: mult.commute)
qed

text \<open>Otherwise one unvisited neighbour q joins the tree and the stack.\<close>

lemma gen_body_extend:
  assumes inv: "gen_inv w h g (p # ps)" and room: "w * h \<le> INT_MAX"
    and more: "\<exists>q \<in> grid w h. next_to p q \<and> q \<notin> visited_set (g_cells g)"
  obtains g' q where "gen_body rnd w h g = Some g'" and "gen_inv w h g' (q # p # ps)"
    and "visited_set (g_cells g') = insert q (visited_set (g_cells g))"
    and "q \<notin> visited_set (g_cells g)" and "g_rand g' = Suc (g_rand g)"
proof -
  let ?st = "g_cells g" and ?V = "visited_set (g_cells g)"
  from inv have rep: "stack_rep (g_heap g) (g_stack g) (Some p # map Some ps)"
    and wf: "store_wf w h ?st" and p: "p \<in> ?V" and tree: "tree_graph ?V (passages ?st)"
    by (auto simp: gen_inv_def)
  from lifo_stack.rep_pop [OF rep] obtain s where s: "stack_pop (g_heap g) (g_stack g) = Some (Some p, s)"
    "stack_rep (g_heap g) s (map Some ps)" by blast
  from p obtain c where c: "?st p = Some c" by (auto simp: visited_set_def)
  with wf have xy: "p = (c_y c, c_x c)" and pg: "p \<in> grid w h"
    by (auto simp: prod_eq_iff dest: store_wf_coords store_wf_grid)
  from gen_neighbours_eq [OF wf, of "c_y c" "c_x c"] pg xy obtain qs where
    qs: "gen_neighbours ?st w h (c_x c) (c_y c) = Some (map Some qs)"
    "set qs = {q \<in> grid w h. next_to p q \<and> q \<notin> ?V}" by auto
  with more have ne: "0 < length qs" by auto
  let ?k = "rnd (g_rand g) mod length qs"
  define q where "q = qs ! ?k"
  have k: "?k < length qs" using ne by simp
  then have "q \<in> set qs" by (simp add: q_def)
  with qs(2) have q: "q \<in> grid w h" "next_to p q" "q \<notin> ?V" by auto
  have "int (length (map Some ps)) + 1 < INT_MAX" using gen_inv_height [OF inv q(1,3)] room by simp
  from lifo_stack.rep_push2 [OF s(2) this, of "Some p" "Some q"] obtain h1 s1 h2 s2 where
    push1: "stack_push (g_heap g) s (Some p) = Some (h1, s1)"
    and push2: "stack_push h1 s1 (Some q) = Some (h2, s2)"
    and rep: "stack_rep h2 s2 (Some q # Some p # map Some ps)" .
  then have rep2: "stack_rep h2 s2 (map Some (q # p # ps))" by simp
  let ?st1 = "carve p q ?st"
  let ?st2 = "?st1(q := map_option (visited_update (\<lambda>_. True)) (?st1 q))"
  have wf1: "store_wf w h ?st1" by (rule store_wf_carve [OF wf])
  from wf1 q(1) obtain d where d: "?st1 q = Some d" by (rule store_wfD)
  then have store: "store_cell ?st1 (Some q) (visited_update (\<lambda>_. True)) = Some ?st2" by simp
  have wf2: "store_wf w h ?st2" by (rule store_wf_update [OF wf1]) simp
  have V2: "visited_set ?st2 = insert q ?V"
    using d visited_carve [of p q ?st] by (auto simp: visited_set_def split: if_splits)
  from wf q(1) obtain e where e: "?st q = Some e" by (rule store_wfD)
  have P2: "passages ?st2 = passages ?st \<union> {(p, q), (q, p)}"
    using passages_carve [OF q(2)] c e by simp
  have tree2: "tree_graph (visited_set ?st2) (passages ?st2)"
    unfolding V2 P2 by (rule tree_leaf [OF tree p q(3)])
  let ?g = "\<lparr>g_cells = ?st2, g_heap = h2, g_stack = s2, g_rand = Suc (g_rand g)\<rparr>"
  have "map Some qs ! ?k = Some q" using k by (simp add: q_def)
  then have "gen_body rnd w h g = Some ?g"
    using s(1) c qs(1) ne push1 push2 store remove_wall_carve [OF wf c q(1,2)]
    by (simp add: gen_body_def del: fun_upd_apply)
  moreover have "gen_inv w h ?g (q # p # ps)"
  proof -
    from inv have ps: "set (p # ps) \<subseteq> ?V" "distinct (p # ps)" "(0, 0) \<in> ?V"
      "\<And>a b. a \<in> ?V - set (p # ps) \<Longrightarrow> b \<in> grid w h \<Longrightarrow> next_to a b \<Longrightarrow> b \<in> ?V"
      unfolding gen_inv_def by blast+
    have "distinct (q # p # ps)" using ps(1,2) q(3) by auto
    moreover have "set (q # p # ps) \<subseteq> insert q ?V" using ps(1) by auto
    moreover have "\<forall>a \<in> insert q ?V - set (q # p # ps). \<forall>b \<in> grid w h. next_to a b \<longrightarrow> b \<in> insert q ?V"
      using ps(4) by auto
    ultimately show ?thesis
      using rep2 wf2 tree2 V2 ps(3) unfolding gen_inv_def by (simp only: gen_state.simps) simp
  qed
  ultimately show thesis using that [of ?g q] V2 q(3) by simp
qed

subsection \<open>The loop\<close>

definition unvisited_count :: "int \<Rightarrow> int \<Rightarrow> gen_state \<Rightarrow> nat" where
  "unvisited_count w h g = card (grid w h - visited_set (g_cells g))"

lemma gen_body_step:
  assumes inv: "gen_inv w h g ps" and room: "w * h \<le> INT_MAX" and ne: "ps \<noteq> []"
  obtains g' ps' where "gen_body rnd w h g = Some g'" and "gen_inv w h g' ps'"
    and "2 * unvisited_count w h g = Suc (2 * unvisited_count w h g' + length ps') - length ps"
    and "2 * unvisited_count w h g + length ps = Suc (2 * unvisited_count w h g' + length ps')"
    and "g_rand g' + unvisited_count w h g' = g_rand g + unvisited_count w h g"
proof -
  obtain p qs where ps: "ps = p # qs" using ne by (cases ps) auto
  show thesis
  proof (cases "\<exists>q \<in> grid w h. next_to p q \<and> q \<notin> visited_set (g_cells g)")
    case True
    from gen_body_extend [OF inv [unfolded ps] room True] obtain g' q where
      g': "gen_body rnd w h g = Some g'" "gen_inv w h g' (q # p # qs)"
      "visited_set (g_cells g') = insert q (visited_set (g_cells g))"
      "q \<notin> visited_set (g_cells g)" "g_rand g' = Suc (g_rand g)" by blast
    from g'(2) have "q \<in> grid w h"
      using visited_set_sub [of w h "g_cells g'"] g'(3) by (auto simp: gen_inv_def)
    with g'(4) have "q \<in> grid w h - visited_set (g_cells g)" by simp
    from card_Suc_Diff1 [OF _ this]
    have "unvisited_count w h g = Suc (unvisited_count w h g')"
      unfolding unvisited_count_def g'(3) by (simp add: Diff_insert [symmetric])
    with g' ps show thesis by (intro that [of g' "q # p # qs"]) auto
  next
    case False
    from gen_body_dead_end [OF inv [unfolded ps]] False obtain s where
      "gen_body rnd w h g = Some (g\<lparr>g_stack := s\<rparr>)" "gen_inv w h (g\<lparr>g_stack := s\<rparr>) qs" by blast
    with ps show thesis by (intro that [of "g\<lparr>g_stack := s\<rparr>" qs]) (auto simp: unvisited_count_def)
  qed
qed

lemma gen_inv_size: "gen_inv w h g ps \<Longrightarrow> 0 < st_size (g_stack g) \<longleftrightarrow> ps \<noteq> []"
  using lifo_stack.size_pos_iff [of "g_heap g" "g_stack g" "map Some ps"] by (simp add: gen_inv_def)

text \<open>The loop body run a given number of times.\<close>

fun gen_iterate :: "(nat \<Rightarrow> nat) \<Rightarrow> int \<Rightarrow> int \<Rightarrow> nat \<Rightarrow> gen_state \<Rightarrow> gen_state option" where
  "gen_iterate rnd w h 0 g = Some g"
| "gen_iterate rnd w h (Suc n) g = do { g' \<leftarrow> gen_body rnd w h g; gen_iterate rnd w h n g' }"

lemma gen_loop_run:
  assumes "gen_inv w h g ps" and room: "w * h \<le> INT_MAX" and "n = 2 * unvisited_count w h g + length ps"
  shows "\<exists>g'. gen_loop rnd w h g = Some g' \<and> gen_inv w h g' [] \<and>
    g_rand g' + unvisited_count w h g' = g_rand g + unvisited_count w h g \<and>
    (unvisited_count w h g' = 0 \<longrightarrow> gen_iterate rnd w h n g = Some g')"
  using assms(1,3)
proof (induction n arbitrary: g ps)
  case 0
  then have "ps = []" by simp
  with 0 gen_inv_size [OF 0(1)] show ?case by (simp add: gen_loop.simps [of _ _ _ g])
next
  case (Suc n)
  show ?case
  proof (cases "ps = []")
    case True
    with Suc.prems gen_inv_size [OF Suc.prems(1)] show ?thesis
      by (auto simp: gen_loop.simps [of _ _ _ g])
  next
    case False
    from gen_body_step [OF Suc.prems(1) room False, of rnd] obtain g1 ps1 where
      g1: "gen_body rnd w h g = Some g1" "gen_inv w h g1 ps1"
      "2 * unvisited_count w h g + length ps = Suc (2 * unvisited_count w h g1 + length ps1)"
      "g_rand g1 + unvisited_count w h g1 = g_rand g + unvisited_count w h g" by metis
    with Suc.prems(2) have "n = 2 * unvisited_count w h g1 + length ps1" by simp
    from Suc.IH [OF g1(2) this] g1 False gen_inv_size [OF Suc.prems(1)] show ?thesis
      by (auto simp: gen_loop.simps [of _ _ _ g])
  qed
qed

text \<open>With an empty stack the visited cells are closed under neighbours: they are the whole grid.\<close>

lemma gen_inv_done:
  assumes "gen_inv w h g []"
  shows "visited_set (g_cells g) = grid w h" and "unvisited_count w h g = 0"
proof -
  show "visited_set (g_cells g) = grid w h"
    using assms by (intro grid_closed_set) (auto simp: gen_inv_def dest: visited_set_sub)
  then show "unvisited_count w h g = 0" by (simp add: unvisited_count_def)
qed

lemma gen_start_inv:
  assumes "0 < w" and "0 < h"
  obtains g where "gen_start junk w h = Some g" and "gen_inv w h g [(0, 0)]"
    and "g_rand g = 0" and "Suc (unvisited_count w h g) = nat h * nat w"
proof -
  let ?init = "init_cells junk w h"
  let ?st = "?init((0, 0) := map_option (visited_update (\<lambda>_. True)) (?init (0, 0)))"
  obtain hp s where push: "stack_push empty_heap empty_stack (Some (0, 0)) = Some (hp, s)"
    "stack_rep hp s [Some (0, 0)]"
    using lifo_stack.rep_push [OF stack_rep_empty [OF heap_ok_empty], of "Some (0, 0)"]
    by (auto simp: INT_MAX_def)
  let ?g = "\<lparr>g_cells = ?st, g_heap = hp, g_stack = s, g_rand = 0\<rparr>"
  have start: "gen_start junk w h = Some ?g"
    using assms push by (simp add: gen_start_def grid_ptr_def init_cells_apply)
  have wf0: "store_wf w h ?init" by (auto simp: store_wf_def init_cells_apply init_cell_def)
  have wf: "store_wf w h ?st"
    by (rule store_wf_update [OF wf0]) simp
  have V: "visited_set ?st = {(0, 0)}"
    using assms by (auto simp: visited_set_def init_cells_apply init_cell_def split: if_splits)
  have "passages ?init = {}"
    by (auto simp: passages_def init_cells_apply init_cell_def wall_towards_def split: if_splits)
  then have P: "passages ?st = {}" by simp
  have "gen_inv w h ?g [(0, 0)]"
    using push(2) wf V P tree_root [of "(0, 0)"]
    by (auto simp: gen_inv_def simp del: fun_upd_apply)
  moreover have "Suc (unvisited_count w h ?g) = nat h * nat w"
    using card_Suc_Diff1 [of "grid w h" "(0, 0)"] assms
    by (simp add: unvisited_count_def V card_grid del: fun_upd_apply)
  ultimately show thesis using that [OF start] by simp
qed

text \<open>Everything the generator guarantees, for a grid of at least one cell.\<close>

lemma gen_complete:
  assumes "0 < w" and "0 < h" and room: "w * h \<le> INT_MAX"
  obtains g0 g where "gen_start junk w h = Some g0" and "gen_loop rnd w h g0 = Some g"
    and "store_wf w h (g_cells g)" and "visited_set (g_cells g) = grid w h"
    and "tree_graph (grid w h) (passages (g_cells g))"
    and "gen_iterate rnd w h (2 * (nat h * nat w) - 1) g0 = Some g"
    and "st_size (g_stack g) = 0" and "g_rand g = nat h * nat w - 1"
proof -
  obtain g0 where g0: "gen_start junk w h = Some g0" "gen_inv w h g0 [(0, 0)]"
    "g_rand g0 = 0" "Suc (unvisited_count w h g0) = nat h * nat w"
    by (rule gen_start_inv [OF assms(1,2)])
  from g0(4) have n: "2 * (nat h * nat w) - 1 = 2 * unvisited_count w h g0 + length [(0, 0)]"
    by simp
  obtain g where g: "gen_loop rnd w h g0 = Some g"
    "gen_inv w h g []" "g_rand g + unvisited_count w h g = g_rand g0 + unvisited_count w h g0"
    "unvisited_count w h g = 0 \<longrightarrow> gen_iterate rnd w h (2 * (nat h * nat w) - 1) g0 = Some g"
    using gen_loop_run [OF g0(2) room n, of rnd] by (elim exE conjE)
  note fin = gen_inv_done [OF g(2)]
  have "st_size (g_stack g) = 0"
    using lifo_stack.rep_size [of "g_heap g" "g_stack g" "[]"] g(2) by (simp add: gen_inv_def)
  moreover have "g_rand g = nat h * nat w - 1" using g(3) fin(2) g0(3,4) by simp
  moreover have "store_wf w h (g_cells g)" "tree_graph (grid w h) (passages (g_cells g))"
    using g(2) fin(1) by (auto simp: gen_inv_def)
  ultimately show thesis using that [OF g0(1) g(1)] g(4) fin by blast
qed

lemma generate_maze_run:
  assumes "100 \<le> uint (XResolution mi)" and "100 \<le> uint (YResolution mi)"
  obtains m where "generate_maze rnd junk mi = Some m" and "maze_wf m"
    and "m_width m = uint (XResolution mi) div 100" and "m_height m = uint (YResolution mi) div 100"
    and "m_cell_size m = 100"
    and "visited_set (m_cells m) = grid (m_width m) (m_height m)"
    and "tree_graph (grid (m_width m) (m_height m)) (passages (m_cells m))"
proof -
  let ?w = "uint (XResolution mi) div 100" and ?h = "uint (YResolution mi) div 100"
  have "0 < ?w" "0 < ?h" using assms by auto
  have "uint (XResolution mi) < 65536" "uint (YResolution mi) < 65536"
    using uint_lt2p [of "XResolution mi"] uint_lt2p [of "YResolution mi"] by simp_all
  then have "?w * ?h \<le> 655 * 655" using \<open>0 < ?w\<close> \<open>0 < ?h\<close> by (intro mult_mono) auto
  then have room: "?w * ?h \<le> INT_MAX" by (simp add: INT_MAX_def)
  from gen_complete [OF \<open>0 < ?w\<close> \<open>0 < ?h\<close> room, of junk rnd] obtain g0 g where g: "gen_start junk ?w ?h = Some g0"
    "gen_loop rnd ?w ?h g0 = Some g" "store_wf ?w ?h (g_cells g)"
    "visited_set (g_cells g) = grid ?w ?h" "tree_graph (grid ?w ?h) (passages (g_cells g))" by metis
  let ?m = "\<lparr>m_width = ?w, m_height = ?h, m_cell_size = 100, m_cells = g_cells g\<rparr>"
  have "generate_maze rnd junk mi = Some ?m" using g(1,2) by (simp add: generate_maze_def)
  moreover have "maze_wf ?m"
    using g(3,5) \<open>0 < ?w\<close> \<open>0 < ?h\<close> tree_sym [OF g(5)] tree_within [OF g(5)]
    by (simp add: maze_wf_def walls_wf_def)
  ultimately show thesis using that [of ?m] g(4,5) by simp
qed

subsection \<open>The contract of a maze\<close>

text \<open>
  What the collision test needs of a maze (walled_maze) and what the solver needs on top
  (perfect_maze). The generator's mazes satisfy both.
\<close>

locale walled_maze =
  fixes ok :: "'m \<Rightarrow> bool"
    and extent :: "'m \<Rightarrow> 'v set"
    and opened :: "'m \<Rightarrow> ('v \<times> 'v) set"
  assumes opened_within: "ok m \<Longrightarrow> opened m \<subseteq> extent m \<times> extent m"
    and opened_sym: "ok m \<Longrightarrow> sym (opened m)"
    and extent_finite: "ok m \<Longrightarrow> finite (extent m)"
begin

lemma opened_swap: "ok m \<Longrightarrow> (p, q) \<in> opened m \<Longrightarrow> (q, p) \<in> opened m"
  using opened_sym by (auto dest: symD)

lemma reachable_within:
  assumes "ok m" and "(p, q) \<in> (opened m)\<^sup>*" and "p \<in> extent m"
  shows "q \<in> extent m"
  using assms(2,3) opened_within [OF assms(1)] by (induction rule: rtrancl_induct) auto

end

locale perfect_maze = walled_maze ok extent opened
  for ok :: "'m \<Rightarrow> bool" and extent :: "'m \<Rightarrow> 'v set" and opened :: "'m \<Rightarrow> ('v \<times> 'v) set" +
  assumes opened_tree: "ok m \<Longrightarrow> tree_graph (extent m) (opened m)"
begin

lemma unique_route:
  "ok m \<Longrightarrow> p \<in> extent m \<Longrightarrow> q \<in> extent m \<Longrightarrow> \<exists>!ps. simple_walk (opened m) p ps q"
  by (rule tree_unique_walk [OF opened_tree])

lemma all_connected: "ok m \<Longrightarrow> p \<in> extent m \<Longrightarrow> q \<in> extent m \<Longrightarrow> (p, q) \<in> (opened m)\<^sup>*"
  by (rule tree_connected [OF opened_tree])

lemma short_route:
  assumes "ok m" and "p \<in> extent m" and "q \<in> extent m"
  obtains n where "n < card (extent m)" and "(p, q) \<in> opened m ^^ n"
  by (rule tree_relpow_bound [OF opened_tree [OF assms(1)] assms(2,3)])

lemma passage_count: "ok m \<Longrightarrow> card (opened m) = 2 * (card (extent m) - 1)"
  by (rule tree_card [OF opened_tree])

end

definition maze_grid :: "maze \<Rightarrow> cell_id set" where
  "maze_grid m = grid (m_width m) (m_height m)"

definition maze_passages :: "maze \<Rightarrow> (cell_id \<times> cell_id) set" where
  "maze_passages m = passages (m_cells m)"

definition generated :: "maze \<Rightarrow> bool" where
  "generated m \<longleftrightarrow> (\<exists>rnd junk mi. generate_maze rnd junk mi = Some m)"

text \<open>With a screen narrower or lower than a cell the code reads cells[0][0] outside the array.\<close>

lemma generate_maze_small_screen:
  assumes "uint (XResolution mi) < 100 \<or> uint (YResolution mi) < 100"
  shows "generate_maze rnd junk mi = None"
proof -
  have "uint (XResolution mi) div 100 = 0 \<or> uint (YResolution mi) div 100 = 0" using assms by auto
  then show ?thesis by (auto simp: generate_maze_def gen_start_def grid_ptr_def)
qed

lemma generated_maze:
  assumes "generated m"
  shows "maze_wf m" and "tree_graph (maze_grid m) (maze_passages m)" and "m_cell_size m = 100"
    and "m_width m \<le> 655" and "m_height m \<le> 655"
proof -
  from assms obtain rnd junk mi where run: "generate_maze rnd junk mi = Some m"
    by (auto simp: generated_def)
  then have res: "100 \<le> uint (XResolution mi)" "100 \<le> uint (YResolution mi)"
    using generate_maze_small_screen [of mi rnd junk] by (auto simp: not_less [symmetric])
  obtain m' where m': "generate_maze rnd junk mi = Some m'" "maze_wf m'"
    "m_width m' = uint (XResolution mi) div 100" "m_height m' = uint (YResolution mi) div 100"
    "m_cell_size m' = 100" "visited_set (m_cells m') = grid (m_width m') (m_height m')"
    "tree_graph (grid (m_width m') (m_height m')) (passages (m_cells m'))"
    using generate_maze_run [OF res, of rnd junk] .
  from run m'(1) have "m' = m" by simp
  with m' show "maze_wf m" "tree_graph (maze_grid m) (maze_passages m)" "m_cell_size m = 100"
    by (simp_all add: maze_grid_def maze_passages_def)
  have "uint (XResolution mi) < 65536" "uint (YResolution mi) < 65536"
    using uint_lt2p [of "XResolution mi"] uint_lt2p [of "YResolution mi"] by simp_all
  with m' \<open>m' = m\<close> show "m_width m \<le> 655" "m_height m \<le> 655" by auto
qed

interpretation walled: walled_maze maze_wf maze_grid maze_passages
  by unfold_locales (auto simp: maze_wf_def walls_wf_def maze_grid_def maze_passages_def)

interpretation perfect: perfect_maze generated maze_grid maze_passages
  using generated_maze by unfold_locales
    (auto dest: walled.opened_within walled.opened_sym walled.extent_finite)

subsection \<open>Properties of the generator\<close>

text \<open>C1: for every screen of at least 100 by 100 pixels and every sequence of random numbers,
  generate_maze returns (its loop ends, and no access is undefined) a well-formed maze of
  XResolution/100 by YResolution/100 cells in which any two cells are joined by exactly one way
  without repetition: it is perfect.\<close>

theorem generate_maze_perfect:
  assumes "100 \<le> uint (XResolution mi)" and "100 \<le> uint (YResolution mi)"
  shows "\<exists>m. generate_maze rnd junk mi = Some m \<and> maze_wf m \<and>
    m_width m = uint (XResolution mi) div 100 \<and> m_height m = uint (YResolution mi) div 100 \<and>
    (\<forall>u v. u \<in> maze_grid m \<and> v \<in> maze_grid m \<longrightarrow> (\<exists>!ps. simple_walk (maze_passages m) u ps v))"
proof -
  obtain m where m: "generate_maze rnd junk mi = Some m" "maze_wf m"
    "m_width m = uint (XResolution mi) div 100" "m_height m = uint (YResolution mi) div 100"
    using generate_maze_run [OF assms, of rnd junk] by metis
  then have "generated m" by (auto simp: generated_def)
  with m perfect.unique_route show ?thesis by blast
qed

definition mode_14c :: vbe_mode_info where
  "mode_14c = \<lparr>XResolution = 1152, YResolution = 864, BitsPerPixel = 32, PhysBasePtr = 0xE0000000\<rparr>"

definition blank_cell :: cell where
  "blank_cell = \<lparr>c_x = 0, c_y = 0, visited = False, top_wall = False, bottom_wall = False,
     left_wall = False, right_wall = False, c_dist = 0, c_prev = None\<rparr>"

lemma mode_14c_large: "100 \<le> uint (XResolution mode_14c)" "100 \<le> uint (YResolution mode_14c)"
  by (simp_all add: mode_14c_def)

theorem generate_maze_perfect_witness:
  "\<exists>m. generate_maze (\<lambda>_. 7) (\<lambda>_. blank_cell) mode_14c = Some m \<and> m_width m = 11 \<and> m_height m = 8 \<and>
    (\<exists>!ps. simple_walk (maze_passages m) (0, 0) ps (7, 10))"
  using generate_maze_perfect [OF mode_14c_large, of "\<lambda>_. 7" "\<lambda>_. blank_cell"]
  by (auto simp: maze_grid_def mode_14c_def)

text \<open>In a generated maze two neighbouring cells agree on the wall between them, every wall on
  the border of the grid stands, and exactly one wall less than there are cells has been taken
  down (each counted from both sides).\<close>

lemma generated_walls:
  assumes "generate_maze rnd junk mi = Some m"
  shows "walls_agree (m_width m) (m_height m) (m_cells m) \<and>
    card (maze_passages m) = 2 * (nat (m_height m) * nat (m_width m) - 1)"
proof -
  have gen: "generated m" using assms by (auto simp: generated_def)
  have "walls_agree (m_width m) (m_height m) (m_cells m)"
    using generated_maze(1) [OF gen] by (simp add: maze_wf_def walls_wf_agree)
  with perfect.passage_count [OF gen] show ?thesis by (simp add: maze_grid_def card_grid)
qed

lemma generated_walls_witness:
  "\<exists>m. generate_maze (\<lambda>k. k) (\<lambda>_. blank_cell) mode_14c = Some m \<and> card (maze_passages m) = 174"
proof -
  obtain m where m: "generate_maze (\<lambda>k. k) (\<lambda>_. blank_cell) mode_14c = Some m"
    "m_width m = 11" "m_height m = 8"
    using generate_maze_run [OF mode_14c_large, of "\<lambda>k. k" "\<lambda>_. blank_cell"]
    by (auto simp: mode_14c_def)
  from generated_walls [OF m(1)] m show ?thesis by simp
qed

text \<open>C18: on a grid of w by h cells the generator's loop runs exactly 2wh - 1 times: after that many
  iterations the stack is empty, the loop stops there, and rand has been called wh - 1 times. The
  grid has at most INT_MAX cells, as many as the int size of the stack can count (a screen gives at
  most 655 by 655).\<close>

theorem generator_iterations:
  assumes "0 < w" and "0 < h" and "w * h \<le> INT_MAX"
  shows "\<exists>g0 g. gen_start junk w h = Some g0 \<and> gen_loop rnd w h g0 = Some g \<and>
    gen_iterate rnd w h (2 * (nat h * nat w) - 1) g0 = Some g \<and>
    st_size (g_stack g) = 0 \<and> g_rand g = nat h * nat w - 1"
  using gen_complete [OF assms] by metis

theorem generator_iterations_witness:
  "\<exists>g0 g. gen_start (\<lambda>_. blank_cell) 3 2 = Some g0 \<and> gen_iterate (\<lambda>_. 1) 3 2 11 g0 = Some g \<and>
    st_size (g_stack g) = 0 \<and> g_rand g = 5"
  using generator_iterations [of 3 2 "\<lambda>_. blank_cell" "\<lambda>_. 1"] by (auto simp: INT_MAX_def)

text \<open>With a screen less than 100 pixels wide or high the grid is empty and generate_maze reads
  cells[0][0] outside its array: its behaviour is undefined.\<close>

lemma generate_maze_needs_one_cell:
  assumes "uint (XResolution mi) < 100 \<or> uint (YResolution mi) < 100"
  shows "generate_maze rnd junk mi = None"
  using assms by (rule generate_maze_small_screen)

lemma generate_maze_needs_one_cell_witness:
  "generate_maze (\<lambda>_. 0) (\<lambda>_. blank_cell) (mode_14c\<lparr>XResolution := 99\<rparr>) = None"
  by (rule generate_maze_needs_one_cell) (simp add: mode_14c_def)

end
