(* ===== verification/Shortest_Path.thy ===== *)
theory Shortest_Path
  imports Grid_Graph
begin

text \<open>
  The shortest-path argument behind the maze solver, on an abstract graph: E is the edge
  relation, V the vertices, s the start, Q the vertices still in the work list, D the tentative
  distances (INT_MAX where none is known) and P the predecessors. relax_dist and relax_prev are
  the effect of taking x out of the work list and relaxing its edges. search_inv is the invariant
  of the loop; path_data is the part of it that the trace along the predecessors needs.
\<close>

definition relax_dist ::
  "('v \<times> 'v) set \<Rightarrow> 'v set \<Rightarrow> 'v \<Rightarrow> ('v \<Rightarrow> int) \<Rightarrow> 'v \<Rightarrow> int" where
  "relax_dist E Q x D v = (if (x, v) \<in> E \<and> v \<in> Q \<and> D x + 1 < D v then D x + 1 else D v)"

definition relax_prev ::
  "('v \<times> 'v) set \<Rightarrow> 'v set \<Rightarrow> 'v \<Rightarrow> ('v \<Rightarrow> int) \<Rightarrow> ('v \<Rightarrow> 'v option) \<Rightarrow> 'v \<Rightarrow> 'v option" where
  "relax_prev E Q x D P v = (if (x, v) \<in> E \<and> v \<in> Q \<and> D x + 1 < D v then Some x else P v)"

definition path_data ::
  "('v \<times> 'v) set \<Rightarrow> 'v set \<Rightarrow> 'v \<Rightarrow> ('v \<Rightarrow> int) \<Rightarrow> ('v \<Rightarrow> 'v option) \<Rightarrow> bool" where
  "path_data E V s D P \<longleftrightarrow>
     (\<forall>v \<in> V. D v \<noteq> INT_MAX \<longrightarrow>
        (v = s \<and> P v = None \<and> D v = 0) \<or>
        (\<exists>u \<in> V. P v = Some u \<and> (u, v) \<in> E \<and> D v = D u + 1 \<and> 0 \<le> D u \<and> D u < INT_MAX))"

definition search_inv ::
  "('v \<times> 'v) set \<Rightarrow> 'v set \<Rightarrow> 'v \<Rightarrow> 'v set \<Rightarrow> ('v \<Rightarrow> int) \<Rightarrow> ('v \<Rightarrow> 'v option) \<Rightarrow> bool" where
  "search_inv E V s Q D P \<longleftrightarrow>
     s \<in> V \<and> D s = 0 \<and> Q \<subseteq> V \<and>
     (\<forall>x \<in> V - Q. \<forall>y \<in> V. (x, y) \<in> E \<longrightarrow> D y \<le> D x + 1) \<and>
     (\<forall>x \<in> V - Q. \<forall>y \<in> Q. D x \<le> D y) \<and>
     (\<forall>x \<in> V - Q. D x < int (card (V - Q))) \<and>
     (\<forall>v \<in> V. 0 \<le> D v \<and> (D v \<noteq> INT_MAX \<longrightarrow> D v \<le> int (card (V - Q)))) \<and>
     (\<forall>v \<in> V. D v \<noteq> INT_MAX \<longrightarrow>
        (v = s \<and> P v = None \<and> D v = 0) \<or>
        (\<exists>u \<in> V - Q. P v = Some u \<and> (u, v) \<in> E \<and> D v = D u + 1))"

lemma search_invD:
  assumes "search_inv E V s Q D P"
  shows "s \<in> V" "D s = 0" "Q \<subseteq> V"
    and "\<And>x y. x \<in> V - Q \<Longrightarrow> y \<in> V \<Longrightarrow> (x, y) \<in> E \<Longrightarrow> D y \<le> D x + 1"
    and "\<And>x y. x \<in> V - Q \<Longrightarrow> y \<in> Q \<Longrightarrow> D x \<le> D y"
    and "\<And>x. x \<in> V - Q \<Longrightarrow> D x < int (card (V - Q))"
    and "\<And>v. v \<in> V \<Longrightarrow> 0 \<le> D v"
    and "\<And>v. v \<in> V \<Longrightarrow> D v \<noteq> INT_MAX \<Longrightarrow> D v \<le> int (card (V - Q))"
    and "\<And>v. v \<in> V \<Longrightarrow> D v \<noteq> INT_MAX \<Longrightarrow>
        (v = s \<and> P v = None \<and> D v = 0) \<or>
        (\<exists>u \<in> V - Q. P v = Some u \<and> (u, v) \<in> E \<and> D v = D u + 1)"
  using assms unfolding search_inv_def by blast+

lemma search_inv_start:
  assumes "s \<in> V" and "\<And>v. D v = (if v = s then 0 else INT_MAX)" and "\<And>v. P v = None"
  shows "search_inv E V s V D P"
  using assms by (auto simp: search_inv_def INT_MAX_def)

subsection \<open>Distances are those of the graph\<close>

text \<open>A vertex n steps from s has left the work list with a distance of at most n, or some vertex
  still in the list has a distance of at most n.\<close>

lemma search_frontier:
  assumes inv: "search_inv E V s Q D P" and within: "E \<subseteq> V \<times> V"
  shows "(s, v) \<in> E ^^ n \<Longrightarrow> (v \<in> V - Q \<and> D v \<le> int n) \<or> (\<exists>u \<in> Q. D u \<le> int n)"
proof (induction n arbitrary: v)
  case 0
  then have "v = s" by simp
  then show ?case
    using search_invD(1,2) [OF inv] by (cases "s \<in> Q") (auto intro!: bexI [of _ s])
next
  case (Suc n)
  then obtain x where x: "(s, x) \<in> E ^^ n" "(x, v) \<in> E" by auto
  from Suc.IH [OF x(1)] show ?case
  proof
    assume a: "x \<in> V - Q \<and> D x \<le> int n"
    then have "D v \<le> int (Suc n)" using search_invD(4) [OF inv, of x v] x(2) within by auto
    moreover have "v \<in> V" using x(2) within by auto
    ultimately show ?thesis by auto
  next
    assume "\<exists>u \<in> Q. D u \<le> int n"
    then show ?thesis by force
  qed
qed

lemma search_minimum_short:
  assumes "search_inv E V s Q D P" and "E \<subseteq> V \<times> V" and "(s, x) \<in> E ^^ n" and "x \<in> Q"
    and "\<And>u. u \<in> Q \<Longrightarrow> D x \<le> D u"
  shows "D x \<le> int n"
  using search_frontier [OF assms(1,2,3)] assms(4) assms(5) by fastforce

text \<open>While a reachable vertex is in the list, the minimum of the list is a known distance.\<close>

lemma search_minimum_known:
  assumes inv: "search_inv E V s Q D P" and within: "E \<subseteq> V \<times> V" and "finite V"
    and "(s, e) \<in> E\<^sup>*" and "e \<in> Q" and "int (card V) \<le> INT_MAX"
    and min: "\<And>u. u \<in> Q \<Longrightarrow> D x \<le> D u" and "x \<in> Q"
  shows "D x < INT_MAX" and "D x \<le> int (card (V - Q))"
proof -
  have "card (V - Q) < card V"
    using assms(3,8) search_invD(3) [OF inv] by (intro psubset_card_mono) auto
  with assms(6) have small: "int (card (V - Q)) < INT_MAX" by linarith
  have "\<exists>u \<in> Q. D u \<noteq> INT_MAX \<and> D u \<le> INT_MAX"
  proof (rule ccontr)
    assume none: "\<not> ?thesis"
    have known: "D u \<noteq> INT_MAX \<Longrightarrow> u \<in> V \<Longrightarrow> D u \<le> INT_MAX" for u
      using search_invD(8) [OF inv, of u] small by simp
    have "v \<in> V - Q" if "(s, v) \<in> E\<^sup>*" for v
      using that
    proof (induction rule: rtrancl_induct)
      case base
      have "s \<notin> Q" using none search_invD(2) [OF inv] by (force simp: INT_MAX_def)
      then show ?case using search_invD(1) [OF inv] by simp
    next
      case (step y z)
      then have z: "z \<in> V" using within by auto
      then have "D z \<le> D y + 1" using search_invD(4) [OF inv] step by blast
      moreover have "D y < int (card (V - Q))" using search_invD(6) [OF inv] step by blast
      ultimately have "D z < INT_MAX" using small by linarith
      with none z show ?case by force
    qed
    with assms(4,5) show False by blast
  qed
  then obtain u where u: "u \<in> Q" "D u \<noteq> INT_MAX" by blast
  then have "D u \<le> int (card (V - Q))" using search_invD(3,8) [OF inv] by blast
  with min [OF u(1)] show "D x \<le> int (card (V - Q))" by linarith
  with small show "D x < INT_MAX" by linarith
qed

subsection \<open>One relaxation\<close>

text \<open>After a relaxation every known vertex still has its distance from its predecessor.\<close>

lemma relax_origin:
  assumes inv: "search_inv E V s Q D P" and x: "x \<in> Q"
    and v: "v \<in> V" "relax_dist E (Q - {x}) x D v \<noteq> INT_MAX"
  shows "(v = s \<and> relax_prev E (Q - {x}) x D P v = None \<and> relax_dist E (Q - {x}) x D v = 0) \<or>
      (\<exists>u \<in> V - (Q - {x}). relax_prev E (Q - {x}) x D P v = Some u \<and> (u, v) \<in> E \<and>
        relax_dist E (Q - {x}) x D v = relax_dist E (Q - {x}) x D u + 1)"
proof -
  note [simp] = relax_dist_def relax_prev_def
  have xV: "x \<in> V" using search_invD(3) [OF inv] x by auto
  have same: "relax_dist E (Q - {x}) x D u = D u" if "u \<notin> Q - {x}" for u using that by simp
  show ?thesis
  proof (cases "(x, v) \<in> E \<and> v \<in> Q - {x} \<and> D x + 1 < D v")
    case True
    then have "relax_prev E (Q - {x}) x D P v = Some x" "relax_dist E (Q - {x}) x D v = D x + 1" by simp_all
    moreover have "relax_dist E (Q - {x}) x D x = D x" using same [of x] by simp
    ultimately show ?thesis using True xV by auto
  next
    case False
    then have eq: "relax_prev E (Q - {x}) x D P v = P v" "relax_dist E (Q - {x}) x D v = D v" by auto
    with v have "D v \<noteq> INT_MAX" by simp
    from search_invD(9) [OF inv v(1) this] show ?thesis
    proof
      assume "\<exists>u \<in> V - Q. P v = Some u \<and> (u, v) \<in> E \<and> D v = D u + 1"
      then obtain u where u: "u \<in> V - Q" "P v = Some u" "(u, v) \<in> E" "D v = D u + 1" by blast
      then have "u \<in> V - (Q - {x})" by auto
      moreover from this have "relax_dist E (Q - {x}) x D u = D u" using same [of u] by blast
      ultimately show ?thesis using u eq by metis
    next
      assume "v = s \<and> P v = None \<and> D v = 0"
      then have "v = s \<and> relax_prev E (Q - {x}) x D P v = None \<and> relax_dist E (Q - {x}) x D v = 0"
        unfolding eq .
      then show ?thesis by (rule disjI1)
    qed
  qed
qed

lemma search_inv_step:
  assumes inv: "search_inv E V s Q D P" and fin: "finite V"
    and x: "x \<in> Q" and min: "\<And>u. u \<in> Q \<Longrightarrow> D x \<le> D u"
    and known: "D x < INT_MAX" and bound: "D x \<le> int (card (V - Q))"
    and irrefl: "(x, x) \<notin> E"
  defines "Q' \<equiv> Q - {x}"
  shows "search_inv E V s Q' (relax_dist E Q' x D) (relax_prev E Q' x D P)"
proof -
  note [simp] = relax_dist_def relax_prev_def
  have xV: "x \<in> V" using search_invD(3) [OF inv] x by auto
  have VQ: "V - Q' = insert x (V - Q)" using xV by (auto simp: Q'_def)
  then have card: "card (V - Q') = Suc (card (V - Q))" using fin x by simp
  have same: "relax_dist E Q' x D v = D v \<and> relax_prev E Q' x D P v = P v" if "v \<notin> Q'" for v
    using that by simp
  have le: "relax_dist E Q' x D v \<le> D v" for v by simp
  have old: "D y \<le> D x" if "y \<in> V - Q'" for y
    using search_invD(5) [OF inv, of y x] that VQ x by auto
  have a: "relax_dist E Q' x D z \<le> relax_dist E Q' x D y + 1"
    if "y \<in> V - Q'" "z \<in> V" "(y, z) \<in> E" for y z
  proof (cases "y = x")
    case True
    show ?thesis
    proof (cases "z \<in> Q'")
      case False
      then show ?thesis using True old [of z] that same [of z] same [of x] by (simp add: Q'_def)
    qed (use True that in \<open>auto simp: Q'_def\<close>)
  next
    case False
    then have "D z \<le> D y + 1" using search_invD(4) [OF inv, of y z] that VQ by auto
    with le [of z] same [of y] that show ?thesis by simp
  qed
  have b: "relax_dist E Q' x D y \<le> relax_dist E Q' x D z" if "y \<in> V - Q'" "z \<in> Q'" for y z
    using old [OF that(1)] same [of y] that min [of z] by (auto simp: Q'_def)
  have c: "relax_dist E Q' x D y < int (card (V - Q'))" if "y \<in> V - Q'" for y
    using old [OF that] same [of y] that bound card by auto
  have d: "0 \<le> relax_dist E Q' x D v" if "v \<in> V" for v
    using search_invD(7) [OF inv that] search_invD(7) [OF inv xV] by simp
  have e: "relax_dist E Q' x D v \<le> int (card (V - Q'))"
    if "v \<in> V" "relax_dist E Q' x D v \<noteq> INT_MAX" for v
    using search_invD(8) [OF inv that(1)] that(2) bound card by (auto split: if_splits)
  have f: "(v = s \<and> relax_prev E Q' x D P v = None \<and> relax_dist E Q' x D v = 0) \<or>
      (\<exists>u \<in> V - Q'. relax_prev E Q' x D P v = Some u \<and> (u, v) \<in> E \<and>
        relax_dist E Q' x D v = relax_dist E Q' x D u + 1)"
    if "v \<in> V" "relax_dist E Q' x D v \<noteq> INT_MAX" for v
    unfolding Q'_def by (rule relax_origin [OF inv x that [unfolded Q'_def]])
  have g: "s \<in> V" "Q' \<subseteq> V"
    using search_invD(1,3) [OF inv] by (auto simp: Q'_def)
  have h: "relax_dist E Q' x D s = 0"
    using search_invD(2) [OF inv] search_invD(7) [OF inv xV] by simp
  show ?thesis
    unfolding search_inv_def by (intro conjI ballI impI; (rule a b c d e f g h; assumption?))
qed

subsection \<open>The trace of predecessors\<close>

lemma search_path_data:
  assumes inv: "search_inv E V s Q D P" and "finite V" and "int (card V) \<le> INT_MAX"
  shows "path_data E V s D P"
proof -
  have "card (V - Q) \<le> card V" using assms(2) by (intro card_mono) auto
  with assms(3) have "int (card (V - Q)) \<le> INT_MAX" by linarith
  then have "0 \<le> D u \<and> D u < INT_MAX" if "u \<in> V - Q" for u
    using search_invD(6) [OF inv that] search_invD(7) [OF inv, of u] that by auto
  then show ?thesis
    unfolding path_data_def using search_invD(9) [OF inv] by blast
qed

text \<open>trace P k v: v and its predecessors, at most k + 1 of them.\<close>

fun trace :: "('v \<Rightarrow> 'v option) \<Rightarrow> nat \<Rightarrow> 'v \<Rightarrow> 'v list" where
  "trace P 0 v = [v]"
| "trace P (Suc k) v = v # (case P v of None \<Rightarrow> [] | Some u \<Rightarrow> trace P k u)"

lemma trace_path:
  "path_data E V s D P \<Longrightarrow> v \<in> V \<Longrightarrow> D v = int k \<Longrightarrow> int k < INT_MAX \<Longrightarrow>
   walk (E\<inverse>) (trace P k v) \<and> hd (trace P k v) = v \<and> last (trace P k v) = s \<and>
   length (trace P k v) = Suc k \<and> set (trace P k v) \<subseteq> V \<and>
   (\<forall>u \<in> set (trace P k v). D u \<le> int k) \<and> distinct (trace P k v) \<and> P s = None"
proof (induction k arbitrary: v)
  case 0
  then have "(v = s \<and> P v = None) \<or> (\<exists>u \<in> V. D v = D u + 1 \<and> 0 \<le> D u)"
    unfolding path_data_def by fastforce
  then have "v = s \<and> P v = None" using 0(3) by auto
  then show ?case using 0 by auto
next
  case (Suc k)
  then have "(v = s \<and> D v = 0) \<or> (\<exists>u \<in> V. P v = Some u \<and> (u, v) \<in> E \<and> D v = D u + 1)"
    by (fastforce simp: path_data_def)
  then obtain u where u: "u \<in> V" "P v = Some u" "(u, v) \<in> E" "D u = int k"
    using Suc.prems(3) by force
  have IH: "walk (E\<inverse>) (trace P k u) \<and> hd (trace P k u) = u \<and> last (trace P k u) = s \<and>
      length (trace P k u) = Suc k \<and> set (trace P k u) \<subseteq> V \<and>
      (\<forall>y \<in> set (trace P k u). D y \<le> int k) \<and> distinct (trace P k u) \<and> P s = None"
    using Suc.IH [OF Suc.prems(1) u(1,4)] Suc.prems(4) by simp
  have "v \<notin> set (trace P k u)" using IH Suc.prems(3) by fastforce
  moreover have "trace P (Suc k) v = v # trace P k u" using u(2) by simp
  moreover have "walk (E\<inverse>) (v # trace P k u)" using IH u(3) by (auto simp: walk_Cons)
  moreover have "trace P k u \<noteq> []" using IH by auto
  moreover have "\<forall>y \<in> set (trace P k u). D y \<le> int (Suc k)" using IH by auto
  ultimately show ?case using IH Suc.prems(2,3) by simp
qed

end
