(* ===== verification/Maze_Solve.thy ===== *)
theory Maze_Solve
  imports Linked_List_Model Maze_Gen Shortest_Path
begin

text \<open>
  get_solution of game/maze.c: Dijkstra's algorithm with a linked list as its work list. The
  list nodes live in their heap, the cells in theirs; solve_state is the state of the loop.

  The initialisation loops, the neighbours of the current cell that are open and still in the list,
  the relaxation of one neighbour, one iteration, the loop and the trace along the prev fields are
  one definition each. The refinement lemma solve_step_relaxes shows that one iteration acts on the
  distances and predecessors as the abstract step of Shortest_Path.
\<close>

subsection \<open>The code\<close>

record solve_state =
  s_cells :: cell_store
  s_heap :: list_heap
  s_nodes :: linked_list

text \<open>The body of the initialisation loops.\<close>

definition solve_init_cell :: "int \<Rightarrow> int \<Rightarrow> int \<Rightarrow> int \<Rightarrow> solve_state \<Rightarrow> solve_state option" where
  "solve_init_cell w h i j s =
     do {
       p \<leftarrow> grid_ptr w h i j;
       st \<leftarrow> store_cell (s_cells s) p (c_dist_update (\<lambda>_. INT_MAX));
       st \<leftarrow> store_cell st p (c_prev_update (\<lambda>_. None));
       (heap, nodes) \<leftarrow> linked_list_push (s_heap s) (s_nodes s) p;
       Some \<lparr>s_cells = st, s_heap = heap, s_nodes = nodes\<rparr>
     }"

definition solve_init_row :: "int \<Rightarrow> int \<Rightarrow> int \<Rightarrow> solve_state \<Rightarrow> solve_state option" where
  "solve_init_row w h i s = for_each (solve_init_cell w h i) [0..w - 1] s"

definition solve_init :: "int \<Rightarrow> int \<Rightarrow> solve_state \<Rightarrow> solve_state option" where
  "solve_init w h s = for_each (solve_init_row w h) [0..h - 1] s"

text \<open>The list solution, built while the prev pointers are followed.\<close>

partial_function (option) trace_solution ::
  "cell_store \<Rightarrow> list_heap \<Rightarrow> linked_list \<Rightarrow> cell_ptr \<Rightarrow> (list_heap \<times> linked_list) option" where
  "trace_solution st heap solution current_cell =
     (if current_cell \<noteq> None
      then do {
        (heap', solution') \<leftarrow> linked_list_push heap solution current_cell;
        c \<leftarrow> load_cell st current_cell;
        trace_solution st heap' solution' (c_prev c)
      }
      else Some (heap, solution))"

text \<open>One of the four neighbour tests; cond is its bounds check and its wall check.\<close>

definition add_open ::
  "list_heap \<Rightarrow> linked_list \<Rightarrow> int \<Rightarrow> int \<Rightarrow> bool \<Rightarrow> int \<Rightarrow> int \<Rightarrow> cell_ptr list \<Rightarrow> cell_ptr list option" where
  "add_open heap nodes w h cond i j neighbours =
     (if cond then do {
        p \<leftarrow> grid_ptr w h i j;
        b \<leftarrow> linked_list_contains heap nodes p;
        Some (if b then neighbours @ [p] else neighbours)
      } else Some neighbours)"

definition open_neighbours ::
  "list_heap \<Rightarrow> linked_list \<Rightarrow> int \<Rightarrow> int \<Rightarrow> cell \<Rightarrow> cell_ptr list option" where
  "open_neighbours heap nodes w h current_cell =
     (let x = c_x current_cell; y = c_y current_cell in
      do {
        ns \<leftarrow> add_open heap nodes w h (x > 0 \<and> \<not> left_wall current_cell) y (x - 1) [];
        ns \<leftarrow> add_open heap nodes w h (x < w - 1 \<and> \<not> right_wall current_cell) y (x + 1) ns;
        ns \<leftarrow> add_open heap nodes w h (y > 0 \<and> \<not> top_wall current_cell) (y - 1) x ns;
        add_open heap nodes w h (y < h - 1 \<and> \<not> bottom_wall current_cell) (y + 1) x ns
      })"

text \<open>The update of one neighbour. The sum alt overflows when the distance is INT_MAX.\<close>

definition relax :: "cell_ptr \<Rightarrow> cell_ptr \<Rightarrow> cell_store \<Rightarrow> cell_store option" where
  "relax current_cell neighbour st =
     do {
       c \<leftarrow> load_cell st current_cell;
       guard_ub (c_dist c + 1 \<le> INT_MAX);
       let alt = c_dist c + 1;
       n \<leftarrow> load_cell st neighbour;
       if alt < c_dist n then do {
         st \<leftarrow> store_cell st neighbour (c_dist_update (\<lambda>_. alt));
         store_cell st neighbour (c_prev_update (\<lambda>_. current_cell))
       } else Some st
     }"

text \<open>An iteration that does not find the exit, from the removal on.\<close>

definition solve_step :: "int \<Rightarrow> int \<Rightarrow> cell_ptr \<Rightarrow> solve_state \<Rightarrow> solve_state option" where
  "solve_step w h current_cell s =
     do {
       (heap, nodes) \<leftarrow> linked_list_remove (s_heap s) (s_nodes s) current_cell;
       c \<leftarrow> load_cell (s_cells s) current_cell;
       neighbours \<leftarrow> open_neighbours heap nodes w h c;
       st \<leftarrow> for_each (relax current_cell) neighbours (s_cells s);
       Some \<lparr>s_cells = st, s_heap = heap, s_nodes = nodes\<rparr>
     }"

partial_function (option) solve_loop ::
  "int \<Rightarrow> int \<Rightarrow> solve_state \<Rightarrow> (linked_list option \<times> solve_state) option" where
  "solve_loop w h s =
     (if ll_size (s_nodes s) > 0
      then do {
        current_cell \<leftarrow> get_minimum_distance (s_cells s) (s_heap s) (s_nodes s);
        c \<leftarrow> load_cell (s_cells s) current_cell;
        if c_x c = w - 1 \<and> c_y c = h - 1
        then do {
          (heap, solution) \<leftarrow> trace_solution (s_cells s) (s_heap s) empty_list current_cell;
          Some (Some solution, s\<lparr>s_heap := heap\<rparr>)
        }
        else do { s' \<leftarrow> solve_step w h current_cell s; solve_loop w h s' }
      }
      else Some (None, s))"

definition get_solution :: "list_heap \<Rightarrow> maze \<Rightarrow> (linked_list option \<times> list_heap \<times> maze) option" where
  "get_solution heap m =
     do {
       s \<leftarrow> solve_init (m_width m) (m_height m)
              \<lparr>s_cells = m_cells m, s_heap = heap, s_nodes = empty_list\<rparr>;
       start \<leftarrow> grid_ptr (m_width m) (m_height m) 0 0;
       st \<leftarrow> store_cell (s_cells s) start (c_dist_update (\<lambda>_. 0));
       (solution, s') \<leftarrow> solve_loop (m_width m) (m_height m) (s\<lparr>s_cells := st\<rparr>);
       Some (solution, s_heap s', m\<lparr>m_cells := s_cells s'\<rparr>)
     }"

declare solve_init_cell_def [model_defs] solve_init_row_def [model_defs] solve_init_def [model_defs]
  trace_solution.simps [model_defs] add_open_def [model_defs] open_neighbours_def [model_defs]
  relax_def [model_defs] solve_step_def [model_defs] solve_loop.simps [model_defs]
  get_solution_def [model_defs]

subsection \<open>The cells apart from their distances\<close>

definition prev_of :: "cell_store \<Rightarrow> cell_id \<Rightarrow> cell_ptr" where
  "prev_of st v = (case st v of None \<Rightarrow> None | Some c \<Rightarrow> c_prev c)"

text \<open>What get_solution does not write.\<close>

definition cells_core :: "cell_store \<Rightarrow> cell_store" where
  "cells_core st = (\<lambda>p. map_option (\<lambda>c. c\<lparr>c_dist := 0, c_prev := None\<rparr>) (st p))"

lemma cells_coreD:
  assumes "cells_core st' = cells_core st"
  shows "st p = Some c \<Longrightarrow> \<exists>c'. st' p = Some c' \<and> c_x c' = c_x c \<and> c_y c' = c_y c \<and>
      left_wall c' = left_wall c \<and> right_wall c' = right_wall c \<and>
      top_wall c' = top_wall c \<and> bottom_wall c' = bottom_wall c \<and> visited c' = visited c"
    and "st p = None \<Longrightarrow> st' p = None"
proof -
  have eq: "map_option (\<lambda>c. c\<lparr>c_dist := 0, c_prev := None\<rparr>) (st' p) =
      map_option (\<lambda>c. c\<lparr>c_dist := 0, c_prev := None\<rparr>) (st p)"
    using fun_cong [OF assms, of p] by (simp add: cells_core_def)
  show "st p = None \<Longrightarrow> st' p = None" using eq by simp
  assume "st p = Some c"
  with eq obtain c' where c': "st' p = Some c'"
    "c'\<lparr>c_dist := 0, c_prev := None\<rparr> = c\<lparr>c_dist := 0, c_prev := None\<rparr>" by auto
  then show "\<exists>c'. st' p = Some c' \<and> c_x c' = c_x c \<and> c_y c' = c_y c \<and>
      left_wall c' = left_wall c \<and> right_wall c' = right_wall c \<and>
      top_wall c' = top_wall c \<and> bottom_wall c' = bottom_wall c \<and> visited c' = visited c"
    by (cases c; cases c') auto
qed

lemma cells_core_wall:
  assumes "cells_core st' = cells_core st"
  shows "passages st' \<subseteq> passages st"
proof
  fix e assume e: "e \<in> passages st'"
  obtain p q where pq: "e = (p, q)" by (cases e)
  from e pq obtain c' where c': "next_to p q" "st' p = Some c'" "\<not> wall_towards c' p q"
    by (auto simp: passages_def)
  obtain c where "st p = Some c" "left_wall c = left_wall c'" "right_wall c = right_wall c'"
    "top_wall c = top_wall c'" "bottom_wall c = bottom_wall c'"
    using cells_coreD(1) [OF assms [symmetric] c'(2)] by blast
  with c' pq show "e \<in> passages st" by (auto simp: passages_def wall_towards_def)
qed

lemma cells_core_passages: "cells_core st' = cells_core st \<Longrightarrow> passages st' = passages st"
  using cells_core_wall [of st st'] cells_core_wall [of st' st] by auto

lemma cells_core_store_wf:
  assumes "cells_core st' = cells_core st" and "store_wf w h st"
  shows "store_wf w h st'"
proof -
  have "(st' p \<noteq> None) = (st p \<noteq> None)" for p
    using cells_coreD(2) [OF assms(1), of p] cells_coreD(2) [OF assms(1) [symmetric], of p] by metis
  moreover have "c_y c = fst p \<and> c_x c = snd p" if "st' p = Some c" for p c
    using cells_coreD(1) [OF assms(1) [symmetric] that] store_wf_coords [OF assms(2), of p] by auto
  ultimately show ?thesis using assms(2) by (simp add: store_wf_def)
qed

text \<open>The updates of the solver keep the core.\<close>

lemma store_dist_prev:
  assumes "st q = Some c"
  shows "cells_core (st(q := Some (c\<lparr>c_dist := d, c_prev := v\<rparr>))) = cells_core st"
    and "dist_of (st(q := Some (c\<lparr>c_dist := d, c_prev := v\<rparr>))) (Some p) =
      (if p = q then d else dist_of st (Some p))"
    and "prev_of (st(q := Some (c\<lparr>c_dist := d, c_prev := v\<rparr>))) p =
      (if p = q then v else prev_of st p)"
  using assms by (auto simp: cells_core_def dist_of_def prev_of_def)

subsection \<open>Initialisation\<close>

definition init_done :: "cell_store \<Rightarrow> solve_state \<Rightarrow> cell_id list \<Rightarrow> bool" where
  "init_done st0 s ps \<longleftrightarrow>
     cells_core (s_cells s) = cells_core st0 \<and>
     list_rep (s_heap s) (s_nodes s) (map Some ps) \<and>
     (\<forall>p \<in> set ps. dist_of (s_cells s) (Some p) = INT_MAX \<and> prev_of (s_cells s) p = None)"

lemma solve_init_cell_done:
  assumes inv: "init_done st0 s ps" and wf: "store_wf w h st0" and ij: "(i, j) \<in> grid w h"
    and room: "int (length ps) < INT_MAX"
  shows "\<exists>s'. solve_init_cell w h i j s = Some s' \<and> init_done st0 s' (ps @ [(i, j)])"
proof -
  let ?st = "s_cells s"
  have "store_wf w h ?st" using cells_core_store_wf wf inv by (auto simp: init_done_def)
  then obtain c where c: "?st (i, j) = Some c" using ij by (rule store_wfD)
  let ?st' = "?st((i, j) := Some (c\<lparr>c_dist := INT_MAX, c_prev := None\<rparr>))"
  obtain heap nodes where push: "linked_list_push (s_heap s) (s_nodes s) (Some (i, j)) = Some (heap, nodes)"
    "list_rep heap nodes (map Some ps @ [Some (i, j)])"
    using cell_list.rep_push [of "s_heap s" "s_nodes s" "map Some ps" "Some (i, j)"] inv room
    unfolding init_done_def by auto
  have "solve_init_cell w h i j s = Some \<lparr>s_cells = ?st', s_heap = heap, s_nodes = nodes\<rparr>"
    using ij c push(1) by (simp add: solve_init_cell_def grid_ptr_def)
  moreover have "init_done st0 \<lparr>s_cells = ?st', s_heap = heap, s_nodes = nodes\<rparr> (ps @ [(i, j)])"
    using inv push(2) store_dist_prev [where st = ?st and q = "(i, j)" and d = INT_MAX and v = None, OF c] by (auto simp: init_done_def)
  ultimately show ?thesis by blast
qed

lemma solve_init_row_done:
  assumes "init_done st0 s ps" and "store_wf w h st0" and "0 \<le> i" and "i < h"
    and room: "int (length ps) + w \<le> INT_MAX"
  shows "\<exists>s'. solve_init_row w h i s = Some s' \<and> init_done st0 s' (ps @ map (Pair i) [0..w - 1])"
  unfolding solve_init_row_def
proof (rule for_each_inv)
  fix xs x ys s
  assume split: "[0..w - 1] = xs @ x # ys" and "init_done st0 s (ps @ map (Pair i) xs)"
  moreover have "(i, x) \<in> grid w h" using split_upto [OF split] assms(3,4) by simp
  moreover have "int (length (ps @ map (Pair i) xs)) < INT_MAX" using split_upto [OF split] room by simp
  ultimately show "\<exists>s'. solve_init_cell w h i x s = Some s' \<and> init_done st0 s' (ps @ map (Pair i) (xs @ [x]))"
    using solve_init_cell_done [of st0 s "ps @ map (Pair i) xs", OF _ assms(2)] by simp
qed (use assms(1) in simp)

definition grid_list :: "int \<Rightarrow> int \<Rightarrow> cell_id list" where
  "grid_list w h = concat (map (\<lambda>i. map (Pair i) [0..w - 1]) [0..h - 1])"

lemma set_grid_list: "set (grid_list w h) = grid w h"
  by (auto simp: grid_list_def)

lemma distinct_grid_list: "distinct (grid_list w h)"
proof (cases "0 < w")
  case True
  then have "inj (\<lambda>i. map (Pair i) [0..w - 1])"
    by (auto simp: inj_def upto_rec1)
  with True show ?thesis
    unfolding grid_list_def
    by (intro distinct_concat) (auto simp: distinct_map inj_on_def)
next
  case False
  then have "grid_list w h = []" by (simp add: grid_list_def)
  then show ?thesis by simp
qed

lemma solve_init_done:
  assumes "init_done st0 s []" and "store_wf w h st0" and room: "w * h \<le> INT_MAX" and "0 < w"
  shows "\<exists>s'. solve_init w h s = Some s' \<and> init_done st0 s' (grid_list w h)"
  unfolding solve_init_def grid_list_def
proof (rule for_each_inv)
  fix xs x ys s
  assume split: "[0..h - 1] = xs @ x # ys"
    and prev: "init_done st0 s (concat (map (\<lambda>i. map (Pair i) [0..w - 1]) xs))"
  have x: "0 \<le> x" "x < h" "xs = [0..x - 1]" using split_upto [OF split] by auto
  have "length (concat (map (\<lambda>i. map (Pair i) [0..w - 1]) xs)) = nat x * nat w"
    using x by (simp add: length_concat comp_def sum_list_triv)
  then have "int (length (concat (map (\<lambda>i. map (Pair i) [0..w - 1]) xs))) + w = (x + 1) * w"
    using x(1) \<open>0 < w\<close> by (simp add: algebra_simps)
  also have "\<dots> \<le> h * w" using x(2) \<open>0 < w\<close> by (intro mult_right_mono) auto
  finally have "int (length (concat (map (\<lambda>i. map (Pair i) [0..w - 1]) xs))) + w \<le> INT_MAX"
    using room by (simp add: mult.commute)
  with prev show "\<exists>s'. solve_init_row w h x s = Some s' \<and>
      init_done st0 s' (concat (map (\<lambda>i. map (Pair i) [0..w - 1]) (xs @ [x])))"
    using solve_init_row_done [OF _ assms(2), of s _ x] x by simp
qed (use assms(1) in simp)

subsection \<open>Neighbours and relaxation\<close>

lemma add_open_eq:
  assumes "list_chain heap nodes (map Some qs)" and "cond \<Longrightarrow> (i, j) \<in> grid w h"
  shows "add_open heap nodes w h cond i j (map Some ns) =
    Some (map Some (ns @ (if cond \<and> (i, j) \<in> set qs then [(i, j)] else [])))"
  using assms cell_list.chain_contains [OF assms(1), of "Some (i, j)"]
  by (auto simp: add_open_def grid_ptr_def)

lemma open_neighbours_eq:
  assumes chain: "list_chain heap nodes (map Some qs)" and wf: "store_wf w h st"
    and c: "st p = Some c" and within: "passages st \<subseteq> grid w h \<times> grid w h"
  obtains ns where "open_neighbours heap nodes w h c = Some (map Some ns)"
    and "distinct ns" and "set ns = {q. (p, q) \<in> passages st \<and> q \<in> set qs}"
proof -
  obtain y x where p: "p = (y, x)" by (cases p)
  have xy: "c_x c = x" "c_y c = y" "0 \<le> y" "y < h" "0 \<le> x" "x < w"
    using store_wf_coords [OF wf c] store_wf_grid [OF wf c] p by auto
  note walls = passage_iffs [of st y x, OF c [unfolded p]]
  let ?l = "x > 0 \<and> \<not> left_wall c" and ?r = "x < w - 1 \<and> \<not> right_wall c"
    and ?t = "y > 0 \<and> \<not> top_wall c" and ?b = "y < h - 1 \<and> \<not> bottom_wall c"
  let ?add = "\<lambda>cond q. if cond \<and> q \<in> set qs then [q] else []"
  let ?ns = "((?add ?l (y, x - 1) @ ?add ?r (y, x + 1)) @ ?add ?t (y - 1, x)) @ ?add ?b (y + 1, x)"
  have "add_open heap nodes w h ?l y (x - 1) [] = Some (map Some (?add ?l (y, x - 1)))"
    using add_open_eq [OF chain, of ?l y "x - 1" w h "[]"] xy by auto
  moreover have "add_open heap nodes w h ?r y (x + 1) (map Some ns) =
      Some (map Some (ns @ ?add ?r (y, x + 1)))" for ns
    by (rule add_open_eq [OF chain]) (use xy in auto)
  moreover have "add_open heap nodes w h ?t (y - 1) x (map Some ns) =
      Some (map Some (ns @ ?add ?t (y - 1, x)))" for ns
    by (rule add_open_eq [OF chain]) (use xy in auto)
  moreover have "add_open heap nodes w h ?b (y + 1) x (map Some ns) =
      Some (map Some (ns @ ?add ?b (y + 1, x)))" for ns
    by (rule add_open_eq [OF chain]) (use xy in auto)
  ultimately have "open_neighbours heap nodes w h c = Some (map Some ?ns)"
    unfolding open_neighbours_def Let_def xy by (simp only: Option.bind.bind_lunit)
  moreover have "distinct ?ns" by auto
  moreover have "set ?ns = {q. (p, q) \<in> passages st \<and> q \<in> set qs}"
  proof -
    have l: "?l \<longleftrightarrow> (p, (y, x - 1)) \<in> passages st" and r: "?r \<longleftrightarrow> (p, (y, x + 1)) \<in> passages st"
      and t: "?t \<longleftrightarrow> (p, (y - 1, x)) \<in> passages st" and b: "?b \<longleftrightarrow> (p, (y + 1, x)) \<in> passages st"
      using walls within xy p by force+
    have nb: "q \<in> {(y, x - 1), (y, x + 1), (y - 1, x), (y + 1, x)}" if "(p, q) \<in> passages st" for q
      using that p by (auto simp: passages_def next_to_def)
    have "set ?ns = {q \<in> {(y, x - 1), (y, x + 1), (y - 1, x), (y + 1, x)}.
        (p, q) \<in> passages st \<and> q \<in> set qs}"
      unfolding l r t b by auto
    with nb show ?thesis by blast
  qed
  ultimately show thesis by (rule that)
qed

lemma relax_eq:
  assumes c: "st p = Some c" and d: "st q = Some d" and "c_dist c < INT_MAX"
  shows "relax (Some p) (Some q) st = Some (if c_dist c + 1 < c_dist d
    then st(q := Some (d\<lparr>c_dist := c_dist c + 1, c_prev := Some p\<rparr>)) else st)"
  using assms by (simp add: relax_def)

text \<open>The loop over the neighbours.\<close>

lemma relax_all:
  assumes p: "st p = Some c" and less: "c_dist c < INT_MAX" and "p \<notin> set ns" and "distinct ns"
    and "\<And>q. q \<in> set ns \<Longrightarrow> st q \<noteq> None"
  shows "\<exists>st'. for_each (relax (Some p)) (map Some ns) st = Some st' \<and>
    cells_core st' = cells_core st \<and>
    (\<forall>v. dist_of st' (Some v) = (if v \<in> set ns \<and> c_dist c + 1 < dist_of st (Some v)
        then c_dist c + 1 else dist_of st (Some v))) \<and>
    (\<forall>v. prev_of st' v = (if v \<in> set ns \<and> c_dist c + 1 < dist_of st (Some v)
        then Some p else prev_of st v))"
  using assms(1,3-)
proof (induction ns arbitrary: st)
  case Nil
  then show ?case by simp
next
  case (Cons q ns)
  from Cons.prems obtain d where d: "st q = Some d" by fastforce
  define st1 where "st1 = (if c_dist c + 1 < c_dist d
    then st(q := Some (d\<lparr>c_dist := c_dist c + 1, c_prev := Some p\<rparr>)) else st)"
  have run: "relax (Some p) (Some q) st = Some st1"
    using relax_eq [of st p c q d] Cons.prems(1) d less by (simp add: st1_def)
  have st1: "st1 p = Some c" "\<And>v. v \<in> set ns \<Longrightarrow> st1 v \<noteq> None"
    using Cons.prems by (auto simp: st1_def)
  from Cons.IH [of st1, OF st1(1) _ _ st1(2)] Cons.prems obtain st' where
    IH: "for_each (relax (Some p)) (map Some ns) st1 = Some st'" "cells_core st' = cells_core st1"
    "\<And>v. dist_of st' (Some v) = (if v \<in> set ns \<and> c_dist c + 1 < dist_of st1 (Some v)
        then c_dist c + 1 else dist_of st1 (Some v))"
    "\<And>v. prev_of st' v = (if v \<in> set ns \<and> c_dist c + 1 < dist_of st1 (Some v)
        then Some p else prev_of st1 v)" by auto
  have dq: "dist_of st (Some q) = c_dist d" using d by (simp add: dist_of_def)
  have eqs: "cells_core st1 = cells_core st"
    "\<And>v. dist_of st1 (Some v) = (if v = q \<and> c_dist c + 1 < c_dist d then c_dist c + 1 else dist_of st (Some v))"
    "\<And>v. prev_of st1 v = (if v = q \<and> c_dist c + 1 < c_dist d then Some p else prev_of st v)"
    using store_dist_prev [of st q, OF d] by (auto simp: st1_def)
  have "q \<notin> set ns" using Cons.prems by simp
  then show ?case
    using run IH eqs dq by auto
qed

subsection \<open>One iteration refines the abstract step\<close>

abbreviation dists :: "cell_store \<Rightarrow> cell_id \<Rightarrow> int" where
  "dists st \<equiv> \<lambda>v. dist_of st (Some v)"

definition solve_inv :: "int \<Rightarrow> int \<Rightarrow> cell_store \<Rightarrow> solve_state \<Rightarrow> cell_id list \<Rightarrow> bool" where
  "solve_inv w h st0 s qs \<longleftrightarrow>
     cells_core (s_cells s) = cells_core st0 \<and>
     list_chain (s_heap s) (s_nodes s) (map Some qs) \<and> distinct qs \<and>
     search_inv (passages st0) (grid w h) (0, 0) (set qs) (dists (s_cells s)) (prev_of (s_cells s))"

lemma solve_invD:
  assumes "solve_inv w h st0 s qs"
  shows "cells_core (s_cells s) = cells_core st0"
    and "list_chain (s_heap s) (s_nodes s) (map Some qs)" and "distinct qs"
    and "search_inv (passages st0) (grid w h) (0, 0) (set qs) (dists (s_cells s)) (prev_of (s_cells s))"
    and "set qs \<subseteq> grid w h"
  using assms unfolding solve_inv_def search_inv_def by auto

lemma solve_step_relaxes:
  assumes inv: "solve_inv w h st0 s qs" and wf: "store_wf w h st0" "walls_wf w h st0"
    and x: "x \<in> set qs" and min: "\<And>u. u \<in> set qs \<Longrightarrow> dists (s_cells s) x \<le> dists (s_cells s) u"
    and known: "dists (s_cells s) x < INT_MAX"
    and bound: "dists (s_cells s) x \<le> int (card (grid w h - set qs))"
  shows "\<exists>s'. solve_step w h (Some x) s = Some s' \<and> solve_inv w h st0 s' (remove1 x qs)"
proof -
  let ?st = "s_cells s" and ?E = "passages st0" and ?rest = "remove1 x qs"
  note core = solve_invD(1) [OF inv]
  have E: "passages ?st = ?E" by (rule cells_core_passages [OF core])
  have swf: "store_wf w h ?st" by (rule cells_core_store_wf [OF core wf(1)])
  have within: "?E \<subseteq> grid w h \<times> grid w h" using wf(2) by (simp add: walls_wf_def)
  obtain heap nodes where rem: "linked_list_remove (s_heap s) (s_nodes s) (Some x) = Some (heap, nodes)"
    "list_chain heap nodes (remove1 (Some x) (map Some qs))"
    using cell_list.chain_remove [OF solve_invD(2) [OF inv]] by blast
  have remove_map: "remove1 (Some x) (map Some qs) = map Some ?rest"
    by (induction qs) auto
  have rest: "set ?rest = set qs - {x}" using solve_invD(3) [OF inv] by simp
  from x solve_invD(5) [OF inv] have "x \<in> grid w h" by auto
  with swf obtain c where c: "?st x = Some c" by (rule store_wfD)
  obtain ns where ns: "open_neighbours heap nodes w h c = Some (map Some ns)" "distinct ns"
    "set ns = {q. (x, q) \<in> ?E \<and> q \<in> set ?rest}"
    using open_neighbours_eq [OF rem(2) [unfolded remove_map] swf c] within unfolding E by blast
  have dist_x: "dists ?st x = c_dist c" using c by (simp add: dist_of_def)
  have present: "?st q \<noteq> None" if "q \<in> set ns" for q
  proof -
    have "(x, q) \<in> ?E" using that ns(3) by simp
    then have "q \<in> grid w h" using within by auto
    with swf show ?thesis by (auto elim: store_wfD)
  qed
  have "x \<notin> set ns" using ns(3) rest by simp
  with relax_all [of ?st x c ns, OF c _ _ ns(2) present] known dist_x obtain st' where
    st': "for_each (relax (Some x)) (map Some ns) ?st = Some st'" "cells_core st' = cells_core ?st"
    "\<And>v. dists st' v = (if v \<in> set ns \<and> c_dist c + 1 < dists ?st v then c_dist c + 1 else dists ?st v)"
    "\<And>v. prev_of st' v = (if v \<in> set ns \<and> c_dist c + 1 < dists ?st v then Some x else prev_of ?st v)"
    by auto
  have run: "solve_step w h (Some x) s = Some \<lparr>s_cells = st', s_heap = heap, s_nodes = nodes\<rparr>"
    using rem(1) c ns(1) st'(1) by (simp add: solve_step_def)
  have D: "dists st' = relax_dist ?E (set qs - {x}) x (dists ?st)"
    unfolding fun_eq_iff using st'(3) ns(3) rest dist_x by (simp add: relax_dist_def)
  have P: "prev_of st' = relax_prev ?E (set qs - {x}) x (dists ?st) (prev_of ?st)"
    unfolding fun_eq_iff using st'(4) ns(3) rest dist_x by (simp add: relax_prev_def)
  have "(x, x) \<notin> ?E" by (auto simp: passages_def)
  then have "search_inv ?E (grid w h) (0, 0) (set ?rest) (dists st') (prev_of st')"
    unfolding D P rest
    by (intro search_inv_step [OF solve_invD(4) [OF inv] finite_grid x min known bound])
  with rem(2) st'(2) core solve_invD(3) [OF inv] remove_map
  have "solve_inv w h st0 \<lparr>s_cells = st', s_heap = heap, s_nodes = nodes\<rparr> ?rest"
    by (simp add: solve_inv_def)
  with run show ?thesis by blast
qed

subsection \<open>The trace\<close>

lemma trace_solution_list:
  assumes "path_data E (grid w h) s (dists st) (prev_of st)" and "store_wf w h st"
  shows "v \<in> grid w h \<Longrightarrow> dists st v = int k \<Longrightarrow> int (length ps) + int k < INT_MAX \<Longrightarrow>
    list_rep heap sol (map Some ps) \<Longrightarrow>
    \<exists>heap' sol'. trace_solution st heap sol (Some v) = Some (heap', sol') \<and>
      list_rep heap' sol' (map Some (ps @ trace (prev_of st) k v))"
proof (induction k arbitrary: v heap sol ps)
  case 0
  obtain c where c: "st v = Some c" using assms(2) 0(1) by (rule store_wfD)
  have "(v = s \<and> prev_of st v = None) \<or> (\<exists>u \<in> grid w h. dists st v = dists st u + 1 \<and> 0 \<le> dists st u)"
    using assms(1) 0(1,2,3) unfolding path_data_def by fastforce
  then have "c_prev c = None" using 0(2) c by (auto simp: prev_of_def)
  moreover obtain heap' sol' where "linked_list_push heap sol (Some v) = Some (heap', sol')"
    "list_rep heap' sol' (map Some (ps @ [v]))"
    using cell_list.rep_push [OF 0(4), of "Some v"] 0(3) by auto
  ultimately show ?case
    using c trace_solution.simps [of st heap sol "Some v"] trace_solution.simps [of st _ _ None] by simp
next
  case (Suc k)
  obtain c where c: "st v = Some c" using assms(2) Suc.prems(1) by (rule store_wfD)
  have "(v = s \<and> dists st v = 0) \<or>
      (\<exists>u \<in> grid w h. prev_of st v = Some u \<and> dists st v = dists st u + 1)"
    using assms(1) Suc.prems(1,2,3) unfolding path_data_def by fastforce
  then obtain u where u: "u \<in> grid w h" "prev_of st v = Some u" "dists st u = int k"
    using Suc.prems(2) by force
  obtain heap1 sol1 where push: "linked_list_push heap sol (Some v) = Some (heap1, sol1)"
    "list_rep heap1 sol1 (map Some (ps @ [v]))"
    using cell_list.rep_push [OF Suc.prems(4), of "Some v"] Suc.prems(3) by auto
  obtain heap' sol' where "trace_solution st heap1 sol1 (Some u) = Some (heap', sol')"
    "list_rep heap' sol' (map Some ((ps @ [v]) @ trace (prev_of st) k u))"
    using Suc.IH [OF u(1,3) _ push(2)] Suc.prems(3) by auto
  moreover have "c_prev c = Some u" using c u(2) by (simp add: prev_of_def)
  ultimately show ?case
    using c u(2) push(1) trace_solution.simps [of st heap sol "Some v"] by simp
qed

subsection \<open>The loop\<close>

text \<open>
  What the loop promises when the exit can be reached: a list of the cells of a way without
  repetition from the exit back to the start, no longer than any other way.
\<close>

definition shortest_back :: "(cell_id \<times> cell_id) set \<Rightarrow> cell_id \<Rightarrow> cell_id \<Rightarrow> cell_id list \<Rightarrow> bool" where
  "shortest_back E s e ps \<longleftrightarrow> simple_walk E e ps s \<and>
     (\<forall>qs. walk E qs \<and> hd qs = e \<and> last qs = s \<longrightarrow> length ps \<le> length qs)"

text \<open>The pass that takes the exit builds the list, which is a shortest way.\<close>

lemma exit_trace_shortest:
  assumes within: "E \<subseteq> V \<times> V" and symE: "sym E" and fin: "finite V" and card: "int (card V) \<le> INT_MAX"
    and inv: "search_inv E V s Q D P" and e: "e \<in> Q" "e \<in> V" and min: "\<And>u. u \<in> Q \<Longrightarrow> D e \<le> D u" and k: "D e = int k" "int k < INT_MAX"
  shows "shortest_back E s e (trace P k e)"
proof -
  have data: "path_data E V s D P" by (rule search_path_data [OF inv fin card])
  let ?ps = "trace P k e"
  have path: "walk (E\<inverse>) ?ps" "hd ?ps = e" "last ?ps = s" "length ?ps = Suc k" "distinct ?ps"
    using trace_path [OF data e(2) k] by auto
  have "E\<inverse> = E" using symE by (rule sym_conv_converse_eq [THEN iffD1])
  with path have simple: "simple_walk E e ?ps s" by (simp add: simple_walk_def)
  have "length ?ps \<le> length qs" if q: "walk E qs" "hd qs = e" "last qs = s" for qs
  proof -
    have "(s, e) \<in> E ^^ (length qs - 1)"
      using walk_relpow [OF walk_rev [OF symE q(1)]] q by (simp add: hd_rev last_rev)
    then have "D e \<le> int (length qs - 1)" using search_minimum_short [OF inv within _ e(1) min] by simp
    moreover have "qs \<noteq> []" using q(1) by auto
    ultimately show ?thesis using k(1) path(4) by (cases qs) auto
  qed
  with simple show ?thesis by (auto simp: shortest_back_def)
qed

lemma solve_exit:
  assumes wf: "store_wf w h st0" "walls_wf w h st0" and card: "int (card (grid w h)) \<le> INT_MAX"
    and inv: "solve_inv w h st0 s qs" and e: "(h - 1, w - 1) \<in> set qs"
    and min: "\<And>u. u \<in> set qs \<Longrightarrow> dists (s_cells s) (h - 1, w - 1) \<le> dists (s_cells s) u"
    and known: "dists (s_cells s) (h - 1, w - 1) < INT_MAX"
    and loop: "\<And>heap' sol. trace_solution (s_cells s) (s_heap s) empty_list (Some (h - 1, w - 1)) = Some (heap', sol) \<Longrightarrow>
      solve_loop w h s = Some (Some sol, s\<lparr>s_heap := heap'\<rparr>)"
  shows "\<exists>sol s' ps. solve_loop w h s = Some (Some sol, s') \<and>
      list_rep (s_heap s') sol (map Some ps) \<and> shortest_back (passages st0) (0, 0) (h - 1, w - 1) ps \<and>
      cells_core (s_cells s') = cells_core st0 \<and>
      path_data (passages st0) (grid w h) (0, 0) (dists (s_cells s')) (prev_of (s_cells s')) \<and>
      ps = trace (prev_of (s_cells s')) (length ps - 1) (h - 1, w - 1) \<and>
      dists (s_cells s') (h - 1, w - 1) = int (length ps - 1) \<and> int (length ps - 1) < INT_MAX"
proof -
  let ?E = "passages st0" and ?st = "s_cells s" and ?e = "(h - 1, w - 1)"
  note core = solve_invD(1) [OF inv]
  have within: "?E \<subseteq> grid w h \<times> grid w h" and symE: "sym ?E" using wf(2) by (auto simp: walls_wf_def)
  have swf: "store_wf w h ?st" by (rule cells_core_store_wf [OF core wf(1)])
  have grid: "?e \<in> grid w h" using e solve_invD(5) [OF inv] by auto
  define k where "k = nat (dists ?st ?e)"
  have k: "dists ?st ?e = int k" "int k < INT_MAX"
    using known search_invD(7) [OF solve_invD(4) [OF inv] grid] by (simp_all add: k_def)
  have data: "path_data ?E (grid w h) (0, 0) (dists ?st) (prev_of ?st)"
    by (rule search_path_data [OF solve_invD(4) [OF inv] finite_grid card])
  let ?ps = "trace (prev_of ?st) k ?e"
  have "heap_ok (s_heap s)" using solve_invD(2) [OF inv] by (simp add: list_chain_def)
  then have "list_rep (s_heap s) empty_list (map Some [])" using list_rep_empty by simp
  from trace_solution_list [OF data swf grid k(1) _ this] k(2) obtain heap' sol where
    tr: "trace_solution ?st (s_heap s) empty_list (Some ?e) = Some (heap', sol)"
    "list_rep heap' sol (map Some ?ps)" by auto
  have "shortest_back ?E (0, 0) ?e ?ps"
    by (rule exit_trace_shortest [OF within symE finite_grid card solve_invD(4) [OF inv] e grid min k])
  moreover have "length ?ps = Suc k" using trace_path [OF data grid k] by auto
  then have "?ps = trace (prev_of ?st) (length ?ps - 1) ?e" "dists ?st ?e = int (length ?ps - 1)"
    "int (length ?ps - 1) < INT_MAX" using k by simp_all
  ultimately show ?thesis using loop [OF tr(1)] tr(2) core data by fastforce
qed

lemma solve_loop_result:
  assumes wf: "store_wf w h st0" "walls_wf w h st0" and size: "w * h \<le> INT_MAX"
    and reach: "((0, 0), (h - 1, w - 1)) \<in> (passages st0)\<^sup>*"
  shows "solve_inv w h st0 s qs \<Longrightarrow> (h - 1, w - 1) \<in> set qs \<Longrightarrow>
    \<exists>sol s' ps. solve_loop w h s = Some (Some sol, s') \<and>
      list_rep (s_heap s') sol (map Some ps) \<and> shortest_back (passages st0) (0, 0) (h - 1, w - 1) ps \<and>
      cells_core (s_cells s') = cells_core st0 \<and>
      path_data (passages st0) (grid w h) (0, 0) (dists (s_cells s')) (prev_of (s_cells s')) \<and>
      ps = trace (prev_of (s_cells s')) (length ps - 1) (h - 1, w - 1) \<and>
      dists (s_cells s') (h - 1, w - 1) = int (length ps - 1) \<and> int (length ps - 1) < INT_MAX"
proof (induction "length qs" arbitrary: s qs)
  case 0
  then show ?case by simp
next
  case (Suc n)
  let ?E = "passages st0" and ?st = "s_cells s" and ?e = "(h - 1, w - 1)"
  note inv = Suc.prems(1) and core = solve_invD(1) [OF Suc.prems(1)]
  have within: "?E \<subseteq> grid w h \<times> grid w h" and symE: "sym ?E" using wf(2) by (auto simp: walls_wf_def)
  have swf: "store_wf w h ?st" by (rule cells_core_store_wf [OF core wf(1)])
  have grid: "0 < w" "0 < h" "?e \<in> grid w h"
    using Suc.prems(2) solve_invD(5) [OF inv] by auto
  then have cardV: "int (card (grid w h)) \<le> INT_MAX" using size by (simp add: card_grid mult.commute)
  have readable: "load_cell ?st u \<noteq> None" if "u \<in> set (map Some qs)" for u
    using that solve_invD(5) [OF inv] swf by (auto simp: store_wf_def)
  have ne: "map Some qs \<noteq> []" using Suc.prems(2) by auto
  obtain p where p: "get_minimum_distance ?st (s_heap s) (s_nodes s) = Some p"
    "p \<in> set (map Some qs)" "\<And>u. u \<in> set (map Some qs) \<Longrightarrow> dist_of ?st p \<le> dist_of ?st u"
    using cell_list.take_minimum [OF solve_invD(2) [OF inv] ne readable] by metis
  then obtain x where x: "p = Some x" "x \<in> set qs" by auto
  have min: "dists ?st x \<le> dists ?st u" if "u \<in> set qs" for u using p(3) [of "Some u"] x that by simp
  note known = search_minimum_known [OF solve_invD(4) [OF inv] within finite_grid reach Suc.prems(2)
      cardV min x(2)]
  have "x \<in> grid w h" using x(2) solve_invD(5) [OF inv] by auto
  with swf obtain c where c: "?st x = Some c" "c_y c = fst x" "c_x c = snd x" by (rule store_wfD)
  have pos: "0 < ll_size (s_nodes s)"
    using cell_list.size_pos_iff [OF solve_invD(2) [OF inv]] ne by simp
  have exit: "c_x c = w - 1 \<and> c_y c = h - 1 \<longleftrightarrow> x = ?e" using c by (auto simp: prod_eq_iff)
  show ?case
  proof (cases "x = ?e")
    case True
    show ?thesis
    proof (rule solve_exit [OF wf cardV inv Suc.prems(2)])
      show "dists ?st ?e \<le> dists ?st u" if "u \<in> set qs" for u using min that True by simp
      show "dists ?st ?e < INT_MAX" using known True by simp
      show "solve_loop w h s = Some (Some sol, s\<lparr>s_heap := heap'\<rparr>)"
        if "trace_solution ?st (s_heap s) empty_list (Some ?e) = Some (heap', sol)" for heap' sol
        using solve_loop.simps [of w h s] pos p(1) x(1) c(1) exit True that by simp
    qed
  next
    case False
    from solve_step_relaxes [OF inv wf x(2) min known] obtain s' where
      s': "solve_step w h (Some x) s = Some s'" "solve_inv w h st0 s' (remove1 x qs)" by blast
    have "n = length (remove1 x qs)" using x(2) Suc.hyps(2) by (simp add: length_remove1)
    from Suc.hyps(1) [OF this s'(2)] have IH: "\<exists>sol s'' ps. solve_loop w h s' = Some (Some sol, s'') \<and>
      list_rep (s_heap s'') sol (map Some ps) \<and> shortest_back ?E (0, 0) ?e ps \<and>
      cells_core (s_cells s'') = cells_core st0 \<and>
      path_data ?E (grid w h) (0, 0) (dists (s_cells s'')) (prev_of (s_cells s'')) \<and>
      ps = trace (prev_of (s_cells s'')) (length ps - 1) ?e \<and>
      dists (s_cells s'') ?e = int (length ps - 1) \<and> int (length ps - 1) < INT_MAX"
      using Suc.prems(2) False by simp
    have "solve_loop w h s = solve_loop w h s'"
      using solve_loop.simps [of w h s] pos p(1) x(1) c(1) exit False s'(1) by simp
    with IH show ?thesis by simp
  qed
qed

subsection \<open>Properties of the solver\<close>

lemma get_solution_run:
  assumes wf: "maze_wf m" and "heap_ok heap" and "m_width m * m_height m \<le> INT_MAX"
    and reach: "((0, 0), (m_height m - 1, m_width m - 1)) \<in> (maze_passages m)\<^sup>*"
  obtains sol heap' m' ps where "get_solution heap m = Some (Some sol, heap', m')"
    and "list_rep heap' sol (map Some ps)"
    and "shortest_back (maze_passages m) (0, 0) (m_height m - 1, m_width m - 1) ps"
    and "m' = m\<lparr>m_cells := m_cells m'\<rparr>" and "cells_core (m_cells m') = cells_core (m_cells m)"
    and "ps = trace (prev_of (m_cells m')) (length ps - 1) (m_height m - 1, m_width m - 1)"
    and "path_data (maze_passages m) (maze_grid m) (0, 0) (dists (m_cells m')) (prev_of (m_cells m'))"
    and "dists (m_cells m') (m_height m - 1, m_width m - 1) = int (length ps - 1)"
    and "int (length ps - 1) < INT_MAX"
proof -
  let ?w = "m_width m" and ?h = "m_height m" and ?st0 = "m_cells m"
  have dims: "0 < ?w" "0 < ?h" and swf: "store_wf ?w ?h ?st0" and wwf: "walls_wf ?w ?h ?st0"
    using wf by (auto simp: maze_wf_def)
  have "init_done ?st0 \<lparr>s_cells = ?st0, s_heap = heap, s_nodes = empty_list\<rparr> []"
    using list_rep_empty [OF assms(2)] by (simp add: init_done_def)
  from solve_init_done [OF this swf assms(3) dims(1)] obtain s where
    s: "solve_init ?w ?h \<lparr>s_cells = ?st0, s_heap = heap, s_nodes = empty_list\<rparr> = Some s"
    "init_done ?st0 s (grid_list ?w ?h)" by blast
  then have core: "cells_core (s_cells s) = cells_core ?st0" by (simp add: init_done_def)
  have origin: "(0, 0) \<in> grid ?w ?h" using dims by simp
  with cells_core_store_wf [OF core swf] obtain c where c: "s_cells s (0, 0) = Some c"
    by (rule store_wfD)
  define s1 where "s1 = s\<lparr>s_cells := (s_cells s)((0, 0) := Some (c\<lparr>c_dist := 0\<rparr>))\<rparr>"
  have nil: "prev_of (s_cells s) p = None" "dists (s_cells s) p = INT_MAX" if "p \<in> grid ?w ?h" for p
    using s(2) that by (auto simp: init_done_def set_grid_list)
  have out: "s_cells s p = None" if "p \<notin> grid ?w ?h" for p
    using cells_core_store_wf [OF core swf] that unfolding store_wf_def by blast
  have D: "dists (s_cells s1) v = (if v = (0, 0) then 0 else if v \<in> grid ?w ?h then INT_MAX
      else dists (s_cells s) v)" for v
    using nil(2) [of v] by (auto simp: s1_def dist_of_def)
  have P: "prev_of (s_cells s1) v = None" for v
    using nil(1) [of v] nil(1) [OF origin] out [of v] c
    by (cases "v \<in> grid ?w ?h") (auto simp: s1_def prev_of_def)
  have start: "search_inv (passages ?st0) (grid ?w ?h) (0, 0) (set (grid_list ?w ?h))
      (dists (s_cells s1)) (prev_of (s_cells s1))"
    unfolding set_grid_list using D P origin by (auto simp: search_inv_def INT_MAX_def)
  have "cells_core (s_cells s1) = cells_core (s_cells s)"
    using c by (auto simp: s1_def cells_core_def)
  then have "solve_inv ?w ?h ?st0 s1 (grid_list ?w ?h)"
    using start s(2) core
    by (simp add: solve_inv_def init_done_def s1_def distinct_grid_list list_repD)
  moreover have "(?h - 1, ?w - 1) \<in> set (grid_list ?w ?h)" using dims by (simp add: set_grid_list)
  ultimately obtain sol s' ps where r: "solve_loop ?w ?h s1 = Some (Some sol, s')"
    "list_rep (s_heap s') sol (map Some ps)" "shortest_back (passages ?st0) (0, 0) (?h - 1, ?w - 1) ps"
    "cells_core (s_cells s') = cells_core ?st0"
    "path_data (passages ?st0) (grid ?w ?h) (0, 0) (dists (s_cells s')) (prev_of (s_cells s'))"
    "ps = trace (prev_of (s_cells s')) (length ps - 1) (?h - 1, ?w - 1)"
    "dists (s_cells s') (?h - 1, ?w - 1) = int (length ps - 1)" "int (length ps - 1) < INT_MAX"
    using solve_loop_result [OF swf wwf assms(3) reach [unfolded maze_passages_def], of s1] by blast
  have "get_solution heap m = Some (Some sol, s_heap s', m\<lparr>m_cells := s_cells s'\<rparr>)"
    using s(1) c r(1) dims by (simp add: get_solution_def s1_def grid_ptr_def)
  then show thesis
    using r that [of sol "s_heap s'" "m\<lparr>m_cells := s_cells s'\<rparr>" ps]
    by (simp add: maze_passages_def maze_grid_def)
qed

text \<open>The loop never ends with an empty list: the exit stays in the list until it is found.\<close>

lemma store_cell_core:
  assumes "store_cell st p f = Some st'" and "\<And>c. (f c)\<lparr>c_dist := 0, c_prev := None\<rparr> = c\<lparr>c_dist := 0, c_prev := None\<rparr>"
  shows "cells_core st' = cells_core st"
  using assms by (auto simp: store_cell_Some cells_core_def)

lemma relax_core: "relax p q st = Some st' \<Longrightarrow> cells_core st' = cells_core st"
  unfolding relax_def Let_def
  by (auto elim!: bind_SomeE split: if_splits dest!: store_cell_core simp del: store_cell.simps)

lemma relax_each_core: "for_each (relax p) qs st = Some st' \<Longrightarrow> cells_core st' = cells_core st"
  by (induction qs arbitrary: st) (auto elim!: bind_SomeE dest: relax_core)

lemma solve_step_keeps:
  assumes "solve_step w h (Some x) s = Some s'" and "list_chain (s_heap s) (s_nodes s) (map Some qs)"
  shows "list_chain (s_heap s') (s_nodes s') (map Some (remove1 x qs)) \<and>
    cells_core (s_cells s') = cells_core (s_cells s)"
proof -
  have "remove1 (Some x) (map Some qs) = map Some (remove1 x qs)" by (induction qs) auto
  with assms show ?thesis
    unfolding solve_step_def
    by (auto elim!: bind_SomeE dest!: relax_each_core cell_list.remove_exact [OF assms(2)])
qed

lemma solve_loop_not_null:
  assumes wf: "store_wf w h st0"
  shows "solve_loop w h s = Some (r, s') \<Longrightarrow> list_chain (s_heap s) (s_nodes s) (map Some qs) \<Longrightarrow>
    cells_core (s_cells s) = cells_core st0 \<Longrightarrow> set qs \<subseteq> grid w h \<Longrightarrow> (h - 1, w - 1) \<in> set qs \<Longrightarrow>
    r \<noteq> None"
proof (induction "length qs" arbitrary: s qs)
  case 0
  then show ?case by simp
next
  case (Suc n)
  note chain = Suc.prems(2) and core = Suc.prems(3)
  have swf: "store_wf w h (s_cells s)" by (rule cells_core_store_wf [OF core wf])
  have readable: "load_cell (s_cells s) u \<noteq> None" if "u \<in> set (map Some qs)" for u
    using that Suc.prems(4) swf by (auto simp: store_wf_def)
  have ne: "map Some qs \<noteq> []" using Suc.prems(5) by auto
  obtain p where p: "get_minimum_distance (s_cells s) (s_heap s) (s_nodes s) = Some p"
    "p \<in> set (map Some qs)"
    using cell_list.take_minimum [OF chain ne readable] by metis
  then obtain x where x: "p = Some x" "x \<in> set qs" by auto
  with Suc.prems(4) have "x \<in> grid w h" by auto
  with swf obtain c where c: "s_cells s x = Some c" "c_y c = fst x" "c_x c = snd x"
    by (rule store_wfD)
  have pos: "0 < ll_size (s_nodes s)" using cell_list.size_pos_iff [OF chain] ne by simp
  show ?case
  proof (cases "x = (h - 1, w - 1)")
    case True
    with Suc.prems(1) p x c pos show ?thesis
      by (subst (asm) solve_loop.simps) (auto elim!: bind_SomeE)
  next
    case False
    then have "\<not> (c_x c = w - 1 \<and> c_y c = h - 1)" using c by (auto simp: prod_eq_iff)
    with Suc.prems(1) p x c pos obtain s1 where
      s1: "solve_step w h (Some x) s = Some s1" "solve_loop w h s1 = Some (r, s')"
      by (subst (asm) solve_loop.simps) (auto elim!: bind_SomeE)
    note keep = solve_step_keeps [OF s1(1) chain]
    have "n = length (remove1 x qs)" using x(2) Suc.hyps(2) by (simp add: length_remove1)
    moreover have "(h - 1, w - 1) \<in> set (remove1 x qs)" using Suc.prems(5) False by simp
    moreover have "set (remove1 x qs) \<subseteq> grid w h"
      using Suc.prems(4) set_remove1_subset [of x qs] by blast
    ultimately show ?thesis using Suc.hyps(1) [of "remove1 x qs" s1] s1(2) keep core by simp
  qed
qed

text \<open>In a perfect maze the way is the only one.\<close>

lemma generated_exit:
  assumes "generated m"
  shows "maze_wf m" and "m_width m * m_height m \<le> INT_MAX"
    and "(0, 0) \<in> maze_grid m" and "(m_height m - 1, m_width m - 1) \<in> maze_grid m"
    and "((0, 0), (m_height m - 1, m_width m - 1)) \<in> (maze_passages m)\<^sup>*"
proof -
  note gen = generated_maze [OF assms]
  show wf: "maze_wf m" by (rule gen(1))
  then have pos: "0 < m_width m" "0 < m_height m" by (auto simp: maze_wf_def)
  then have "m_width m * m_height m \<le> 655 * 655" using gen(4,5) by (intro mult_mono) auto
  then show "m_width m * m_height m \<le> INT_MAX" by (simp add: INT_MAX_def)
  show "(0, 0) \<in> maze_grid m" and "(m_height m - 1, m_width m - 1) \<in> maze_grid m"
    using pos by (simp_all add: maze_grid_def)
  then show "((0, 0), (m_height m - 1, m_width m - 1)) \<in> (maze_passages m)\<^sup>*"
    by (rule perfect.all_connected [OF assms])
qed

text \<open>C3: on a generated maze get_solution ends without undefined behaviour and returns a list of
  cells that is the only way without repetition from the exit back to the start; it changes no
  wall, and following the prev fields from the exit visits the same cells.\<close>

theorem get_solution_generated:
  assumes "generate_maze rnd junk mi = Some m" and "heap_ok heap"
  shows "\<exists>sol heap' m' ps. get_solution heap m = Some (Some sol, heap', m') \<and>
    list_rep heap' sol (map Some ps) \<and>
    simple_walk (maze_passages m) (m_height m - 1, m_width m - 1) ps (0, 0) \<and>
    (\<forall>qs. simple_walk (maze_passages m) (m_height m - 1, m_width m - 1) qs (0, 0) \<longrightarrow> qs = ps) \<and>
    maze_wf m' \<and> maze_passages m' = maze_passages m \<and>
    ps = trace (prev_of (m_cells m')) (length ps - 1) (m_height m - 1, m_width m - 1)"
proof -
  let ?e = "(m_height m - 1, m_width m - 1)"
  have gen: "generated m" using assms(1) by (auto simp: generated_def)
  note ex = generated_exit [OF gen]
  obtain sol heap' m' ps where r: "get_solution heap m = Some (Some sol, heap', m')"
    "list_rep heap' sol (map Some ps)" "shortest_back (maze_passages m) (0, 0) ?e ps"
    "m' = m\<lparr>m_cells := m_cells m'\<rparr>" "cells_core (m_cells m') = cells_core (m_cells m)"
    "ps = trace (prev_of (m_cells m')) (length ps - 1) ?e"
    using get_solution_run [OF ex(1) assms(2) ex(2,5)] .
  have same: "passages (m_cells m') = passages (m_cells m)"
    by (rule cells_core_passages [OF r(5)])
  have dims: "m_width m' = m_width m" "m_height m' = m_height m" "m_cell_size m' = m_cell_size m"
    by (subst r(4), simp)+
  have "store_wf (m_width m) (m_height m) (m_cells m')"
    using cells_core_store_wf [OF r(5)] ex(1) by (auto simp: maze_wf_def)
  then have wf: "maze_wf m'"
    using ex(1) same unfolding maze_wf_def dims walls_wf_def by simp
  have "simple_walk (maze_passages m) ?e ps (0, 0)" using r(3) by (simp add: shortest_back_def)
  moreover have "\<forall>qs. simple_walk (maze_passages m) ?e qs (0, 0) \<longrightarrow> qs = ps"
    using perfect.unique_route [OF gen ex(4,3)] calculation by blast
  ultimately show ?thesis
    using r(1,2,6) wf same unfolding maze_passages_def by blast
qed

lemma empty_heap_ok: "heap_ok (empty_heap :: 'n nheap)"
  by (simp add: heap_ok_def empty_heap_def)

theorem get_solution_generated_witness:
  "\<exists>m sol heap' m'. generate_maze (\<lambda>k. 3 * k) (\<lambda>_. blank_cell) mode_14c = Some m \<and>
    get_solution empty_heap m = Some (Some sol, heap', m') \<and> 0 < ll_size sol"
proof -
  obtain m where m: "generate_maze (\<lambda>k. 3 * k) (\<lambda>_. blank_cell) mode_14c = Some m"
    using generate_maze_run [OF mode_14c_large, of "\<lambda>k. 3 * k" "\<lambda>_. blank_cell"] by metis
  obtain sol heap' m' ps where r: "get_solution empty_heap m = Some (Some sol, heap', m')"
    "list_rep heap' sol (map Some ps)"
    "simple_walk (maze_passages m) (m_height m - 1, m_width m - 1) ps (0, 0)"
    using get_solution_generated [OF m empty_heap_ok] by blast
  have "ps \<noteq> []" using r(3) by (auto simp: simple_walk_def)
  then have "0 < ll_size sol" using list_chain_size [OF list_repD [OF r(2)]] by simp
  with m r(1) show ?thesis by blast
qed

text \<open>C12: on any well-formed maze of at most INT_MAX cells whose exit can be reached, get_solution
  ends and returns a way without repetition from the exit to the start that no other way is
  shorter than: Dijkstra's algorithm is correct as coded, on an arbitrary layout of walls.\<close>

theorem get_solution_shortest:
  assumes "maze_wf m" and "heap_ok heap" and "m_width m * m_height m \<le> INT_MAX"
    and "((0, 0), (m_height m - 1, m_width m - 1)) \<in> (maze_passages m)\<^sup>*"
  shows "\<exists>sol heap' m' ps. get_solution heap m = Some (Some sol, heap', m') \<and>
    list_rep heap' sol (map Some ps) \<and>
    simple_walk (maze_passages m) (m_height m - 1, m_width m - 1) ps (0, 0) \<and>
    (\<forall>qs. walk (maze_passages m) qs \<and> hd qs = (m_height m - 1, m_width m - 1) \<and> last qs = (0, 0) \<longrightarrow>
      length ps \<le> length qs)"
  using get_solution_run [OF assms] unfolding shortest_back_def by metis

text \<open>A room of 2 by 2 cells without inner walls, and a corridor of two cells that a wall cuts.\<close>

definition open_room :: maze where
  "open_room = \<lparr>m_width = 2, m_height = 2, m_cell_size = 100, m_cells = (\<lambda>_. None)
     ((0, 0) := Some (blank_cell\<lparr>c_x := 0, c_y := 0, top_wall := True, left_wall := True\<rparr>),
      (0, 1) := Some (blank_cell\<lparr>c_x := 1, c_y := 0, top_wall := True, right_wall := True\<rparr>),
      (1, 0) := Some (blank_cell\<lparr>c_x := 0, c_y := 1, bottom_wall := True, left_wall := True\<rparr>),
      (1, 1) := Some (blank_cell\<lparr>c_x := 1, c_y := 1, bottom_wall := True, right_wall := True\<rparr>))\<rparr>"

definition cut_corridor :: maze where
  "cut_corridor = \<lparr>m_width = 2, m_height = 1, m_cell_size = 100, m_cells = (\<lambda>_. None)
     ((0, 0) := Some (blank_cell\<lparr>c_x := 0, top_wall := True, bottom_wall := True, left_wall := True,
        right_wall := True\<rparr>),
      (0, 1) := Some (blank_cell\<lparr>c_x := 1, top_wall := True, bottom_wall := True, left_wall := True,
        right_wall := True\<rparr>))\<rparr>"

lemma open_room_cells:
  "m_cells open_room p = (if p \<in> grid 2 2
     then Some (blank_cell\<lparr>c_x := snd p, c_y := fst p, top_wall := fst p = 0, bottom_wall := fst p = 1, left_wall := snd p = 0, right_wall := snd p = 1\<rparr>) else None)"
proof -
  have "p \<in> grid 2 2 \<longleftrightarrow> p \<in> {(0, 0), (0, 1), (1, 0), (1, 1)}" by (cases p) auto
  then show ?thesis by (cases p) (auto simp: open_room_def blank_cell_def)
qed

lemma open_room_passages: "passages (m_cells open_room) = {(p, q). p \<in> grid 2 2 \<and> q \<in> grid 2 2 \<and> next_to p q}"
  by (auto simp: passages_def open_room_cells next_to_def wall_towards_def split: if_splits)

lemma open_room_wf: "maze_wf open_room"
  unfolding maze_wf_def store_wf_def walls_wf_def open_room_passages open_room_cells
  by (auto simp: open_room_def sym_def next_to_sym)

theorem get_solution_shortest_witness:
  "\<exists>sol heap' m'. get_solution empty_heap open_room = Some (Some sol, heap', m') \<and> ll_size sol \<le> 3"
proof -
  have dims: "m_width open_room = 2" "m_height open_room = 2" by (simp_all add: open_room_def)
  have walk: "walk (maze_passages open_room) [(1, 1), (0, 1), (0, 0)]"
    by (simp add: maze_passages_def open_room_passages next_to_def)
  have "sym (maze_passages open_room)"
    using open_room_wf by (simp add: maze_wf_def walls_wf_def maze_passages_def)
  with walk have "((0, 0), (1, 1)) \<in> (maze_passages open_room)\<^sup>*"
    using walk_rtrancl [OF walk_rev [OF _ walk]] by simp
  then obtain sol heap' m' ps where r: "get_solution empty_heap open_room = Some (Some sol, heap', m')"
    "list_rep heap' sol (map Some ps)"
    "\<And>qs. walk (maze_passages open_room) qs \<Longrightarrow> hd qs = (1, 1) \<Longrightarrow> last qs = (0, 0) \<Longrightarrow>
      length ps \<le> length qs"
    using get_solution_shortest [OF open_room_wf empty_heap_ok] dims by (auto simp: INT_MAX_def)
  then have "length ps \<le> 3" using r(3) [OF walk] by simp
  with r(1) list_chain_size [OF list_repD [OF r(2)]] show ?thesis by simp
qed

text \<open>Get_solution never returns NULL: when it returns on a well-formed maze of at most INT_MAX
  cells, it returns a list,
  also when the exit cannot be reached. On a corridor of two cells cut by a wall the list holds
  the exit alone (the documentation promises NULL there).\<close>

lemma get_solution_never_null:
  assumes "maze_wf m" and "heap_ok heap" and "m_width m * m_height m \<le> INT_MAX"
    and run: "get_solution heap m = Some (r, heap', m')"
  shows "r \<noteq> None"
proof -
  let ?w = "m_width m" and ?h = "m_height m" and ?st0 = "m_cells m"
  have dims: "0 < ?w" "0 < ?h" and swf: "store_wf ?w ?h ?st0"
    using assms(1) by (auto simp: maze_wf_def)
  have "init_done ?st0 \<lparr>s_cells = ?st0, s_heap = heap, s_nodes = empty_list\<rparr> []"
    using list_rep_empty [OF assms(2)] by (simp add: init_done_def)
  from solve_init_done [OF this swf assms(3) dims(1)] obtain s where
    s: "solve_init ?w ?h \<lparr>s_cells = ?st0, s_heap = heap, s_nodes = empty_list\<rparr> = Some s"
    "init_done ?st0 s (grid_list ?w ?h)" by blast
  have "grid_ptr ?w ?h 0 0 = Some (Some (0, 0))" using dims by simp
  with run s(1) obtain st s' where st: "store_cell (s_cells s) (Some (0, 0)) (c_dist_update (\<lambda>_. 0)) = Some st"
    and loop: "solve_loop ?w ?h (s\<lparr>s_cells := st\<rparr>) = Some (r, s')"
    unfolding get_solution_def by (auto elim!: bind_SomeE simp del: store_cell.simps)
  have "cells_core st = cells_core ?st0"
    using store_cell_core [OF st] s(2) by (simp add: init_done_def)
  then show ?thesis
    using solve_loop_not_null [OF swf loop, of "grid_list ?w ?h"] s(2) dims
    by (simp add: init_done_def list_repD set_grid_list)
qed

lemma cut_corridor_wf: "maze_wf cut_corridor"
proof -
  have "passages (m_cells cut_corridor) = {}"
    by (auto simp: cut_corridor_def passages_def wall_towards_def split: if_splits)
  then show ?thesis
    by (auto simp: maze_wf_def store_wf_def walls_wf_def cut_corridor_def sym_def blank_cell_def)
qed

lemma cut_corridor_size: "m_width cut_corridor * m_height cut_corridor \<le> INT_MAX"
  by (simp add: cut_corridor_def INT_MAX_def)

lemma cut_corridor_solution:
  "\<exists>heap' m'. get_solution empty_heap cut_corridor =
     Some (Some \<lparr>ll_head = Some 2, ll_last = Some 2, ll_size = 1\<rparr>, heap', m')"
  by (simp add: model_defs upto.simps cut_corridor_def blank_cell_def empty_heap_def
      get_minimum_distance_def)

lemma get_solution_never_null_witness:
  "((0, 0), (0, 1)) \<notin> (maze_passages cut_corridor)\<^sup>* \<and>
   (\<exists>r heap' m'. get_solution empty_heap cut_corridor = Some (r, heap', m') \<and> r \<noteq> None)"
proof -
  have "maze_passages cut_corridor = {}"
    by (auto simp: cut_corridor_def maze_passages_def passages_def wall_towards_def split: if_splits)
  with cut_corridor_solution get_solution_never_null [OF cut_corridor_wf empty_heap_ok]
    cut_corridor_size
  show ?thesis by fastforce
qed

end
