(* ===== verification/C_Double.thy ===== *)
theory C_Double
  imports Complex_Main Maze_Prelude
begin

text \<open>
  C's double, modelled by the real numbers: nothing is rounded. Converting one to int or to
  uint16_t truncates towards zero, and is undefined when the result does not fit. atan2 is the
  function of the C library.
\<close>

definition trunc :: "real \<Rightarrow> int" where
  "trunc r = (if 0 \<le> r then \<lfloor>r\<rfloor> else \<lceil>r\<rceil>)"

definition int_of_double :: "real \<Rightarrow> int option" where
  "int_of_double r = c_int (trunc r)"

definition u16_of_double :: "real \<Rightarrow> u16 option" where
  "u16_of_double r = (if 0 \<le> trunc r \<and> trunc r < 65536 then Some (word_of_int (trunc r)) else None)"

definition atan2 :: "real \<Rightarrow> real \<Rightarrow> real" where
  "atan2 b a =
     (if 0 < a then arctan (b / a)
      else if a < 0 then (if 0 \<le> b then arctan (b / a) + pi else arctan (b / a) - pi)
      else if 0 < b then pi / 2
      else if b < 0 then - pi / 2
      else 0)"

declare trunc_def [model_defs] int_of_double_def [model_defs] u16_of_double_def [model_defs]

lemma trunc_abs: "real_of_int \<bar>trunc r\<bar> \<le> \<bar>r\<bar>"
proof (cases "0 \<le> r")
  case True
  then show ?thesis by (simp add: trunc_def)
next
  case False
  then have "\<lceil>r\<rceil> \<le> 0" by simp
  with False show ?thesis by (simp add: trunc_def)
qed

lemma trunc_small: "\<bar>r\<bar> \<le> 100000000 \<Longrightarrow> \<bar>trunc r\<bar> \<le> 100000000"
  using trunc_abs [of r] by linarith

lemma trunc_of_int [simp]: "trunc (of_int a) = a"
  by (simp add: trunc_def)

lemma trunc_pos: "0 < trunc r \<Longrightarrow> trunc r = \<lfloor>r\<rfloor>"
  by (auto simp: trunc_def ceiling_less_iff not_le split: if_splits)

lemma trunc_near:
  assumes "0 < trunc a" and "0 < trunc b" and "\<bar>a - b\<bar> \<le> 10"
  shows "\<bar>trunc a - trunc b\<bar> \<le> 10"
  using assms(3) unfolding trunc_pos [OF assms(1)] trunc_pos [OF assms(2)] by linarith

lemma int_of_double_small: "\<bar>r\<bar> \<le> 100000000 \<Longrightarrow> int_of_double r = Some (trunc r)"
  using trunc_small [of r] by (simp add: int_of_double_def)

end
