(* ===== verification/Player_Motion.thy ===== *)
theory Player_Motion
  imports C_Double Maze_Gen
begin

text \<open>
  The player in the maze, game/game.c: the collision test, the keyboard and mouse handlers, the
  aim, the clamping of the cursor and the test for the end of the game.

  The double variables of the source are modelled by real numbers (C_Double). player holds the
  global variables these functions share; img_width and img_height are those of the global img,
  which the program never loads.

  collision_spec says what the collision test decides; player_ok is the invariant of the handlers;
  step_passage says that the player goes from cell to cell through passages only.
\<close>

subsection \<open>The code\<close>

record player =
  pos_x :: real
  pos_y :: real
  x_mouse :: real
  y_mouse :: real
  delta :: real
  direction :: real
  is_moving :: bool
  update_delta :: bool
  img_width :: int
  img_height :: int

text \<open>One of the four wall tests: the side pointer, its wall, the wall of the centre cell.\<close>

definition wall_between ::
  "cell_store \<Rightarrow> cell_ptr \<Rightarrow> cell_ptr \<Rightarrow> (cell \<Rightarrow> bool) \<Rightarrow> (cell \<Rightarrow> bool) \<Rightarrow> bool option" where
  "wall_between st side center side_wall center_wall =
     (if side \<noteq> center
      then do {
        c \<leftarrow> load_cell st side;
        if side_wall c then do { d \<leftarrow> load_cell st center; Some (center_wall d) } else Some False
      }
      else Some False)"

definition check_collision :: "maze \<Rightarrow> int \<Rightarrow> int \<Rightarrow> int \<Rightarrow> bool option" where
  "check_collision m px py sz =
     do {
       left_x \<leftarrow> c_int (px - sz);
       right_x \<leftarrow> c_int (px + sz);
       top_y \<leftarrow> c_int (py - sz);
       bottom_y \<leftarrow> c_int (py + sz);
       left_cell \<leftarrow> get_cell m left_x py;
       right_cell \<leftarrow> get_cell m right_x py;
       top_cell \<leftarrow> get_cell m px top_y;
       bottom_cell \<leftarrow> get_cell m px bottom_y;
       center_cell \<leftarrow> get_cell m px py;
       if left_cell = None \<or> right_cell = None \<or> top_cell = None \<or> bottom_cell = None then Some True
       else do {
         hit_left \<leftarrow> wall_between (m_cells m) left_cell center_cell right_wall left_wall;
         if hit_left then Some True
         else do {
           hit_right \<leftarrow> wall_between (m_cells m) right_cell center_cell left_wall right_wall;
           if hit_right then Some True
           else do {
             hit_top \<leftarrow> wall_between (m_cells m) top_cell center_cell bottom_wall top_wall;
             if hit_top then Some True
             else wall_between (m_cells m) bottom_cell center_cell top_wall bottom_wall
           }
         }
       }
     }"

definition game_update_delta :: "player \<Rightarrow> player" where
  "game_update_delta p =
     p\<lparr>delta := atan2 (- (pos_y p + of_int (img_height p sdiv 2) - y_mouse p))
                     (pos_x p + of_int (img_width p sdiv 2) - x_mouse p) + pi\<rparr>"

text \<open>x_changer, y_changer and the new direction for a scan code.\<close>

definition key_motion :: "u8 \<Rightarrow> real \<Rightarrow> (real \<times> real \<times> real) option" where
  "key_motion kbd_value d =
     (if kbd_value = 0x11 then Some (cos d, sin d, d)
      else if kbd_value = 0x1f then Some (- cos d, - sin d, d + pi)
      else if kbd_value = 0x1e then Some (- sin d, cos d, d - pi / 2)
      else if kbd_value = 0x20 then Some (sin d, - cos d, d + pi / 2)
      else None)"

definition game_keyboard_handler :: "maze \<Rightarrow> u8 \<Rightarrow> player \<Rightarrow> player option" where
  "game_keyboard_handler m kbd_value p =
     (let p = p\<lparr>is_moving := (kbd_value = 0x11 \<or> kbd_value = 0x1f \<or> kbd_value = 0x1e \<or> kbd_value = 0x20)\<rparr>;
          (x_changer, y_changer, p) =
            (case key_motion kbd_value (delta p) of
               Some (xc, yc, d) \<Rightarrow> (xc, yc, p\<lparr>direction := d\<rparr>)
             | None \<Rightarrow> (0, 0, p)) in
      do {
        nx \<leftarrow> int_of_double (pos_x p + x_changer * 10);
        ny \<leftarrow> int_of_double (pos_y p - y_changer * 10);
        collision \<leftarrow> check_collision m nx ny 25;
        let p = (if \<not> collision then p\<lparr>pos_x := pos_x p + x_changer * 10, pos_y := pos_y p - y_changer * 10\<rparr> else p);
        Some (if update_delta p then game_update_delta p else p)
      })"

definition game_mouse_handler :: "packet \<Rightarrow> player \<Rightarrow> player" where
  "game_mouse_handler mp p =
     (let p = p\<lparr>x_mouse := x_mouse p + of_int (sint (delta_x mp)) * 0.5,
                y_mouse := y_mouse p - of_int (sint (delta_y mp)) * 0.5,
                update_delta := lb mp\<rparr> in
      if update_delta p then game_update_delta p else p)"

definition game_check_bound :: "vbe_mode_info \<Rightarrow> player \<Rightarrow> player" where
  "game_check_bound mi p =
     (let p = (if x_mouse p > of_int (uint (XResolution mi))
               then p\<lparr>x_mouse := of_int (uint (XResolution mi))\<rparr> else p);
          p = (if y_mouse p > of_int (uint (YResolution mi))
               then p\<lparr>y_mouse := of_int (uint (YResolution mi))\<rparr> else p);
          p = (if x_mouse p < 0 then p\<lparr>x_mouse := 0\<rparr> else p) in
      if y_mouse p < 0 then p\<lparr>y_mouse := 0\<rparr> else p)"

definition check_game_end :: "maze \<Rightarrow> player \<Rightarrow> bool" where
  "check_game_end m p \<longleftrightarrow>
     pos_x p \<ge> of_int ((m_width m - 1) * m_cell_size m - 25) \<and>
     pos_y p \<ge> of_int ((m_height m - 1) * m_cell_size m - 25)"

declare wall_between_def [model_defs]
  check_collision_def [model_defs] game_update_delta_def [model_defs] key_motion_def [model_defs]
  game_keyboard_handler_def [model_defs] game_mouse_handler_def [model_defs]
  game_check_bound_def [model_defs] check_game_end_def [model_defs]

subsection \<open>What the collision test decides\<close>

text \<open>
  The place (px, py) is clear for a player of half width 25: it is that far from the border of the
  maze, and from every standing wall of the cell it lies in.
\<close>

definition clear_at :: "maze \<Rightarrow> int \<Rightarrow> int \<Rightarrow> bool" where
  "clear_at m px py \<longleftrightarrow>
     25 \<le> px \<and> px + 25 < 100 * m_width m \<and> 25 \<le> py \<and> py + 25 < 100 * m_height m \<and>
     (\<forall>c. m_cells m (py div 100, px div 100) = Some c \<longrightarrow>
        (left_wall c \<longrightarrow> 100 * (px div 100) \<le> px - 25) \<and>
        (right_wall c \<longrightarrow> px + 25 < 100 * (px div 100) + 100) \<and>
        (top_wall c \<longrightarrow> 100 * (py div 100) \<le> py - 25) \<and>
        (bottom_wall c \<longrightarrow> py + 25 < 100 * (py div 100) + 100))"

lemma div_unique: "100 * q \<le> (a::int) \<Longrightarrow> a < 100 * q + 100 \<Longrightarrow> a div 100 = q"
  by (rule int_div_pos_eq [of _ _ _ "a - 100 * q"]) auto

lemma div_bounds: "100 * ((a::int) div 100) \<le> a" "a < 100 * (a div 100) + 100"
  using div_mult_mod_eq [of a 100] pos_mod_sign [of 100 a] pos_mod_bound [of 100 a] by linarith+

lemma div_next: "100 * q + 100 \<le> (a'::int) \<Longrightarrow> \<bar>a - a'\<bar> \<le> 10 \<Longrightarrow> a < 100 * q + 100 \<Longrightarrow> a' div 100 = q + 1"
  by (rule div_unique) auto

lemma div_prev: "a' < 100 * q \<Longrightarrow> \<bar>a - a'\<bar> \<le> 10 \<Longrightarrow> 100 * q \<le> a \<Longrightarrow> (a'::int) div 100 = q - 1"
  by (rule div_unique) auto

lemma div_minus_25:
  "((a::int) - 25) div 100 = (if 100 * (a div 100) \<le> a - 25 then a div 100 else a div 100 - 1)"
  using div_bounds [of a] by (auto intro!: div_unique)

lemma div_plus_25:
  "((a::int) + 25) div 100 = (if a + 25 < 100 * (a div 100) + 100 then a div 100 else a div 100 + 1)"
  using div_bounds [of a] by (auto intro!: div_unique)

lemma wall_between_eq:
  assumes "st s = Some c" and "st p = Some d" and "s \<noteq> p \<Longrightarrow> f c = g d"
  shows "wall_between st (Some s) (Some p) f g = Some (s \<noteq> p \<and> g d)"
  using assms by (auto simp: wall_between_def)

lemma generated_pixels_fit: "generated m \<Longrightarrow> pixels_fit m"
  using generated_maze [of m] by (auto simp: pixels_fit_def INT_MAX_def)

text \<open>The four points a player's half width away from (px, py) have coordinates of type int.\<close>

definition sides_fit :: "int \<Rightarrow> int \<Rightarrow> bool" where
  "sides_fit px py \<longleftrightarrow>
     - INT_MAX - 1 \<le> px - 25 \<and> px + 25 \<le> INT_MAX \<and> - INT_MAX - 1 \<le> py - 25 \<and> py + 25 \<le> INT_MAX"

lemma sides_fit_ints:
  assumes "sides_fit px py"
  shows "c_int (px - 25) = Some (px - 25)" "c_int (px + 25) = Some (px + 25)"
    "c_int (py - 25) = Some (py - 25)" "c_int (py + 25) = Some (py + 25)"
  using assms by (auto simp: sides_fit_def c_int_def INT_MAX_def)

lemma check_collision_overflow: "\<not> sides_fit px py \<Longrightarrow> check_collision m px py 25 = None"
  unfolding sides_fit_def de_Morgan_conj
  by (elim disjE) (simp_all add: check_collision_def c_int_def INT_MAX_def bind_eq_None_conv)

lemma collision_spec:
  assumes wf: "maze_wf m" and size: "m_cell_size m = 100" and fit: "pixels_fit m"
    and range: "sides_fit px py"
  shows "check_collision m px py 25 = Some (\<not> clear_at m px py)"
proof (cases "25 \<le> px \<and> px + 25 < 100 * m_width m \<and> 25 \<le> py \<and> py + 25 < 100 * m_height m")
  case False
  moreover have "0 < m_width m" "0 < m_height m" using wf by (auto simp: maze_wf_def)
  moreover note sides_fit_ints [OF range]
  moreover have "get_cell m a b = Some (if 0 \<le> a \<and> a < 100 * m_width m \<and> 0 \<le> b \<and> b < 100 * m_height m
      then Some (b div 100, a div 100) else None)" for a b
    using get_cell_defined [OF wf fit, of a b] size by (simp add: mult.commute)
  ultimately show ?thesis
    by (simp add: check_collision_def clear_at_def) blast
next
  case True
  let ?j = "px div 100" and ?i = "py div 100" and ?st = "m_cells m"
  have swf: "store_wf (m_width m) (m_height m) ?st"
    and agree: "walls_agree (m_width m) (m_height m) ?st"
    using wf by (auto simp: maze_wf_def walls_wf_agree)
  have cell: "\<exists>c. ?st (b div 100, a div 100) = Some c"
    if "0 \<le> a" "a < 100 * m_width m" "0 \<le> b" "b < 100 * m_height m" for a b
  proof -
    have "(b div 100, a div 100) \<in> grid (m_width m) (m_height m)"
      using that div_pos_less [of 100 a "m_width m"] div_pos_less [of 100 b "m_height m"]
      by (simp add: pos_imp_zdiv_nonneg_iff mult.commute)
    with swf show ?thesis by (rule store_wfD) blast
  qed
  obtain c where c: "?st (?i, ?j) = Some c" using cell [of px py] True by auto
  obtain l where l: "?st (?i, (px - 25) div 100) = Some l" using cell [of "px - 25" py] True by auto
  obtain r where r: "?st (?i, (px + 25) div 100) = Some r" using cell [of "px + 25" py] True by auto
  obtain t where t: "?st ((py - 25) div 100, ?j) = Some t" using cell [of px "py - 25"] True by auto
  obtain b where b: "?st ((py + 25) div 100, ?j) = Some b" using cell [of px "py + 25"] True by auto
  have walls: "\<And>i j c d. ?st (i, j) = Some c \<Longrightarrow> ?st (i, j + 1) = Some d \<Longrightarrow> right_wall c = left_wall d"
    "\<And>i j c d. ?st (i, j) = Some c \<Longrightarrow> ?st (i + 1, j) = Some d \<Longrightarrow> bottom_wall c = top_wall d"
    using agree unfolding walls_agree_def by blast+
  have left: "wall_between ?st (Some (?i, (px - 25) div 100)) (Some (?i, ?j)) right_wall left_wall =
      Some (left_wall c \<and> \<not> 100 * ?j \<le> px - 25)"
    using wall_between_eq [of ?st _ l _ c right_wall left_wall, OF l c] walls(1) [of ?i "?j - 1" l c] l c
    by (auto simp: div_minus_25)
  have right: "wall_between ?st (Some (?i, (px + 25) div 100)) (Some (?i, ?j)) left_wall right_wall =
      Some (right_wall c \<and> \<not> px + 25 < 100 * ?j + 100)"
    using wall_between_eq [of ?st _ r _ c left_wall right_wall, OF r c] walls(1) [of ?i ?j c r] r c
    by (auto simp: div_plus_25)
  have top: "wall_between ?st (Some ((py - 25) div 100, ?j)) (Some (?i, ?j)) bottom_wall top_wall =
      Some (top_wall c \<and> \<not> 100 * ?i \<le> py - 25)"
    using wall_between_eq [of ?st _ t _ c bottom_wall top_wall, OF t c] walls(2) [of "?i - 1" ?j t c] t c
    by (auto simp: div_minus_25)
  have bottom: "wall_between ?st (Some ((py + 25) div 100, ?j)) (Some (?i, ?j)) top_wall bottom_wall =
      Some (bottom_wall c \<and> \<not> py + 25 < 100 * ?i + 100)"
    using wall_between_eq [of ?st _ b _ c top_wall bottom_wall, OF b c] walls(2) [of ?i ?j c b] b c
    by (auto simp: div_plus_25)
  have cells: "get_cell m (px - 25) py = Some (Some (?i, (px - 25) div 100))"
    "get_cell m (px + 25) py = Some (Some (?i, (px + 25) div 100))"
    "get_cell m px (py - 25) = Some (Some ((py - 25) div 100, ?j))"
    "get_cell m px (py + 25) = Some (Some ((py + 25) div 100, ?j))"
    "get_cell m px py = Some (Some (?i, ?j))"
    using get_cell_defined [OF wf fit] size True by (simp_all add: mult.commute)
  note ints = sides_fit_ints [OF range]
  show ?thesis
    unfolding check_collision_def ints cells Option.bind.bind_lunit left right top bottom
    using True c by (auto simp: clear_at_def)
qed

subsection \<open>One key\<close>

text \<open>The displacement a key asks for.\<close>

definition key_step :: "u8 \<Rightarrow> real \<Rightarrow> real \<times> real" where
  "key_step k d =
     (if k = 0x11 then (10 * cos d, - 10 * sin d)
      else if k = 0x1f then (- 10 * cos d, 10 * sin d)
      else if k = 0x1e then (- 10 * sin d, - 10 * cos d)
      else if k = 0x20 then (10 * sin d, 10 * cos d)
      else (0, 0))"

lemma key_step_small: "\<bar>fst (key_step k d)\<bar> \<le> 10" "\<bar>snd (key_step k d)\<bar> \<le> 10"
  using abs_cos_le_one [of d] abs_sin_le_one [of d] by (auto simp: key_step_def abs_mult)

definition player_ok :: "maze \<Rightarrow> player \<Rightarrow> bool" where
  "player_ok m p \<longleftrightarrow> clear_at m (trunc (pos_x p)) (trunc (pos_y p))"

definition player_cell :: "player \<Rightarrow> cell_id" where
  "player_cell p = (trunc (pos_y p) div 100, trunc (pos_x p) div 100)"

lemma player_ok_bounds:
  assumes "player_ok m p" and "m_width m \<le> 655" and "m_height m \<le> 655"
  shows "25 \<le> pos_x p" "pos_x p \<le> 65500" "25 \<le> pos_y p" "pos_y p \<le> 65500"
proof -
  from assms(1) have t: "25 \<le> trunc (pos_x p)" "trunc (pos_x p) + 25 < 100 * m_width m"
    "25 \<le> trunc (pos_y p)" "trunc (pos_y p) + 25 < 100 * m_height m"
    by (auto simp: player_ok_def clear_at_def)
  then have "trunc (pos_x p) = \<lfloor>pos_x p\<rfloor>" "trunc (pos_y p) = \<lfloor>pos_y p\<rfloor>"
    using trunc_pos by auto
  with t assms(2,3) show "25 \<le> pos_x p" "pos_x p \<le> 65500" "25 \<le> pos_y p" "pos_y p \<le> 65500"
    by linarith+
qed

text \<open>The handler, given the displacement: the player moves when the new place is clear.\<close>

lemma game_update_delta_pos [simp]:
  "pos_x (game_update_delta p) = pos_x p" "pos_y (game_update_delta p) = pos_y p"
  "x_mouse (game_update_delta p) = x_mouse p" "y_mouse (game_update_delta p) = y_mouse p"
  "update_delta (game_update_delta p) = update_delta p"
  "img_width (game_update_delta p) = img_width p" "img_height (game_update_delta p) = img_height p"
  by (simp_all add: game_update_delta_def)

lemma keyboard_handler_moves:
  fixes k :: u8
  assumes gen: "generated m" and ok: "player_ok m p"
  defines "nx \<equiv> pos_x p + fst (key_step k (delta p))" and "ny \<equiv> pos_y p + snd (key_step k (delta p))"
  obtains p' where "game_keyboard_handler m k p = Some p'"
    and "(pos_x p', pos_y p') =
      (if clear_at m (trunc nx) (trunc ny) then (nx, ny) else (pos_x p, pos_y p))"
    and "update_delta p' = update_delta p" and "\<not> update_delta p \<Longrightarrow> delta p' = delta p"
    and "x_mouse p' = x_mouse p" and "y_mouse p' = y_mouse p"
    and "is_moving p' \<longleftrightarrow> k \<in> {0x11, 0x1f, 0x1e, 0x20}"
    and "img_width p' = img_width p" and "img_height p' = img_height p"
proof -
  note g = generated_maze [OF gen]
  define p1 where "p1 = p\<lparr>is_moving := (k = 0x11 \<or> k = 0x1f \<or> k = 0x1e \<or> k = 0x20)\<rparr>"
  define p2 where "p2 = (case key_motion k (delta p) of Some (xc, yc, d) \<Rightarrow> p1\<lparr>direction := d\<rparr> | None \<Rightarrow> p1)"
  have p2: "pos_x p2 = pos_x p" "pos_y p2 = pos_y p" "update_delta p2 = update_delta p"
    "delta p2 = delta p" "x_mouse p2 = x_mouse p" "y_mouse p2 = y_mouse p"
    "is_moving p2 \<longleftrightarrow> k \<in> {0x11, 0x1f, 0x1e, 0x20}"
    "img_width p2 = img_width p" "img_height p2 = img_height p"
    by (auto simp: p2_def p1_def split: option.splits)
  define p3 where "p3 = (if clear_at m (trunc nx) (trunc ny) then p2\<lparr>pos_x := nx, pos_y := ny\<rparr> else p2)"
  define p' where "p' = (if update_delta p3 then game_update_delta p3 else p3)"
  have "\<bar>nx\<bar> \<le> 100000000" "\<bar>ny\<bar> \<le> 100000000"
    using player_ok_bounds [OF ok g(4,5)] key_step_small [of k "delta p"]
    unfolding nx_def ny_def by linarith+
  note small = int_of_double_small [OF this(1)] int_of_double_small [OF this(2)]
    trunc_small [OF this(1)] trunc_small [OF this(2)]
  have spec: "check_collision m (trunc nx) (trunc ny) 25 = Some (\<not> clear_at m (trunc nx) (trunc ny))"
    by (rule collision_spec [OF g(1,3) generated_pixels_fit [OF assms(1)]])
      (use small(3,4) in \<open>auto simp: sides_fit_def INT_MAX_def\<close>)
  have motion: "\<exists>xc yc. (case key_motion k (delta p) of Some (xc, yc, d) \<Rightarrow> (xc, yc, p1\<lparr>direction := d\<rparr>)
      | None \<Rightarrow> (0, 0, p1)) = (xc, yc, p2) \<and> pos_x p2 + xc * 10 = nx \<and> pos_y p2 - yc * 10 = ny"
    by (simp add: p2_def p1_def nx_def ny_def key_motion_def key_step_def)
  then obtain xc yc where m: "(case key_motion k (delta p) of Some (xc, yc, d) \<Rightarrow> (xc, yc, p1\<lparr>direction := d\<rparr>)
      | None \<Rightarrow> (0, 0, p1)) = (xc, yc, p2)" "pos_x p2 + xc * 10 = nx" "pos_y p2 - yc * 10 = ny" by blast
  have "delta p1 = delta p" by (simp add: p1_def)
  then have "game_keyboard_handler m k p = Some p'"
    unfolding game_keyboard_handler_def p1_def [symmetric] Let_def
    using m small spec by (simp add: p3_def p'_def)
  moreover have "(pos_x p', pos_y p') =
      (if clear_at m (trunc nx) (trunc ny) then (nx, ny) else (pos_x p, pos_y p))"
    using p2 by (simp add: p'_def p3_def)
  moreover have "update_delta p3 = update_delta p" "delta p3 = delta p" using p2 by (simp_all add: p3_def)
  moreover have "x_mouse p' = x_mouse p" "y_mouse p' = y_mouse p"
    "img_width p' = img_width p" "img_height p' = img_height p"
    using p2 by (simp_all add: p'_def p3_def)
  moreover have "is_moving p' \<longleftrightarrow> k \<in> {0x11, 0x1f, 0x1e, 0x20}"
    using p2 by (simp add: p'_def p3_def game_update_delta_def)
  ultimately show thesis by (intro that [of p']) (simp_all add: p'_def)
qed

subsection \<open>From cell to cell\<close>

text \<open>A clear place near a column of another cell has no wall on that side.\<close>

lemma clear_cross_column:
  assumes wf: "maze_wf m" and clear: "clear_at m a b" and near: "\<bar>a - a'\<bar> \<le> 10"
  shows "a' div 100 = a div 100 \<or> ((b div 100, a div 100), (b div 100, a' div 100)) \<in> maze_passages m"
proof -
  have swf: "store_wf (m_width m) (m_height m) (m_cells m)" using wf by (simp add: maze_wf_def)
  have "(b div 100, a div 100) \<in> grid (m_width m) (m_height m)"
    using clear div_pos_less [of 100 a "m_width m"] div_pos_less [of 100 b "m_height m"]
    by (simp add: clear_at_def pos_imp_zdiv_nonneg_iff mult.commute)
  with swf obtain c where c: "m_cells m (b div 100, a div 100) = Some c" by (rule store_wfD)
  note iffs = passage_iffs [of "m_cells m" "b div 100" "a div 100" c, OF c]
  consider "a' div 100 = a div 100" | "a' \<ge> 100 * (a div 100) + 100" | "a' < 100 * (a div 100)"
    using div_unique [of "a div 100" a'] by linarith
  then show ?thesis
  proof cases
    case 2
    have "a' div 100 = a div 100 + 1"
      by (rule div_next [OF 2 near div_bounds(2)])
    moreover have "\<not> right_wall c" using clear c 2 near by (auto simp: clear_at_def)
    ultimately show ?thesis using iffs(2) by (simp add: maze_passages_def)
  next
    case 3
    have "a' div 100 = a div 100 - 1"
      by (rule div_prev [OF 3 near div_bounds(1)])
    moreover have "\<not> left_wall c" using clear c 3 near by (auto simp: clear_at_def)
    ultimately show ?thesis using iffs(1) by (simp add: maze_passages_def)
  qed simp
qed

lemma clear_cross_row:
  assumes wf: "maze_wf m" and clear: "clear_at m a b" and near: "\<bar>b - b'\<bar> \<le> 10"
  shows "b' div 100 = b div 100 \<or> ((b div 100, a div 100), (b' div 100, a div 100)) \<in> maze_passages m"
proof -
  have swf: "store_wf (m_width m) (m_height m) (m_cells m)" using wf by (simp add: maze_wf_def)
  have "(b div 100, a div 100) \<in> grid (m_width m) (m_height m)"
    using clear div_pos_less [of 100 a "m_width m"] div_pos_less [of 100 b "m_height m"]
    by (simp add: clear_at_def pos_imp_zdiv_nonneg_iff mult.commute)
  with swf obtain c where c: "m_cells m (b div 100, a div 100) = Some c" by (rule store_wfD)
  note iffs = passage_iffs [of "m_cells m" "b div 100" "a div 100" c, OF c]
  consider "b' div 100 = b div 100" | "b' \<ge> 100 * (b div 100) + 100" | "b' < 100 * (b div 100)"
    using div_unique [of "b div 100" b'] by linarith
  then show ?thesis
  proof cases
    case 2
    have "b' div 100 = b div 100 + 1"
      by (rule div_next [OF 2 near div_bounds(2)])
    moreover have "\<not> bottom_wall c" using clear c 2 near by (auto simp: clear_at_def)
    ultimately show ?thesis using iffs(4) by (simp add: maze_passages_def)
  next
    case 3
    have "b' div 100 = b div 100 - 1"
      by (rule div_prev [OF 3 near div_bounds(1)])
    moreover have "\<not> top_wall c" using clear c 3 near by (auto simp: clear_at_def)
    ultimately show ?thesis using iffs(3) by (simp add: maze_passages_def)
  qed simp
qed

text \<open>A perfect maze has no cycle of four cells, so a player cannot cross a corner.\<close>

lemma no_square:
  assumes gen: "generated m" and "j' \<noteq> j" and "i' \<noteq> i"
    and "((i, j), (i, j')) \<in> maze_passages m" and "((i, j), (i', j)) \<in> maze_passages m"
    and "((i', j'), (i', j)) \<in> maze_passages m" and "((i', j'), (i, j')) \<in> maze_passages m"
  shows False
proof -
  note wf = generated_maze(1) [OF gen]
  have sym: "((i', j), (i', j')) \<in> maze_passages m" "((i, j'), (i', j')) \<in> maze_passages m"
    using walled.opened_swap [OF wf] assms by blast+
  then have "simple_walk (maze_passages m) (i, j) [(i, j), (i, j'), (i', j')] (i', j')"
    and "simple_walk (maze_passages m) (i, j) [(i, j), (i', j), (i', j')] (i', j')"
    using assms by (simp_all add: simple_walk_def)
  moreover have "(i, j) \<in> maze_grid m" "(i', j') \<in> maze_grid m"
    using assms walled.opened_within [OF wf] by blast+
  ultimately have "[(i, j), (i, j'), (i', j')] = [(i, j), (i', j), (i', j')]"
    using perfect.unique_route [OF gen, of "(i, j)" "(i', j')"] by blast
  then show False using assms(2) by simp
qed

lemma clear_step:
  assumes gen: "generated m" and clear: "clear_at m a b" "clear_at m a' b'"
    and near: "\<bar>a - a'\<bar> \<le> 10" "\<bar>b - b'\<bar> \<le> 10"
  shows "(b' div 100, a' div 100) = (b div 100, a div 100) \<or>
    ((b div 100, a div 100), (b' div 100, a' div 100)) \<in> maze_passages m"
proof -
  note wf = generated_maze(1) [OF gen]
  have near': "\<bar>a' - a\<bar> \<le> 10" "\<bar>b' - b\<bar> \<le> 10" using near by auto
  let ?i = "b div 100" and ?j = "a div 100"
  let ?k = "b' div 100" and ?l = "a' div 100"
  let ?E = "maze_passages m"
  note cross = clear_cross_column [OF wf clear(1) near(1)] clear_cross_row [OF wf clear(1) near(2)]
    clear_cross_column [OF wf clear(2) near'(1)] clear_cross_row [OF wf clear(2) near'(2)]
  consider "?l = ?j" | "?k = ?i" | "?l \<noteq> ?j" "?k \<noteq> ?i" by blast
  then show ?thesis
  proof cases
    case 1
    then show ?thesis using cross(2) by auto
  next
    case 2
    then show ?thesis using cross(1) by auto
  next
    case 3
    have "((?i, ?j), (?i, ?l)) \<in> ?E" using cross(1) 3(1) by blast
    moreover have "((?i, ?j), (?k, ?j)) \<in> ?E" using cross(2) 3(2) by blast
    moreover have "((?k, ?l), (?k, ?j)) \<in> ?E" using cross(3) 3(1) by metis
    moreover have "((?k, ?l), (?i, ?l)) \<in> ?E" using cross(4) 3(2) by metis
    ultimately show ?thesis using no_square [OF gen 3] by blast
  qed
qed

lemma keyboard_handler_ok:
  assumes gen: "generated m" and ok: "player_ok m p"
  obtains p' where "game_keyboard_handler m k p = Some p'" and "player_ok m p'"
    and "player_cell p' = player_cell p \<or> (player_cell p, player_cell p') \<in> maze_passages m"
proof -
  let ?nx = "pos_x p + fst (key_step k (delta p))" and ?ny = "pos_y p + snd (key_step k (delta p))"
  obtain p' where p': "game_keyboard_handler m k p = Some p'"
    "(pos_x p', pos_y p') = (if clear_at m (trunc ?nx) (trunc ?ny) then (?nx, ?ny) else (pos_x p, pos_y p))"
    using keyboard_handler_moves [OF gen ok, of k] by metis
  show thesis
  proof (cases "clear_at m (trunc ?nx) (trunc ?ny)")
    case True
    then have eq: "pos_x p' = ?nx" "pos_y p' = ?ny" using p'(2) by auto
    have pos: "0 < trunc (pos_x p)" "0 < trunc (pos_y p)" "0 < trunc ?nx" "0 < trunc ?ny"
      using ok True by (auto simp: player_ok_def clear_at_def)
    have "\<bar>trunc (pos_x p) - trunc ?nx\<bar> \<le> 10" "\<bar>trunc (pos_y p) - trunc ?ny\<bar> \<le> 10"
      using key_step_small [of k "delta p"] by (auto intro!: trunc_near pos)
    from clear_step [OF gen _ True this] ok have
      "player_cell p' = player_cell p \<or> (player_cell p, player_cell p') \<in> maze_passages m"
      unfolding player_ok_def player_cell_def eq .
    moreover have "player_ok m p'" using True eq by (simp add: player_ok_def)
    ultimately show thesis using p'(1) that by blast
  next
    case False
    then have "pos_x p' = pos_x p" "pos_y p' = pos_y p" using p'(2) by auto
    then show thesis using that [OF p'(1)] ok by (simp add: player_ok_def player_cell_def)
  qed
qed

end
