(* ===== verification/Maze_Picture.thy ===== *)
theory Maze_Picture
  imports Video Maze_Solve Player_Motion
begin

text \<open>
  What the player sees of the maze: generate_maze_buffer, draw_maze and draw_solution of game/maze.c
  and game_draw_fov_circle of game/game.c, on the buffers of Video.

  painted says that drawing changed exactly a set of pixels, to one color; draw_maze is shown to
  paint exactly the standing walls, the start and the exit.
\<close>

subsection \<open>The code\<close>

text \<open>generate_maze_buffer: the buffer is allocated on the first call only.\<close>

definition generate_maze_buffer :: "'k video_kernel \<Rightarrow> video \<Rightarrow> 'k \<Rightarrow> (video \<times> 'k) option" where
  "generate_maze_buffer K v k =
     (if maze_buffer v = None
      then do {
        frameSize \<leftarrow> frame_size (mode_info v) (word_of_int (bytes_per_pixel (mode_info v)));
        let (allocated, k) = malloc K frameSize k;
        Some (v\<lparr>maze_buffer := allocated\<rparr>, k)
      }
      else Some (v, k))"

text \<open>A call of vg_draw_rectangle_to_buffer with int arguments, whose result is ignored.\<close>

definition draw_rectangle ::
  "vbe_mode_info \<Rightarrow> int \<Rightarrow> int \<Rightarrow> int \<Rightarrow> int \<Rightarrow> u32 \<Rightarrow> u8 list \<Rightarrow> u8 list option" where
  "draw_rectangle mi x y w h color buffer =
     map_option snd (vg_draw_rectangle_to_buffer mi (word_of_int x) (word_of_int y)
       (word_of_int w) (word_of_int h) color buffer)"

definition draw_cell_walls :: "vbe_mode_info \<Rightarrow> maze \<Rightarrow> int \<Rightarrow> int \<Rightarrow> u8 list \<Rightarrow> u8 list option" where
  "draw_cell_walls mi m i j buffer =
     (let s = m_cell_size m in
      do {
        p \<leftarrow> grid_ptr (m_width m) (m_height m) i j;
        c \<leftarrow> load_cell (m_cells m) p;
        buffer \<leftarrow> (if top_wall c then draw_rectangle mi (j * s) (i * s) s 1 0xFFFFFF buffer else Some buffer);
        buffer \<leftarrow> (if bottom_wall c then draw_rectangle mi (j * s) (i * s + s) s 1 0xFFFFFF buffer else Some buffer);
        buffer \<leftarrow> (if left_wall c then draw_rectangle mi (j * s) (i * s) 1 s 0xFFFFFF buffer else Some buffer);
        if right_wall c then draw_rectangle mi (j * s + s) (i * s) 1 s 0xFFFFFF buffer else Some buffer
      })"

definition draw_maze :: "vbe_mode_info \<Rightarrow> maze \<Rightarrow> u8 list \<Rightarrow> u8 list option" where
  "draw_maze mi m buffer =
     (let s = m_cell_size m in
      do {
        buffer \<leftarrow> for_each (\<lambda>i. for_each (\<lambda>j. draw_cell_walls mi m i j) [0..m_width m - 1])
                    [0..m_height m - 1] buffer;
        buffer \<leftarrow> draw_rectangle mi 7 7 (s - 14) (s - 14) 0x0000FF buffer;
        draw_rectangle mi ((m_width m - 1) * s + 7) ((m_height m - 1) * s + 7) (s - 14) (s - 14) 0x00FF00 buffer
      })"

partial_function (option) draw_solution_loop ::
  "vbe_mode_info \<Rightarrow> maze \<Rightarrow> cell_ptr \<Rightarrow> u8 list \<Rightarrow> u8 list option" where
  "draw_solution_loop mi m current_cell buffer =
     (if current_cell \<noteq> None
      then do {
        c \<leftarrow> load_cell (m_cells m) current_cell;
        buffer \<leftarrow> (if c_prev c \<noteq> None
                     then draw_rectangle mi (c_x c * m_cell_size m + 7) (c_y c * m_cell_size m + 7)
                       (m_cell_size m - 14) (m_cell_size m - 14) 0xFF0000 buffer
                     else Some buffer);
        draw_solution_loop mi m (c_prev c) buffer
      }
      else Some buffer)"

definition draw_solution ::
  "vbe_mode_info \<Rightarrow> maze \<Rightarrow> list_heap \<Rightarrow> linked_list \<Rightarrow> u8 list \<Rightarrow> u8 list option" where
  "draw_solution mi m heap solution buffer =
     do {
       current_cell \<leftarrow> linked_list_first heap solution;
       draw_solution_loop mi m current_cell buffer
     }"

text \<open>game_draw_fov_circle: the pixel (x_pixel, y_pixel), and the two loops.\<close>

definition fov_pixel ::
  "vbe_mode_info \<Rightarrow> real \<Rightarrow> real \<Rightarrow> u32 \<Rightarrow> u8 list \<Rightarrow> int \<Rightarrow> int \<Rightarrow> u8 list \<Rightarrow> u8 list option" where
  "fov_pixel mi x y frameSize maze_buf y_pixel x_pixel back =
     (if of_int x_pixel = x \<and> of_int y_pixel = y then Some back
      else
        (let dx = of_int x_pixel - x; dy = of_int y_pixel - y; distance = sqrt (dx * dx + dy * dy) in
         if distance \<le> 200 then do {
           row \<leftarrow> c_int (x_res mi * y_pixel);
           pos \<leftarrow> c_int (row + x_pixel);
           let index = (word_of_int pos * word_of_int (bytes_per_pixel mi) :: u32);
           if index < frameSize then do {
             guard_ub (unat index + nat (bytes_per_pixel mi) \<le> length maze_buf);
             copy_into back (unat index) (take (nat (bytes_per_pixel mi)) (drop (unat index) maze_buf))
           } else Some back
         } else Some back))"

definition game_draw_fov_circle ::
  "vbe_mode_info \<Rightarrow> real \<Rightarrow> real \<Rightarrow> u8 list \<Rightarrow> u8 list \<Rightarrow> u8 list option" where
  "game_draw_fov_circle mi x y maze_buf back =
     do {
       frameSize \<leftarrow> frame_size mi (word_of_int (bytes_per_pixel mi));
       for_each (\<lambda>y_pixel. for_each (\<lambda>x_pixel. fov_pixel mi x y frameSize maze_buf y_pixel x_pixel)
           [0..x_res mi - 1])
         [0..y_res mi - 1] back
     }"

declare generate_maze_buffer_def [model_defs] draw_rectangle_def [model_defs]
  draw_cell_walls_def [model_defs] draw_maze_def [model_defs] draw_solution_loop.simps [model_defs]
  draw_solution_def [model_defs] fov_pixel_def [model_defs] game_draw_fov_circle_def [model_defs]

subsection \<open>Painting\<close>

definition painted ::
  "vbe_mode_info \<Rightarrow> (int \<times> int) set \<Rightarrow> u32 \<Rightarrow> u8 list \<Rightarrow> u8 list \<Rightarrow> bool" where
  "painted mi S color buf buf' \<longleftrightarrow> frame_ok mi buf' \<and>
     (\<forall>a b. on_screen mi a b \<longrightarrow> pixel mi buf' a b =
        (if (a, b) \<in> S then pixel_value mi color else pixel mi buf a b))"

lemma painted_refl: "frame_ok mi buf \<Longrightarrow> painted mi {} color buf buf"
  by (simp add: painted_def)

lemma painted_trans:
  "painted mi S color buf buf1 \<Longrightarrow> painted mi T color buf1 buf2 \<Longrightarrow> painted mi (S \<union> T) color buf buf2"
  by (auto simp: painted_def)

lemma painted_ok: "painted mi S color buf buf' \<Longrightarrow> frame_ok mi buf'"
  by (simp add: painted_def)

definition rectangle :: "int \<Rightarrow> int \<Rightarrow> int \<Rightarrow> int \<Rightarrow> (int \<times> int) set" where
  "rectangle x y w h = {x..<x + w} \<times> {y..<y + h}"

lemma draw_rectangle_paints:
  assumes "frame_ok mi buf" and "0 \<le> x" "0 \<le> y" "0 < w" "0 < h"
    and "x < 65536" "y < 65536" "w < 65536" "h < 65536"
    and "x + w \<le> x_res mi \<and> y + h \<le> y_res mi \<or> x_res mi \<le> x \<or> y_res mi \<le> y"
  shows "\<exists>buf'. draw_rectangle mi x y w h color buf = Some buf' \<and>
    painted mi (rectangle x y w h) color buf buf'"
proof -
  have word: "uint (word_of_int v :: u16) = v" if "0 \<le> v" "v < 65536" for v
    using that by (simp only: uint_word_of_int) simp
  note words = word [OF assms(2,6)] word [OF assms(3,7)] word [OF less_imp_le [OF assms(4)] assms(8)]
    word [OF less_imp_le [OF assms(5)] assms(9)]
  have pos: "0 < uint (word_of_int h :: u16)" "0 < uint (word_of_int w :: u16)"
    using words assms(4,5) by simp_all
  consider "x + w \<le> x_res mi" "y + h \<le> y_res mi" | "x_res mi \<le> x \<or> y_res mi \<le> y" using assms(10) by blast
  then show ?thesis
  proof cases
    case 1
    with rectangle_on [OF assms(1) pos(1), of "word_of_int x" "word_of_int w" "word_of_int y" color]
    show ?thesis unfolding words draw_rectangle_def painted_def rectangle_def by fastforce
  next
    case 2
    obtain buf' where buf': "vg_draw_rectangle_to_buffer mi (word_of_int x) (word_of_int y)
        (word_of_int w) (word_of_int h) color buf = Some (1, buf')" "frame_ok mi buf'"
      "\<And>a b. on_screen mi a b \<Longrightarrow> pixel mi buf' a b = pixel mi buf a b"
      using rectangle_off [OF assms(1) pos, of "word_of_int x" "word_of_int y" color] 2 unfolding words
      by blast
    moreover have "(a, b) \<notin> rectangle x y w h" if "on_screen mi a b" for a b
      using that 2 by (auto simp: on_screen_def rectangle_def)
    ultimately show ?thesis by (auto simp: draw_rectangle_def painted_def)
  qed
qed

text \<open>Loops whose every step paints.\<close>

lemma for_each_paints:
  assumes "\<And>x buf. x \<in> set xs \<Longrightarrow> frame_ok mi buf \<Longrightarrow>
      \<exists>buf'. f x buf = Some buf' \<and> painted mi (S x) color buf buf'"
    and "frame_ok mi buf"
  shows "\<exists>buf'. for_each f xs buf = Some buf' \<and> painted mi (\<Union>x \<in> set xs. S x) color buf buf'"
  using assms
proof (induction xs arbitrary: buf)
  case Nil
  then show ?case by (simp add: painted_refl)
next
  case (Cons x xs)
  obtain buf1 where buf1: "f x buf = Some buf1" "painted mi (S x) color buf buf1"
    using Cons.prems by (metis list.set_intros(1))
  obtain buf2 where "for_each f xs buf1 = Some buf2" "painted mi (\<Union>x \<in> set xs. S x) color buf1 buf2"
    using Cons.IH [OF _ painted_ok [OF buf1(2)]] Cons.prems(1) by (meson list.set_intros(2))
  with buf1 painted_trans [OF buf1(2)] show ?case by auto
qed

lemma optional_paints:
  assumes "frame_ok mi buf"
    and "c \<Longrightarrow> \<exists>buf'. r = Some buf' \<and> painted mi S color buf buf'"
  shows "\<exists>buf'. (if c then r else Some buf) = Some buf' \<and> painted mi (if c then S else {}) color buf buf'"
  using assms by (simp add: painted_refl)

subsection \<open>The maze\<close>

text \<open>The pixels of the standing walls of cell c at (i, j).\<close>

definition cell_walls :: "int \<Rightarrow> int \<Rightarrow> cell \<Rightarrow> (int \<times> int) set" where
  "cell_walls i j c =
     (((if top_wall c then rectangle (j * 100) (i * 100) 100 1 else {}) \<union>
       (if bottom_wall c then rectangle (j * 100) (i * 100 + 100) 100 1 else {})) \<union>
      (if left_wall c then rectangle (j * 100) (i * 100) 1 100 else {})) \<union>
     (if right_wall c then rectangle (j * 100 + 100) (i * 100) 1 100 else {})"

definition wall_pixels :: "maze \<Rightarrow> (int \<times> int) set" where
  "wall_pixels m = (\<Union>i \<in> {0..m_height m - 1}. \<Union>j \<in> {0..m_width m - 1}.
     case m_cells m (i, j) of None \<Rightarrow> {} | Some c \<Rightarrow> cell_walls i j c)"

lemma draw_cell_walls_paints:
  assumes wf: "store_wf (m_width m) (m_height m) (m_cells m)" and size: "m_cell_size m = 100"
    and fit: "100 * m_width m \<le> x_res mi" "100 * m_height m \<le> y_res mi"
    and ij: "0 \<le> i" "i < m_height m" "0 \<le> j" "j < m_width m" and ok: "frame_ok mi buf"
  shows "\<exists>buf'. draw_cell_walls mi m i j buf = Some buf' \<and>
    painted mi (case m_cells m (i, j) of None \<Rightarrow> {} | Some c \<Rightarrow> cell_walls i j c) 0xFFFFFF buf buf'"
proof -
  have "(i, j) \<in> grid (m_width m) (m_height m)" using ij by simp
  with wf obtain c where c: "m_cells m (i, j) = Some c" by (rule store_wfD)
  have dims: "x_res mi \<le> 65535" "y_res mi \<le> 65535" by (rule resolution_bounds)+
  have pos: "j * 100 + 100 \<le> x_res mi" "i * 100 + 100 \<le> y_res mi"
    using ij fit by linarith+
  note rect = draw_rectangle_paints [where color = "0xFFFFFF"]
  have t: "frame_ok mi b \<Longrightarrow> \<exists>b'. (if top_wall c then draw_rectangle mi (j * 100) (i * 100) 100 1 0xFFFFFF b
      else Some b) = Some b' \<and> painted mi (if top_wall c then rectangle (j * 100) (i * 100) 100 1 else {}) 0xFFFFFF b b'" for b
    by (intro optional_paints rect) (use ij pos dims in auto)
  have bo: "frame_ok mi b \<Longrightarrow> \<exists>b'. (if bottom_wall c then draw_rectangle mi (j * 100) (i * 100 + 100) 100 1 0xFFFFFF b
      else Some b) = Some b' \<and> painted mi (if bottom_wall c then rectangle (j * 100) (i * 100 + 100) 100 1 else {}) 0xFFFFFF b b'" for b
    by (intro optional_paints rect) (use ij pos dims in auto)
  have l: "frame_ok mi b \<Longrightarrow> \<exists>b'. (if left_wall c then draw_rectangle mi (j * 100) (i * 100) 1 100 0xFFFFFF b
      else Some b) = Some b' \<and> painted mi (if left_wall c then rectangle (j * 100) (i * 100) 1 100 else {}) 0xFFFFFF b b'" for b
    by (intro optional_paints rect) (use ij pos dims in auto)
  have r: "frame_ok mi b \<Longrightarrow> \<exists>b'. (if right_wall c then draw_rectangle mi (j * 100 + 100) (i * 100) 1 100 0xFFFFFF b
      else Some b) = Some b' \<and> painted mi (if right_wall c then rectangle (j * 100 + 100) (i * 100) 1 100 else {}) 0xFFFFFF b b'" for b
    by (intro optional_paints rect) (use ij pos dims in auto)
  obtain b1 where b1: "(if top_wall c then draw_rectangle mi (j * 100) (i * 100) 100 1 0xFFFFFF buf else Some buf) = Some b1"
    "painted mi (if top_wall c then rectangle (j * 100) (i * 100) 100 1 else {}) 0xFFFFFF buf b1"
    using t [OF ok] by blast
  obtain b2 where b2: "(if bottom_wall c then draw_rectangle mi (j * 100) (i * 100 + 100) 100 1 0xFFFFFF b1 else Some b1) = Some b2"
    "painted mi (if bottom_wall c then rectangle (j * 100) (i * 100 + 100) 100 1 else {}) 0xFFFFFF b1 b2"
    using bo [OF painted_ok [OF b1(2)]] by blast
  obtain b3 where b3: "(if left_wall c then draw_rectangle mi (j * 100) (i * 100) 1 100 0xFFFFFF b2 else Some b2) = Some b3"
    "painted mi (if left_wall c then rectangle (j * 100) (i * 100) 1 100 else {}) 0xFFFFFF b2 b3"
    using l [OF painted_ok [OF b2(2)]] by blast
  obtain b4 where b4: "(if right_wall c then draw_rectangle mi (j * 100 + 100) (i * 100) 1 100 0xFFFFFF b3 else Some b3) = Some b4"
    "painted mi (if right_wall c then rectangle (j * 100 + 100) (i * 100) 1 100 else {}) 0xFFFFFF b3 b4"
    using r [OF painted_ok [OF b3(2)]] by blast
  have "draw_cell_walls mi m i j buf = Some b4"
    using c ij b1(1) b2(1) b3(1) b4(1) unfolding draw_cell_walls_def Let_def size
    by (simp add: grid_ptr_def)
  moreover have "painted mi (cell_walls i j c) 0xFFFFFF buf b4"
    unfolding cell_walls_def
    by (rule painted_trans [OF painted_trans [OF painted_trans [OF b1(2) b2(2)] b3(2)] b4(2)])
  ultimately show ?thesis using c by simp
qed

lemma draw_walls_paints:
  assumes wf: "store_wf (m_width m) (m_height m) (m_cells m)" and size: "m_cell_size m = 100"
    and fit: "100 * m_width m \<le> x_res mi" "100 * m_height m \<le> y_res mi" and ok: "frame_ok mi buf"
  shows "\<exists>buf'. for_each (\<lambda>i. for_each (\<lambda>j. draw_cell_walls mi m i j) [0..m_width m - 1])
      [0..m_height m - 1] buf = Some buf' \<and> painted mi (wall_pixels m) 0xFFFFFF buf buf'"
proof -
  have row: "\<exists>buf'. for_each (\<lambda>j. draw_cell_walls mi m i j) [0..m_width m - 1] b = Some buf' \<and>
      painted mi (\<Union>j \<in> set [0..m_width m - 1]. case m_cells m (i, j) of None \<Rightarrow> {} | Some c \<Rightarrow> cell_walls i j c)
        0xFFFFFF b buf'"
    if "0 \<le> i" "i < m_height m" "frame_ok mi b" for i b
    by (rule for_each_paints [OF _ that(3)])
      (auto intro!: draw_cell_walls_paints [OF wf size fit] simp: that)
  have "\<exists>buf'. for_each (\<lambda>i. for_each (\<lambda>j. draw_cell_walls mi m i j) [0..m_width m - 1])
      [0..m_height m - 1] buf = Some buf' \<and>
    painted mi (\<Union>i \<in> set [0..m_height m - 1]. \<Union>j \<in> set [0..m_width m - 1].
      case m_cells m (i, j) of None \<Rightarrow> {} | Some c \<Rightarrow> cell_walls i j c) 0xFFFFFF buf buf'"
    by (rule for_each_paints [OF row ok]) auto
  then show ?thesis by (simp add: wall_pixels_def)
qed

lemma draw_maze_exact:
  assumes wf: "maze_wf m" and size: "m_cell_size m = 100"
    and fit: "100 * m_width m \<le> x_res mi" "100 * m_height m \<le> y_res mi" and ok: "frame_ok mi buf"
  shows "\<exists>buf'. draw_maze mi m buf = Some buf' \<and> frame_ok mi buf' \<and>
    (\<forall>a b. on_screen mi a b \<longrightarrow> pixel mi buf' a b =
      (if (a, b) \<in> rectangle ((m_width m - 1) * 100 + 7) ((m_height m - 1) * 100 + 7) 86 86
       then pixel_value mi 0x00FF00
       else if (a, b) \<in> rectangle 7 7 86 86 then pixel_value mi 0x0000FF
       else if (a, b) \<in> wall_pixels m then pixel_value mi 0xFFFFFF
       else pixel mi buf a b))"
proof -
  have pos: "0 < m_width m" "0 < m_height m" and swf: "store_wf (m_width m) (m_height m) (m_cells m)"
    using wf by (auto simp: maze_wf_def)
  have dims: "x_res mi \<le> 65535" "y_res mi \<le> 65535" by (rule resolution_bounds)+
  have ends: "(m_width m - 1) * 100 + 93 \<le> x_res mi" "(m_height m - 1) * 100 + 93 \<le> y_res mi"
    "0 \<le> (m_width m - 1) * 100" "0 \<le> (m_height m - 1) * 100"
    using pos fit by (auto simp: left_diff_distrib)
  obtain b1 where b1: "for_each (\<lambda>i. for_each (\<lambda>j. draw_cell_walls mi m i j) [0..m_width m - 1])
      [0..m_height m - 1] buf = Some b1" "painted mi (wall_pixels m) 0xFFFFFF buf b1"
    using draw_walls_paints [OF swf size fit ok] by blast
  obtain b2 where b2: "draw_rectangle mi 7 7 86 86 0x0000FF b1 = Some b2"
    "painted mi (rectangle 7 7 86 86) 0x0000FF b1 b2"
    using draw_rectangle_paints [OF painted_ok [OF b1(2)], of 7 7 86 86 "0x0000FF"] ends by auto
  obtain b3 where b3: "draw_rectangle mi ((m_width m - 1) * 100 + 7) ((m_height m - 1) * 100 + 7) 86 86 0x00FF00 b2 = Some b3"
    "painted mi (rectangle ((m_width m - 1) * 100 + 7) ((m_height m - 1) * 100 + 7) 86 86) 0x00FF00 b2 b3"
    using draw_rectangle_paints [OF painted_ok [OF b2(2)], of "(m_width m - 1) * 100 + 7"
        "(m_height m - 1) * 100 + 7" 86 86 "0x00FF00"] ends dims by auto
  have "draw_maze mi m buf = Some b3"
    using b1(1) b2(1) b3(1) unfolding draw_maze_def size Let_def by simp
  moreover have "pixel mi b3 a b =
      (if (a, b) \<in> rectangle ((m_width m - 1) * 100 + 7) ((m_height m - 1) * 100 + 7) 86 86
       then pixel_value mi 0x00FF00
       else if (a, b) \<in> rectangle 7 7 86 86 then pixel_value mi 0x0000FF
       else if (a, b) \<in> wall_pixels m then pixel_value mi 0xFFFFFF
       else pixel mi buf a b)" if "on_screen mi a b" for a b
    using b1(2) b2(2) b3(2) that by (simp add: painted_def)
  ultimately show ?thesis using painted_ok [OF b3(2)] by blast
qed

subsection \<open>The field of view\<close>

definition in_view :: "real \<Rightarrow> real \<Rightarrow> int \<Rightarrow> int \<Rightarrow> bool" where
  "in_view x y a b \<longleftrightarrow> sqrt ((of_int a - x)\<^sup>2 + (of_int b - y)\<^sup>2) \<le> 200 \<and> (of_int a \<noteq> x \<or> of_int b \<noteq> y)"

text \<open>The buffer with the pixels of S copied from another one.\<close>

definition copied ::
  "vbe_mode_info \<Rightarrow> u8 list \<Rightarrow> (int \<times> int) set \<Rightarrow> u8 list \<Rightarrow> u8 list \<Rightarrow> bool" where
  "copied mi src S buf buf' \<longleftrightarrow> frame_ok mi buf' \<and>
     (\<forall>a b. on_screen mi a b \<longrightarrow> pixel mi buf' a b =
        (if (a, b) \<in> S then pixel mi src a b else pixel mi buf a b))"

lemma for_each_copies:
  assumes "\<And>x buf. x \<in> set xs \<Longrightarrow> frame_ok mi buf \<Longrightarrow>
      \<exists>buf'. f x buf = Some buf' \<and> copied mi src (S x) buf buf'"
    and "frame_ok mi buf"
  shows "\<exists>buf'. for_each f xs buf = Some buf' \<and> copied mi src (\<Union>x \<in> set xs. S x) buf buf'"
  using assms
proof (induction xs arbitrary: buf)
  case Nil
  then show ?case by (simp add: copied_def)
next
  case (Cons x xs)
  obtain buf1 where buf1: "f x buf = Some buf1" "copied mi src (S x) buf buf1"
    using Cons.prems by (metis list.set_intros(1))
  then have "frame_ok mi buf1" by (simp add: copied_def)
  then obtain buf2 where buf2: "for_each f xs buf1 = Some buf2" "copied mi src (\<Union>x \<in> set xs. S x) buf1 buf2"
    using Cons.IH [of buf1] Cons.prems(1) by (meson list.set_intros(2))
  have "copied mi src (\<Union>x \<in> set (x # xs). S x) buf buf2"
    using buf1(2) buf2(2) by (auto simp: copied_def)
  with buf1(1) buf2(1) show ?case by auto
qed

lemma fov_pixel_copies:
  assumes ok: "frame_ok mi buf" "frame_ok mi src" and on: "on_screen mi a b"
    and size: "frame_size mi (word_of_int (bytes_per_pixel mi)) = Some n" "unat n = length buf"
  shows "\<exists>buf'. fov_pixel mi x y n src b a buf = Some buf' \<and>
    copied mi src (if in_view x y a b then {(a, b)} else {}) buf buf'"
proof (cases "in_view x y a b")
  case False
  then have "fov_pixel mi x y n src b a buf = Some buf"
    by (auto simp: in_view_def fov_pixel_def Let_def power2_eq_square)
  with False ok(1) show ?thesis by (simp add: copied_def)
next
  case True
  let ?n = "nat (x_res mi * b + a) * nat (bytes_per_pixel mi)"
  let ?bs = "pixel mi src a b"
  have src: "?n + nat (bytes_per_pixel mi) \<le> length src" by (rule screen_block(1) [OF ok(2) on])
  then have len: "length ?bs = nat (bytes_per_pixel mi)"
    unfolding pixel_def screen_block(2) [OF ok(2) on] by simp
  obtain buf' where buf': "copy_into buf ?n ?bs = Some buf'" "frame_ok mi buf'"
    "\<And>a' b'. on_screen mi a' b' \<Longrightarrow> pixel mi buf' a' b' = (if a' = a \<and> b' = b then ?bs else pixel mi buf a' b')"
    using write_block [OF ok(1) on len] by blast
  note index = pixel_index [OF ok(1) on]
  have "1 \<le> bytes_per_pixel mi" using ok(1) by (simp add: frame_ok_def)
  then have "?n < unat n" using screen_block(1) [OF ok(1) on] size(2) by simp
  then have less: "(word_of_int (x_res mi * b + a) * word_of_int (bytes_per_pixel mi) :: u32) < n"
    unfolding word_less_nat_alt index(3) .
  have bs: "take (nat (bytes_per_pixel mi)) (drop ?n src) = ?bs"
    unfolding pixel_def screen_block(2) [OF ok(2) on] ..
  have "\<not> (of_int a = x \<and> of_int b = y)"
    "sqrt ((of_int a - x) * (of_int a - x) + (of_int b - y) * (of_int b - y)) \<le> 200"
    using True by (auto simp: in_view_def power2_eq_square)
  then have "fov_pixel mi x y n src b a buf = Some buf'"
    unfolding fov_pixel_def Let_def index Option.bind.bind_lunit using less src bs buf'(1)
    by (simp add: index(3)) auto
  with True buf'(2,3) show ?thesis by (auto simp: copied_def)
qed

lemma fov_exact:
  assumes ok: "frame_ok mi buf" "frame_ok mi src"
  shows "\<exists>buf'. game_draw_fov_circle mi x y src buf = Some buf' \<and> frame_ok mi buf' \<and>
    (\<forall>a b. on_screen mi a b \<longrightarrow> pixel mi buf' a b =
      (if in_view x y a b then pixel mi src a b else pixel mi buf a b))"
proof -
  obtain n where n: "frame_size mi (word_of_int (bytes_per_pixel mi)) = Some n" "unat n = length buf"
    using frame_size_ok [OF ok(1)] by blast
  have len: "length b = length buf" if "frame_ok mi b" for b
    using that ok(1) by (auto simp: frame_ok_def)
  let ?S = "\<lambda>b a. if in_view x y a b then {(a, b)} else {}"
  have row: "\<exists>buf'. for_each (\<lambda>a. fov_pixel mi x y n src b a) [0..x_res mi - 1] c = Some buf' \<and>
      copied mi src (\<Union>a \<in> set [0..x_res mi - 1]. ?S b a) c buf'"
    if "b \<in> set [0..y_res mi - 1]" and c: "frame_ok mi c" for b c
  proof (rule for_each_copies [OF _ c])
    fix a d
    assume "a \<in> set [0..x_res mi - 1]" "frame_ok mi d"
    then show "\<exists>buf'. fov_pixel mi x y n src b a d = Some buf' \<and> copied mi src (?S b a) d buf'"
      using that(1) fov_pixel_copies [OF _ ok(2) _ n(1), of d a b x y] n(2) len
      by (simp add: on_screen_def)
  qed
  have "\<exists>buf'. for_each (\<lambda>b. for_each (\<lambda>a. fov_pixel mi x y n src b a) [0..x_res mi - 1])
      [0..y_res mi - 1] buf = Some buf' \<and>
    copied mi src (\<Union>b \<in> set [0..y_res mi - 1]. \<Union>a \<in> set [0..x_res mi - 1]. ?S b a) buf buf'"
    by (rule for_each_copies [OF _ ok(1)]) (rule row)
  then obtain buf' where buf': "for_each (\<lambda>b. for_each (\<lambda>a. fov_pixel mi x y n src b a) [0..x_res mi - 1])
      [0..y_res mi - 1] buf = Some buf'"
    "copied mi src (\<Union>b \<in> set [0..y_res mi - 1]. \<Union>a \<in> set [0..x_res mi - 1]. ?S b a) buf buf'"
    by blast
  have "(a, b) \<in> (\<Union>b \<in> set [0..y_res mi - 1]. \<Union>a \<in> set [0..x_res mi - 1]. ?S b a) \<longleftrightarrow> in_view x y a b"
    if "on_screen mi a b" for a b
    using that by (auto simp: on_screen_def)
  with buf' n(1) show ?thesis by (auto simp: game_draw_fov_circle_def copied_def)
qed

subsection \<open>The solution\<close>

definition cell_mark :: "cell_id \<Rightarrow> (int \<times> int) set" where
  "cell_mark p = rectangle (snd p * 100 + 7) (fst p * 100 + 7) 86 86"

lemma draw_solution_paints:
  assumes data: "path_data E (grid w h) s (dists (m_cells m)) (prev_of (m_cells m))"
    and wf: "store_wf w h (m_cells m)" and size: "m_cell_size m = 100"
    and fit: "100 * w \<le> x_res mi" "100 * h \<le> y_res mi"
  shows "v \<in> grid w h \<Longrightarrow> dists (m_cells m) v = int k \<Longrightarrow> int k < INT_MAX \<Longrightarrow> frame_ok mi buf \<Longrightarrow>
    \<exists>buf'. draw_solution_loop mi m (Some v) buf = Some buf' \<and>
      painted mi (\<Union>p \<in> set (butlast (trace (prev_of (m_cells m)) k v)). cell_mark p) 0xFF0000 buf buf'"
proof (induction k arbitrary: v buf)
  case 0
  obtain c where c: "m_cells m v = Some c" using wf 0(1) by (rule store_wfD)
  have "(v = s \<and> prev_of (m_cells m) v = None) \<or>
      (\<exists>u \<in> grid w h. dists (m_cells m) v = dists (m_cells m) u + 1 \<and> 0 \<le> dists (m_cells m) u)"
    using data 0(1,2,3) unfolding path_data_def by fastforce
  then have "c_prev c = None" using 0(2) c by (auto simp: prev_of_def)
  then show ?case
    using c painted_refl [OF 0(4)] draw_solution_loop.simps [of mi m "Some v"]
      draw_solution_loop.simps [of mi m None] by simp
next
  case (Suc k)
  obtain c where c: "m_cells m v = Some c" "c_y c = fst v" "c_x c = snd v"
    using wf Suc.prems(1) by (rule store_wfD)
  have "(v = s \<and> dists (m_cells m) v = 0) \<or>
      (\<exists>u \<in> grid w h. prev_of (m_cells m) v = Some u \<and> dists (m_cells m) v = dists (m_cells m) u + 1)"
    using data Suc.prems(1,2,3) unfolding path_data_def by fastforce
  then obtain u where u: "u \<in> grid w h" "prev_of (m_cells m) v = Some u" "dists (m_cells m) u = int k"
    using Suc.prems(2) by force
  then have prev: "c_prev c = Some u" using c by (simp add: prev_of_def)
  have dims: "x_res mi \<le> 65535" "y_res mi \<le> 65535" by (rule resolution_bounds)+
  have v: "0 \<le> fst v" "fst v < h" "0 \<le> snd v" "snd v < w" using Suc.prems(1) by (cases v; simp)+
  then have "snd v * 100 + 93 \<le> x_res mi" "fst v * 100 + 93 \<le> y_res mi" using fit by linarith+
  then obtain b1 where b1: "draw_rectangle mi (snd v * 100 + 7) (fst v * 100 + 7) 86 86 0xFF0000 buf = Some b1"
    "painted mi (cell_mark v) 0xFF0000 buf b1"
    using draw_rectangle_paints [OF Suc.prems(4), of "snd v * 100 + 7" "fst v * 100 + 7" 86 86 "0xFF0000"]
      v dims by (auto simp: cell_mark_def)
  obtain b2 where b2: "draw_solution_loop mi m (Some u) b1 = Some b2"
    "painted mi (\<Union>p \<in> set (butlast (trace (prev_of (m_cells m)) k u)). cell_mark p) 0xFF0000 b1 b2"
    using Suc.IH [OF u(1,3) _ painted_ok [OF b1(2)]] Suc.prems(3) by auto
  have "trace (prev_of (m_cells m)) (Suc k) v = v # trace (prev_of (m_cells m)) k u"
    using u(2) by simp
  moreover have "trace (prev_of (m_cells m)) k u \<noteq> []" by (cases k) auto
  ultimately have "(\<Union>p \<in> set (butlast (trace (prev_of (m_cells m)) (Suc k) v)). cell_mark p) =
      cell_mark v \<union> (\<Union>p \<in> set (butlast (trace (prev_of (m_cells m)) k u)). cell_mark p)"
    by simp
  moreover have "draw_solution_loop mi m (Some v) buf = draw_solution_loop mi m (Some u) b1"
    using c prev b1(1) draw_solution_loop.simps [of mi m "Some v"] by (simp add: size)
  ultimately show ?case using b2(1) painted_trans [OF b1(2) b2(2)] by simp
qed

subsection \<open>Properties\<close>

lemma generated_fits:
  assumes "generate_maze rnd junk mi = Some m"
  shows "maze_wf m" "m_cell_size m = 100" "100 * m_width m \<le> x_res mi" "100 * m_height m \<le> y_res mi"
proof -
  have "generated m" using assms by (auto simp: generated_def)
  then show "maze_wf m" "m_cell_size m = 100" using generated_maze by auto
  have "100 \<le> x_res mi" "100 \<le> y_res mi"
    using assms generate_maze_small_screen [of mi rnd junk] by (auto simp: not_less [symmetric])
  from generate_maze_run [OF this, of rnd junk] assms
  have "m_width m = x_res mi div 100" "m_height m = y_res mi div 100" by auto
  then show "100 * m_width m \<le> x_res mi" "100 * m_height m \<le> y_res mi"
    using div_bounds(1) by simp_all
qed

text \<open>C13: the picture shows the maze: on a generated maze and a buffer of the screen's size draw_maze
  stays inside the buffer and leaves the exit cell marked green, the start cell marked blue, every
  pixel of a standing wall that is on the screen white, and every other pixel as it was.\<close>

theorem draw_maze_shows_walls:
  assumes "generate_maze rnd junk mi = Some m" and "frame_ok mi buf"
  shows "\<exists>buf'. draw_maze mi m buf = Some buf' \<and> frame_ok mi buf' \<and>
    (\<forall>a b. on_screen mi a b \<longrightarrow> pixel mi buf' a b =
      (if (a, b) \<in> rectangle ((m_width m - 1) * 100 + 7) ((m_height m - 1) * 100 + 7) 86 86
       then pixel_value mi 0x00FF00
       else if (a, b) \<in> rectangle 7 7 86 86 then pixel_value mi 0x0000FF
       else if (a, b) \<in> wall_pixels m then pixel_value mi 0xFFFFFF
       else pixel mi buf a b))"
  using draw_maze_exact [OF generated_fits [OF assms(1)] assms(2)] .

definition blank_frame :: "vbe_mode_info \<Rightarrow> u8 list" where
  "blank_frame mi = replicate (nat (x_res mi * y_res mi * bytes_per_pixel mi)) 0"

lemma blank_frame_14c: "frame_ok mode_14c (blank_frame mode_14c)"
  by (simp add: frame_ok_def blank_frame_def mode_14c_def bytes_per_pixel_def INT_MAX_def)

theorem draw_maze_shows_walls_witness:
  "\<exists>m buf'. generate_maze (\<lambda>k. k) (\<lambda>_. blank_cell) mode_14c = Some m \<and>
    draw_maze mode_14c m (blank_frame mode_14c) = Some buf' \<and>
    pixel mode_14c buf' 1050 750 = pixel_value mode_14c 0x00FF00"
proof -
  obtain m where m: "generate_maze (\<lambda>k. k) (\<lambda>_. blank_cell) mode_14c = Some m"
    "m_width m = 11" "m_height m = 8"
    using generate_maze_run [OF mode_14c_large, of "\<lambda>k. k" "\<lambda>_. blank_cell"]
    by (auto simp: mode_14c_def)
  have "on_screen mode_14c 1050 750" by (simp add: on_screen_def mode_14c_def)
  with draw_maze_shows_walls [OF m(1) blank_frame_14c] m show ?thesis
    by (auto simp: rectangle_def)
qed

text \<open>C16: the fog: after the back buffer is cleared, game_draw_fov_circle makes visible exactly the
  pixels of the maze's picture within 200 pixels of the player, the player's own pixel excepted;
  every other pixel stays black, and no access leaves either buffer.\<close>

theorem fog_reveals_circle:
  assumes "frame_ok mi back" and "frame_ok mi src"
  shows "\<exists>black back'. clear mi (word_of_int (bytes_per_pixel mi)) back = Some black \<and>
    game_draw_fov_circle mi x y src black = Some back' \<and> frame_ok mi back' \<and>
    (\<forall>a b. on_screen mi a b \<longrightarrow> pixel mi back' a b =
      (if in_view x y a b then pixel mi src a b else replicate (nat (bytes_per_pixel mi)) 0))"
proof -
  let ?black = "replicate (length back) (0 :: u8)"
  have black: "frame_ok mi ?black" using assms(1) by (simp add: frame_ok_def)
  have "pixel mi ?black a b = replicate (nat (bytes_per_pixel mi)) 0" if "on_screen mi a b" for a b
    using screen_block(1) [OF assms(1) that] unfolding pixel_def screen_block(2) [OF assms(1) that]
    by (simp add: min_def)
  with clear_exact [OF assms(1)] fov_exact [OF black assms(2), of x y] show ?thesis by auto
qed

theorem fog_reveals_circle_witness:
  "\<exists>black back'. clear tiny_mode (word_of_int (bytes_per_pixel tiny_mode)) (replicate 12 1) = Some black \<and>
    game_draw_fov_circle tiny_mode 0 0 (replicate 12 5) black = Some back' \<and>
    pixel tiny_mode back' 3 2 = [5] \<and> pixel tiny_mode back' 0 0 = [0]"
proof -
  have ok: "frame_ok tiny_mode (replicate 12 c)" for c
    by (simp add: frame_ok_def tiny_mode_def bytes_per_pixel_def INT_MAX_def)
  have on: "on_screen tiny_mode 3 2" "on_screen tiny_mode 0 0"
    by (simp_all add: on_screen_def tiny_mode_def)
  have "sqrt (3\<^sup>2 + 2\<^sup>2) \<le> sqrt (200\<^sup>2)" by (simp only: real_sqrt_le_iff) simp
  then have view: "in_view 0 0 3 2" "\<not> in_view 0 0 0 0" by (simp_all add: in_view_def)
  have src: "pixel tiny_mode (replicate 12 5) 3 2 = [5]"
    by (simp add: pixel_def tiny_mode_def bytes_per_pixel_def)
  obtain black back' where r: "clear tiny_mode (word_of_int (bytes_per_pixel tiny_mode)) (replicate 12 1) = Some black"
    "game_draw_fov_circle tiny_mode 0 0 (replicate 12 5) black = Some back'"
    "\<And>a b. on_screen tiny_mode a b \<Longrightarrow> pixel tiny_mode back' a b =
      (if in_view 0 0 a b then pixel tiny_mode (replicate 12 5) a b
       else replicate (nat (bytes_per_pixel tiny_mode)) 0)"
    using fog_reveals_circle [OF ok [of 1] ok [of 5], of 0 0] by blast
  have "replicate (nat (bytes_per_pixel tiny_mode)) (0 :: u8) = [0]"
    by (simp add: tiny_mode_def bytes_per_pixel_def)
  then show ?thesis using r(1,2) r(3) [OF on(1)] r(3) [OF on(2)] view src by auto
qed

text \<open>C23: after get_solution on a generated maze, draw_solution ends and paints red exactly the cells of
  the way from the exit back to the start, the start itself excepted.\<close>

theorem draw_solution_marks_way:
  assumes "generate_maze rnd junk mi = Some m" and "heap_ok heap" and "frame_ok mi buf"
  shows "\<exists>sol heap' m' ps buf'. get_solution heap m = Some (Some sol, heap', m') \<and>
    simple_walk (maze_passages m) (m_height m - 1, m_width m - 1) ps (0, 0) \<and>
    draw_solution mi m' heap' sol buf = Some buf' \<and>
    painted mi (\<Union>p \<in> set (butlast ps). cell_mark p) 0xFF0000 buf buf'"
proof -
  have gen: "generated m" using assms(1) by (auto simp: generated_def)
  note ex = generated_exit [OF gen] and fits = generated_fits [OF assms(1)]
  let ?e = "(m_height m - 1, m_width m - 1)"
  obtain sol heap' m' ps where r: "get_solution heap m = Some (Some sol, heap', m')"
    "list_rep heap' sol (map Some ps)" "shortest_back (maze_passages m) (0, 0) ?e ps"
    "m' = m\<lparr>m_cells := m_cells m'\<rparr>" "cells_core (m_cells m') = cells_core (m_cells m)"
    "ps = trace (prev_of (m_cells m')) (length ps - 1) ?e"
    "path_data (maze_passages m) (maze_grid m) (0, 0) (dists (m_cells m')) (prev_of (m_cells m'))"
    and final: "dists (m_cells m') ?e = int (length ps - 1)" and small: "int (length ps - 1) < INT_MAX"
    using get_solution_run [OF ex(1) assms(2) ex(2,5)] .
  have size: "m_cell_size m' = 100" using fits(2) by (subst r(4)) simp
  have wf: "store_wf (m_width m) (m_height m) (m_cells m')"
    using cells_core_store_wf [OF r(5)] fits(1) by (auto simp: maze_wf_def)
  have way: "simple_walk (maze_passages m) ?e ps (0, 0)" using r(3) by (simp add: shortest_back_def)
  then have "ps \<noteq> []" "hd ps = ?e" by (auto simp: simple_walk_def)
  then have first: "linked_list_first heap' sol = Some (Some ?e)"
    using list_rep_first [OF list_repD [OF r(2)]] by (cases ps) auto
  obtain buf' where "draw_solution_loop mi m' (Some ?e) buf = Some buf'"
    "painted mi (\<Union>p \<in> set (butlast (trace (prev_of (m_cells m')) (length ps - 1) ?e)). cell_mark p) 0xFF0000 buf buf'"
    using draw_solution_paints [OF r(7) [unfolded maze_grid_def] wf size fits(3,4) _ final small assms(3)]
      ex(4) by (auto simp: maze_grid_def)
  then have "draw_solution mi m' heap' sol buf = Some buf'"
    "painted mi (\<Union>p \<in> set (butlast ps). cell_mark p) 0xFF0000 buf buf'"
    using first r(6) by (simp_all add: draw_solution_def)
  with r(1) way show ?thesis by blast
qed

theorem draw_solution_marks_way_witness:
  "\<exists>m sol heap' m' buf'. generate_maze (\<lambda>k. k) (\<lambda>_. blank_cell) mode_14c = Some m \<and>
    get_solution empty_heap m = Some (Some sol, heap', m') \<and>
    draw_solution mode_14c m' heap' sol (blank_frame mode_14c) = Some buf'"
proof -
  obtain m where m: "generate_maze (\<lambda>k. k) (\<lambda>_. blank_cell) mode_14c = Some m"
    using generate_maze_run [OF mode_14c_large, of "\<lambda>k. k" "\<lambda>_. blank_cell"] by auto
  with draw_solution_marks_way [OF m empty_heap_ok blank_frame_14c] show ?thesis by blast
qed

end
