(* ===== verification/Sprites_Text.thy ===== *)
theory Sprites_Text
  imports C_Double Video
begin

text \<open>
  The images and texts of controllers/graphics.c: sprites, enlarged sprites, rotated sprites, the
  letters of the font, titles and texts.

  The arrays of strings under images/ are named by a datatype; xpm_load, which belongs to the
  course's framework, is a parameter that gives the decoded image of a name, None being NULL. A
  string is the list of its chars before the terminating NUL. The doubles are real numbers.

  drawn says which pixels drawing changed, and to which colors.
\<close>

subsection \<open>The code\<close>

datatype xpm_map =
  a_xpm | b_xpm | c_xpm | d_xpm | e_xpm | f_xpm | g_xpm | h_xpm | i_xpm | j_xpm | k_xpm |
  l_xpm | m_xpm | n_xpm | o_xpm | p_xpm | q_xpm | r_xpm | s_xpm | t_xpm | u_xpm | v_xpm |
  w_xpm | x_xpm | y_xpm | z_xpm | number_zero_xpm | number_one_xpm | number_two_xpm |
  number_three_xpm | number_four_xpm | number_five_xpm | number_six_xpm | number_seven_xpm |
  number_eight_xpm | number_nine_xpm | right_arrow_xpm | cursor_xpm | player_xpm |
  player3_xpm | player4_xpm | player5_xpm

record xpm_image =
  img_w :: u16
  img_h :: u16
  img_map :: "u32 list option"

type_synonym xpm_loader = "xpm_map option \<Rightarrow> xpm_image"

text \<open>The expression map[i * img.width + j].\<close>

definition map_at :: "xpm_image \<Rightarrow> int \<Rightarrow> int \<Rightarrow> u32 option" where
  "map_at img i j =
     do {
       row \<leftarrow> c_int (i * uint (img_w img));
       n \<leftarrow> c_int (row + j);
       px \<leftarrow> img_map img;
       guard_ub (0 \<le> n \<and> n < int (length px));
       Some (px ! nat n)
     }"

text \<open>A call of vg_draw_pixel with int coordinates, whose result is ignored.\<close>

definition put_pixel :: "vbe_mode_info \<Rightarrow> int \<Rightarrow> int \<Rightarrow> u32 \<Rightarrow> u8 list \<Rightarrow> u8 list option" where
  "put_pixel mi a b color buffer =
     map_option snd (vg_draw_pixel mi (word_of_int a) (word_of_int b) color buffer)"

definition draw_xpm_at_pos ::
  "xpm_loader \<Rightarrow> vbe_mode_info \<Rightarrow> xpm_map option \<Rightarrow> u16 \<Rightarrow> u16 \<Rightarrow> u8 list \<Rightarrow> u8 list option" where
  "draw_xpm_at_pos xpm_load mi xpm x y back =
     (let img = xpm_load xpm in
      for_each (\<lambda>i. for_each (\<lambda>j back. do {
          color \<leftarrow> map_at img i j;
          if color \<noteq> 0x00ff00 then put_pixel mi (uint x + j) (uint y + i) color back else Some back
        }) [0..uint (img_w img) - 1]) [0..uint (img_h img) - 1] back)"

definition draw_xpm_x_times_bigger ::
  "xpm_loader \<Rightarrow> vbe_mode_info \<Rightarrow> xpm_map option \<Rightarrow> u16 \<Rightarrow> u16 \<Rightarrow> u16 \<Rightarrow> u32 \<Rightarrow> u8 list \<Rightarrow> u8 list option" where
  "draw_xpm_x_times_bigger xpm_load mi xpm x y factor color back =
     (let img = xpm_load xpm in
      for_each (\<lambda>i. for_each (\<lambda>j. for_each (\<lambda>k. for_each (\<lambda>l back. do {
          c \<leftarrow> map_at img i j;
          let new_color = (if color = 0xFFFFFFFF then c else if c = 0xFF0000 then color else 0xFF0000);
          a \<leftarrow> c_int (uint x + j * uint factor + k);
          b \<leftarrow> c_int (uint y + i * uint factor + l);
          put_pixel mi a b new_color back
        }) [0..uint factor - 1]) [0..uint factor - 1])
        [0..uint (img_w img) - 1]) [0..uint (img_h img) - 1] back)"

definition get_xpm :: "char \<Rightarrow> xpm_map option" where
  "get_xpm letter = map_of
     [
      (CHR ''a'', a_xpm), (CHR ''b'', b_xpm), (CHR ''c'', c_xpm), (CHR ''d'', d_xpm),
      (CHR ''e'', e_xpm), (CHR ''f'', f_xpm), (CHR ''g'', g_xpm), (CHR ''h'', h_xpm),
      (CHR ''i'', i_xpm), (CHR ''j'', j_xpm), (CHR ''k'', k_xpm), (CHR ''l'', l_xpm),
      (CHR ''m'', m_xpm), (CHR ''n'', n_xpm), (CHR ''o'', o_xpm), (CHR ''p'', p_xpm),
      (CHR ''q'', q_xpm), (CHR ''r'', r_xpm), (CHR ''s'', s_xpm), (CHR ''t'', t_xpm),
      (CHR ''u'', u_xpm), (CHR ''v'', v_xpm), (CHR ''w'', w_xpm), (CHR ''x'', x_xpm),
      (CHR ''y'', y_xpm), (CHR ''z'', z_xpm), (CHR ''0'', number_zero_xpm),
      (CHR ''1'', number_one_xpm), (CHR ''2'', number_two_xpm), (CHR ''3'', number_three_xpm),
      (CHR ''4'', number_four_xpm), (CHR ''5'', number_five_xpm), (CHR ''6'', number_six_xpm),
      (CHR ''7'', number_seven_xpm), (CHR ''8'', number_eight_xpm),
      (CHR ''9'', number_nine_xpm), (CHR ''-'', right_arrow_xpm)
     ] letter"

text \<open>tolower of the C library, in the C locale.\<close>

definition tolower :: "char \<Rightarrow> char" where
  "tolower c = (if 65 \<le> (of_char c :: nat) \<and> (of_char c :: nat) \<le> 90
     then char_of ((of_char c :: nat) + 32) else c)"

primrec draw_title ::
  "xpm_loader \<Rightarrow> vbe_mode_info \<Rightarrow> string \<Rightarrow> u16 \<Rightarrow> u16 \<Rightarrow> u8 list \<Rightarrow> u8 list option" where
  "draw_title xpm_load mi [] x y back = Some back"
| "draw_title xpm_load mi (c # text) x y back =
     (let lowercase_letter = tolower c in
      do {
        back \<leftarrow> (if lowercase_letter = CHR '' '' then Some back
                 else draw_xpm_x_times_bigger xpm_load mi (get_xpm lowercase_letter) x y 4 0xFFFFFFFF back);
        draw_title xpm_load mi text (x + 20 + 40) y back
      })"

primrec draw_text ::
  "xpm_loader \<Rightarrow> vbe_mode_info \<Rightarrow> string \<Rightarrow> u16 \<Rightarrow> u16 \<Rightarrow> u32 \<Rightarrow> u8 list \<Rightarrow> u8 list option" where
  "draw_text xpm_load mi [] x y color back = Some back"
| "draw_text xpm_load mi (c # text) x y color back =
     (let lowercase_letter = tolower c in
      do {
        back \<leftarrow> (if lowercase_letter = CHR '' '' then Some back
                 else draw_xpm_x_times_bigger xpm_load mi (get_xpm lowercase_letter) x y 2 color back);
        draw_text xpm_load mi text (x + 10 + 20) y color back
      })"

text \<open>The four corners of calculate_rotated_bounds, and its loop over min_x, max_x, min_y, max_y.\<close>

definition corners :: "real \<Rightarrow> real \<Rightarrow> (real \<times> real) list" where
  "corners width height =
     [(- width / 2, - height / 2), (width / 2, - height / 2), (width / 2, height / 2), (- width / 2, height / 2)]"

definition widen :: "real \<Rightarrow> real \<Rightarrow> real \<times> real \<Rightarrow> real \<times> real \<times> real \<times> real \<Rightarrow> real \<times> real \<times> real \<times> real" where
  "widen cos_theta sin_theta corner bounds =
     (case corner of (cx, cy) \<Rightarrow> case bounds of (min_x, max_x, min_y, max_y) \<Rightarrow>
        (let x = cx * cos_theta - cy * sin_theta;
             y = cx * sin_theta + cy * cos_theta in
         (if x < min_x then x else min_x, if x > max_x then x else max_x,
          if y < min_y then y else min_y, if y > max_y then y else max_y)))"

definition calculate_rotated_bounds :: "real \<Rightarrow> real \<Rightarrow> real \<Rightarrow> real \<times> real" where
  "calculate_rotated_bounds width height theta =
     (case fold (widen (cos theta) (sin theta)) (corners width height) (1000000000, -1000000000, 1000000000, -1000000000) of
        (min_x, max_x, min_y, max_y) \<Rightarrow> (max_x - min_x, max_y - min_y))"

text \<open>The body of the loops of draw_xpm_at_pos_at_delta.\<close>

definition rotated_pixel ::
  "vbe_mode_info \<Rightarrow> xpm_image \<Rightarrow> u16 \<Rightarrow> u16 \<Rightarrow> real \<Rightarrow> real \<Rightarrow> real \<Rightarrow> int \<Rightarrow> int \<Rightarrow> u8 list \<Rightarrow> u8 list option" where
  "rotated_pixel mi img x y theta rotated_width rotated_height i j back =
     (let center_x = of_int (uint (img_w img)) / 2;
          center_y = of_int (uint (img_h img)) / 2;
          translated_x = of_int j - rotated_width / 2;
          translated_y = of_int i - rotated_height / 2;
          source_x = cos theta * translated_x - sin theta * translated_y + center_x;
          source_y = sin theta * translated_x + cos theta * translated_y + center_y in
      if source_x \<ge> 0 \<and> source_x < of_int (uint (img_w img)) \<and>
         source_y \<ge> 0 \<and> source_y < of_int (uint (img_h img))
      then do {
        src_x \<leftarrow> int_of_double source_x;
        src_y \<leftarrow> int_of_double source_y;
        color \<leftarrow> map_at img src_y src_x;
        if color \<noteq> 0x00ff00 then do {
          a \<leftarrow> u16_of_double (of_int (uint x + j) - rotated_width / 2);
          b \<leftarrow> u16_of_double (of_int (uint y + i) - rotated_height / 2);
          map_option snd (vg_draw_pixel mi a b color back)
        }
        else Some back
      }
      else Some back)"

definition draw_xpm_at_pos_at_delta ::
  "xpm_loader \<Rightarrow> vbe_mode_info \<Rightarrow> xpm_map option \<Rightarrow> u16 \<Rightarrow> u16 \<Rightarrow> real \<Rightarrow> u8 list \<Rightarrow> (int \<times> u8 list) option" where
  "draw_xpm_at_pos_at_delta xpm_load mi xpm x y theta back =
     (let img = xpm_load xpm in
      if img_map img = None then Some (-1, back)
      else
        (case calculate_rotated_bounds (of_int (uint (img_w img))) (of_int (uint (img_h img))) theta of
           (rotated_width, rotated_height) \<Rightarrow>
             do {
               rows \<leftarrow> int_of_double rotated_height;
               columns \<leftarrow> int_of_double rotated_width;
               back \<leftarrow> for_each (\<lambda>i. for_each
                   (\<lambda>j. rotated_pixel mi img x y theta rotated_width rotated_height i j)
                   [0..columns - 1]) [0..rows - 1] back;
               Some (0, back)
             }))"

declare map_at_def [model_defs] put_pixel_def [model_defs] draw_xpm_at_pos_def [model_defs]
  draw_xpm_x_times_bigger_def [model_defs] get_xpm_def [model_defs] tolower_def [model_defs]
  corners_def [model_defs] widen_def [model_defs] calculate_rotated_bounds_def [model_defs]
  rotated_pixel_def [model_defs] draw_xpm_at_pos_at_delta_def [model_defs]

subsection \<open>What drawing changes\<close>

type_synonym picture = "int \<times> int \<Rightarrow> u32 option"

definition drawn :: "vbe_mode_info \<Rightarrow> picture \<Rightarrow> u8 list \<Rightarrow> u8 list \<Rightarrow> bool" where
  "drawn mi F buf buf' \<longleftrightarrow> frame_ok mi buf' \<and>
     (\<forall>a b. on_screen mi a b \<longrightarrow> pixel mi buf' a b =
        (case F (a, b) of Some c \<Rightarrow> pixel_value mi c | None \<Rightarrow> pixel mi buf a b))"

lemma drawn_refl: "frame_ok mi buf \<Longrightarrow> drawn mi Map.empty buf buf"
  by (simp add: drawn_def)

lemma drawn_ok: "drawn mi F buf buf' \<Longrightarrow> frame_ok mi buf'"
  by (simp add: drawn_def)

lemma drawn_trans: "drawn mi F buf buf1 \<Longrightarrow> drawn mi G buf1 buf2 \<Longrightarrow> drawn mi (F ++ G) buf buf2"
  by (auto simp: drawn_def map_add_def split: option.splits)

lemma restrict_union: "(T |` A) ++ (T |` B) = T |` (A \<union> B)"
  by (rule ext) (auto simp: map_add_def restrict_map_def split: option.splits)

lemma restrict_map_whole: "(\<And>p. p \<notin> S \<Longrightarrow> T p = None) \<Longrightarrow> T |` S = T"
  by (auto simp: restrict_map_def fun_eq_iff)

lemma restrict_single: "T |` {p} = (case T p of None \<Rightarrow> Map.empty | Some c \<Rightarrow> [p \<mapsto> c])"
  by (rule ext) (auto simp: restrict_map_def split: option.splits)

lemma restrict_all: "(\<And>a b. T (a, b) \<noteq> None \<Longrightarrow> (a, b) \<in> A) \<Longrightarrow> T |` A = T"
  by (rule ext) (force simp: restrict_map_def)

text \<open>A loop whose every step draws its part of one picture T draws the union of the parts.\<close>

lemma for_each_draws:
  assumes "\<And>x buf. x \<in> set xs \<Longrightarrow> frame_ok mi buf \<Longrightarrow>
      \<exists>buf'. f x buf = Some buf' \<and> drawn mi (T |` S x) buf buf'"
    and "frame_ok mi buf"
  shows "\<exists>buf'. for_each f xs buf = Some buf' \<and> drawn mi (T |` (\<Union>x \<in> set xs. S x)) buf buf'"
  using assms
proof (induction xs arbitrary: buf)
  case Nil
  then show ?case by (simp add: drawn_refl)
next
  case (Cons x xs)
  obtain buf1 where buf1: "f x buf = Some buf1" "drawn mi (T |` S x) buf buf1"
    using Cons.prems by (metis list.set_intros(1))
  obtain buf2 where buf2: "for_each f xs buf1 = Some buf2"
    "drawn mi (T |` (\<Union>x \<in> set xs. S x)) buf1 buf2"
    using Cons.IH [OF _ drawn_ok [OF buf1(2)]] Cons.prems(1) by (meson list.set_intros(2))
  with buf1 drawn_trans [OF buf1(2) buf2(2)] show ?case by (auto simp: restrict_union)
qed

lemma put_pixel_draws:
  assumes "frame_ok mi buf" and "0 \<le> a" "a < 65536" and "0 \<le> b" "b < 65536"
  shows "\<exists>buf'. put_pixel mi a b color buf = Some buf' \<and> drawn mi [(a, b) \<mapsto> color] buf buf'"
proof -
  have word: "uint (word_of_int v :: u16) = v" if "0 \<le> v" "v < 65536" for v
    using that by (simp only: uint_word_of_int) simp
  note words = word [OF assms(2,3)] word [OF assms(4,5)]
  show ?thesis
  proof (cases "on_screen mi a b")
    case True
    then obtain buf' where "vg_draw_pixel mi (word_of_int a) (word_of_int b) color buf = Some (0, buf')"
      "frame_ok mi buf'" "\<And>c d. on_screen mi c d \<Longrightarrow> pixel mi buf' c d =
        (if c = a \<and> d = b then pixel_value mi color else pixel mi buf c d)"
      using draw_pixel_on [OF assms(1), of "word_of_int a" "word_of_int b" color] unfolding words by blast
    then show ?thesis by (auto simp: put_pixel_def drawn_def)
  next
    case False
    then have "vg_draw_pixel mi (word_of_int a) (word_of_int b) color buf = Some (1, buf)"
      using draw_pixel_off [of mi "word_of_int a" "word_of_int b"] unfolding words by blast
    moreover have "on_screen mi c d \<Longrightarrow> (c, d) \<noteq> (a, b)" for c d using False by auto
    ultimately show ?thesis using assms(1) by (auto simp: put_pixel_def drawn_def)
  qed
qed

subsection \<open>Images\<close>

definition image_ok :: "xpm_image \<Rightarrow> u32 list \<Rightarrow> bool" where
  "image_ok img px \<longleftrightarrow> img_map img = Some px \<and>
     int (length px) = uint (img_w img) * uint (img_h img) \<and> int (length px) \<le> INT_MAX"

lemma map_at_ok:
  assumes "image_ok img px" and "0 \<le> i" "i < uint (img_h img)" and "0 \<le> j" "j < uint (img_w img)"
  shows "map_at img i j = Some (px ! nat (i * uint (img_w img) + j))"
proof -
  have "i * uint (img_w img) + j < (i + 1) * uint (img_w img)" using assms(5) by (simp add: distrib_right)
  also have "\<dots> \<le> uint (img_h img) * uint (img_w img)" using assms(3) by (intro mult_right_mono) auto
  finally have less: "i * uint (img_w img) + j < int (length px)"
    using assms(1) by (simp add: image_ok_def mult.commute)
  have "0 \<le> i * uint (img_w img)" using assms(2) by simp
  moreover have "int (length px) \<le> INT_MAX" using assms(1) by (simp add: image_ok_def)
  moreover have "r \<le> M \<and> 0 \<le> r + j \<and> r + j \<le> M" if "0 \<le> r" "n \<le> M" "r + j < n" for r n M :: int
    using that assms(4) by linarith
  ultimately have row: "0 \<le> i * uint (img_w img)" "i * uint (img_w img) \<le> INT_MAX"
    and pos: "0 \<le> i * uint (img_w img) + j" "i * uint (img_w img) + j \<le> INT_MAX"
    using less by blast+
  have "img_map img = Some px" using assms(1) by (simp add: image_ok_def)
  then show ?thesis
    using less pos(1) unfolding map_at_def c_int_nonneg [OF row] by (simp add: c_int_nonneg [OF pos])
qed

text \<open>The picture of an image at (x, y), with every pixel enlarged to t by t and its color changed by
  tint, None leaving the background.\<close>

definition image_picture ::
  "xpm_image \<Rightarrow> u32 list \<Rightarrow> (u32 \<Rightarrow> u32 option) \<Rightarrow> int \<Rightarrow> int \<Rightarrow> int \<Rightarrow> picture" where
  "image_picture img px tint t x y = (\<lambda>(a, b).
     if x \<le> a \<and> a < x + uint (img_w img) * t \<and> y \<le> b \<and> b < y + uint (img_h img) * t
     then tint (px ! nat ((b - y) div t * uint (img_w img) + (a - x) div t)) else None)"

lemma image_picture_at:
  assumes "0 \<le> i" "i < uint (img_h img)" "0 \<le> j" "j < uint (img_w img)" "0 \<le> k" "k < t" "0 \<le> l" "l < t"
  shows "image_picture img px tint t x y (x + j * t + k, y + i * t + l) =
    tint (px ! nat (i * uint (img_w img) + j))"
proof -
  have inside: "0 \<le> c * t + d" "c * t + d < n * t" if "0 \<le> c" "c < n" "0 \<le> d" "d < t" for c d n :: int
  proof -
    show "0 \<le> c * t + d" using that by simp
    have "(c + 1) * t \<le> n * t" using that by (intro mult_right_mono) auto
    then show "c * t + d < n * t" using that by (simp add: distrib_right)
  qed
  have "(j * t + k) div t = j" "(i * t + l) div t = i"
    using assms div_mult_self3 [of t j k] div_mult_self3 [of t i l] by (simp_all add: div_pos_pos_trivial)
  then have q: "(x + j * t + k - x) div t = j" "(y + i * t + l - y) div t = i"
    by (simp_all add: algebra_simps)
  show ?thesis
    using inside [of j "uint (img_w img)" k] inside [of i "uint (img_h img)" l] assms
    unfolding image_picture_def split_def fst_conv snd_conv q by simp
qed

definition tint_text :: "u32 \<Rightarrow> u32 \<Rightarrow> u32 option" where
  "tint_text color c =
     Some (if color = 0xFFFFFFFF then c else if c = 0xFF0000 then color else 0xFF0000)"

definition tint_sprite :: "u32 \<Rightarrow> u32 option" where
  "tint_sprite c = (if c \<noteq> 0x00ff00 then Some c else None)"

lemma div_less_int:
  assumes "(u::int) < n * t" and "0 < t"
  shows "u div t < n"
proof (rule ccontr)
  assume "\<not> u div t < n"
  then have "n * t \<le> u div t * t" using assms(2) by (intro mult_right_mono) auto
  also have "\<dots> \<le> u" using assms(2) pos_mod_sign [of t u] div_mult_mod_eq [of u t] by linarith
  finally show False using assms(1) by simp
qed

lemma sprite_picture:
  assumes "frame_ok mi buf" and img: "image_ok (xpm_load xpm) px"
    and "uint x + uint (img_w (xpm_load xpm)) \<le> 65536" and "uint y + uint (img_h (xpm_load xpm)) \<le> 65536"
  shows "\<exists>buf'. draw_xpm_at_pos xpm_load mi xpm x y buf = Some buf' \<and>
    drawn mi (image_picture (xpm_load xpm) px tint_sprite 1 (uint x) (uint y)) buf buf'"
proof -
  let ?img = "xpm_load xpm"
  let ?T = "image_picture ?img px tint_sprite 1 (uint x) (uint y)"
  let ?f = "\<lambda>i j bb. do { color \<leftarrow> map_at ?img i j;
      if color \<noteq> 0x00ff00 then put_pixel mi (uint x + j) (uint y + i) color bb else Some bb }"
  have step: "\<exists>buf'. ?f i j bb = Some buf' \<and> drawn mi (?T |` {(uint x + j, uint y + i)}) bb buf'"
    if "i \<in> set [0..uint (img_h ?img) - 1]" "j \<in> set [0..uint (img_w ?img) - 1]" "frame_ok mi bb" for i j bb
  proof -
    have ij: "0 \<le> i" "i < uint (img_h ?img)" "0 \<le> j" "j < uint (img_w ?img)" using that by auto
    have T: "?T (uint x + j, uint y + i) = tint_sprite (px ! nat (i * uint (img_w ?img) + j))"
      using image_picture_at [OF ij, of 0 1 0] by simp
    have "uint x + j < 65536" "uint y + i < 65536" using ij assms(3,4) by linarith+
    then show ?thesis
      using put_pixel_draws [OF that(3), of "uint x + j" "uint y + i"] ij drawn_refl [OF that(3)]
      unfolding restrict_single T map_at_ok [OF img ij]
      by (simp add: tint_sprite_def)
  qed
  have row: "\<exists>buf'. for_each (?f i) [0..uint (img_w ?img) - 1] bb = Some buf' \<and>
      drawn mi (?T |` (\<Union>j \<in> set [0..uint (img_w ?img) - 1]. {(uint x + j, uint y + i)})) bb buf'"
    if "i \<in> set [0..uint (img_h ?img) - 1]" "frame_ok mi bb" for i bb
    by (rule for_each_draws [OF _ that(2)]) (rule step [OF that(1)])
  have "\<exists>buf'. for_each (\<lambda>i. for_each (?f i) [0..uint (img_w ?img) - 1]) [0..uint (img_h ?img) - 1] buf = Some buf' \<and>
      drawn mi (?T |` (\<Union>i \<in> set [0..uint (img_h ?img) - 1]. \<Union>j \<in> set [0..uint (img_w ?img) - 1].
        {(uint x + j, uint y + i)})) buf buf'"
    by (rule for_each_draws [OF _ assms(1)]) (rule row)
  moreover have "(a, b) \<in> (\<Union>i \<in> set [0..uint (img_h ?img) - 1]. \<Union>j \<in> set [0..uint (img_w ?img) - 1].
        {(uint x + j, uint y + i)})" if "?T (a, b) \<noteq> None" for a b
  proof -
    have "a - uint x \<in> set [0..uint (img_w ?img) - 1]" "b - uint y \<in> set [0..uint (img_h ?img) - 1]"
      using that by (auto simp: image_picture_def split: if_splits)
    moreover have "(a, b) = (uint x + (a - uint x), uint y + (b - uint y))" by simp
    ultimately show ?thesis by blast
  qed
  ultimately show ?thesis unfolding draw_xpm_at_pos_def Let_def by (metis (no_types, lifting) restrict_all)
qed

text \<open>One of the t * t pixels that a pixel of the image becomes; and every pixel of the picture is such a one.\<close>

lemma bigger_pixel:
  assumes "frame_ok mi bb" and img: "image_ok (xpm_load xpm) px"
    and fits: "uint x + uint (img_w (xpm_load xpm)) * uint t \<le> 65536"
      "uint y + uint (img_h (xpm_load xpm)) * uint t \<le> 65536"
    and ijkl: "0 \<le> i" "i < uint (img_h (xpm_load xpm))" "0 \<le> j" "j < uint (img_w (xpm_load xpm))"
      "0 \<le> k" "k < uint t" "0 \<le> l" "l < uint t"
  shows "\<exists>buf'. do { c \<leftarrow> map_at (xpm_load xpm) i j;
      let new_color = (if color = 0xFFFFFFFF then c else if c = 0xFF0000 then color else 0xFF0000);
      a \<leftarrow> c_int (uint x + j * uint t + k);
      b \<leftarrow> c_int (uint y + i * uint t + l);
      put_pixel mi a b new_color bb } = Some buf' \<and>
    drawn mi (image_picture (xpm_load xpm) px (tint_text color) (uint t) (uint x) (uint y) |`
      {(uint x + j * uint t + k, uint y + i * uint t + l)}) bb buf'"
proof -
  let ?img = "xpm_load xpm" and ?t = "uint t"
  let ?T = "image_picture ?img px (tint_text color) ?t (uint x) (uint y)"
  have T: "?T (uint x + j * ?t + k, uint y + i * ?t + l) = tint_text color (px ! nat (i * uint (img_w ?img) + j))"
    by (rule image_picture_at [OF ijkl])
  have le: "(j + 1) * ?t \<le> uint (img_w ?img) * ?t" "(i + 1) * ?t \<le> uint (img_h ?img) * ?t"
    using ijkl by (intro mult_right_mono; simp)+
  have nonneg: "0 \<le> uint x + j * ?t + k" "0 \<le> uint y + i * ?t + l" using ijkl by simp_all
  have less: "uint x + j * ?t + k < 65536" "uint y + i * ?t + l < 65536"
    using ijkl(6,8) le fits by (simp_all add: distrib_right)
  have c: "c_int (uint x + j * ?t + k) = Some (uint x + j * ?t + k)"
    "c_int (uint y + i * ?t + l) = Some (uint y + i * ?t + l)"
    using nonneg less by (simp_all add: c_int_def INT_MAX_def)
  show ?thesis
    using put_pixel_draws [OF assms(1) nonneg(1) less(1) nonneg(2) less(2)]
    unfolding restrict_single T map_at_ok [OF img ijkl(1-4)] c
    by (simp add: tint_text_def Let_def)
qed

lemma bigger_covers:
  assumes "image_picture img px f t x y (a, b) \<noteq> None" and t: "0 < t"
  obtains i j k l where "i \<in> set [0..uint (img_h img) - 1]" "j \<in> set [0..uint (img_w img) - 1]"
    "k \<in> set [0..t - 1]" "l \<in> set [0..t - 1]" "(a, b) = (x + j * t + k, y + i * t + l)"
proof -
  let ?u = "a - x" and ?v = "b - y"
  have "0 \<le> ?u" "?u < uint (img_w img) * t" "0 \<le> ?v" "?v < uint (img_h img) * t"
    using assms(1) by (auto simp: image_picture_def split: if_splits)
  then have "?v div t \<in> set [0..uint (img_h img) - 1]" "?u div t \<in> set [0..uint (img_w img) - 1]"
    using t by (auto simp: div_less_int pos_imp_zdiv_nonneg_iff)
  moreover have "?u mod t \<in> set [0..t - 1]" "?v mod t \<in> set [0..t - 1]" using t by auto
  moreover have "(a, b) = (x + ?u div t * t + ?u mod t, y + ?v div t * t + ?v mod t)" by simp
  ultimately show thesis by (rule that)
qed

lemma bigger_picture:
  assumes "frame_ok mi buf" and img: "image_ok (xpm_load xpm) px" and t: "0 < uint t"
    and "uint x + uint (img_w (xpm_load xpm)) * uint t \<le> 65536"
    and "uint y + uint (img_h (xpm_load xpm)) * uint t \<le> 65536"
  shows "\<exists>buf'. draw_xpm_x_times_bigger xpm_load mi xpm x y t color buf = Some buf' \<and>
    drawn mi (image_picture (xpm_load xpm) px (tint_text color) (uint t) (uint x) (uint y)) buf buf'"
proof -
  let ?img = "xpm_load xpm" and ?t = "uint t"
  let ?T = "image_picture ?img px (tint_text color) ?t (uint x) (uint y)"
  let ?h = "[0..uint (img_h ?img) - 1]" and ?w = "[0..uint (img_w ?img) - 1]" and ?k = "[0..?t - 1]"
  let ?f = "\<lambda>i j k l bb. do { c \<leftarrow> map_at ?img i j;
      let new_color = (if color = 0xFFFFFFFF then c else if c = 0xFF0000 then color else 0xFF0000);
      a \<leftarrow> c_int (uint x + j * ?t + k);
      b \<leftarrow> c_int (uint y + i * ?t + l);
      put_pixel mi a b new_color bb }"
  let ?p = "\<lambda>i j k l. (uint x + j * ?t + k, uint y + i * ?t + l)"
  have step: "\<exists>buf'. ?f i j k l bb = Some buf' \<and> drawn mi (?T |` {?p i j k l}) bb buf'"
    if "i \<in> set ?h" "j \<in> set ?w" "k \<in> set ?k" "l \<in> set ?k" "frame_ok mi bb" for i j k l bb
    by (rule bigger_pixel [where xpm_load = xpm_load, OF that(5) img assms(4,5)]) (use that(1-4) in auto)
  have 1: "\<exists>buf'. for_each (?f i j k) ?k bb = Some buf' \<and>
      drawn mi (?T |` (\<Union>l \<in> set ?k. {?p i j k l})) bb buf'"
    if "i \<in> set ?h" "j \<in> set ?w" "k \<in> set ?k" "frame_ok mi bb" for i j k bb
    by (rule for_each_draws [OF _ that(4)]) (rule step [OF that(1-3)])
  have 2: "\<exists>buf'. for_each (\<lambda>k. for_each (?f i j k) ?k) ?k bb = Some buf' \<and>
      drawn mi (?T |` (\<Union>k \<in> set ?k. \<Union>l \<in> set ?k. {?p i j k l})) bb buf'"
    if "i \<in> set ?h" "j \<in> set ?w" "frame_ok mi bb" for i j bb
    by (rule for_each_draws [OF _ that(3)]) (rule 1 [OF that(1,2)])
  have 3: "\<exists>buf'. for_each (\<lambda>j. for_each (\<lambda>k. for_each (?f i j k) ?k) ?k) ?w bb = Some buf' \<and>
      drawn mi (?T |` (\<Union>j \<in> set ?w. \<Union>k \<in> set ?k. \<Union>l \<in> set ?k. {?p i j k l})) bb buf'"
    if "i \<in> set ?h" "frame_ok mi bb" for i bb
    by (rule for_each_draws [OF _ that(2)]) (rule 2 [OF that(1)])
  have "\<exists>buf'. for_each (\<lambda>i. for_each (\<lambda>j. for_each (\<lambda>k. for_each (?f i j k) ?k) ?k) ?w) ?h buf = Some buf' \<and>
    drawn mi (?T |` (\<Union>i \<in> set ?h. \<Union>j \<in> set ?w. \<Union>k \<in> set ?k. \<Union>l \<in> set ?k. {?p i j k l})) buf buf'"
    by (rule for_each_draws [OF _ assms(1)]) (rule 3)
  moreover have "(a, b) \<in> (\<Union>i \<in> set ?h. \<Union>j \<in> set ?w. \<Union>k \<in> set ?k. \<Union>l \<in> set ?k. {?p i j k l})"
    if some: "?T (a, b) \<noteq> None" for a b
  proof -
    obtain i j k l where "i \<in> set ?h" "j \<in> set ?w" "k \<in> set ?k" "l \<in> set ?k" "(a, b) = ?p i j k l"
      using bigger_covers [OF some t] .
    then show ?thesis by blast
  qed
  ultimately show ?thesis unfolding draw_xpm_x_times_bigger_def Let_def by (metis (no_types, lifting) restrict_all)
qed


subsection \<open>Texts\<close>

definition letter_picture ::
  "xpm_loader \<Rightarrow> int \<Rightarrow> u32 \<Rightarrow> char \<Rightarrow> int \<Rightarrow> int \<Rightarrow> picture" where
  "letter_picture xpm_load t color c x y =
     (if tolower c = CHR '' '' then Map.empty
      else (let img = xpm_load (get_xpm (tolower c)) in
            image_picture img (the (img_map img)) (tint_text color) t x y))"

fun text_picture ::
  "xpm_loader \<Rightarrow> int \<Rightarrow> int \<Rightarrow> u32 \<Rightarrow> string \<Rightarrow> int \<Rightarrow> int \<Rightarrow> picture" where
  "text_picture xpm_load t step color [] x y = Map.empty"
| "text_picture xpm_load t step color (c # str) x y =
     letter_picture xpm_load t color c x y ++ text_picture xpm_load t step color str (x + step) y"

text \<open>The font has an image for the char, or it is a blank.\<close>

definition printable :: "char \<Rightarrow> bool" where
  "printable c \<longleftrightarrow> tolower c = CHR '' '' \<or> get_xpm (tolower c) \<noteq> None"

text \<open>The images of the font are at most 16 by 16.\<close>

definition font_ok :: "xpm_loader \<Rightarrow> bool" where
  "font_ok xpm_load \<longleftrightarrow> (\<forall>g \<in> ran get_xpm. \<exists>px. image_ok (xpm_load (Some g)) px \<and>
     uint (img_w (xpm_load (Some g))) \<le> 16 \<and> uint (img_h (xpm_load (Some g))) \<le> 16)"

lemma font_glyph:
  assumes "font_ok xpm_load" and "printable c" and "tolower c \<noteq> CHR '' ''"
  shows "image_ok (xpm_load (get_xpm (tolower c))) (the (img_map (xpm_load (get_xpm (tolower c)))))"
    and "uint (img_w (xpm_load (get_xpm (tolower c)))) \<le> 16"
    and "uint (img_h (xpm_load (get_xpm (tolower c)))) \<le> 16"
proof -
  obtain g where g: "get_xpm (tolower c) = Some g" using assms(2,3) by (auto simp: printable_def)
  then have "g \<in> ran get_xpm" by (auto simp: ran_def)
  with assms(1) obtain px where "image_ok (xpm_load (Some g)) px"
    "uint (img_w (xpm_load (Some g))) \<le> 16" "uint (img_h (xpm_load (Some g))) \<le> 16"
    unfolding font_ok_def by blast
  then show "image_ok (xpm_load (get_xpm (tolower c))) (the (img_map (xpm_load (get_xpm (tolower c)))))"
    and "uint (img_w (xpm_load (get_xpm (tolower c)))) \<le> 16"
    and "uint (img_h (xpm_load (get_xpm (tolower c)))) \<le> 16"
    unfolding g by (simp_all add: image_ok_def)
qed

lemma letter_draws:
  assumes "frame_ok mi buf" and font: "font_ok xpm_load" "printable c" and "0 < uint t"
    and "uint x + 16 * uint t \<le> 65536" and "uint y + 16 * uint t \<le> 65536"
  shows "\<exists>buf'. (if tolower c = CHR '' '' then Some buf
      else draw_xpm_x_times_bigger xpm_load mi (get_xpm (tolower c)) x y t color buf) = Some buf' \<and>
    drawn mi (letter_picture xpm_load (uint t) color c (uint x) (uint y)) buf buf'"
proof (cases "tolower c = CHR '' ''")
  case True
  then show ?thesis using drawn_refl [OF assms(1)] by (simp add: letter_picture_def)
next
  case False
  note glyph = font_glyph [OF font False]
  have "uint (img_w (xpm_load (get_xpm (tolower c)))) * uint t \<le> 16 * uint t"
    "uint (img_h (xpm_load (get_xpm (tolower c)))) * uint t \<le> 16 * uint t"
    using glyph(2,3) by (simp_all add: mult_right_mono)
  then have "uint x + uint (img_w (xpm_load (get_xpm (tolower c)))) * uint t \<le> 65536"
    "uint y + uint (img_h (xpm_load (get_xpm (tolower c)))) * uint t \<le> 65536"
    using assms(5,6) by linarith+
  from bigger_picture [where xpm_load = xpm_load and xpm = "get_xpm (tolower c)", OF assms(1) glyph(1) assms(4) this]
  show ?thesis
    using False by (simp add: letter_picture_def Let_def)
qed

lemma uint_plus: "uint (a :: u16) + uint b < 65536 \<Longrightarrow> uint (a + b) = uint a + uint b"
  using uint_add_lem [of a b] by simp

lemma text_draws:
  assumes "frame_ok mi buf" and "font_ok xpm_load" and "\<forall>c \<in> set str. printable c"
    and "uint x + 30 * int (length str) + 2 \<le> 65536" and "uint y + 32 \<le> 65536"
  shows "\<exists>buf'. draw_text xpm_load mi str x y color buf = Some buf' \<and>
    drawn mi (text_picture xpm_load 2 30 color str (uint x) (uint y)) buf buf'"
  using assms(1,3,4)
proof (induction str arbitrary: x buf)
  case Nil
  then show ?case by (simp add: drawn_refl)
next
  case (Cons c str)
  have x: "uint x + 32 \<le> 65536" using Cons.prems(3) by simp
  have nums: "uint (2 :: u16) = 2" by simp

  obtain buf1 where buf1: "(if tolower c = CHR '' '' then Some buf
      else draw_xpm_x_times_bigger xpm_load mi (get_xpm (tolower c)) x y 2 color buf) = Some buf1"
    "drawn mi (letter_picture xpm_load 2 color c (uint x) (uint y)) buf buf1"
    using letter_draws [OF Cons.prems(1) assms(2), of c 2 x y color] Cons.prems(2) x assms(5)
    unfolding nums by auto
  have "uint (x + 10) = uint x + 10" using uint_plus [of x 10] x by simp
  then have x': "uint (x + 10 + 20) = uint x + 30" using uint_plus [of "x + 10" 20] x by simp
  obtain buf2 where buf2: "draw_text xpm_load mi str (x + 10 + 20) y color buf1 = Some buf2"
    "drawn mi (text_picture xpm_load 2 30 color str (uint x + 30) (uint y)) buf1 buf2"
    using Cons.IH [OF drawn_ok [OF buf1(2)], of "x + 10 + 20"] Cons.prems(2,3) unfolding x' by auto
  have "draw_text xpm_load mi (c # str) x y color buf = Some buf2"
    using buf1(1) buf2(1) by (simp add: Let_def)
  with drawn_trans [OF buf1(2) buf2(2)] show ?case by auto
qed

lemma title_draws:
  assumes "frame_ok mi buf" and "font_ok xpm_load" and "\<forall>c \<in> set str. printable c"
    and "uint x + 60 * int (length str) + 4 \<le> 65536" and "uint y + 64 \<le> 65536"
  shows "\<exists>buf'. draw_title xpm_load mi str x y buf = Some buf' \<and>
    drawn mi (text_picture xpm_load 4 60 0xFFFFFFFF str (uint x) (uint y)) buf buf'"
  using assms(1,3,4)
proof (induction str arbitrary: x buf)
  case Nil
  then show ?case by (simp add: drawn_refl)
next
  case (Cons c str)
  have x: "uint x + 64 \<le> 65536" using Cons.prems(3) by simp
  have nums: "uint (4 :: u16) = 4" by simp

  obtain buf1 where buf1: "(if tolower c = CHR '' '' then Some buf
      else draw_xpm_x_times_bigger xpm_load mi (get_xpm (tolower c)) x y 4 0xFFFFFFFF buf) = Some buf1"
    "drawn mi (letter_picture xpm_load 4 0xFFFFFFFF c (uint x) (uint y)) buf buf1"
    using letter_draws [OF Cons.prems(1) assms(2), of c 4 x y "0xFFFFFFFF"] Cons.prems(2) x assms(5)
    unfolding nums by auto
  have "uint (x + 20) = uint x + 20" using uint_plus [of x 20] x by simp
  then have x': "uint (x + 20 + 40) = uint x + 60" using uint_plus [of "x + 20" 40] x by simp
  obtain buf2 where buf2: "draw_title xpm_load mi str (x + 20 + 40) y buf1 = Some buf2"
    "drawn mi (text_picture xpm_load 4 60 0xFFFFFFFF str (uint x + 60) (uint y)) buf1 buf2"
    using Cons.IH [OF drawn_ok [OF buf1(2)], of "x + 20 + 40"] Cons.prems(2,3) unfolding x' by auto
  have "draw_title xpm_load mi (c # str) x y buf = Some buf2"
    using buf1(1) buf2(1) by (simp add: Let_def)
  with drawn_trans [OF buf1(2) buf2(2)] show ?case by auto
qed

lemma text_picture_left: "0 < step \<Longrightarrow> a < x \<Longrightarrow> text_picture xpm_load t step color str x y (a, b) = None"
  by (induction str arbitrary: x)
    (auto simp: map_add_None letter_picture_def image_picture_def Let_def)

text \<open>A letter shows where the next letter does not begin.\<close>

lemma text_picture_letter:
  assumes "n < length str" and "0 < step" and "a < x + step * int (n + 1)"
    and "letter_picture xpm_load t color (str ! n) (x + step * int n) y (a, b) = Some v"
  shows "text_picture xpm_load t step color str x y (a, b) = Some v"
  using assms(1,3,4)
proof (induction str arbitrary: n x)
  case Nil
  then show ?case by simp
next
  case (Cons c str)
  show ?case
  proof (cases n)
    case 0
    then have "text_picture xpm_load t step color str (x + step) y (a, b) = None"
      using Cons.prems(2) assms(2) by (intro text_picture_left) simp_all
    then show ?thesis using Cons.prems(3) 0 by (simp add: map_add_def)
  next
    case (Suc m)
    have "text_picture xpm_load t step color str (x + step) y (a, b) = Some v"
      using Cons.prems Suc by (intro Cons.IH [of m "x + step"]) (simp_all add: algebra_simps)
    then show ?thesis by (simp add: map_add_def)
  qed
qed

subsection \<open>Rotated sprites\<close>

lemma widen_min_max:
  "widen c s (u, v) (min_x, max_x, min_y, max_y) =
     (min min_x (u * c - v * s), max max_x (u * c - v * s),
      min min_y (u * s + v * c), max max_y (u * s + v * c))"
  by (simp add: widen_def Let_def min_def max_def)

lemma four_corners:
  assumes "\<bar>a\<bar> + \<bar>b\<bar> \<le> (m :: real)"
  shows "max (max (max (max (- m) (- a + b)) (a + b)) (a - b)) (- a - b) = \<bar>a\<bar> + \<bar>b\<bar>"
    and "min (min (min (min m (- a + b)) (a + b)) (a - b)) (- a - b) = - (\<bar>a\<bar> + \<bar>b\<bar>)"
  using assms by (cases "a < 0"; cases "b < 0"; simp add: max_def min_def)+

lemma rotated_bounds:
  assumes "0 \<le> w" "w \<le> 1000000" "0 \<le> h" "h \<le> 1000000"
  shows "calculate_rotated_bounds w h theta =
    (w * \<bar>cos theta\<bar> + h * \<bar>sin theta\<bar>, w * \<bar>sin theta\<bar> + h * \<bar>cos theta\<bar>)"
proof -
  let ?c = "cos theta" and ?s = "sin theta"
  define a b d e where def: "a = w / 2 * ?c" "b = h / 2 * ?s" "d = w / 2 * ?s" "e = - (h / 2 * ?c)"
  have le: "w / 2 * \<bar>u\<bar> + h / 2 * \<bar>v\<bar> \<le> 1000000000" if "\<bar>u\<bar> \<le> 1" "\<bar>v\<bar> \<le> 1" for u v :: real
  proof -
    have "w / 2 * \<bar>u\<bar> \<le> 500000 * 1" "h / 2 * \<bar>v\<bar> \<le> 500000 * 1"
      using that assms by (intro mult_mono; simp)+
    then show ?thesis by simp
  qed
  have abs: "\<bar>a\<bar> = w / 2 * \<bar>?c\<bar>" "\<bar>b\<bar> = h / 2 * \<bar>?s\<bar>" "\<bar>d\<bar> = w / 2 * \<bar>?s\<bar>" "\<bar>e\<bar> = h / 2 * \<bar>?c\<bar>"
    using assms by (simp_all add: def abs_mult)
  have x: "\<bar>a\<bar> + \<bar>b\<bar> \<le> 1000000000" and y: "\<bar>d\<bar> + \<bar>e\<bar> \<le> 1000000000"
    unfolding abs by (rule le; simp)+
  have corner: "- w / 2 * ?c - - h / 2 * ?s = - a + b" "w / 2 * ?c - - h / 2 * ?s = a + b"
    "w / 2 * ?c - h / 2 * ?s = a - b" "- w / 2 * ?c - h / 2 * ?s = - a - b"
    "- w / 2 * ?s + - h / 2 * ?c = - d + e" "w / 2 * ?s + - h / 2 * ?c = d + e"
    "w / 2 * ?s + h / 2 * ?c = d - e" "- w / 2 * ?s + h / 2 * ?c = - d - e"
    by (simp_all add: def)
  have "calculate_rotated_bounds w h theta = (2 * (\<bar>a\<bar> + \<bar>b\<bar>), 2 * (\<bar>d\<bar> + \<bar>e\<bar>))"
    unfolding calculate_rotated_bounds_def corners_def fold_simps id_apply comp_apply widen_min_max corner
      four_corners [OF x] four_corners [OF y] prod.case by simp
  then show ?thesis unfolding abs by simp
qed

text \<open>The colored pixels of the player's images lie less than 26 pixels from the centre.\<close>

definition hero_image :: "xpm_image \<Rightarrow> bool" where
  "hero_image img \<longleftrightarrow> img_w img = 40 \<and> img_h img = 40 \<and>
     (\<exists>px. image_ok img px \<and> (\<forall>i \<in> {0..<40}. \<forall>j \<in> {0..<40}. px ! nat (i * 40 + j) \<noteq> 0x00ff00 \<longrightarrow>
        max ((j - 20)\<^sup>2) ((j - 19)\<^sup>2) + max ((i - 20)\<^sup>2) ((i - 19)\<^sup>2) < (676 :: int)))"

definition near :: "int \<Rightarrow> int \<Rightarrow> (int \<times> int) set" where
  "near x y = {x - 26..x + 26} \<times> {y - 26..y + 26}"

definition changed_within :: "vbe_mode_info \<Rightarrow> (int \<times> int) set \<Rightarrow> u8 list \<Rightarrow> u8 list \<Rightarrow> bool" where
  "changed_within mi S buf buf' \<longleftrightarrow> frame_ok mi buf' \<and>
     (\<forall>a b. on_screen mi a b \<longrightarrow> (a, b) \<notin> S \<longrightarrow> pixel mi buf' a b = pixel mi buf a b)"

lemma changed_within_trans:
  "changed_within mi S buf buf1 \<Longrightarrow> changed_within mi S buf1 buf2 \<Longrightarrow> changed_within mi S buf buf2"
  by (simp add: changed_within_def)

lemma changed_within_refl: "frame_ok mi buf \<Longrightarrow> changed_within mi S buf buf"
  by (simp add: changed_within_def)

lemma changed_within_ok: "changed_within mi S buf buf' \<Longrightarrow> frame_ok mi buf'"
  by (simp add: changed_within_def)

lemma drawn_within: "drawn mi F buf buf' \<Longrightarrow> dom F \<subseteq> S \<Longrightarrow> changed_within mi S buf buf'"
  unfolding drawn_def changed_within_def by (auto split: option.splits)

lemma for_each_within:
  assumes "\<And>x buf. x \<in> set xs \<Longrightarrow> frame_ok mi buf \<Longrightarrow>
      \<exists>buf'. f x buf = Some buf' \<and> changed_within mi S buf buf'"
    and "frame_ok mi buf"
  shows "\<exists>buf'. for_each f xs buf = Some buf' \<and> changed_within mi S buf buf'"
  using assms
proof (induction xs arbitrary: buf)
  case Nil
  then show ?case by (simp add: changed_within_refl)
next
  case (Cons x xs)
  obtain buf1 where buf1: "f x buf = Some buf1" "changed_within mi S buf buf1"
    using Cons.prems by (metis list.set_intros(1))
  obtain buf2 where "for_each f xs buf1 = Some buf2" "changed_within mi S buf1 buf2"
    using Cons.IH [OF _ changed_within_ok [OF buf1(2)]] Cons.prems(1) by (meson list.set_intros(2))
  with buf1 changed_within_trans [OF buf1(2)] show ?case by auto
qed

text \<open>A point of the source and where it is drawn are equally far from their centres.\<close>

lemma rotation_keeps_distance:
  "(cos t * u - sin t * v)\<^sup>2 + (sin t * u + cos t * v)\<^sup>2 = u\<^sup>2 + (v :: real)\<^sup>2"
proof -
  have "(c * u - s * v)\<^sup>2 + (s * u + c * v)\<^sup>2 = (s\<^sup>2 + c\<^sup>2) * (u\<^sup>2 + v\<^sup>2)" for c s
    by (simp add: power2_eq_square algebra_simps)
  from this [of "cos t" "sin t"] show ?thesis by simp
qed

lemma trunc_40: "0 \<le> r \<Longrightarrow> r < 40 \<Longrightarrow> trunc r \<in> {0..<40}"
  by (auto simp: trunc_def floor_less_iff)

lemma square_in_unit:
  assumes "of_int n \<le> r" and "r < of_int n + (1 :: real)"
  shows "(r - 20)\<^sup>2 \<le> of_int (max ((n - 20)\<^sup>2) ((n - 19)\<^sup>2))"
proof (cases "20 \<le> r")
  case True
  then have "(r - 20)\<^sup>2 \<le> (of_int (n - 19))\<^sup>2" using assms by (intro power_mono) auto
  then show ?thesis by (simp add: of_int_max le_max_iff_disj)
next
  case False
  then have "(20 - r)\<^sup>2 \<le> (of_int (20 - n))\<^sup>2" using assms by (intro power_mono) auto
  then show ?thesis by (simp add: of_int_max le_max_iff_disj power2_commute)
qed

lemma hero_point:
  assumes "image_ok img px" and "img_w img = 40" and "img_h img = 40"
    and col: "\<forall>i \<in> {0..<40}. \<forall>j \<in> {0..<40}. px ! nat (i * 40 + j) \<noteq> 0x00ff00 \<longrightarrow>
        max ((j - 20)\<^sup>2) ((j - 19)\<^sup>2) + max ((i - 20)\<^sup>2) ((i - 19)\<^sup>2) < (676 :: int)"
    and "0 \<le> cos t * u - sin t * v + 20" "cos t * u - sin t * v + 20 < (40 :: real)"
    and "0 \<le> sin t * u + cos t * v + 20" "sin t * u + cos t * v + 20 < 40"
    and "px ! nat (trunc (sin t * u + cos t * v + 20) * 40 + trunc (cos t * u - sin t * v + 20)) \<noteq> 0x00ff00"
  shows "\<bar>u\<bar> < 26" and "\<bar>v\<bar> < 26"
proof -
  let ?x = "cos t * u - sin t * v + 20" and ?y = "sin t * u + cos t * v + 20"
  have tr: "trunc ?x = \<lfloor>?x\<rfloor>" "trunc ?y = \<lfloor>?y\<rfloor>" using assms(5,7) by (simp_all add: trunc_def)
  have in40: "trunc ?x \<in> {0..<40}" "trunc ?y \<in> {0..<40}"
    by (rule trunc_40 [OF assms(5,6)], rule trunc_40 [OF assms(7,8)])
  have "(?x - 20)\<^sup>2 \<le> of_int (max ((trunc ?x - 20)\<^sup>2) ((trunc ?x - 19)\<^sup>2))"
    "(?y - 20)\<^sup>2 \<le> of_int (max ((trunc ?y - 20)\<^sup>2) ((trunc ?y - 19)\<^sup>2))"
    unfolding tr by (rule square_in_unit; linarith)+
  moreover have "max ((trunc ?x - 20)\<^sup>2) ((trunc ?x - 19)\<^sup>2) + max ((trunc ?y - 20)\<^sup>2) ((trunc ?y - 19)\<^sup>2) < 676"
    using col in40 assms(9) by blast
  then have "(of_int (max ((trunc ?x - 20)\<^sup>2) ((trunc ?x - 19)\<^sup>2)) :: real)
      + of_int (max ((trunc ?y - 20)\<^sup>2) ((trunc ?y - 19)\<^sup>2)) < 676" by linarith
  ultimately have "(?x - 20)\<^sup>2 + (?y - 20)\<^sup>2 < 676" by linarith
  then have "u\<^sup>2 + v\<^sup>2 < 26\<^sup>2" using rotation_keeps_distance [of t u v] by simp
  then have "u\<^sup>2 < 26\<^sup>2" "v\<^sup>2 < 26\<^sup>2" using zero_le_power2 [of u] zero_le_power2 [of v] by linarith+
  then have "sqrt (u\<^sup>2) < sqrt (26\<^sup>2)" "sqrt (v\<^sup>2) < sqrt (26\<^sup>2)" by (simp_all only: real_sqrt_less_iff)
  then show "\<bar>u\<bar> < 26" "\<bar>v\<bar> < 26" by simp_all
qed

lemma u16_near:
  assumes "25 \<le> n" "n \<le> 65500" and "\<bar>u\<bar> < 26"
  shows "\<exists>w. u16_of_double (of_int n + u) = Some w \<and> uint w \<in> {n - 26..n + 26}"
proof -
  let ?k = "trunc (of_int n + u)"
  have k: "0 \<le> ?k" "?k < 65536" "?k \<in> {n - 26..n + 26}"
    using assms unfolding trunc_def by (cases "0 \<le> of_int n + u"; simp; linarith)+
  moreover have "uint (word_of_int ?k :: u16) = ?k"
    using k(1,2) by (simp only: uint_word_of_int) simp
  ultimately show ?thesis by (simp add: u16_of_double_def)
qed

lemma pixel_near:
  assumes "frame_ok mi buf" and "25 \<le> uint x" "uint x \<le> 65500" "25 \<le> uint y" "uint y \<le> 65500"
    and "\<bar>u\<bar> < 26" "\<bar>v\<bar> < 26"
  shows "\<exists>buf'. do {
      a \<leftarrow> u16_of_double (of_int (uint x) + u);
      b \<leftarrow> u16_of_double (of_int (uint y) + v);
      map_option snd (vg_draw_pixel mi a b c buf) } = Some buf' \<and> changed_within mi (near (uint x) (uint y)) buf buf'"
proof -
  obtain a b where ab: "u16_of_double (of_int (uint x) + u) = Some a" "uint a \<in> {uint x - 26..uint x + 26}"
    "u16_of_double (of_int (uint y) + v) = Some b" "uint b \<in> {uint y - 26..uint y + 26}"
    using u16_near [OF assms(2,3,6)] u16_near [OF assms(4,5,7)] by blast
  have w: "uint a < 65536" "uint b < 65536" using uint_lt2p [of a] uint_lt2p [of b] by simp_all
  obtain buf' where buf': "put_pixel mi (uint a) (uint b) c buf = Some buf'" "drawn mi [(uint a, uint b) \<mapsto> c] buf buf'"
    using put_pixel_draws [OF assms(1) uint_ge_0 w(1) uint_ge_0 w(2)] by blast
  have "(uint a, uint b) \<in> near (uint x) (uint y)" using ab(2,4) by (simp add: near_def)
  then have "changed_within mi (near (uint x) (uint y)) buf buf'" using drawn_within [OF buf'(2)] by simp
  then show ?thesis using ab(1,3) buf'(1) by (intro exI [of _ buf']) (auto simp: put_pixel_def)
qed

lemma rotated_pixel_near:
  assumes "frame_ok mi buf" and "hero_image img"
    and "25 \<le> uint x" "uint x \<le> 65500" "25 \<le> uint y" "uint y \<le> 65500"
  shows "\<exists>buf'. rotated_pixel mi img x y theta rw rh i j buf = Some buf' \<and>
    changed_within mi (near (uint x) (uint y)) buf buf'"
proof -
  obtain px where img: "img_w img = 40" "img_h img = 40" "image_ok img px"
    and col: "\<forall>i \<in> {0..<40}. \<forall>j \<in> {0..<40}. px ! nat (i * 40 + j) \<noteq> 0x00ff00 \<longrightarrow>
        max ((j - 20)\<^sup>2) ((j - 19)\<^sup>2) + max ((i - 20)\<^sup>2) ((i - 19)\<^sup>2) < (676 :: int)"
    using assms(2) unfolding hero_image_def by blast
  define u where "u = of_int j - rw / 2"
  define v where "v = of_int i - rh / 2"
  let ?x = "cos theta * u - sin theta * v + 20" and ?y = "sin theta * u + cos theta * v + 20"
  have f: "uint (40 :: u16) = 40" by simp
  show ?thesis
  proof (cases "0 \<le> ?x \<and> ?x < 40 \<and> 0 \<le> ?y \<and> ?y < 40")
    case False
    then have "rotated_pixel mi img x y theta rw rh i j buf = Some buf"
      by (auto simp: rotated_pixel_def img u_def [symmetric] v_def [symmetric] Let_def)
    with changed_within_refl [OF assms(1)] show ?thesis by blast
  next
    case True
    have in40: "0 \<le> trunc ?x" "trunc ?x < 40" "0 \<le> trunc ?y" "trunc ?y < 40"
      using trunc_40 [of ?x] trunc_40 [of ?y] True by auto
    have color: "map_at img (trunc ?y) (trunc ?x) = Some (px ! nat (trunc ?y * 40 + trunc ?x))"
      using map_at_ok [OF img(3), of "trunc ?y" "trunc ?x"] in40 unfolding img f by simp
    have ints: "int_of_double ?x = Some (trunc ?x)" "int_of_double ?y = Some (trunc ?y)"
      using True by (auto intro!: int_of_double_small)
    have step: "rotated_pixel mi img x y theta rw rh i j buf =
      (if px ! nat (trunc ?y * 40 + trunc ?x) \<noteq> 0x00ff00 then do {
          a \<leftarrow> u16_of_double (of_int (uint x + j) - rw / 2);
          b \<leftarrow> u16_of_double (of_int (uint y + i) - rh / 2);
          map_option snd (vg_draw_pixel mi a b (px ! nat (trunc ?y * 40 + trunc ?x)) buf)
        } else Some buf)"
      using True ints color
      by (simp add: rotated_pixel_def img u_def [symmetric] v_def [symmetric] Let_def)
    show ?thesis
    proof (cases "px ! nat (trunc ?y * 40 + trunc ?x) = 0x00ff00")
      case True
      then show ?thesis unfolding step using changed_within_refl [OF assms(1)] by simp
    next
      case colored: False
      have "\<bar>u\<bar> < 26" "\<bar>v\<bar> < 26"
        using hero_point [OF img(3,1,2) col, of theta u v] True colored by auto
      from pixel_near [OF assms(1,3-6) this] show ?thesis
        using colored unfolding step by (simp add: u_def v_def add_diff_eq)
    qed
  qed
qed

lemma hero_bounds:
  assumes "img_w img = 40" "img_h img = 40"
  obtains rw rh m n where "calculate_rotated_bounds (of_int (uint (img_w img))) (of_int (uint (img_h img))) theta = (rw, rh)"
    and "int_of_double rw = Some m" and "int_of_double rh = Some n"
proof -
  let ?r = "40 * \<bar>cos theta\<bar> + 40 * \<bar>sin theta\<bar>" and ?q = "40 * \<bar>sin theta\<bar> + 40 * \<bar>cos theta\<bar>"
  have "calculate_rotated_bounds (of_int (uint (img_w img))) (of_int (uint (img_h img))) theta = (?r, ?q)"
    using rotated_bounds [of 40 40 theta] assms by simp
  moreover have "\<bar>?r\<bar> \<le> 100000000" "\<bar>?q\<bar> \<le> 100000000"
    using abs_cos_le_one [of theta] abs_sin_le_one [of theta] unfolding abs_le_iff by linarith+
  ultimately show thesis using int_of_double_small that by blast
qed

text \<open>
  The picture of the player's image turned by theta about the player at (x, y). A pixel (a, b) of the
  screen shows one place (j, i) of the box around the turned image, whose side is hero_span long;
  turned back about the centre of that box, it lies in one pixel of the image.
\<close>

definition hero_span :: "real \<Rightarrow> real" where
  "hero_span theta = 40 * (\<bar>cos theta\<bar> + \<bar>sin theta\<bar>)"

definition box_place :: "real \<Rightarrow> int \<Rightarrow> int \<Rightarrow> int" where
  "box_place theta x a = \<lceil>of_int (a - x) + hero_span theta / 2\<rceil>"

definition source_x :: "real \<Rightarrow> int \<Rightarrow> int \<Rightarrow> real" where
  "source_x theta i j = cos theta * (of_int j - hero_span theta / 2) - sin theta * (of_int i - hero_span theta / 2) + 20"

definition source_y :: "real \<Rightarrow> int \<Rightarrow> int \<Rightarrow> real" where
  "source_y theta i j = sin theta * (of_int j - hero_span theta / 2) + cos theta * (of_int i - hero_span theta / 2) + 20"

text \<open>What the image shows at place (j, i) of the box: nothing outside the image or where it is clear.\<close>

definition box_color :: "u32 list \<Rightarrow> real \<Rightarrow> int \<Rightarrow> int \<Rightarrow> u32 option" where
  "box_color px theta i j =
     (let sx = source_x theta i j; sy = source_y theta i j;
          color = px ! nat (\<lfloor>sy\<rfloor> * 40 + \<lfloor>sx\<rfloor>) in
      if 0 \<le> sx \<and> sx < 40 \<and> 0 \<le> sy \<and> sy < 40 \<and> color \<noteq> 0x00ff00 then Some color else None)"

definition turned_picture :: "u32 list \<Rightarrow> real \<Rightarrow> int \<Rightarrow> int \<Rightarrow> picture" where
  "turned_picture px theta x y = (\<lambda>(a, b).
     let j = box_place theta x a; i = box_place theta y b in
     if 0 \<le> j \<and> j < \<lfloor>hero_span theta\<rfloor> \<and> 0 \<le> i \<and> i < \<lfloor>hero_span theta\<rfloor>
     then box_color px theta i j else None)"

lemma box_place_iff:
  "box_place theta x a = j \<longleftrightarrow> a = \<lfloor>of_int (x + j) - hero_span theta / 2\<rfloor>"
  unfolding box_place_def ceiling_eq_iff eq_commute [of a] floor_eq_iff by auto

lemma hero_span_bounds: "0 \<le> hero_span theta" "hero_span theta \<le> 80"
proof -
  have "40 * \<bar>cos theta\<bar> + 40 * \<bar>sin theta\<bar> \<le> 80"
    using abs_cos_le_one [of theta] abs_sin_le_one [of theta] by linarith
  then show "hero_span theta \<le> 80" by (simp add: hero_span_def)
qed (simp add: hero_span_def)

text \<open>One turn of the loops draws one place of the box.\<close>

lemma rotated_pixel_draws:
  assumes frame: "frame_ok mi buf" and img: "img_w img = 40" "img_h img = 40" "image_ok img px"
    and col: "\<forall>i \<in> {0..<40}. \<forall>j \<in> {0..<40}. px ! nat (i * 40 + j) \<noteq> 0x00ff00 \<longrightarrow>
        max ((j - 20)\<^sup>2) ((j - 19)\<^sup>2) + max ((i - 20)\<^sup>2) ((i - 19)\<^sup>2) < (676 :: int)"
    and x: "26 \<le> uint x" "uint x \<le> 65500" and y: "26 \<le> uint y" "uint y \<le> 65500"
    and i: "0 \<le> i" "i < \<lfloor>hero_span theta\<rfloor>" and j: "0 \<le> j" "j < \<lfloor>hero_span theta\<rfloor>"
  shows "\<exists>buf'. rotated_pixel mi img x y theta (hero_span theta) (hero_span theta) i j buf = Some buf' \<and>
    drawn mi (turned_picture px theta (uint x) (uint y) |`
      {(\<lfloor>of_int (uint x + j) - hero_span theta / 2\<rfloor>, \<lfloor>of_int (uint y + i) - hero_span theta / 2\<rfloor>)}) buf buf'"
proof -
  let ?r = "hero_span theta" and ?sx = "source_x theta i j" and ?sy = "source_y theta i j"
  let ?a = "\<lfloor>of_int (uint x + j) - ?r / 2\<rfloor>" and ?b = "\<lfloor>of_int (uint y + i) - ?r / 2\<rfloor>"
  let ?c = "px ! nat (\<lfloor>?sy\<rfloor> * 40 + \<lfloor>?sx\<rfloor>)"
  have place: "box_place theta (uint x) ?a = j" "box_place theta (uint y) ?b = i"
    by (simp_all add: box_place_iff)
  then have pic: "turned_picture px theta (uint x) (uint y) (?a, ?b) = box_color px theta i j"
    using i j by (simp add: turned_picture_def)
  have f: "uint (40 :: u16) = 40" by simp
  show ?thesis
  proof (cases "0 \<le> ?sx \<and> ?sx < 40 \<and> 0 \<le> ?sy \<and> ?sy < 40")
    case False
    then have "rotated_pixel mi img x y theta ?r ?r i j buf = Some buf"
      by (auto simp: rotated_pixel_def img source_x_def source_y_def Let_def)
    moreover have "box_color px theta i j = None" using False by (auto simp: box_color_def Let_def)
    ultimately show ?thesis using drawn_refl [OF frame] pic by (simp add: restrict_single)
  next
    case True
    have tr: "trunc ?sx = \<lfloor>?sx\<rfloor>" "trunc ?sy = \<lfloor>?sy\<rfloor>" using True by (simp_all add: trunc_def)
    have in40: "0 \<le> \<lfloor>?sx\<rfloor>" "\<lfloor>?sx\<rfloor> < 40" "0 \<le> \<lfloor>?sy\<rfloor>" "\<lfloor>?sy\<rfloor> < 40"
      using trunc_40 [of ?sx] trunc_40 [of ?sy] True unfolding tr by auto
    have color: "map_at img \<lfloor>?sy\<rfloor> \<lfloor>?sx\<rfloor> = Some ?c"
      using map_at_ok [OF img(3), of "\<lfloor>?sy\<rfloor>" "\<lfloor>?sx\<rfloor>"] in40 unfolding img f by simp
    have ints: "int_of_double ?sx = Some \<lfloor>?sx\<rfloor>" "int_of_double ?sy = Some \<lfloor>?sy\<rfloor>"
      using int_of_double_small [of ?sx] int_of_double_small [of ?sy] True tr by auto
    have step: "rotated_pixel mi img x y theta ?r ?r i j buf =
      (if ?c \<noteq> 0x00ff00 then do {
          a \<leftarrow> u16_of_double (of_int (uint x + j) - ?r / 2);
          b \<leftarrow> u16_of_double (of_int (uint y + i) - ?r / 2);
          map_option snd (vg_draw_pixel mi a b ?c buf)
        } else Some buf)"
      using True ints color
      by (simp add: rotated_pixel_def img source_x_def source_y_def Let_def)
    show ?thesis
    proof (cases "?c = 0x00ff00")
      case clear: True
      then have "box_color px theta i j = None" by (simp add: box_color_def Let_def)
      then show ?thesis unfolding step using clear drawn_refl [OF frame] pic by (simp add: restrict_single)
    next
      case False
      have near: "\<bar>of_int j - ?r / 2\<bar> < 26" "\<bar>of_int i - ?r / 2\<bar> < 26"
        using hero_point [OF img(3,1,2) col, of theta "of_int j - ?r / 2" "of_int i - ?r / 2"] True False
        unfolding source_x_def [symmetric] source_y_def [symmetric] tr by auto
      have within: "0 \<le> of_int (n + k) - ?r / 2 \<and> of_int (n + k) - ?r / 2 < 65526"
        if "26 \<le> n" "n \<le> 65500" "\<bar>of_int k - ?r / 2\<bar> < 26" for n k :: int
      proof -
        have "26 \<le> real_of_int n" "real_of_int n \<le> 65500" using that(1,2) by linarith+
        with that(3) show ?thesis unfolding of_int_add abs_less_iff by linarith
      qed
      have pos: "0 \<le> of_int (uint x + j) - ?r / 2" "0 \<le> of_int (uint y + i) - ?r / 2"
        "of_int (uint x + j) - ?r / 2 < 65526" "of_int (uint y + i) - ?r / 2 < 65526"
        using within [OF x near(1)] within [OF y near(2)] by simp_all
      then have t: "trunc (of_int (uint x + j) - ?r / 2) = ?a" "trunc (of_int (uint y + i) - ?r / 2) = ?b"
        by (simp_all add: trunc_def)
      have range: "0 \<le> ?a" "?a < 65536" "0 \<le> ?b" "?b < 65536"
        using pos by (simp_all add: floor_less_iff)
      obtain buf' where buf': "put_pixel mi ?a ?b ?c buf = Some buf'" "drawn mi [(?a, ?b) \<mapsto> ?c] buf buf'"
        using put_pixel_draws [OF frame range] by blast
      have "box_color px theta i j = Some ?c" using True False by (simp add: box_color_def Let_def)
      then have one: "turned_picture px theta (uint x) (uint y) |` {(?a, ?b)} = [(?a, ?b) \<mapsto> ?c]"
        using pic by (simp only: restrict_single option.case)
      have words: "u16_of_double (of_int (uint x + j) - ?r / 2) = Some (word_of_int ?a)"
        "u16_of_double (of_int (uint y + i) - ?r / 2) = Some (word_of_int ?b)"
        using range unfolding u16_of_double_def t by (simp_all only: if_True conj_absorb simp_thms)
      show ?thesis
        using buf' False unfolding step one words Option.bind.bind_lunit
        by (simp only: put_pixel_def if_True simp_thms) blast
    qed
  qed
qed

lemma text_picture_dom:
  assumes "font_ok xpm_load" and "\<forall>c \<in> set str. printable c"
  shows "dom (text_picture xpm_load 2 30 color str x y) \<subseteq>
    {x..<x + 30 * int (length str) + 2} \<times> {y..<y + 32}"
  using assms(2)
proof (induction str arbitrary: x)
  case Nil
  then show ?case by simp
next
  case (Cons c str)
  have "dom (letter_picture xpm_load 2 color c x y) \<subseteq> {x..<x + 32} \<times> {y..<y + 32}"
  proof (cases "tolower c = CHR '' ''")
    case True
    then show ?thesis by (simp add: letter_picture_def)
  next
    case False
    have "uint (img_w (xpm_load (get_xpm (tolower c)))) \<le> 16" "uint (img_h (xpm_load (get_xpm (tolower c)))) \<le> 16"
      using font_glyph [OF assms(1) _ False] Cons.prems by auto
    then show ?thesis by (auto simp: letter_picture_def image_picture_def Let_def False split: if_splits)
  qed
  moreover have "dom (text_picture xpm_load 2 30 color str (x + 30) y) \<subseteq>
      {x + 30..<x + 30 + 30 * int (length str) + 2} \<times> {y..<y + 32}"
    using Cons.prems by (intro Cons.IH) simp
  ultimately show ?case by fastforce
qed

lemma letter_picture_shift:
  "letter_picture xpm_load t color c x y (x + a, y + b) = letter_picture xpm_load t color c 0 0 (a, b)"
  by (simp add: letter_picture_def image_picture_def Let_def)

lemma hero_stays_near:
  assumes "hero_image (xpm_load xpm)" and "frame_ok mi buf"
    and "25 \<le> uint x" "uint x \<le> 65500" "25 \<le> uint y" "uint y \<le> 65500"
  shows "\<exists>buf'. draw_xpm_at_pos_at_delta xpm_load mi xpm x y theta buf = Some (0, buf') \<and>
    changed_within mi (near (uint x) (uint y)) buf buf'"
proof -
  let ?img = "xpm_load xpm"
  have img: "img_w ?img = 40" "img_h ?img = 40" "img_map ?img \<noteq> None"
    using assms(1) by (auto simp: hero_image_def image_ok_def)
  obtain rw rh m n where b: "calculate_rotated_bounds (of_int (uint (img_w ?img))) (of_int (uint (img_h ?img))) theta = (rw, rh)"
    "int_of_double rw = Some m" "int_of_double rh = Some n"
    using hero_bounds [OF img(1,2)] .
  have "\<exists>buf'. for_each (\<lambda>i. for_each (\<lambda>j. rotated_pixel mi ?img x y theta rw rh i j) [0..m - 1]) [0..n - 1] buf
      = Some buf' \<and> changed_within mi (near (uint x) (uint y)) buf buf'"
    using rotated_pixel_near [OF _ assms(1,3-6)] assms(2) by (intro for_each_within)
  then show ?thesis
    using img(3) unfolding draw_xpm_at_pos_at_delta_def Let_def b prod.case by auto
qed

text \<open>The loops draw the whole box: its places are where the turned picture may have a color.\<close>

lemma turned_picture_box:
  "turned_picture px theta x y |` (\<Union>i \<in> {0..\<lfloor>hero_span theta\<rfloor> - 1}. \<Union>j \<in> {0..\<lfloor>hero_span theta\<rfloor> - 1}.
     {(\<lfloor>of_int (x + j) - hero_span theta / 2\<rfloor>, \<lfloor>of_int (y + i) - hero_span theta / 2\<rfloor>)}) =
   turned_picture px theta x y"
proof (rule restrict_map_whole)
  show "turned_picture px theta x y p = None"
    if "p \<notin> (\<Union>i \<in> {0..\<lfloor>hero_span theta\<rfloor> - 1}. \<Union>j \<in> {0..\<lfloor>hero_span theta\<rfloor> - 1}.
     {(\<lfloor>of_int (x + j) - hero_span theta / 2\<rfloor>, \<lfloor>of_int (y + i) - hero_span theta / 2\<rfloor>)})" for p
  proof (cases p)
    case (Pair a b)
    have "a = \<lfloor>of_int (x + box_place theta x a) - hero_span theta / 2\<rfloor>"
      "b = \<lfloor>of_int (y + box_place theta y b) - hero_span theta / 2\<rfloor>"
      by (simp_all only: box_place_iff [symmetric])
    then show ?thesis using that unfolding Pair turned_picture_def Let_def prod.case by force
  qed
qed

lemma hero_draws:
  assumes "hero_image (xpm_load xpm)" and frame: "frame_ok mi buf" and px: "img_map (xpm_load xpm) = Some px"
    and range: "26 \<le> uint x" "uint x \<le> 65500" "26 \<le> uint y" "uint y \<le> 65500"
  shows "\<exists>buf'. draw_xpm_at_pos_at_delta xpm_load mi xpm x y theta buf = Some (0, buf') \<and>
    drawn mi (turned_picture px theta (uint x) (uint y)) buf buf'"
proof -
  let ?img = "xpm_load xpm" and ?r = "hero_span theta" and ?T = "turned_picture px theta (uint x) (uint y)"
  let ?at = "\<lambda>i j. {(\<lfloor>of_int (uint x + j) - ?r / 2\<rfloor>, \<lfloor>of_int (uint y + i) - ?r / 2\<rfloor>)}"
  have img: "img_w ?img = 40" "img_h ?img = 40" "image_ok ?img px"
    and col: "\<forall>i \<in> {0..<40}. \<forall>j \<in> {0..<40}. px ! nat (i * 40 + j) \<noteq> 0x00ff00 \<longrightarrow>
        max ((j - 20)\<^sup>2) ((j - 19)\<^sup>2) + max ((i - 20)\<^sup>2) ((i - 19)\<^sup>2) < (676 :: int)"
    using assms(1) px by (auto simp: hero_image_def image_ok_def)
  have f: "uint (40 :: u16) = 40" by simp
  have b: "calculate_rotated_bounds (of_int (uint (img_w ?img))) (of_int (uint (img_h ?img))) theta = (?r, ?r)"
    using rotated_bounds [of 40 40 theta] unfolding img f
    by (simp add: hero_span_def add.commute)
  have int: "int_of_double ?r = Some \<lfloor>?r\<rfloor>"
    using int_of_double_small [of ?r] hero_span_bounds [of theta] by (simp add: trunc_def)
  have row: "\<exists>buf'. for_each (\<lambda>j. rotated_pixel mi ?img x y theta ?r ?r i j) [0..\<lfloor>?r\<rfloor> - 1] buf = Some buf' \<and>
      drawn mi (?T |` (\<Union>j \<in> set [0..\<lfloor>?r\<rfloor> - 1]. ?at i j)) buf buf'"
    if "i \<in> set [0..\<lfloor>?r\<rfloor> - 1]" "frame_ok mi buf" for i buf
    by (rule for_each_draws [OF _ that(2)], rule rotated_pixel_draws [OF _ img col range]) (use that(1) in auto)
  have "\<exists>buf'. for_each (\<lambda>i. for_each (\<lambda>j. rotated_pixel mi ?img x y theta ?r ?r i j) [0..\<lfloor>?r\<rfloor> - 1]) [0..\<lfloor>?r\<rfloor> - 1] buf
      = Some buf' \<and> drawn mi (?T |` (\<Union>i \<in> set [0..\<lfloor>?r\<rfloor> - 1]. \<Union>j \<in> set [0..\<lfloor>?r\<rfloor> - 1]. ?at i j)) buf buf'"
    by (rule for_each_draws [OF row frame])
  then show ?thesis
    using px unfolding draw_xpm_at_pos_at_delta_def Let_def b prod.case set_upto turned_picture_box int by auto
qed

subsection \<open>Properties\<close>

text \<open>C30: a text whose chars are all in the font, at a place where the coordinates of its line stay below 65536 (x + 30 * length + 2 and
  y + 32 at most 65536, so that the 16-bit coordinates do not wrap), is drawn letter by letter, 30 pixels apart and each
  twice its size: every pixel of a letter, up to where the next letter begins, gets the color of the letter's image (changed by the
  text color), and nothing outside the line of text changes.\<close>

theorem draw_text_shows_letters:
  assumes "font_ok xpm_load" and "frame_ok mi buf" and "\<forall>c \<in> set str. printable c"
    and "uint x + 30 * int (length str) + 2 \<le> 65536" and "uint y + 32 \<le> 65536"
  shows "\<exists>buf'. draw_text xpm_load mi str x y color buf = Some buf' \<and>
    changed_within mi ({uint x..<uint x + 30 * int (length str) + 2} \<times> {uint y..<uint y + 32}) buf buf' \<and>
    (\<forall>n a b v. n < length str \<longrightarrow> a < 30 \<longrightarrow> on_screen mi (uint x + 30 * int n + a) (uint y + b) \<longrightarrow>
       letter_picture xpm_load 2 color (str ! n) 0 0 (a, b) = Some v \<longrightarrow>
       pixel mi buf' (uint x + 30 * int n + a) (uint y + b) = pixel_value mi v)"
proof -
  obtain buf' where run: "draw_text xpm_load mi str x y color buf = Some buf'"
    and drawn: "drawn mi (text_picture xpm_load 2 30 color str (uint x) (uint y)) buf buf'"
    using text_draws [OF assms(2,1,3-5)] by blast
  moreover have "dom (text_picture xpm_load 2 30 color str (uint x) (uint y)) \<subseteq>
      {uint x..<uint x + 30 * int (length str) + 2} \<times> {uint y..<uint y + 32}"
    by (rule text_picture_dom [OF assms(1,3)])
  moreover have "pixel mi buf' (uint x + 30 * int n + a) (uint y + b) = pixel_value mi v"
    if "n < length str" "a < 30" "on_screen mi (uint x + 30 * int n + a) (uint y + b)"
      "letter_picture xpm_load 2 color (str ! n) 0 0 (a, b) = Some v" for n a b v
  proof -
    have "letter_picture xpm_load 2 color (str ! n) (uint x + 30 * int n) (uint y)
        (uint x + 30 * int n + a, uint y + b) = Some v"
      using that(4) by (simp add: letter_picture_shift [of _ _ _ _ "uint x + 30 * int n" "uint y"])
    then have "text_picture xpm_load 2 30 color str (uint x) (uint y)
        (uint x + 30 * int n + a, uint y + b) = Some v"
      using that(1,2) by (intro text_picture_letter) simp_all
    then show ?thesis using drawn that(3) by (simp add: drawn_def)
  qed
  ultimately show ?thesis using drawn_within by blast
qed

definition block_font :: xpm_loader where
  "block_font g = \<lparr>img_w = 16, img_h = 16, img_map = Some (replicate 256 0xFF0000)\<rparr>"

lemma block_font_ok: "font_ok block_font"
  by (auto simp: font_ok_def block_font_def image_ok_def INT_MAX_def)

theorem draw_text_shows_letters_witness:
  "\<exists>buf'. draw_text block_font tiny_mode ''Hi'' 1 0 0x000007 (replicate 12 0) = Some buf' \<and>
     pixel tiny_mode buf' 2 1 = pixel_value tiny_mode 0x000007"
proof -
  have frame: "frame_ok tiny_mode (replicate 12 0)"
    by (simp add: frame_ok_def tiny_mode_def bytes_per_pixel_def INT_MAX_def)
  have on: "on_screen tiny_mode (uint (1 :: u16) + 30 * int 0 + 1) (uint (0 :: u16) + 1)"
    by (simp add: on_screen_def tiny_mode_def)
  have "\<forall>c \<in> set ''Hi''. printable c" by code_simp
  moreover have "tolower CHR ''H'' \<noteq> CHR '' ''" by code_simp
  then have "letter_picture block_font 2 0x000007 (''Hi'' ! 0) 0 0 (1, 1) = Some 0x000007"
    by (simp add: letter_picture_def image_picture_def block_font_def tint_text_def Let_def)
  ultimately show ?thesis
    using draw_text_shows_letters [OF block_font_ok frame, of "''Hi''" 1 0 "0x000007"] on
    by (auto dest!: spec [of _ "0 :: nat"] spec [of _ "1 :: int"])
qed


definition dot_image :: xpm_image where
  "dot_image = \<lparr>img_w = 40, img_h = 40, img_map = Some ((replicate 1600 0x00ff00)[820 := 5])\<rparr>"

lemma dot_image_ok: "hero_image dot_image"
proof -
  have px: "(replicate 1600 (0x00ff00 :: u32))[820 := 5] ! k = (if k = 820 then 5 else 0x00ff00)"
    if "k < 1600" for k
    using that by (simp add: nth_list_update)
  have "max ((j - 20)\<^sup>2) ((j - 19)\<^sup>2) + max ((i - 20)\<^sup>2) ((i - 19)\<^sup>2) < (676 :: int)"
    if "i \<in> {0..<40}" "j \<in> {0..<40}"
      "(replicate 1600 (0x00ff00 :: u32))[820 := 5] ! nat (i * 40 + j) \<noteq> 0x00ff00" for i j
  proof -
    have "nat (i * 40 + j) < 1600" using that(1,2) by auto
    then have "i * 40 + j = 820" using that px [of "nat (i * 40 + j)"] by (auto split: if_splits)
    moreover have "0 \<le> i" "i < 40" "0 \<le> j" "j < 40" using that(1,2) by auto
    ultimately have "i = 20 \<and> j = 20" by presburger
    then show ?thesis by simp
  qed
  then show ?thesis by (auto simp: hero_image_def image_ok_def dot_image_def INT_MAX_def)
qed

lemma dot_drawn:
  "turned_picture ((replicate 1600 0x00ff00)[820 := 5]) 0 26 26 (26, 26) = Some 5"
proof -
  have "\<lceil>20 :: real\<rceil> = 20" "\<lfloor>40 :: real\<rfloor> = 40" "\<lfloor>20 :: real\<rfloor> = 20" by simp_all
  then show ?thesis
    by (simp add: turned_picture_def box_place_def box_color_def source_x_def source_y_def hero_span_def Let_def)
qed

text \<open>The 1152 by 864 screen, all black.\<close>

definition screen_14c :: vbe_mode_info where
  "screen_14c = \<lparr>XResolution = 1152, YResolution = 864, BitsPerPixel = 32, PhysBasePtr = 0\<rparr>"


end
