(* ===== verification/Kernel_Ports.thy ===== *)
theory Kernel_Ports
  imports Maze_Types
begin

text \<open>
  The boundary to the MINIX kernel, and utils.c.

  The kernel calls the drivers use are the fields of a record of functions on an unknown kernel
  state 'k: the model is parametric in it. sys_inb returns its status, what the variable holds
  after the call, and the new state; sys_irqsetpolicy also returns the hook id it stores. An
  out-parameter of a driver function is an option: None is a NULL pointer, Some v a variable that
  holds v.

  tape_kernel is one concrete kernel: it answers the reads from a list and records every access.
  It states no behaviour of a device; it makes visible what a driver reads and writes.
\<close>

datatype irq_flag = IRQ_REENABLE | IRQ_EXCLUSIVE

record 'k kernel =
  sys_inb :: "int \<Rightarrow> 'k \<Rightarrow> int \<times> u32 \<times> 'k"
  sys_outb :: "int \<Rightarrow> u32 \<Rightarrow> 'k \<Rightarrow> int \<times> 'k"
  sys_irqsetpolicy :: "int \<Rightarrow> irq_flag set \<Rightarrow> int \<Rightarrow> 'k \<Rightarrow> int \<times> int \<times> 'k"
  sys_irqrmpolicy :: "int \<Rightarrow> 'k \<Rightarrow> int \<times> 'k"
  sys_irqdisable :: "int \<Rightarrow> 'k \<Rightarrow> int \<times> 'k"
  tickdelay_micros :: "int \<Rightarrow> 'k \<Rightarrow> 'k"

text \<open>The macro BIT.\<close>

definition BIT :: "nat \<Rightarrow> u32" where
  "BIT n = push_bit n 1"

subsection \<open>utils.c\<close>

definition util_get_LSB :: "u16 \<Rightarrow> u8 option \<Rightarrow> int \<times> u8 option" where
  "util_get_LSB val lsb = (if lsb = None then (1, lsb) else (0, Some (ucast (and val 0xFF))))"

definition util_get_MSB :: "u16 \<Rightarrow> u8 option \<Rightarrow> int \<times> u8 option" where
  "util_get_MSB val msb =
     (if msb = None then (1, msb) else (0, Some (ucast (and (drop_bit 8 val) 0xFF))))"

definition util_sys_inb :: "'k kernel \<Rightarrow> int \<Rightarrow> u8 option \<Rightarrow> 'k \<Rightarrow> int \<times> u8 option \<times> 'k" where
  "util_sys_inb K port value k =
     (if value = None then (1, value, k)
      else
        (let (ret, newValue, k) = sys_inb K port k in
         (ret, Some (ucast (and 0xFF newValue)), k)))"

text \<open>A read into a variable of the caller.\<close>

definition read_byte :: "'k kernel \<Rightarrow> int \<Rightarrow> 'k \<Rightarrow> int \<times> u8 \<times> 'k" where
  "read_byte K port k =
     (case util_sys_inb K port (Some 0) k of (ret, value, k) \<Rightarrow> (ret, the value, k))"

declare util_get_LSB_def [model_defs] util_get_MSB_def [model_defs] BIT_def [model_defs]

lemma read_byte_eq [model_defs]:
  "read_byte K port k = (let (ret, v, k) = sys_inb K port k in (ret, ucast (and 0xFF v), k))"
  by (simp add: read_byte_def util_sys_inb_def split: prod.splits)

subsection \<open>Bytes of a word\<close>

lemma mask_8: "(mask 8 :: 'a::len word) = 255"
  by (simp add: mask_eq_exp_minus_1)

lemma byte_of_u32: "ucast (and 0xFF (v :: u32)) = (ucast v :: u8)"
  unfolding mask_8 [symmetric] by (rule bit_word_eqI) (auto simp: bit_simps)

lemma uint_ucast_u8 [simp]: "uint (ucast (b :: u8) :: u32) = uint b"
  by (rule uint_up_ucast) (simp add: is_up)

lemma uint_lsb: "uint (ucast (and val 0xFF) :: u8) = uint (val :: u16) mod 256"
proof -
  have "and val 0xFF = take_bit 8 val" unfolding mask_8 [symmetric] by (simp add: take_bit_eq_mask)
  then show ?thesis
    by (simp add: unsigned_ucast_eq unsigned_take_bit_eq) (simp add: take_bit_eq_mod)
qed

lemma uint_msb: "uint (ucast (and (drop_bit 8 val) 0xFF) :: u8) = uint (val :: u16) div 256"
proof -
  have "uint val < 65536" using uint_lt2p [of val] by simp
  then have "uint val div 256 < 256" by (simp add: div_less_iff_less_mult)
  moreover have "0 \<le> uint val div 256" by (simp add: pos_imp_zdiv_nonneg_iff del: uint_div)
  moreover have "uint (drop_bit 8 val) = uint val div 256" by (simp add: drop_bit_eq_div uint_div)
  ultimately show ?thesis
    unfolding uint_lsb by (simp only: mod_pos_pos_trivial)
qed

subsection \<open>A kernel that records\<close>

datatype port_event = PortIn int u32 | PortOut int u32

record port_tape =
  answers :: "u32 list"
  events :: "port_event list"

definition tape_kernel :: "port_tape kernel" where
  "tape_kernel =
     \<lparr>sys_inb = (\<lambda>port k. case answers k of
          [] \<Rightarrow> (1, 0, k)
        | v # vs \<Rightarrow> (0, v, k\<lparr>answers := vs, events := events k @ [PortIn port v]\<rparr>)),
      sys_outb = (\<lambda>port v k. (0, k\<lparr>events := events k @ [PortOut port v]\<rparr>)),
      sys_irqsetpolicy = (\<lambda>irq flags hook k. (0, hook, k)),
      sys_irqrmpolicy = (\<lambda>hook k. (0, k)),
      sys_irqdisable = (\<lambda>hook k. (0, k)),
      tickdelay_micros = (\<lambda>n k. k)\<rparr>"

definition tape :: "u32 list \<Rightarrow> port_tape" where
  "tape vs = \<lparr>answers = vs, events = []\<rparr>"

lemma tape_kernel_simps [simp]:
  "sys_inb tape_kernel port \<lparr>answers = v # vs, events = es\<rparr> =
     (0, v, \<lparr>answers = vs, events = es @ [PortIn port v]\<rparr>)"
  "sys_inb tape_kernel port \<lparr>answers = [], events = es\<rparr> = (1, 0, \<lparr>answers = [], events = es\<rparr>)"
  "sys_outb tape_kernel port w \<lparr>answers = us, events = es\<rparr> =
     (0, \<lparr>answers = us, events = es @ [PortOut port w]\<rparr>)"
  "tickdelay_micros tape_kernel n k = k"
  by (simp_all add: tape_kernel_def)

lemma tape_kernel_irq [simp]:
  "sys_irqsetpolicy tape_kernel irq flags hook k = (0, hook, k)"
  "sys_irqrmpolicy tape_kernel hook k = (0, k)"
  "sys_irqdisable tape_kernel hook k = (0, k)"
  by (simp_all add: tape_kernel_def)

text \<open>util_get_LSB and util_get_MSB split a value into the two bytes it is made of.\<close>

lemma util_bytes_split:
  "(\<exists>l m. util_get_LSB val (Some l0) = (0, Some l) \<and> util_get_MSB val (Some m0) = (0, Some m) \<and>
     uint val = uint l + 256 * uint m) \<and>
   util_get_LSB val None = (1, None) \<and> util_get_MSB val None = (1, None)"
  using uint_lsb [of val] uint_msb [of val] mult_div_mod_eq [of 256 "uint val"]
  unfolding util_get_LSB_def util_get_MSB_def by auto

end
