(* ===== verification/Timer_Rtc.thy ===== *)
theory Timer_Rtc
  imports Kernel_Ports
begin

text \<open>
  controllers/timer.c (the i8254 driver) and controllers/rtc.c (the real-time clock driver).

  timer_print_config is a parameter: it belongs to the course's framework. The union it is given is
  the datatype timer_status_value. time_el is the struct of rtc.h; update and get_time return the
  new time_stamp, get_time_direct the three values it stores through its pointers.
\<close>

subsection \<open>The timer\<close>

definition timer_get_conf :: "'k kernel \<Rightarrow> u8 \<Rightarrow> u8 option \<Rightarrow> 'k \<Rightarrow> int \<times> u8 option \<times> 'k" where
  "timer_get_conf K timer st k =
     (if uint timer < 0 \<or> uint timer > 2 then (1, st, k)
      else if st = None then (1, st, k)
      else
        (let controlWord = (ucast (or (or (or (BIT 7) (BIT 6)) (BIT 5)) (BIT (unat timer + 1))) :: u8);
             (err, k) = sys_outb K 0x43 (ucast controlWord) k in
         if err \<noteq> 0 then (1, st, k)
         else util_sys_inb K (0x40 + uint timer) st k))"

text \<open>The control word of timer_set_frequency for a timer and its current configuration.\<close>

definition timer_control_word :: "u8 \<Rightarrow> u8 \<Rightarrow> u8" where
  "timer_control_word timer currentConfig =
     (let controlWord = (if timer = 1 then 0x40 else if timer = 2 then 0x80 else 0);
          controlWord = or controlWord 0x30 in
      or controlWord (and currentConfig 0x0F))"

definition timer_set_frequency :: "'k kernel \<Rightarrow> u8 \<Rightarrow> u32 \<Rightarrow> 'k \<Rightarrow> int \<times> 'k" where
  "timer_set_frequency K timer freq k =
     (if uint timer < 0 \<or> uint timer > 2 then (1, k)
      else if uint freq < 19 \<or> uint freq > 1193181 then (1, k)
      else
        (let (err, currentConfig, k) = timer_get_conf K timer (Some 0) k in
         if err \<noteq> 0 then (1, k)
         else
           (let initialValue = (word_of_int (1193181 div uint freq) :: u16);
                (err, initialValueMSB) = util_get_MSB initialValue (Some 0) in
            if err \<noteq> 0 then (1, k)
            else
              (let (err, initialValueLSB) = util_get_LSB initialValue (Some 0) in
               if err \<noteq> 0 then (1, k)
               else
                 (let controlWord = timer_control_word timer (the currentConfig);
                      (err, k) = sys_outb K 0x43 (ucast controlWord) k in
                  if err \<noteq> 0 then (1, k)
                  else
                    (let (err, k) = sys_outb K (0x40 + uint timer) (ucast (the initialValueLSB)) k in
                     if err \<noteq> 0 then (1, k)
                     else
                       (let (err, k) = sys_outb K (0x40 + uint timer) (ucast (the initialValueMSB)) k in
                        if err \<noteq> 0 then (1, k) else (0, k))))))))"

definition timer_subscribe_int :: "'k kernel \<Rightarrow> int \<Rightarrow> u8 option \<Rightarrow> 'k \<Rightarrow> int \<times> u8 option \<times> int \<times> 'k" where
  "timer_subscribe_int K timerHookId bit_no k =
     (if bit_no = None then (1, bit_no, timerHookId, k)
      else
        (let (ret, hook, k) = sys_irqsetpolicy K 0 {IRQ_REENABLE} timerHookId k in
         (ret, Some (ucast (BIT (nat timerHookId))), hook, k)))"

definition timer_unsubscribe_int :: "'k kernel \<Rightarrow> int \<Rightarrow> 'k \<Rightarrow> int \<times> 'k" where
  "timer_unsubscribe_int K timerHookId k = sys_irqrmpolicy K timerHookId k"

definition timer_int_handler :: "int \<Rightarrow> int option" where
  "timer_int_handler timerCounter = c_int (timerCounter + 1)"

datatype timer_status_field = tsf_all | tsf_initial | tsf_mode | tsf_base

datatype timer_init = INVAL_val | LSB_only | MSB_only | MSB_after_LSB

datatype timer_status_value = ByteVal u8 | InMode timer_init | CountMode u8 | Bcd bool

definition timer_display_conf ::
  "(u8 \<Rightarrow> timer_status_field \<Rightarrow> timer_status_value \<Rightarrow> int) \<Rightarrow> u8 \<Rightarrow> u8 \<Rightarrow> timer_status_field \<Rightarrow> int" where
  "timer_display_conf timer_print_config timer st field =
     (let data = (case field of
          tsf_all \<Rightarrow> ByteVal st
        | tsf_initial \<Rightarrow>
            (let st = and (drop_bit 4 st) 0x03 in
             InMode (if st = 0 then INVAL_val else if st = 1 then LSB_only
                     else if st = 2 then MSB_only else MSB_after_LSB))
        | tsf_mode \<Rightarrow>
            (let st = and (drop_bit 1 st) 0x07 in
             CountMode (if st = 6 then 2 else if st = 7 then 3 else st))
        | tsf_base \<Rightarrow> Bcd (and st 0x01 \<noteq> 0)) in
      timer_print_config timer field data)"

subsection \<open>The real-time clock\<close>

record time_el =
  seconds :: u32
  minutes :: u32
  hours :: u32

definition UIE :: u32 where
  "UIE = BIT 4"

definition set_update :: "'k kernel \<Rightarrow> 'k \<Rightarrow> int \<times> 'k" where
  "set_update K k =
     (let (_, k) = sys_outb K 0x70 11 k;
          (_, inf, k) = sys_inb K 0x71 k;
          inf = or inf UIE;
          (_, k) = sys_outb K 0x70 11 k;
          (_, k) = sys_outb K 0x71 inf k in
      (0, k))"

definition clean_update :: "'k kernel \<Rightarrow> 'k \<Rightarrow> int \<times> 'k" where
  "clean_update K k =
     (let (_, k) = sys_outb K 0x70 11 k;
          (_, inf, k) = sys_inb K 0x71 k;
          inf = and inf (xor 0xFF UIE);
          (_, k) = sys_outb K 0x70 11 k;
          (_, k) = sys_outb K 0x71 inf k in
      (0, k))"

definition subscribe_rtc :: "'k kernel \<Rightarrow> int \<Rightarrow> 'k \<Rightarrow> int \<times> u16 \<times> int \<times> 'k" where
  "subscribe_rtc K hook_id_rtc k =
     (let bit_no = ucast (BIT (nat hook_id_rtc));
          (err, hook, k) = sys_irqsetpolicy K 8 {IRQ_REENABLE} hook_id_rtc k in
      if err \<noteq> 0 then (1, bit_no, hook, k) else (0, bit_no, hook, k))"

definition unsubscribe_rtc :: "'k kernel \<Rightarrow> int \<Rightarrow> 'k \<Rightarrow> int \<times> 'k" where
  "unsubscribe_rtc K hook_id_rtc k =
     (let (err, k) = sys_irqrmpolicy K hook_id_rtc k in if err \<noteq> 0 then (1, k) else (0, k))"

text \<open>Selecting a register and reading it.\<close>

definition rtc_read :: "'k kernel \<Rightarrow> u32 \<Rightarrow> 'k \<Rightarrow> u32 \<times> 'k" where
  "rtc_read K reg k =
     (let (_, k) = sys_outb K 0x70 reg k; (_, v, k) = sys_inb K 0x71 k in (v, k))"

definition get_time_direct :: "'k kernel \<Rightarrow> 'k \<Rightarrow> time_el \<times> 'k" where
  "get_time_direct K k =
     (let (h, k) = rtc_read K 4 k; (m, k) = rtc_read K 2 k; (s, k) = rtc_read K 0 k in
      (\<lparr>seconds = s, minutes = m, hours = h\<rparr>, k))"

definition get_time :: "'k kernel \<Rightarrow> time_el \<Rightarrow> 'k \<Rightarrow> time_el \<times> 'k" where
  "get_time K time_stamp k =
     (let time_stamp = \<lparr>seconds = 0, minutes = 0, hours = 0\<rparr>;
          (h, k) = rtc_read K 4 k; time_stamp = time_stamp\<lparr>hours := h\<rparr>;
          (m, k) = rtc_read K 2 k; time_stamp = time_stamp\<lparr>minutes := m\<rparr>;
          (s, k) = rtc_read K 0 k in
      (time_stamp\<lparr>seconds := s\<rparr>, k))"

definition update :: "'k kernel \<Rightarrow> time_el \<Rightarrow> 'k \<Rightarrow> time_el \<times> 'k" where
  "update K time_stamp k =
     (let (cause, k) = rtc_read K 12 k in
      if and cause (BIT 4) \<noteq> 0 then get_time K time_stamp k else (time_stamp, k))"

declare timer_get_conf_def [model_defs] timer_control_word_def [model_defs]
  timer_set_frequency_def [model_defs] timer_display_conf_def [model_defs] UIE_def [model_defs]
  set_update_def [model_defs] clean_update_def [model_defs] rtc_read_def [model_defs]
  get_time_direct_def [model_defs] get_time_def [model_defs] update_def [model_defs]

subsection \<open>Properties\<close>

lemma timer_divisor:
  assumes "19 \<le> f" and "f \<le> (1193181 :: int)"
  shows "0 < 1193181 div f" and "1193181 div f < 65536" and "f \<le> 1193181 div (1193181 div f)"
proof -
  show pos: "0 < 1193181 div f" using assms by (simp add: pos_imp_zdiv_pos_iff)
  have "1193181 div f \<le> 1193181 div 19" using assms by (intro zdiv_mono2) auto
  then show "1193181 div f < 65536" by simp
  have "f * (1193181 div f) \<le> 1193181"
    using mult_div_mod_eq [of f 1193181] pos_mod_sign [of f 1193181] assms(1) by linarith
  then have "f * (1193181 div f) div (1193181 div f) \<le> 1193181 div (1193181 div f)"
    using pos by (intro zdiv_mono1) auto
  then show "f \<le> 1193181 div (1193181 div f)" using pos by simp
qed

lemma control_word_bits:
  assumes "uint timer \<le> 2"
  shows "(\<forall>n < 4. bit (timer_control_word timer conf) n = bit conf n) \<and>
    bit (timer_control_word timer conf) 4 \<and> bit (timer_control_word timer conf) 5 \<and>
    (bit (timer_control_word timer conf) 6 \<longleftrightarrow> timer = 1) \<and>
    (bit (timer_control_word timer conf) 7 \<longleftrightarrow> timer = 2)"
proof -
  have less4: "n < 4 \<longleftrightarrow> n \<in> {0, 1, 2, 3}" for n :: nat by auto
  show ?thesis
    unfolding less4 by (auto simp: timer_control_word_def Let_def bit_simps)
qed

lemma timer_get_conf_tape:
  assumes "uint timer \<le> 2"
  shows "timer_get_conf tape_kernel timer (Some st) \<lparr>answers = conf # vs, events = es\<rparr> =
    (0, Some (ucast conf), \<lparr>answers = vs, events = es @
      [PortOut 0x43 (ucast (ucast (or (or (or (BIT 7) (BIT 6)) (BIT 5)) (BIT (unat timer + 1))) :: u8)),
       PortIn (0x40 + uint timer) conf]\<rparr>)"
  using assms by (simp add: timer_get_conf_def util_sys_inb_def byte_of_u32)

text \<open>C22: timer_set_frequency programs the requested rate: for a valid timer and a frequency from 19 to
  1193181 it writes a control word that selects this timer and LSB-then-MSB and keeps the low four
  bits of the configuration it read back, then the two bytes of 1193181 / freq, which fits 16 bits
  and gives a rate of at least freq; other arguments are refused without any port access.\<close>

theorem timer_frequency_programmed:
  "(uint timer \<le> 2 \<and> 19 \<le> uint freq \<and> uint freq \<le> 1193181 \<longrightarrow>
     (\<exists>readback cw lsb msb.
        timer_set_frequency tape_kernel timer freq (tape [ucast conf]) =
          (0, \<lparr>answers = [], events =
             [PortOut 0x43 readback, PortIn (0x40 + uint timer) (ucast (conf :: u8)),
              PortOut 0x43 (ucast (cw :: u8)),
              PortOut (0x40 + uint timer) (ucast (lsb :: u8)),
              PortOut (0x40 + uint timer) (ucast (msb :: u8))]\<rparr>) \<and>
        (\<forall>n < 4. bit cw n = bit conf n) \<and> bit cw 4 \<and> bit cw 5 \<and>
        (bit cw 6 \<longleftrightarrow> timer = 1) \<and> (bit cw 7 \<longleftrightarrow> timer = 2) \<and>
        uint lsb + 256 * uint msb = 1193181 div uint freq \<and>
        uint freq \<le> 1193181 div (uint lsb + 256 * uint msb))) \<and>
   (uint timer > 2 \<or> uint freq < 19 \<or> uint freq > 1193181 \<longrightarrow>
     timer_set_frequency K timer freq k = (1, k))"
proof (intro conjI impI)
  assume a: "uint timer \<le> 2 \<and> 19 \<le> uint freq \<and> uint freq \<le> 1193181"
  let ?d = "1193181 div uint freq"
  let ?v = "word_of_int ?d :: u16"
  have f: "19 \<le> uint freq" "uint freq \<le> 1193181" using a by auto
  note d = timer_divisor [OF f]
  have v: "uint ?v = ?d"
    using d(1,2) by (simp add: uint_word_of_int_eq take_bit_int_eq_self)
  obtain l m where lm: "util_get_LSB ?v (Some 0) = (0, Some l)" "util_get_MSB ?v (Some 0) = (0, Some m)"
    "uint ?v = uint l + 256 * uint m"
    using util_bytes_split [of ?v 0 0] by blast
  have conf: "(ucast (ucast conf :: u32) :: u8) = conf"
    by (rule bit_word_eqI) (auto simp: bit_simps)
  have "timer_set_frequency tape_kernel timer freq (tape [ucast conf]) =
      (0, \<lparr>answers = [], events =
         [PortOut 0x43 (ucast (ucast (or (or (or (BIT 7) (BIT 6)) (BIT 5)) (BIT (unat timer + 1))) :: u8)),
          PortIn (0x40 + uint timer) (ucast conf),
          PortOut 0x43 (ucast (timer_control_word timer conf)),
          PortOut (0x40 + uint timer) (ucast l), PortOut (0x40 + uint timer) (ucast m)]\<rparr>)"
    using a lm(1,2) conf by (simp add: timer_set_frequency_def tape_def timer_get_conf_tape)
  moreover have "uint l + 256 * uint m = ?d" using lm(3) v by simp
  ultimately show "\<exists>readback cw lsb msb.
        timer_set_frequency tape_kernel timer freq (tape [ucast conf]) =
          (0, \<lparr>answers = [], events =
             [PortOut 0x43 readback, PortIn (0x40 + uint timer) (ucast (conf :: u8)),
              PortOut 0x43 (ucast (cw :: u8)),
              PortOut (0x40 + uint timer) (ucast (lsb :: u8)),
              PortOut (0x40 + uint timer) (ucast (msb :: u8))]\<rparr>) \<and>
        (\<forall>n < 4. bit cw n = bit conf n) \<and> bit cw 4 \<and> bit cw 5 \<and>
        (bit cw 6 \<longleftrightarrow> timer = 1) \<and> (bit cw 7 \<longleftrightarrow> timer = 2) \<and>
        uint lsb + 256 * uint msb = ?d \<and>
        uint freq \<le> 1193181 div (uint lsb + 256 * uint msb)"
    using d(3) control_word_bits [OF conjunct1 [OF a], of conf] by metis
next
  assume "uint timer > 2 \<or> uint freq < 19 \<or> uint freq > 1193181"
  then show "timer_set_frequency K timer freq k = (1, k)"
    by (auto simp: timer_set_frequency_def)
qed

theorem timer_frequency_programmed_witness:
  "\<exists>readback cw lsb msb.
     timer_set_frequency tape_kernel 0 45 (tape [ucast (0x34 :: u8)]) =
       (0, \<lparr>answers = [], events =
          [PortOut 0x43 readback, PortIn 0x40 (ucast (0x34 :: u8)), PortOut 0x43 (ucast (cw :: u8)),
           PortOut 0x40 (ucast (lsb :: u8)), PortOut 0x40 (ucast (msb :: u8))]\<rparr>) \<and>
     uint lsb + 256 * uint msb = 26515"
proof -
  have "uint (0 :: u8) \<le> 2 \<and> 19 \<le> uint (45 :: u32) \<and> uint (45 :: u32) \<le> 1193181" by simp
  from mp [OF conjunct1 [OF timer_frequency_programmed [of 0 45 "0x34" tape_kernel "tape []"]] this]
  show ?thesis by auto
qed

text \<open>Set_update sets the update-interrupt bit of register B and clean_update clears it; both leave
  every other bit of the byte they read unchanged, and address register B for the read and for the
  write.\<close>

lemma rtc_update_interrupt_bit:
  "\<exists>w. set_update tape_kernel (tape [v]) =
     (0, \<lparr>answers = [], events = [PortOut 0x70 11, PortIn 0x71 v, PortOut 0x70 11, PortOut 0x71 w]\<rparr>) \<and>
     (\<forall>n. bit w n \<longleftrightarrow> bit v n \<or> n = 4) \<and>
   (\<exists>u. clean_update tape_kernel (tape [v]) =
     (0, \<lparr>answers = [], events = [PortOut 0x70 11, PortIn 0x71 v, PortOut 0x70 11, PortOut 0x71 u]\<rparr>) \<and>
     (\<forall>n. bit u n \<longleftrightarrow> bit v n \<and> n \<noteq> 4 \<and> n < 8))"
proof -
  have "bit (push_bit 4 1 :: u32) n \<longleftrightarrow> n = 4" for n
    by (auto simp only: bit_push_bit_iff) (auto simp: bit_simps)
  then have "bit UIE n \<longleftrightarrow> n = 4" for n
    by (simp only: UIE_def BIT_def)
  moreover have "bit (0xFF :: u32) n \<longleftrightarrow> n < 8" for n
    unfolding mask_8 [symmetric] by (auto simp: bit_simps)
  ultimately show ?thesis
    by (auto simp: set_update_def clean_update_def tape_def bit_or_iff bit_and_iff bit_xor_iff)
qed

text \<open>An interrupt of the clock refreshes time_stamp exactly when register C reports an update: it
  then reads the hours, minutes and seconds registers, and otherwise reads nothing more.\<close>

lemma rtc_update_reads_time:
  "update tape_kernel ts (tape [cause, h, m, s]) =
     (if bit cause 4
      then (\<lparr>seconds = s, minutes = m, hours = h\<rparr>,
            \<lparr>answers = [], events = [PortOut 0x70 12, PortIn 0x71 cause, PortOut 0x70 4, PortIn 0x71 h,
               PortOut 0x70 2, PortIn 0x71 m, PortOut 0x70 0, PortIn 0x71 s]\<rparr>)
      else (ts, \<lparr>answers = [h, m, s], events = [PortOut 0x70 12, PortIn 0x71 cause]\<rparr>))"
proof -
  have "and cause (BIT 4) \<noteq> 0 \<longleftrightarrow> bit cause 4"
    unfolding BIT_def by (rule bit_iff_and_push_bit_not_eq_0 [symmetric])
  then show ?thesis
    by (simp add: update_def get_time_def rtc_read_def tape_def)
qed

end
