(* ===== verification/Serial_Port.thy ===== *)
theory Serial_Port
  imports Kernel_Ports Queue_Model
begin

text \<open>
  controllers/serial.c, the UART driver over which two instances of the game talk, as a client of
  the char queue of Queue_Model (through the contract char_queue). serial holds the two static
  queues. alloc is what the two malloc calls of new_queue give; the pointers that sp_unsubscribe
  and a failed sp_subscribe_int leave behind freed queues are not used afterwards and keep their
  value here.

  The loops that poll the line are partial functions: None means that polling never ends.
\<close>

subsection \<open>The code\<close>

record serial =
  transmit_queue :: queue_ptr
  receive_queue :: queue_ptr

type_synonym queue_alloc = "bool \<times> bool \<times> u8 list"

definition alloc_queue :: "queue_alloc \<Rightarrow> queue_ptr" where
  "alloc_queue a = (case a of (b1, b2, contents) \<Rightarrow> new_queue b1 b2 contents)"

definition sp_enable_int :: "'k kernel \<Rightarrow> int \<Rightarrow> u8 \<Rightarrow> 'k \<Rightarrow> int \<times> 'k" where
  "sp_enable_int K base_addr enabled k =
     (let (err, reg_ier, k) = read_byte K (base_addr + 1) k in
      if err \<noteq> 0 then (1, k)
      else
        (let reg_ier = and reg_ier 0xF8;
             (err, k) = sys_outb K (base_addr + 1) (ucast (or reg_ier enabled)) k in
         if err \<noteq> 0 then (1, k) else (0, k)))"

partial_function (option) drain_queue :: "queue_ptr \<Rightarrow> queue_ptr option" where
  "drain_queue q = (if \<not> empty_q q then drain_queue (pop_q q) else Some q)"

definition clear_transmit_queue :: "serial \<Rightarrow> serial option" where
  "clear_transmit_queue s = do { q \<leftarrow> drain_queue (transmit_queue s); Some (s\<lparr>transmit_queue := q\<rparr>) }"

definition clear_receive_queue :: "serial \<Rightarrow> serial option" where
  "clear_receive_queue s = do { q \<leftarrow> drain_queue (receive_queue s); Some (s\<lparr>receive_queue := q\<rparr>) }"

definition sp_subscribe_int ::
  "'k kernel \<Rightarrow> queue_alloc \<Rightarrow> queue_alloc \<Rightarrow> int \<Rightarrow> u32 option \<Rightarrow> int \<Rightarrow> serial \<Rightarrow> 'k \<Rightarrow>
     int \<times> u32 option \<times> int \<times> serial \<times> 'k" where
  "sp_subscribe_int K a1 a2 base bit_no sp_hook_id s k =
     (if base \<noteq> 0x3f8 \<and> base \<noteq> 0x2f8 then (1, bit_no, sp_hook_id, s, k)
      else if bit_no = None then (1, bit_no, sp_hook_id, s, k)
      else
        (let irq = (if base = 0x3f8 then 4 else 3);
             sp_hook_id = (if base = 0x3f8 then 9 else irq);
             bit_no = Some (BIT (nat sp_hook_id));
             (err, sp_hook_id, k) = sys_irqsetpolicy K irq {IRQ_REENABLE, IRQ_EXCLUSIVE} sp_hook_id k in
         if err \<noteq> 0 then (1, bit_no, sp_hook_id, s, k)
         else
           (let s = s\<lparr>transmit_queue := alloc_queue a1\<rparr> in
            if transmit_queue s = None then (1, bit_no, sp_hook_id, s, k)
            else
              (let s = s\<lparr>receive_queue := alloc_queue a2\<rparr> in
               if receive_queue s = None then (1, bit_no, sp_hook_id, s, k)
               else (0, bit_no, sp_hook_id, s, k)))))"

definition sp_unsubscribe :: "'k kernel \<Rightarrow> int \<Rightarrow> 'k \<Rightarrow> int \<times> 'k" where
  "sp_unsubscribe K sp_hook_id k =
     (let (err, k) = sys_irqdisable K sp_hook_id k in
      if err \<noteq> 0 then (1, k)
      else (let (err, k) = sys_irqrmpolicy K sp_hook_id k in if err \<noteq> 0 then (1, k) else (0, k)))"

text \<open>The two loops of the interrupt handler.\<close>

partial_function (option) ser_transmit_loop ::
  "'k kernel \<Rightarrow> int \<Rightarrow> u32 \<Rightarrow> serial \<Rightarrow> 'k \<Rightarrow> (int \<times> serial \<times> 'k) option" where
  "ser_transmit_loop K base_addr lsr s k =
     (if bit lsr 5 then
        if empty_q (transmit_queue s) then Some (0, s, k)
        else do {
          c \<leftarrow> top_q (transmit_queue s);
          (err, k) \<leftarrow> Some (sys_outb K base_addr (scast c) k);
          if err \<noteq> 0 then Some (1, s, k)
          else do {
            s \<leftarrow> Some (s\<lparr>transmit_queue := pop_q (transmit_queue s)\<rparr>);
            (err, lsr, k) \<leftarrow> Some (sys_inb K (base_addr + 5) k);
            if err \<noteq> 0 then Some (1, s, k) else ser_transmit_loop K base_addr lsr s k
          }
        }
      else Some (0, s, k))"

partial_function (option) ser_receive_loop ::
  "'k kernel \<Rightarrow> int \<Rightarrow> u32 \<Rightarrow> serial \<Rightarrow> 'k \<Rightarrow> (int \<times> serial \<times> 'k) option" where
  "ser_receive_loop K base_addr lsr s k =
     (if bit lsr 0 then do {
        (err, c, k) \<leftarrow> Some (sys_inb K base_addr k);
        if err \<noteq> 0 then Some (1, s, k)
        else do {
          (_, q) \<leftarrow> push_q (receive_queue s) (ucast c);
          (err, lsr, k) \<leftarrow> Some (sys_inb K (base_addr + 5) k);
          if err \<noteq> 0 then Some (1, s\<lparr>receive_queue := q\<rparr>, k)
          else ser_receive_loop K base_addr lsr (s\<lparr>receive_queue := q\<rparr>) k
        }
      }
      else Some (0, s, k))"

definition ser_ih :: "'k kernel \<Rightarrow> int \<Rightarrow> serial \<Rightarrow> 'k \<Rightarrow> (int \<times> serial \<times> 'k) option" where
  "ser_ih K base_addr s k =
     (let (err, iir, k) = read_byte K (base_addr + 2) k in
      if err \<noteq> 0 then Some (1, s, k)
      else if \<not> bit iir 0
      then
        (let (err, lsr, k) = sys_inb K (base_addr + 5) k in
         if err \<noteq> 0 then Some (1, s, k)
         else if bit iir 1 then ser_transmit_loop K base_addr lsr s k
         else if bit iir 2 then ser_receive_loop K base_addr lsr s k
         else Some (0, s, k))
      else Some (0, s, k))"

definition sp_get_status :: "'k kernel \<Rightarrow> 'k \<Rightarrow> int \<times> u8 \<times> 'k" where
  "sp_get_status K k = read_byte K (0x3f8 + 5) k"

definition receive :: "'k kernel \<Rightarrow> u8 \<Rightarrow> serial \<Rightarrow> 'k \<Rightarrow> (u8 \<times> serial \<times> 'k) option" where
  "receive K c s k =
     do {
       (_, s, k) \<leftarrow> ser_ih K 0x3f8 s k;
       if \<not> empty_q (receive_queue s)
       then do {
         c \<leftarrow> top_q (receive_queue s);
         Some (c, s\<lparr>receive_queue := pop_q (receive_queue s)\<rparr>, k)
       }
       else Some (c, s, k)
     }"

text \<open>The inner loop of sp_send_int: at most n more looks at the status; Inl is the early return.\<close>

fun send_attempts :: "'k kernel \<Rightarrow> u8 \<Rightarrow> nat \<Rightarrow> 'k \<Rightarrow> int \<times> 'k" where
  "send_attempts K c 0 k = (0, k)"
| "send_attempts K c (Suc n) k =
     (let (err, status, k) = sp_get_status K k in
      if err \<noteq> 0 then (1, k)
      else if bit status 5 then (0, snd (sys_outb K 0x3F8 (ucast c) k))
      else send_attempts K c n k)"

partial_function (option) send_loop ::
  "'k kernel \<Rightarrow> int \<Rightarrow> serial \<Rightarrow> 'k \<Rightarrow> (int \<times> serial \<times> 'k) option" where
  "send_loop K base_addr s k =
     (if \<not> empty_q (transmit_queue s) then do {
        (err, iir, k) \<leftarrow> Some (read_byte K (base_addr + 2) k);
        if err \<noteq> 0 then Some (1, s, k)
        else do {
          (err, lsr, k) \<leftarrow> Some (sys_inb K (base_addr + 5) k);
          if err \<noteq> 0 then Some (1, s, k)
          else if bit lsr 5 then
            if empty_q (transmit_queue s) then Some (0, s, k)
            else do {
              c \<leftarrow> top_q (transmit_queue s);
              (err, k) \<leftarrow> Some (send_attempts K c 10 k);
              if err \<noteq> 0 then Some (1, s, k)
              else send_loop K base_addr (s\<lparr>transmit_queue := pop_q (transmit_queue s)\<rparr>) k
            }
          else send_loop K base_addr s k
        }
      }
      else Some (0, s, k))"

definition sp_send_int ::
  "'k kernel \<Rightarrow> queue_alloc \<Rightarrow> int \<Rightarrow> u8 list \<Rightarrow> serial \<Rightarrow> 'k \<Rightarrow> (int \<times> serial \<times> 'k) option" where
  "sp_send_int K a base_addr string s k =
     do {
       q \<leftarrow> for_each (\<lambda>c q. map_option snd (push_q q c)) string (alloc_queue a);
       send_loop K base_addr (s\<lparr>transmit_queue := q\<rparr>) k
     }"

declare alloc_queue_def [model_defs] sp_enable_int_def [model_defs] drain_queue.simps [model_defs]
  clear_transmit_queue_def [model_defs] clear_receive_queue_def [model_defs]
  sp_subscribe_int_def [model_defs] sp_unsubscribe_def [model_defs]
  ser_transmit_loop.simps [model_defs] ser_receive_loop.simps [model_defs] ser_ih_def [model_defs]
  sp_get_status_def [model_defs] receive_def [model_defs] send_loop.simps [model_defs]
  sp_send_int_def [model_defs]

subsection \<open>Emptying a queue\<close>

lemma drain_queue_empties:
  "queue_ptr_ok q \<Longrightarrow> \<exists>q'. drain_queue q = Some q' \<and> queue_ptr_ok q' \<and> queue_items q' = []"
proof (induction "queue_items q" arbitrary: q)
  case Nil
  then have "empty_q q" using char_queue.empty_items by simp
  with Nil show ?case by (simp add: drain_queue.simps)
next
  case (Cons c cs)
  then have "\<not> empty_q q" using char_queue.empty_items [OF Cons.prems] by (metis list.distinct(1))
  then have "drain_queue q = drain_queue (pop_q q)" by (simp add: drain_queue.simps [of q])
  moreover have "queue_ptr_ok (pop_q q)" "cs = queue_items (pop_q q)"
    using char_queue.deq_items [OF Cons.prems] Cons.hyps(2) by (metis list.sel(3))+
  ultimately show ?case using Cons.hyps(1) [of "pop_q q"] by simp
qed

subsection \<open>Receiving\<close>

text \<open>The answers of the line when the bytes bs wait in the UART, from the first read of LSR on.\<close>

fun burst_answers :: "u8 list \<Rightarrow> u32 list" where
  "burst_answers [] = [0]"
| "burst_answers (b # bs) = 1 # ucast b # burst_answers bs"

lemma burst_answers_hd: "burst_answers bs = of_bool (bs \<noteq> []) # tl (burst_answers bs)"
  by (cases bs) auto

lemma ser_receive_loop_tape:
  "queue_ptr_ok (receive_queue s) \<Longrightarrow>
   \<exists>q es'. ser_receive_loop tape_kernel base (of_bool (bs \<noteq> [])) s
       \<lparr>answers = tl (burst_answers bs) @ vs, events = es\<rparr> =
     Some (0, s\<lparr>receive_queue := q\<rparr>, \<lparr>answers = vs, events = es'\<rparr>) \<and>
     queue_ptr_ok q \<and> queue_items q = take 100 (queue_items (receive_queue s) @ bs)"
proof (induction bs arbitrary: s es)
  case Nil
  then have "length (queue_items (receive_queue s)) \<le> 100" by (rule queue_items_le)
  with Nil show ?case
    by (auto simp: ser_receive_loop.simps intro!: exI [of _ "receive_queue s"])
next
  case (Cons b bs)
  have b: "(ucast (ucast b :: u32) :: u8) = b"
    by (rule bit_word_eqI) (auto simp: bit_simps)
  obtain r q1 where q1: "push_q (receive_queue s) b = Some (r, q1)" "queue_ptr_ok q1"
    "queue_items q1 = take 100 (queue_items (receive_queue s) @ [b])"
  proof (cases "length (queue_items (receive_queue s)) < 100")
    case True
    with char_queue.enq_room [OF Cons.prems True, of b] that show thesis by auto
  next
    case False
    with char_queue.enq_full [OF Cons.prems, of b] that queue_items_le [OF Cons.prems] Cons.prems
    show thesis by auto
  qed
  let ?s = "s\<lparr>receive_queue := q1\<rparr>"
  have step: "ser_receive_loop tape_kernel base 1 s
      \<lparr>answers = ucast b # of_bool (bs \<noteq> []) # tl (burst_answers bs) @ vs, events = es\<rparr> =
    ser_receive_loop tape_kernel base (of_bool (bs \<noteq> [])) ?s
      \<lparr>answers = tl (burst_answers bs) @ vs,
       events = es @ [PortIn base (ucast b), PortIn (base + 5) (of_bool (bs \<noteq> []))]\<rparr>"
    using b q1(1) by (simp add: ser_receive_loop.simps [of _ _ 1])
  have "queue_ptr_ok (receive_queue ?s)" "receive_queue ?s = q1" using q1(2) by simp_all
  with Cons.IH [of ?s "es @ [PortIn base (ucast b), PortIn (base + 5) (of_bool (bs \<noteq> []))]"]
  obtain q es' where
    "ser_receive_loop tape_kernel base (of_bool (bs \<noteq> [])) ?s
      \<lparr>answers = tl (burst_answers bs) @ vs,
       events = es @ [PortIn base (ucast b), PortIn (base + 5) (of_bool (bs \<noteq> []))]\<rparr> =
     Some (0, ?s\<lparr>receive_queue := q\<rparr>, \<lparr>answers = vs, events = es'\<rparr>)"
    "queue_ptr_ok q" "queue_items q = take 100 (queue_items q1 @ bs)" by metis
  moreover have "take 100 (queue_items q1 @ bs) = take 100 (queue_items (receive_queue s) @ b # bs)"
    unfolding q1(3) by (cases "length (queue_items (receive_queue s)) < 100") auto
  moreover have "burst_answers bs @ vs = of_bool (bs \<noteq> []) # tl (burst_answers bs) @ vs"
    using burst_answers_hd [of bs] by (metis append_Cons)
  note step [folded this]
  ultimately show ?case by auto
qed

text \<open>An interrupt for received data (IIR is 4).\<close>

lemma ser_ih_receives:
  assumes "queue_ptr_ok (receive_queue s)"
  shows "\<exists>q es'. ser_ih tape_kernel base s \<lparr>answers = 4 # burst_answers bs @ vs, events = es\<rparr> =
      Some (0, s\<lparr>receive_queue := q\<rparr>, \<lparr>answers = vs, events = es'\<rparr>) \<and>
    queue_ptr_ok q \<and> queue_items q = take 100 (queue_items (receive_queue s) @ bs)"
proof -
  have "4 # burst_answers bs @ vs = 4 # of_bool (bs \<noteq> []) # tl (burst_answers bs) @ vs"
    using burst_answers_hd [of bs] by (metis append_Cons)
  moreover have "ser_ih tape_kernel base s
      \<lparr>answers = 4 # of_bool (bs \<noteq> []) # tl (burst_answers bs) @ vs, events = es\<rparr> =
    ser_receive_loop tape_kernel base (of_bool (bs \<noteq> [])) s \<lparr>answers = tl (burst_answers bs) @ vs,
      events = es @ [PortIn (base + 2) 4, PortIn (base + 5) (of_bool (bs \<noteq> []))]\<rparr>"
    by (simp add: ser_ih_def read_byte_eq)
  ultimately show ?thesis using ser_receive_loop_tape [OF assms] by metis
qed

lemma receive_burst:
  assumes "queue_ptr_ok (receive_queue s)" and "queue_items (receive_queue s) = []"
  shows "\<exists>q k'. receive tape_kernel c s (tape (4 # burst_answers bs)) =
      Some (case bs of [] \<Rightarrow> c | b # _ \<Rightarrow> b, s\<lparr>receive_queue := q\<rparr>, k') \<and>
    queue_ptr_ok q \<and> queue_items q = tl (take 100 bs)"
proof -
  obtain q es' where q: "ser_ih tape_kernel 0x3f8 s \<lparr>answers = 4 # burst_answers bs @ [], events = []\<rparr> =
      Some (0, s\<lparr>receive_queue := q\<rparr>, \<lparr>answers = [], events = es'\<rparr>)"
    "queue_ptr_ok q" "queue_items q = take 100 bs"
    using ser_ih_receives [OF assms(1), of "0x3f8" bs "[]" "[]"] assms(2) by auto
  show ?thesis
  proof (cases bs)
    case Nil
    with q have "empty_q q" using char_queue.empty_items by simp
    with q Nil show ?thesis by (auto simp: receive_def tape_def intro!: exI [of _ q])
  next
    case (Cons b bs')
    with q have "\<not> empty_q q" using char_queue.empty_items [OF q(2)] by simp
    moreover have "top_q q = Some b" using char_queue.front_items [OF q(2)] q(3) Cons by simp
    moreover note char_queue.deq_items [OF q(2)]
    ultimately show ?thesis
      using q Cons by (auto simp: receive_def tape_def intro!: exI [of _ "pop_q q"])
  qed
qed

subsection \<open>Sending\<close>

definition ready_answers :: "u32 list" where
  "ready_answers = [0, 0x20, 0x20]"

definition sent_events :: "u8 \<Rightarrow> port_event list" where
  "sent_events c = [PortIn 0x3fa 0, PortIn 0x3fd 0x20, PortIn 0x3fd 0x20, PortOut 0x3f8 (ucast c)]"

lemma send_loop_tape:
  "queue_ptr_ok (transmit_queue s) \<Longrightarrow>
   \<exists>q. send_loop tape_kernel 0x3f8 s
       \<lparr>answers = concat (replicate (length (queue_items (transmit_queue s))) ready_answers), events = es\<rparr> =
     Some (0, s\<lparr>transmit_queue := q\<rparr>,
       \<lparr>answers = [], events = es @ concat (map sent_events (queue_items (transmit_queue s)))\<rparr>) \<and>
     queue_ptr_ok q \<and> queue_items q = []"
proof (induction "queue_items (transmit_queue s)" arbitrary: s es)
  case Nil
  then have "empty_q (transmit_queue s)" using char_queue.empty_items by simp
  with Nil show ?case by (auto simp: send_loop.simps intro!: exI [of _ "transmit_queue s"])
next
  case (Cons c cs)
  let ?q = "transmit_queue s" and ?s = "s\<lparr>transmit_queue := pop_q (transmit_queue s)\<rparr>"
  have ne: "\<not> empty_q ?q" using char_queue.empty_items [OF Cons.prems] Cons.hyps(2) by auto
  have top: "top_q ?q = Some c"
    using char_queue.front_items [OF Cons.prems] Cons.hyps(2) by (simp split: list.splits)
  have pop: "queue_ptr_ok (transmit_queue ?s)" "cs = queue_items (transmit_queue ?s)"
    using char_queue.deq_items [OF Cons.prems] list.sel(3) [of c cs] unfolding Cons.hyps(2)
    by simp_all
  have sent: "send_attempts tape_kernel c 10 \<lparr>answers = 0x20 # vs, events = es\<rparr> =
      (0, \<lparr>answers = vs, events = es @ [PortIn 0x3fd 0x20, PortOut 0x3f8 (ucast c)]\<rparr>)" for vs es
    using send_attempts.simps(2) [of tape_kernel c 9] by (simp add: sp_get_status_def read_byte_eq)
  have "send_loop tape_kernel 0x3f8 s \<lparr>answers = 0 # 0x20 # 0x20 # vs, events = es\<rparr> =
      send_loop tape_kernel 0x3f8 ?s \<lparr>answers = vs, events = es @ sent_events c\<rparr>" for vs
    using ne top sent
    by (simp add: send_loop.simps [of _ _ s] read_byte_eq sent_events_def)
  then show ?case
    using Cons.hyps(1) [OF pop(2,1), of "es @ sent_events c"] pop(2)
    unfolding Cons.hyps(2) [symmetric] by (simp add: ready_answers_def)
qed

lemma push_string:
  "queue_ptr_ok q \<Longrightarrow> \<exists>q'. for_each (\<lambda>c q. map_option snd (push_q q c)) cs q = Some q' \<and>
     queue_ptr_ok q' \<and> queue_items q' = take 100 (queue_items q @ cs)"
proof (induction cs arbitrary: q)
  case Nil
  then show ?case using queue_items_le by simp
next
  case (Cons c cs)
  show ?case
  proof (cases "length (queue_items q) < 100")
    case True
    with char_queue.enq_room [OF Cons.prems True, of c] Cons.IH show ?thesis by fastforce
  next
    case False
    with char_queue.enq_full [OF Cons.prems, of c] Cons.IH [OF Cons.prems] queue_items_le [OF Cons.prems]
    show ?thesis by auto
  qed
qed

lemma alloc_queue_ok:
  assumes "length contents = 100"
  shows "queue_ptr_ok (alloc_queue (True, True, contents))"
    and "queue_items (alloc_queue (True, True, contents)) = []"
proof -
  obtain q where "new_queue True True contents = Some q" "queue_ok q" "queue_list q = []"
    using new_queue_ok [OF assms] .
  then show "queue_ptr_ok (alloc_queue (True, True, contents))"
    and "queue_items (alloc_queue (True, True, contents)) = []"
    by (simp_all add: alloc_queue_def queue_ptr_ok_def queue_items_def)
qed

lemma sp_send_int_run:
  assumes "length contents = 100" and "length string \<le> 100"
  shows "\<exists>q. sp_send_int tape_kernel (True, True, contents) 0x3f8 string s
      (tape (concat (replicate (length string) ready_answers))) =
    Some (0, s\<lparr>transmit_queue := q\<rparr>, \<lparr>answers = [], events = concat (map sent_events string)\<rparr>) \<and>
    queue_ptr_ok q \<and> queue_items q = []"
proof -
  note new = alloc_queue_ok [OF assms(1)]
  obtain q1 where q1: "for_each (\<lambda>c q. map_option snd (push_q q c)) string
      (alloc_queue (True, True, contents)) = Some q1" "queue_ptr_ok q1" "queue_items q1 = string"
    using push_string [OF new(1), of string] new(2) assms(2) by auto
  then show ?thesis
    using send_loop_tape [of "s\<lparr>transmit_queue := q1\<rparr>" "[]"]
    by (simp add: sp_send_int_def tape_def)
qed

text \<open>The chars written to the data register.\<close>

fun wire :: "port_event list \<Rightarrow> u8 list" where
  "wire [] = []"
| "wire (PortOut port v # es) = (if port = 0x3f8 then ucast v # wire es else wire es)"
| "wire (PortIn port v # es) = wire es"

lemma wire_append: "wire (xs @ ys) = wire xs @ wire ys"
  by (induction xs rule: wire.induct) auto

lemma wire_sent: "wire (concat (map sent_events cs)) = cs"
proof (induction cs)
  case Nil
  then show ?case by simp
next
  case (Cons c cs)
  have "(ucast (ucast c :: u32) :: u8) = c"
    by (rule bit_word_eqI) (auto simp: bit_simps)
  with Cons show ?case by (simp add: wire_append sent_events_def)
qed

subsection \<open>A busy line\<close>

text \<open>
  One pass of the loop of sp_send_int: Inl is a return of the function, Inr the state in which the
  loop looks at its condition again. A loop that runs for ever has all its passes defined, one that
  meets undefined behaviour has not; send_loop has no value in either case.
\<close>

definition send_pass ::
  "'k kernel \<Rightarrow> int \<Rightarrow> serial \<Rightarrow> 'k \<Rightarrow> ((int \<times> serial \<times> 'k) + (serial \<times> 'k)) option" where
  "send_pass K base_addr s k =
     (if \<not> empty_q (transmit_queue s) then do {
        (err, iir, k) \<leftarrow> Some (read_byte K (base_addr + 2) k);
        if err \<noteq> 0 then Some (Inl (1, s, k))
        else do {
          (err, lsr, k) \<leftarrow> Some (sys_inb K (base_addr + 5) k);
          if err \<noteq> 0 then Some (Inl (1, s, k))
          else if bit lsr 5 then
            if empty_q (transmit_queue s) then Some (Inl (0, s, k))
            else do {
              c \<leftarrow> top_q (transmit_queue s);
              (err, k) \<leftarrow> Some (send_attempts K c 10 k);
              if err \<noteq> 0 then Some (Inl (1, s, k))
              else Some (Inr (s\<lparr>transmit_queue := pop_q (transmit_queue s)\<rparr>, k))
            }
          else Some (Inr (s, k))
        }
      }
      else Some (Inl (0, s, k)))"

fun send_passes ::
  "'k kernel \<Rightarrow> int \<Rightarrow> nat \<Rightarrow> serial \<Rightarrow> 'k \<Rightarrow> ((int \<times> serial \<times> 'k) + (serial \<times> 'k)) option" where
  "send_passes K base_addr 0 s k = Some (Inr (s, k))"
| "send_passes K base_addr (Suc n) s k =
     do {
       r \<leftarrow> send_pass K base_addr s k;
       case r of Inl y \<Rightarrow> Some (Inl y) | Inr (s, k) \<Rightarrow> send_passes K base_addr n s k
     }"

lemma send_loop_pass:
  "send_loop K base_addr s k =
     do {
       r \<leftarrow> send_pass K base_addr s k;
       case r of Inl y \<Rightarrow> Some y | Inr (s, k) \<Rightarrow> send_loop K base_addr s k
     }"
  unfolding send_loop.simps [of K base_addr s k] send_pass_def
  by (auto simp: Let_def split: prod.split Option.bind_split)

lemma send_loop_passes:
  "send_loop K base_addr s k =
     do {
       r \<leftarrow> send_passes K base_addr n s k;
       case r of Inl y \<Rightarrow> Some y | Inr (s, k) \<Rightarrow> send_loop K base_addr s k
     }"
proof (induction n arbitrary: s k)
  case (Suc n)
  show ?case
  proof (cases "send_pass K base_addr s k")
    case (Some r)
    then show ?thesis
      using Suc by (subst send_loop_pass) (cases r; auto split: prod.split)
  qed (simp add: send_loop_pass [of _ _ s k])
qed simp

text \<open>Every read of IIR and LSR succeeds, and the transmitter never becomes empty.\<close>

definition line_busy :: "'k kernel \<Rightarrow> int \<Rightarrow> bool" where
  "line_busy K base \<longleftrightarrow>
     (\<forall>k. fst (sys_inb K (base + 2) k) = 0) \<and>
     (\<forall>k. fst (sys_inb K (base + 5) k) = 0 \<and> \<not> bit (fst (snd (sys_inb K (base + 5) k))) 5)"

lemma send_loop_busy:
  assumes "send_loop K base s k = Some r"
  shows "line_busy K base \<longrightarrow> empty_q (transmit_queue s)"
proof (rule send_loop.raw_induct [where P = "\<lambda>K base s k r. line_busy K base \<longrightarrow> empty_q (transmit_queue s)",
      OF _ assms], intro impI)
  fix f K base s and k :: 'a and y
  assume IH: "\<And>K base s k y. f K base s k = Some y \<Longrightarrow> line_busy K base \<longrightarrow> empty_q (transmit_queue s)"
    and run: "(if \<not> empty_q (transmit_queue s)
     then do {
        (err, iir, k) \<leftarrow> Some (read_byte K (base + 2) k);
        if err \<noteq> 0 then Some (1, s, k)
        else do {
          (err, lsr, k) \<leftarrow> Some (sys_inb K (base + 5) k);
          if err \<noteq> 0 then Some (1, s, k)
          else if bit lsr 5 then
            if empty_q (transmit_queue s) then Some (0, s, k)
            else do {
              c \<leftarrow> top_q (transmit_queue s);
              (err, k) \<leftarrow> Some (send_attempts K c 10 k);
              if err \<noteq> 0 then Some (1, s, k)
              else f K base (s\<lparr>transmit_queue := pop_q (transmit_queue s)\<rparr>) k
            }
          else f K base s k
        }
      }
      else Some (0, s, k)) = Some y"
    and busy: "line_busy K base"
  show "empty_q (transmit_queue s)"
  proof (rule ccontr)
    assume ne: "\<not> empty_q (transmit_queue s)"
    obtain iir k1 where r1: "sys_inb K (base + 2) k = (0, iir, k1)"
      using busy unfolding line_busy_def by (metis prod.collapse)
    obtain lsr k2 where r2: "sys_inb K (base + 5) k1 = (0, lsr, k2)" "\<not> bit lsr 5"
      using busy unfolding line_busy_def by (metis prod.collapse)
    have "f K base s k2 = Some y"
      using run ne r1 r2 by (simp add: read_byte_eq)
    with IH busy ne show False by blast
  qed
qed

text \<open>Every number of passes is defined, and the queue stays as it is.\<close>

lemma send_passes_busy:
  assumes busy: "line_busy K base" and ne: "\<not> empty_q (transmit_queue s)"
  shows "\<exists>k'. send_passes K base n s k = Some (Inr (s, k'))"
proof (induction n arbitrary: k)
  case (Suc n)
  obtain iir k1 where r1: "sys_inb K (base + 2) k = (0, iir, k1)"
    using busy unfolding line_busy_def by (metis prod.collapse)
  obtain lsr k2 where r2: "sys_inb K (base + 5) k1 = (0, lsr, k2)" "\<not> bit lsr 5"
    using busy unfolding line_busy_def by (metis prod.collapse)
  have "send_pass K base s k = Some (Inr (s, k2))"
    using ne r1 r2 by (simp add: send_pass_def read_byte_eq)
  with Suc [of k2] show ?case by simp
qed simp

text \<open>A kernel whose every read gives v.\<close>

definition stuck_kernel :: "u32 \<Rightarrow> unit kernel" where
  "stuck_kernel v = \<lparr>sys_inb = (\<lambda>port k. (0, v, k)), sys_outb = (\<lambda>port w k. (0, k)),
     sys_irqsetpolicy = (\<lambda>irq flags hook k. (0, hook, k)), sys_irqrmpolicy = (\<lambda>hook k. (0, k)),
     sys_irqdisable = (\<lambda>hook k. (0, k)), tickdelay_micros = (\<lambda>n k. k)\<rparr>"

definition no_queues :: serial where
  "no_queues = \<lparr>transmit_queue = None, receive_queue = None\<rparr>"

definition idle_serial :: serial where
  "idle_serial = \<lparr>transmit_queue = alloc_queue (True, True, replicate 100 0),
     receive_queue = alloc_queue (True, True, replicate 100 0)\<rparr>"

lemma idle_serial_ok:
  "queue_ptr_ok (receive_queue idle_serial)" "queue_items (receive_queue idle_serial) = []"
  using alloc_queue_ok [of "replicate 100 0"] by (simp_all add: idle_serial_def)

subsection \<open>Properties\<close>

text \<open>C14: what one side sends the other receives. On a line that is ready at every look, for a string
  of 1 to 100 chars and with both allocations of new_queue succeeding, sp_send_int returns 0 and
  puts exactly the chars of its string on the wire, in order (100 is the size of the queue). When these chars arrive in one interrupt at a receiver
  whose queue is allocated and empty, receive delivers the first of them, and the
  clear_receive_queue that the main loop calls next discards all the others.\<close>

theorem serial_message_delivered:
  assumes "length contents = 100" and "length string \<le> 100" and "string \<noteq> []"
    and "queue_ptr_ok (receive_queue r)" and "queue_items (receive_queue r) = []"
  shows "\<exists>s' k' r1 r2 kr.
    sp_send_int tape_kernel (True, True, contents) 0x3f8 string s
      (tape (concat (replicate (length string) ready_answers))) = Some (0, s', k') \<and>
    wire (events k') = string \<and>
    receive tape_kernel c r (tape (4 # burst_answers (wire (events k')))) = Some (hd string, r1, kr) \<and>
    queue_items (receive_queue r1) = tl string \<and>
    clear_receive_queue r1 = Some r2 \<and> queue_items (receive_queue r2) = []"
proof -
  obtain q where send: "sp_send_int tape_kernel (True, True, contents) 0x3f8 string s
      (tape (concat (replicate (length string) ready_answers))) =
    Some (0, s\<lparr>transmit_queue := q\<rparr>, \<lparr>answers = [], events = concat (map sent_events string)\<rparr>)"
    using sp_send_int_run [OF assms(1,2)] by blast
  obtain q1 kr where rec: "receive tape_kernel c r (tape (4 # burst_answers string)) =
      Some (case string of [] \<Rightarrow> c | b # _ \<Rightarrow> b, r\<lparr>receive_queue := q1\<rparr>, kr)"
    "queue_ptr_ok q1" "queue_items q1 = tl (take 100 string)"
    using receive_burst [OF assms(4,5)] by blast
  obtain q2 where "drain_queue q1 = Some q2" "queue_items q2 = []"
    using drain_queue_empties [OF rec(2)] by blast
  then have clear: "clear_receive_queue (r\<lparr>receive_queue := q1\<rparr>) = Some (r\<lparr>receive_queue := q2\<rparr>)"
    "queue_items q2 = []"
    by (simp_all add: clear_receive_queue_def)
  have "(case string of [] \<Rightarrow> c | b # _ \<Rightarrow> b) = hd string" using assms(3) by (cases string) auto
  then show ?thesis
    using send rec clear assms(2) by (auto simp: wire_sent)
qed

theorem serial_message_delivered_witness:
  "\<exists>s' k' r1 kr.
    sp_send_int tape_kernel (True, True, replicate 100 0) 0x3f8 [77] no_queues (tape ready_answers) =
      Some (0, s', k') \<and> wire (events k') = [77] \<and>
    receive tape_kernel 1 idle_serial (tape (4 # burst_answers [77])) = Some (77, r1, kr)"
proof -
  have len: "length (replicate 100 (0 :: u8)) = 100" "length [77 :: u8] \<le> 100" "[77 :: u8] \<noteq> []"
    by simp_all
  have "concat (replicate (length [77 :: u8]) ready_answers) = ready_answers" by simp
  with serial_message_delivered [OF len idle_serial_ok, of no_queues 1] show ?thesis
    by (metis list.sel(1))
qed

text \<open>The receive interrupt loses nothing but what does not fit: every char waiting in the UART is
  appended to the receive queue in order, up to the queue's hundred places.\<close>

lemma serial_interrupt_queues:
  assumes "queue_ptr_ok (receive_queue s)"
  shows "\<exists>q es'. ser_ih tape_kernel base s (tape (4 # burst_answers bs)) =
      Some (0, s\<lparr>receive_queue := q\<rparr>, \<lparr>answers = [], events = es'\<rparr>) \<and>
    queue_ptr_ok q \<and> queue_items q = take 100 (queue_items (receive_queue s) @ bs)"
  using ser_ih_receives [OF assms, of base bs "[]" "[]"] by (simp add: tape_def)

lemma serial_interrupt_queues_witness:
  "\<exists>q es'. ser_ih tape_kernel 0x3f8 idle_serial (tape (4 # burst_answers [83, 76])) =
      Some (0, idle_serial\<lparr>receive_queue := q\<rparr>, \<lparr>answers = [], events = es'\<rparr>) \<and> queue_items q = [83, 76]"
  using serial_interrupt_queues [OF idle_serial_ok(1), of "0x3f8" "[83, 76]"] idle_serial_ok(2) by auto

text \<open>C39: sending blocks: when both allocations of new_queue succeed but the transmitter never reports
  that it is empty, the loop of sp_send_int of a nonempty string goes on for ever. For every n its
  first n passes are defined and leave the queue, which is not empty, as it was, so that the loop
  condition holds again; and sp_send_int has no result.\<close>

theorem send_never_returns_on_busy_line:
  assumes "line_busy K base" and "string \<noteq> []" and "length contents = 100"
  shows "\<exists>q. for_each (\<lambda>c q. map_option snd (push_q q c)) string (alloc_queue (True, True, contents)) = Some q \<and>
    \<not> empty_q q \<and>
    (\<forall>n. \<exists>k'. send_passes K base n (s\<lparr>transmit_queue := q\<rparr>) k = Some (Inr (s\<lparr>transmit_queue := q\<rparr>, k'))) \<and>
    sp_send_int K (True, True, contents) base string s k = None"
proof -
  note new = alloc_queue_ok [OF assms(3)]
  obtain q where q: "for_each (\<lambda>c q. map_option snd (push_q q c)) string
      (alloc_queue (True, True, contents)) = Some q" "queue_ptr_ok q" "queue_items q = take 100 string"
    using push_string [OF new(1), of string] new(2) by auto
  have ne: "\<not> empty_q q" using char_queue.empty_items [OF q(2)] q(3) assms(2) by simp
  then have "send_loop K base (s\<lparr>transmit_queue := q\<rparr>) k \<noteq> Some r" for r
    using send_loop_busy assms(1) by fastforce
  then have "sp_send_int K (True, True, contents) base string s k = None"
    using q(1) by (simp add: sp_send_int_def not_Some_eq [symmetric])
  with q(1) ne send_passes_busy [OF assms(1), of "s\<lparr>transmit_queue := q\<rparr>"] show ?thesis by auto
qed

theorem send_never_returns_on_busy_line_witness:
  "\<exists>q k'. send_passes (stuck_kernel 0) 0x3f8 1000 (no_queues\<lparr>transmit_queue := q\<rparr>) () =
      Some (Inr (no_queues\<lparr>transmit_queue := q\<rparr>, k')) \<and> \<not> empty_q q \<and>
    sp_send_int (stuck_kernel 0) (True, True, replicate 100 0) 0x3f8 [77] no_queues () = None"
proof -
  have "line_busy (stuck_kernel 0) 0x3f8" "[77 :: u8] \<noteq> []" "length (replicate 100 (0 :: u8)) = 100"
    by (simp_all add: line_busy_def stuck_kernel_def)
  from send_never_returns_on_busy_line [OF this, of no_queues "()"] show ?thesis by blast
qed

text \<open>Sp_enable_int changes the low three bits of the interrupt enable register only: they become
  those of the mask, and the bits from the fourth on are kept or set by the mask.\<close>

lemma serial_enable_keeps_high_bits:
  "\<exists>w. sp_enable_int tape_kernel base msk (tape [ucast v]) =
      (0, \<lparr>answers = [], events = [PortIn (base + 1) (ucast (v :: u8)), PortOut (base + 1) (ucast (w :: u8))]\<rparr>) \<and>
    (\<forall>n. bit w n = (if n < 3 then bit msk n else bit v n \<or> bit msk n))"
proof -
  have b: "(ucast (ucast v :: u32) :: u8) = v"
    by (rule bit_word_eqI) (auto simp: bit_simps)
  have "bit (push_bit 3 (mask 5) :: u8) n \<longleftrightarrow> 3 \<le> n \<and> n < 8" for n
    unfolding bit_push_bit_iff bit_mask_iff by auto
  moreover have "(push_bit 3 (mask 5) :: u8) = 0xF8"
    by (simp add: push_bit_eq_mult mask_eq_exp_minus_1)
  ultimately have bits: "bit (0xF8 :: u8) n \<longleftrightarrow> 3 \<le> n \<and> n < 8" for n by metis
  have "sp_enable_int tape_kernel base msk (tape [ucast v]) =
      (0, \<lparr>answers = [], events = [PortIn (base + 1) (ucast v), PortOut (base + 1) (ucast (or (and v 0xF8) msk))]\<rparr>)"
    using b by (simp add: sp_enable_int_def read_byte_eq byte_of_u32 tape_def)
  moreover have "bit (or (and v 0xF8) msk) n = (if n < 3 then bit msk n else bit v n \<or> bit msk n)" for n
    using bit_imp_le_length [of v n] unfolding bit_or_iff bit_and_iff bits by auto
  ultimately show ?thesis by blast
qed

end
