(* ===== verification/Input_Devices.thy ===== *)
theory Input_Devices
  imports Kernel_Ports
begin

text \<open>
  controllers/keyboard.c and controllers/mouse.c, and the mouse branch of the interrupt loop in
  proj.c (mouse_interrupt). mouse holds the driver's global variables; the keyboard's only one is
  kbd_value. mouse_ok is the invariant of the mouse driver between interrupts; feed runs the mouse
  interrupts that deliver a list of bytes.
\<close>

subsection \<open>The keyboard\<close>

definition kbd_subscribe_int :: "'k kernel \<Rightarrow> int \<Rightarrow> u16 option \<Rightarrow> 'k \<Rightarrow> int \<times> u16 option \<times> int \<times> 'k" where
  "kbd_subscribe_int K kbd_hook_id irq_set k =
     (if irq_set = None then (1, irq_set, kbd_hook_id, k)
      else
        (let (ret, hook, k) = sys_irqsetpolicy K 1 {IRQ_REENABLE, IRQ_EXCLUSIVE} kbd_hook_id k in
         (ret, Some (ucast (BIT (nat kbd_hook_id))), hook, k)))"

definition kbd_unsubscribe_int :: "'k kernel \<Rightarrow> int \<Rightarrow> 'k \<Rightarrow> int \<times> 'k" where
  "kbd_unsubscribe_int K kbd_hook_id k = sys_irqrmpolicy K kbd_hook_id k"

definition kbd_ih :: "'k kernel \<Rightarrow> u8 \<Rightarrow> 'k \<Rightarrow> u8 \<times> 'k" where
  "kbd_ih K kbd_value k =
     (let (err, status, k) = read_byte K 0x64 k in
      if err \<noteq> 0 then (kbd_value, k)
      else if bit status 7 then (kbd_value, k)
      else if bit status 6 then (kbd_value, k)
      else if bit status 1 then (kbd_value, k)
      else if bit status 0 \<and> \<not> bit status 5
      then (let (_, value, k) = read_byte K 0x60 k in (value, k))
      else (kbd_value, k))"

subsection \<open>The mouse\<close>

record mouse =
  current_byte :: u8
  byte_index :: int
  mouse_bytes :: "u8 list"
  mouse_packet :: packet

definition mouse_subscribe_int :: "'k kernel \<Rightarrow> int \<Rightarrow> u16 option \<Rightarrow> 'k \<Rightarrow> int \<times> u16 option \<times> int \<times> 'k" where
  "mouse_subscribe_int K mouse_hook_id irq_set k =
     (if irq_set = None then (1, irq_set, mouse_hook_id, k)
      else
        (let (ret, hook, k) = sys_irqsetpolicy K 12 {IRQ_REENABLE, IRQ_EXCLUSIVE} mouse_hook_id k in
         (ret, Some (ucast (BIT (nat mouse_hook_id))), hook, k)))"

definition mouse_unsubscribe_int :: "'k kernel \<Rightarrow> int \<Rightarrow> 'k \<Rightarrow> int \<times> 'k" where
  "mouse_unsubscribe_int K mouse_hook_id k = sys_irqrmpolicy K mouse_hook_id k"

definition mouse_ih :: "'k kernel \<Rightarrow> mouse \<Rightarrow> 'k \<Rightarrow> mouse \<times> 'k" where
  "mouse_ih K m k =
     (let (err, status, k) = read_byte K 0x64 k in
      if err \<noteq> 0 then (m, k)
      else if bit status 7 then (m, k)
      else if bit status 6 then (m, k)
      else if bit status 0 \<and> bit status 5
      then (let (_, value, k) = read_byte K 0x60 k in (m\<lparr>current_byte := value\<rparr>, k))
      else (m, k))"

text \<open>The store into mouse_bytes is undefined outside the array.\<close>

definition sync_bytes :: "mouse \<Rightarrow> mouse option" where
  "sync_bytes m =
     (if (byte_index m = 0 \<and> bit (current_byte m) 3) \<or> byte_index m > 0
      then do {
        guard_ub (0 \<le> byte_index m \<and> byte_index m < int (length (mouse_bytes m)));
        Some (m\<lparr>mouse_bytes := (mouse_bytes m)[nat (byte_index m) := current_byte m],
                byte_index := byte_index m + 1\<rparr>)
      }
      else Some m)"

text \<open>A displacement: nine bits in two's complement, the sign in the first byte.\<close>

definition signed_delta :: "bool \<Rightarrow> u8 \<Rightarrow> 16 word" where
  "signed_delta sign b = (if sign then or 0xFF00 (ucast b) else ucast b)"

definition decode :: "u8 list \<Rightarrow> packet" where
  "decode bs =
     \<lparr>bytes = map (\<lambda>i. bs ! i) [0..<3],
      rb = bit (bs ! 0) 1, mb = bit (bs ! 0) 2, lb = bit (bs ! 0) 0,
      delta_x = signed_delta (bit (bs ! 0) 4) (bs ! 1),
      delta_y = signed_delta (bit (bs ! 0) 5) (bs ! 2),
      x_ov = bit (bs ! 0) 6, y_ov = bit (bs ! 0) 7\<rparr>"

definition create_packet :: "mouse \<Rightarrow> mouse" where
  "create_packet m = m\<lparr>mouse_packet := decode (mouse_bytes m)\<rparr>"

definition mouse_interrupt :: "'k kernel \<Rightarrow> mouse \<Rightarrow> 'k \<Rightarrow> (mouse \<times> 'k) option" where
  "mouse_interrupt K m k =
     (let (m, k) = mouse_ih K m k in
      do {
        m \<leftarrow> sync_bytes m;
        Some (if byte_index m = 3 then create_packet (m\<lparr>byte_index := 0\<rparr>) else m, k)
      })"

definition kbc_send_command :: "'k kernel \<Rightarrow> int \<Rightarrow> u8 \<Rightarrow> 'k \<Rightarrow> int \<times> 'k" where
  "kbc_send_command K port command k =
     (let (err, status, k) = read_byte K 0x64 k in
      if err \<noteq> 0 then (1, k)
      else if \<not> bit status 1
      then (let (err, k) = sys_outb K port (ucast command) k in if err \<noteq> 0 then (1, k) else (0, k))
      else (1, k))"

text \<open>
  One pass of the do loop of mouse_send_command: Some r when the function returns r from it, None
  when it ends without an acknowledgement. The loop has n more attempts after the current one.
\<close>

definition mouse_attempt :: "'k kernel \<Rightarrow> u8 \<Rightarrow> 'k \<Rightarrow> int option \<times> 'k" where
  "mouse_attempt K command k =
     (let (err, k) = kbc_send_command K 0x64 0xD4 k in
      if err \<noteq> 0 then (Some 1, k)
      else
        (let (err, k) = kbc_send_command K 0x60 command k in
         if err \<noteq> 0 then (Some 1, k)
         else
           (let k = tickdelay_micros K 10000 k;
                (err, response, k) = read_byte K 0x60 k in
            if err \<noteq> 0 then (Some 1, k)
            else if response = 0xFA then (Some 0, k)
            else (None, k))))"

fun mouse_attempts :: "'k kernel \<Rightarrow> u8 \<Rightarrow> nat \<Rightarrow> 'k \<Rightarrow> int \<times> 'k" where
  "mouse_attempts K command n k =
     (case mouse_attempt K command k of
        (Some r, k) \<Rightarrow> (r, k)
      | (None, k) \<Rightarrow> if n > 0 then mouse_attempts K command (n - 1) k else (1, k))"

definition mouse_send_command :: "'k kernel \<Rightarrow> u8 \<Rightarrow> 'k \<Rightarrow> int \<times> 'k" where
  "mouse_send_command K command k = mouse_attempts K command 9 k"

declare mouse_attempts.simps [simp del]

declare kbd_ih_def [model_defs] mouse_ih_def [model_defs] sync_bytes_def [model_defs]
  create_packet_def [model_defs] decode_def [model_defs] signed_delta_def [model_defs]
  mouse_interrupt_def [model_defs] kbc_send_command_def [model_defs]
  mouse_attempt_def [model_defs] mouse_attempts.simps [model_defs] mouse_send_command_def [model_defs]

subsection \<open>The invariant of the mouse driver\<close>

definition mouse_ok :: "mouse \<Rightarrow> bool" where
  "mouse_ok m \<longleftrightarrow> length (mouse_bytes m) = 3 \<and> byte_index m \<in> {0, 1, 2}"

lemma mouse_ih_keeps:
  "mouse_ih K m k = (m', k') \<Longrightarrow> mouse_bytes m' = mouse_bytes m \<and> byte_index m' = byte_index m \<and>
     mouse_packet m' = mouse_packet m"
  by (auto simp: mouse_ih_def split: prod.splits if_splits)

text \<open>What happens after mouse_ih, by the byte that is now current.\<close>

definition mouse_byte :: "mouse \<Rightarrow> mouse" where
  "mouse_byte m =
     (if byte_index m = 0 \<and> \<not> bit (current_byte m) 3 then m
      else
        (let bs = (mouse_bytes m)[nat (byte_index m) := current_byte m] in
         if byte_index m = 2
         then m\<lparr>mouse_bytes := bs, byte_index := 0, mouse_packet := decode bs\<rparr>
         else m\<lparr>mouse_bytes := bs, byte_index := byte_index m + 1\<rparr>))"

lemma mouse_interrupt_byte:
  assumes "mouse_ok m"
  shows "mouse_interrupt K m k = Some (map_prod mouse_byte id (mouse_ih K m k))"
proof -
  obtain m' k' where ih: "mouse_ih K m k = (m', k')" by fastforce
  note same = mouse_ih_keeps [OF ih]
  show ?thesis
    using assms ih same
    by (auto simp: mouse_interrupt_def mouse_ok_def sync_bytes_def mouse_byte_def create_packet_def Let_def)
qed

lemma mouse_byte_ok: "mouse_ok m \<Longrightarrow> mouse_ok (mouse_byte m)"
  by (auto simp: mouse_byte_def mouse_ok_def Let_def)

subsection \<open>A stream of bytes\<close>

text \<open>The tape of n interrupts that deliver the bytes bs: a status with a full buffer from the mouse
  (0x21), then the byte.\<close>

definition mouse_answers :: "u8 list \<Rightarrow> u32 list" where
  "mouse_answers bs = concat (map (\<lambda>b. [0x21, ucast b]) bs)"

text \<open>The packets decoded during n interrupts, with the final state.\<close>

fun mouse_run :: "'k kernel \<Rightarrow> nat \<Rightarrow> mouse \<Rightarrow> 'k \<Rightarrow> (packet list \<times> mouse \<times> 'k) option" where
  "mouse_run K 0 m k = Some ([], m, k)"
| "mouse_run K (Suc n) m k =
     do {
       (m', k') \<leftarrow> mouse_interrupt K m k;
       (ps, m'', k'') \<leftarrow> mouse_run K n m' k';
       Some ((if byte_index m = 2 then mouse_packet m' # ps else ps), m'', k'')
     }"

lemma mouse_ih_tape:
  "mouse_ih tape_kernel m \<lparr>answers = 0x21 # ucast b # vs, events = es\<rparr> =
     (m\<lparr>current_byte := b\<rparr>, \<lparr>answers = vs, events = es @ [PortIn 0x64 0x21, PortIn 0x60 (ucast b)]\<rparr>)"
proof -
  have "\<not> bit (ucast (0x21 :: u32) :: u8) 7" "\<not> bit (ucast (0x21 :: u32) :: u8) 6"
    "bit (ucast (0x21 :: u32) :: u8) 0" "bit (ucast (0x21 :: u32) :: u8) 5"
    by simp_all
  moreover have "(ucast (ucast b :: u32) :: u8) = b"
    by (rule bit_word_eqI) (auto simp: bit_simps)
  ultimately show ?thesis by (simp add: mouse_ih_def read_byte_eq byte_of_u32)
qed

text \<open>One interrupt on the tape.\<close>

lemma mouse_run_tape:
  assumes "mouse_ok m"
  shows "mouse_run tape_kernel (Suc n) m \<lparr>answers = mouse_answers (b # bs), events = es\<rparr> =
    map_option (map_prod (\<lambda>ps. if byte_index m = 2
        then mouse_packet (mouse_byte (m\<lparr>current_byte := b\<rparr>)) # ps else ps) id)
      (mouse_run tape_kernel n (mouse_byte (m\<lparr>current_byte := b\<rparr>))
        \<lparr>answers = mouse_answers bs, events = es @ [PortIn 0x64 0x21, PortIn 0x60 (ucast b)]\<rparr>)"
proof -
  have "mouse_answers (b # bs) = 0x21 # ucast b # mouse_answers bs" by (simp add: mouse_answers_def)
  then show ?thesis
    using mouse_interrupt_byte [OF assms, of tape_kernel] mouse_ih_tape
    by (simp split: bind_splits)
qed

lemma mouse_garbage:
  "mouse_ok m \<Longrightarrow> byte_index m = 0 \<Longrightarrow> \<forall>g \<in> set gs. \<not> bit g 3 \<Longrightarrow>
   \<exists>m' es'. mouse_ok m' \<and> byte_index m' = 0 \<and> mouse_packet m' = mouse_packet m \<and>
     (\<forall>n bs. mouse_run tape_kernel (length gs + n) m \<lparr>answers = mouse_answers (gs @ bs), events = es\<rparr> =
        mouse_run tape_kernel n m' \<lparr>answers = mouse_answers bs, events = es'\<rparr>)"
proof (induction gs arbitrary: m es)
  case Nil
  then show ?case by auto
next
  case (Cons g gs)
  let ?m = "m\<lparr>current_byte := g\<rparr>"
  have "mouse_byte ?m = ?m" using Cons.prems by (simp add: mouse_byte_def)
  moreover have "mouse_ok ?m" using Cons.prems(1) by (simp add: mouse_ok_def)
  moreover have "map_option (map_prod (\<lambda>ps. ps) id) r = r" for r :: "(packet list \<times> mouse \<times> port_tape) option"
    by (simp add: map_prod.id id_def [symmetric] option.map_id)
  ultimately show ?case
    using Cons.IH [of ?m "es @ [PortIn 0x64 0x21, PortIn 0x60 (ucast g)]"] Cons.prems
      mouse_run_tape [OF Cons.prems(1)]
    by simp
qed

definition triple :: "u8 \<times> u8 \<times> u8 \<Rightarrow> u8 list" where
  "triple t = (case t of (a, b, c) \<Rightarrow> [a, b, c])"

lemma three_bytes:
  fixes a b c :: u8
  assumes "mouse_ok m" and "byte_index m = 0" and "bit a 3"
  defines "m1 \<equiv> mouse_byte (m\<lparr>current_byte := a\<rparr>)"
  defines "m2 \<equiv> mouse_byte (m1\<lparr>current_byte := b\<rparr>)"
  defines "m3 \<equiv> mouse_byte (m2\<lparr>current_byte := c\<rparr>)"
  shows "(mouse_ok m1 \<and> byte_index m1 = 1) \<and> (mouse_ok m2 \<and> byte_index m2 = 2) \<and>
    (mouse_ok m3 \<and> byte_index m3 = 0 \<and> mouse_packet m3 = decode [a, b, c])"
proof -
  from assms(1) obtain x y z where bs: "mouse_bytes m = [x, y, z]"
    unfolding mouse_ok_def by (auto simp: length_Suc_conv numeral_3_eq_3)
  have one: "mouse_ok m1 \<and> byte_index m1 = 1"
    using assms(2,3) bs by (simp add: m1_def mouse_byte_def mouse_ok_def)
  have m1: "byte_index m1 = 1" "mouse_bytes m1 = [a, y, z]"
    using assms(2,3) bs by (simp_all add: m1_def mouse_byte_def)
  then have two: "mouse_ok m2 \<and> byte_index m2 = 2"
    by (simp add: m2_def mouse_byte_def mouse_ok_def)
  have m2: "byte_index m2 = 2" "mouse_bytes m2 = [a, b, z]"
    using m1 by (simp_all add: m2_def mouse_byte_def)
  then have "mouse_ok m3 \<and> byte_index m3 = 0 \<and> mouse_packet m3 = decode [a, b, c]"
    by (simp add: m3_def mouse_byte_def mouse_ok_def numeral_2_eq_2 Let_def)
  with one two show ?thesis by blast
qed

lemma mouse_triples:
  "mouse_ok m \<Longrightarrow> byte_index m = 0 \<Longrightarrow> \<forall>t \<in> set ts. bit (fst t) 3 \<Longrightarrow>
   \<exists>m' k'. mouse_run tape_kernel (3 * length ts) m
       \<lparr>answers = mouse_answers (concat (map triple ts)), events = es\<rparr> =
     Some (map (\<lambda>t. decode (triple t)) ts, m', k') \<and> mouse_ok m' \<and> byte_index m' = 0 \<and> answers k' = []"
proof (induction ts arbitrary: m es)
  case Nil
  then show ?case by (simp add: mouse_answers_def)
next
  case (Cons t ts)
  obtain a b c where t: "t = (a, b, c)" by (cases t)
  define m1 where "m1 = mouse_byte (m\<lparr>current_byte := a\<rparr>)"
  define m2 where "m2 = mouse_byte (m1\<lparr>current_byte := b\<rparr>)"
  define m3 where "m3 = mouse_byte (m2\<lparr>current_byte := c\<rparr>)"
  have bit: "bit a 3" using Cons.prems(3) t by simp
  have three: "mouse_ok m1" "byte_index m1 = 1" "mouse_ok m2" "byte_index m2 = 2"
    "mouse_ok m3" "byte_index m3 = 0" "mouse_packet m3 = decode [a, b, c]"
    using three_bytes [OF Cons.prems(1,2) bit, of b c] by (simp_all add: m1_def m2_def m3_def)
  define es' where "es' = es @ [PortIn 0x64 0x21, PortIn 0x60 (ucast a), PortIn 0x64 0x21,
    PortIn 0x60 (ucast b), PortIn 0x64 0x21, PortIn 0x60 (ucast c)]"
  obtain m' k' where IH: "mouse_run tape_kernel (3 * length ts) m3
       \<lparr>answers = mouse_answers (concat (map triple ts)), events = es'\<rparr> =
     Some (map (\<lambda>t. decode (triple t)) ts, m', k')" "mouse_ok m'" "byte_index m' = 0" "answers k' = []"
    using Cons.IH [OF three(5,6), of es'] Cons.prems(3) by auto
  let ?rest = "concat (map triple ts)"
  have "mouse_run tape_kernel (Suc (Suc (Suc (3 * length ts)))) m
      \<lparr>answers = mouse_answers (a # b # c # ?rest), events = es\<rparr> =
    Some (decode [a, b, c] # map (\<lambda>t. decode (triple t)) ts, m', k')"
    using mouse_run_tape [OF Cons.prems(1)] mouse_run_tape [OF three(1)] mouse_run_tape [OF three(3)]
      IH(1) three Cons.prems(2)
    unfolding es'_def
    by (simp add: m1_def [symmetric] m2_def [symmetric] m3_def [symmetric] del: mouse_run.simps)
  moreover have "concat (map triple (t # ts)) = a # b # c # ?rest"
    and "3 * length (t # ts) = Suc (Suc (Suc (3 * length ts)))"
    and "map (\<lambda>t. decode (triple t)) (t # ts) = decode [a, b, c] # map (\<lambda>t. decode (triple t)) ts"
    by (simp_all add: t triple_def)
  ultimately show ?case using IH(2-4) by metis
qed

subsection \<open>The displacements\<close>

lemma sign_extended: "or (0xFF00 :: 16 word) (ucast (b::u8)) = word_of_int (uint b - 256)"
proof -
  have "and (0xFF00 :: 16 word) (ucast b) = 0"
  proof (rule bit_word_eqI)
    fix n assume "n < LENGTH(16)"
    have "\<not> bit (0xFF00 :: 16 word) n" if "n < 8"
    proof -
      have "(0xFF00 :: 16 word) = push_bit 8 0xFF" by (simp add: push_bit_eq_mult)
      then have "bit (0xFF00 :: 16 word) n = bit (push_bit 8 0xFF :: 16 word) n" by (rule arg_cong)
      with that show ?thesis by (simp only: bit_push_bit_iff) simp
    qed
    then show "bit (and (0xFF00 :: 16 word) (ucast b)) n \<longleftrightarrow> bit (0 :: 16 word) n"
      using bit_imp_le_length [of b n] by (auto simp: bit_simps)
  qed
  then have "or (0xFF00 :: 16 word) (ucast b) = 0xFF00 + ucast b"
    by (rule disjunctive_add_eq_or [symmetric])
  also have "(ucast b :: 16 word) = word_of_int (uint b)" by (simp)
  also have "0xFF00 + word_of_int (uint b) = (word_of_int (uint b - 256) :: 16 word)"
    by (simp)
  finally show ?thesis by simp
qed

lemma sint_negative:
  "sint (word_of_int (uint (b::u8) - 256) :: 16 word) = uint b - 256"
proof -
  have b: "uint b < 256" "0 \<le> uint b" using uint_lt2p [of b] by simp_all
  have "sint (word_of_int (uint (b::u8) - 256) :: 16 word) = signed_take_bit 15 (uint b - 256)"
    unfolding sint_sbintrunc' by simp
  also have "\<dots> = uint b - 256"
    by (rule signed_take_bit_int_eq_self) (use b in simp_all)
  finally show ?thesis .
qed

lemma sint_byte:
  "sint (ucast (b::u8) :: 16 word) = uint b"
proof -
  have b: "uint b < 256" "0 \<le> uint b" using uint_lt2p [of b] by simp_all
  have lo: "- 32768 \<le> uint b" by (rule order_trans [OF _ b(2)]) simp
  have "sint (word_of_int (uint (b::u8)) :: 16 word) = signed_take_bit 15 (uint b)"
    unfolding sint_sbintrunc' by simp
  also have "\<dots> = uint b"
    by (rule signed_take_bit_int_eq_self) (use b lo in simp_all)
  finally show ?thesis by simp
qed

lemma signed_delta_value: "sint (signed_delta sign b) = uint b - (if sign then 256 else 0)"
  using sint_byte [of b] sint_negative [of b] sign_extended [of b] by (simp add: signed_delta_def)

subsection \<open>Commands to the mouse\<close>

text \<open>The answers of one attempt: both times the controller is ready, then the mouse's reply.\<close>

definition attempt_answers :: "u8 \<Rightarrow> u32 list" where
  "attempt_answers reply = [0, 0, ucast reply]"

definition attempt_events :: "u8 \<Rightarrow> u8 \<Rightarrow> port_event list" where
  "attempt_events command reply =
     [PortIn 0x64 0, PortOut 0x64 0xD4, PortIn 0x64 0, PortOut 0x60 (ucast command), PortIn 0x60 (ucast reply)]"

lemma mouse_attempt_tape:
  "mouse_attempt tape_kernel command \<lparr>answers = attempt_answers reply @ vs, events = es\<rparr> =
     (if reply = 0xFA then Some 0 else None, \<lparr>answers = vs, events = es @ attempt_events command reply\<rparr>)"
proof -
  have "(ucast (ucast reply :: u32) :: u8) = reply"
    by (rule bit_word_eqI) (auto simp: bit_simps)
  then show ?thesis
    by (simp add: mouse_attempt_def kbc_send_command_def read_byte_eq byte_of_u32 attempt_answers_def
        attempt_events_def)
qed

lemma mouse_attempts_tape:
  "nack \<noteq> 0xFA \<Longrightarrow>
   mouse_attempts tape_kernel command n
     \<lparr>answers = concat (replicate i (attempt_answers nack)) @ attempt_answers 0xFA @ vs, events = es\<rparr> =
   (if i \<le> n
    then (0, \<lparr>answers = vs, events = es @ concat (replicate i (attempt_events command nack)) @ attempt_events command 0xFA\<rparr>)
    else (1, \<lparr>answers = concat (replicate (i - Suc n) (attempt_answers nack)) @ attempt_answers 0xFA @ vs,
              events = es @ concat (replicate (Suc n) (attempt_events command nack))\<rparr>))"
proof (induction i arbitrary: n es)
  case 0
  then show ?case by (simp add: mouse_attempts.simps [of _ _ n] mouse_attempt_tape)
next
  case (Suc i)
  show ?case
  proof (cases n)
    case 0
    then show ?thesis using Suc.prems by (simp add: mouse_attempts.simps [of _ _ 0] mouse_attempt_tape)
  next
    case (Suc l)
    then show ?thesis
      using Suc.IH [OF Suc.prems] Suc.prems
      by (simp add: mouse_attempts.simps [of _ _ "Suc l"] mouse_attempt_tape)
  qed
qed

subsection \<open>Properties\<close>

text \<open>Whatever the kernel answers, a mouse interrupt is defined (mouse_bytes is never written
  outside its three entries) and leaves the index below three.\<close>

lemma mouse_interrupt_safe:
  assumes "mouse_ok m"
  shows "\<exists>m' k'. mouse_interrupt K m k = Some (m', k') \<and> mouse_ok m'"
proof -
  obtain m1 k1 where ih: "mouse_ih K m k = (m1, k1)" by fastforce
  have "mouse_ok m1" using assms mouse_ih_keeps [OF ih] by (simp add: mouse_ok_def)
  then show ?thesis
    using mouse_interrupt_byte [OF assms, of K k] ih mouse_byte_ok by simp
qed

definition idle_mouse :: mouse where
  "idle_mouse = \<lparr>current_byte = 0, byte_index = 0, mouse_bytes = [0, 0, 0], mouse_packet = zero_packet\<rparr>"

lemma idle_mouse_ok: "mouse_ok idle_mouse" "byte_index idle_mouse = 0"
  by (simp_all add: mouse_ok_def idle_mouse_def)

lemma mouse_interrupt_safe_witness:
  "\<exists>m' k'. mouse_interrupt tape_kernel idle_mouse (tape [0x21, 0x09]) = Some (m', k') \<and> mouse_ok m'"
  by (rule mouse_interrupt_safe [OF idle_mouse_ok(1)])

text \<open>C17: from an idle driver, a stream of bytes decodes to its packets: bytes before the first packet
  that lack the sync bit are skipped, and then every three bytes, the first with its sync bit,
  make one packet, in order, until the stream ends with the driver idle.\<close>

theorem mouse_stream_decodes:
  assumes "mouse_ok m" and "byte_index m = 0"
    and "\<forall>g \<in> set gs. \<not> bit g 3" and "\<forall>t \<in> set ts. bit (fst t) 3"
  shows "\<exists>m' k'. mouse_run tape_kernel (length gs + 3 * length ts) m
      (tape (mouse_answers (gs @ concat (map triple ts)))) =
    Some (map (\<lambda>t. decode (triple t)) ts, m', k') \<and>
    mouse_ok m' \<and> byte_index m' = 0 \<and> answers k' = []"
proof -
  obtain m1 es where m1: "mouse_ok m1" "byte_index m1 = 0"
    "\<And>n bs. mouse_run tape_kernel (length gs + n) m \<lparr>answers = mouse_answers (gs @ bs), events = []\<rparr> =
        mouse_run tape_kernel n m1 \<lparr>answers = mouse_answers bs, events = es\<rparr>"
    using mouse_garbage [OF assms(1,2,3), of "[]"] by blast
  show ?thesis
    unfolding tape_def m1(3) using mouse_triples [OF m1(1,2) assms(4)] .
qed

theorem mouse_stream_decodes_witness:
  "\<exists>m' k'. mouse_run tape_kernel 5 idle_mouse (tape (mouse_answers [0, 7, 0x19, 0xFB, 2])) =
    Some ([decode [0x19, 0xFB, 2]], m', k')"
proof -
  have nth: "\<forall>g \<in> set [0, 7 :: u8]. \<not> bit g 3" "\<forall>t \<in> set [(0x19 :: u8, 0xFB :: u8, 2 :: u8)]. bit (fst t) 3"
    by simp_all
  show ?thesis
    using mouse_stream_decodes [OF idle_mouse_ok nth] by (auto simp: triple_def)
qed

text \<open>The two displacements of a decoded packet are the nine-bit two's complement numbers that the
  mouse sent: the byte, less 256 when the sign bit of the first byte is set; the buttons are the
  low three bits.\<close>

lemma packet_displacements:
  "sint (delta_x (decode [a, b, c])) = uint b - (if bit a 4 then 256 else 0) \<and>
   sint (delta_y (decode [a, b, c])) = uint c - (if bit a 5 then 256 else 0) \<and>
   (lb (decode [a, b, c]) \<longleftrightarrow> bit a 0) \<and> (rb (decode [a, b, c]) \<longleftrightarrow> bit a 1) \<and>
   (mb (decode [a, b, c]) \<longleftrightarrow> bit a 2)"
  by (simp add: decode_def signed_delta_value numeral_2_eq_2)

text \<open>C26: mouse_send_command tries at most ten times: on a controller that is ready, with a mouse that answers i times with the
  same byte other than ACK and then acknowledges, it returns 0 after i + 1 attempts when i is below ten, and 1 after exactly ten
  attempts otherwise. Each attempt writes 0xD4 to port 0x64 and the command to port 0x60, each after a look at the status, and
  reads one answer; nothing is read or written besides.\<close>

theorem mouse_command_retries:
  assumes "nack \<noteq> 0xFA"
  shows "mouse_send_command tape_kernel command
      (tape (concat (replicate i (attempt_answers nack)) @ attempt_answers 0xFA)) =
    (if i < 10
     then (0, \<lparr>answers = [], events = concat (replicate i (attempt_events command nack)) @ attempt_events command 0xFA\<rparr>)
     else (1, \<lparr>answers = concat (replicate (i - 10) (attempt_answers nack)) @ attempt_answers 0xFA,
               events = concat (replicate 10 (attempt_events command nack))\<rparr>))"
proof -
  have "Suc 9 = 10" by simp
  then show ?thesis
    using mouse_attempts_tape [OF assms, of command 9 i "[]" "[]"]
    unfolding mouse_send_command_def tape_def by (auto simp del: replicate_Suc)
qed

theorem mouse_command_retries_witness:
  "fst (mouse_send_command tape_kernel 0xF4
     (tape (concat (replicate 3 (attempt_answers 0xFE)) @ attempt_answers 0xFA))) = 0"
  using mouse_command_retries [of "0xFE" "0xF4" 3] by simp

text \<open>With one status and one byte on offer, at most one of the two handlers reads port 0x60.\<close>

lemma handlers_share_no_byte:
  "\<not> (PortIn 0x60 b \<in> set (events (snd (kbd_ih tape_kernel v (tape [st, b])))) \<and>
      PortIn 0x60 b \<in> set (events (snd (mouse_ih tape_kernel m (tape [st, b])))))"
  by (simp add: kbd_ih_def mouse_ih_def read_byte_eq tape_def)

text \<open>An interrupt with a parity error still consumes a place of the packet: the byte of the
  previous interrupt is stored a second time.\<close>

lemma parity_error_repeats_byte:
  assumes "mouse_ok m" and "byte_index m = 1" and "sys_inb K 0x64 k = (0, st, k')" and "bit st 7"
  shows "mouse_interrupt K m k =
    Some (m\<lparr>mouse_bytes := (mouse_bytes m)[1 := current_byte m], byte_index := 2\<rparr>, k')"
proof -
  have "mouse_ih K m k = (m, k')"
    using assms(3,4) by (simp add: mouse_ih_def read_byte_eq byte_of_u32 bit_simps)
  then show ?thesis
    using mouse_interrupt_byte [OF assms(1), of K k] assms(2) by (simp add: mouse_byte_def)
qed

lemma parity_error_repeats_byte_witness:
  "\<exists>k'. mouse_interrupt tape_kernel (idle_mouse\<lparr>current_byte := 0x09, byte_index := 1\<rparr>) (tape [0xA1]) =
    Some (idle_mouse\<lparr>current_byte := 0x09, mouse_bytes := [0, 0x09, 0], byte_index := 2\<rparr>, k')"
proof -
  have ok: "mouse_ok (idle_mouse\<lparr>current_byte := 0x09, byte_index := 1\<rparr>)"
    and one: "byte_index (idle_mouse\<lparr>current_byte := 0x09, byte_index := 1\<rparr>) = 1"
    by (simp_all add: mouse_ok_def idle_mouse_def)
  have "sys_inb tape_kernel 0x64 (tape [0xA1]) = (0, 0xA1, \<lparr>answers = [], events = [PortIn 0x64 0xA1]\<rparr>)"
    by (simp add: tape_def)
  from parity_error_repeats_byte [OF ok one this] show ?thesis by (simp add: idle_mouse_def)
qed

end
