(* ===== verification/Game_World.thy ===== *)
theory Game_World
  imports Maze_Picture Sprites_Text Timer_Rtc Serial_Port Input_Devices
begin

text \<open>
  The game module, game/game.c and game/info.c: its global variables together with those of the
  modules it works on, the state of a game (Waiting, Running, Finish), the clock of a game, and the
  frame that the timer draws.

  world holds the global variables of game.c, menu.c and proj.c; w_mouse, w_video, w_serial and hero
  are the variables of the other components. Kernel calls, xpm_load and the memory of a new queue
  are parameters. printf has no effect on the model.

  A string that snprintf writes is computed by hex_string (%x) and decimal (%d); atoi is the
  function of the C library on strings without blanks.
\<close>

subsection \<open>The global variables\<close>

datatype game_state = Waiting | Running | Finish

datatype screen = Menu | Game | HowTo

datatype handler = Single_Player | Multiple_Player | How_To | Exit_Game

record button =
  b_x :: int
  b_y :: int
  b_width :: int
  b_height :: int
  b_label :: "string option"
  onClick :: "handler option"

record world =
  state :: screen
  running :: bool
  host :: bool
  isMultiplayer :: bool
  gameState :: game_state
  won :: bool
  initialTimeSet :: bool
  finalTimeSet :: bool
  time_initial :: time_el
  time_final :: time_el
  time_stamp :: time_el
  hero :: player
  frame_counter :: real
  current_frame :: int
  kbd_value :: u8
  buttons :: "button list"
  button_count :: int
  w_maze :: maze
  w_mouse :: mouse
  w_video :: video
  w_serial :: serial

text \<open>Their values when the program starts.\<close>

definition start_world :: world where
  "start_world =
     (let zero_time = \<lparr>seconds = 0, minutes = 0, hours = 0\<rparr> in
      \<lparr>state = Menu, running = True, host = False, isMultiplayer = False, gameState = Waiting, won = False,
       initialTimeSet = False, finalTimeSet = False, time_initial = zero_time, time_final = zero_time,
       time_stamp = zero_time,
       hero = \<lparr>pos_x = 0, pos_y = 0, x_mouse = 0, y_mouse = 0, delta = 0, direction = 0, is_moving = False,
         update_delta = False, img_width = 0, img_height = 0\<rparr>,
       frame_counter = 0, current_frame = 0, kbd_value = 0,
       buttons = replicate 10 \<lparr>b_x = 0, b_y = 0, b_width = 0, b_height = 0, b_label = None, onClick = None\<rparr>,
       button_count = 0,
       w_maze = \<lparr>m_width = 0, m_height = 0, m_cell_size = 0, m_cells = Map.empty\<rparr>,
       w_mouse = idle_mouse,
       w_video = \<lparr>mode_info = \<lparr>XResolution = 0, YResolution = 0, BitsPerPixel = 0, PhysBasePtr = 0\<rparr>,
         bytesPerPixel = 0, frame_buffer = None, back_buffer = None, maze_buffer = None\<rparr>,
       w_serial = no_queues\<rparr>)"

abbreviation screen_mode :: "world \<Rightarrow> vbe_mode_info" where
  "screen_mode w \<equiv> mode_info (w_video w)"

text \<open>A change of back_buffer.\<close>

definition on_back :: "(u8 list \<Rightarrow> u8 list option) \<Rightarrow> world \<Rightarrow> world option" where
  "on_back f w =
     do {
       buffer \<leftarrow> back_buffer (w_video w);
       buffer \<leftarrow> f buffer;
       Some (w\<lparr>w_video := (w_video w)\<lparr>back_buffer := Some buffer\<rparr>\<rparr>)
     }"

definition clear_back :: "world \<Rightarrow> world option" where
  "clear_back w = on_back (clear (screen_mode w) (bytesPerPixel (w_video w))) w"

definition swap_buffers :: "world \<Rightarrow> world option" where
  "swap_buffers w = do { v \<leftarrow> swap (w_video w); Some (w\<lparr>w_video := v\<rparr>) }"

definition put_text :: "xpm_loader \<Rightarrow> string \<Rightarrow> int \<Rightarrow> int \<Rightarrow> u32 \<Rightarrow> world \<Rightarrow> world option" where
  "put_text xpm_load str x y color w =
     on_back (draw_text xpm_load (screen_mode w) str (word_of_int x) (word_of_int y) color) w"

definition put_title :: "xpm_loader \<Rightarrow> string \<Rightarrow> int \<Rightarrow> int \<Rightarrow> world \<Rightarrow> world option" where
  "put_title xpm_load str x y w =
     on_back (draw_title xpm_load (screen_mode w) str (word_of_int x) (word_of_int y)) w"

text \<open>The one-character string that sp_send_int is called with.\<close>

definition send_char :: "'k kernel \<Rightarrow> queue_alloc \<Rightarrow> char \<Rightarrow> world \<Rightarrow> 'k \<Rightarrow> (world \<times> 'k) option" where
  "send_char K a c w k =
     do {
       (_, s, k) \<leftarrow> sp_send_int K a 0x3f8 [of_char c] (w_serial w) k;
       Some (w\<lparr>w_serial := s\<rparr>, k)
     }"

subsection \<open>The state of a game\<close>

definition init_game :: "'k video_kernel \<Rightarrow> (nat \<Rightarrow> nat) \<Rightarrow> (cell_id \<Rightarrow> cell) \<Rightarrow> world \<Rightarrow> 'k \<Rightarrow> (world \<times> 'k) option" where
  "init_game V rnd junk w k =
     do {
       let w = w\<lparr>hero := (hero w)\<lparr>pos_x := 50, pos_y := 50\<rparr>\<rparr>;
       m \<leftarrow> generate_maze rnd junk (screen_mode w);
       (v, k) \<leftarrow> generate_maze_buffer V (w_video w) k;
       buffer \<leftarrow> maze_buffer v;
       buffer \<leftarrow> draw_maze (mode_info v) m buffer;
       Some (w\<lparr>w_maze := m, w_video := v\<lparr>maze_buffer := Some buffer\<rparr>\<rparr>, k)
     }"

definition game_activate_multiplayer ::
  "'k kernel \<Rightarrow> queue_alloc \<Rightarrow> world \<Rightarrow> 'k \<Rightarrow> (world \<times> 'k) option" where
  "game_activate_multiplayer K a w k =
     (let w = w\<lparr>gameState := Running\<rparr> in
      if isMultiplayer w then
        if host w then send_char K a CHR ''M'' w k else send_char K a CHR ''S'' w k
      else Some (w, k))"

definition game_reset :: "world \<Rightarrow> world" where
  "game_reset w =
     w\<lparr>isMultiplayer := False, won := False, gameState := Waiting, initialTimeSet := False,
       finalTimeSet := False, hero := (hero w)\<lparr>pos_x := 50, pos_y := 50\<rparr>\<rparr>"

definition game_lose :: "world \<Rightarrow> world" where
  "game_lose w = w\<lparr>gameState := Finish, won := False\<rparr>"

definition can_lose :: "world \<Rightarrow> bool" where
  "can_lose w \<longleftrightarrow> gameState w = Running"

definition can_enter_multiplayer :: "world \<Rightarrow> bool" where
  "can_enter_multiplayer w \<longleftrightarrow> gameState w = Waiting"

subsection \<open>The clock of a game\<close>

text \<open>One half of check_time: the stamp taken, from the clock itself when none has arrived yet.\<close>

definition take_stamp :: "'k kernel \<Rightarrow> time_el \<Rightarrow> 'k \<Rightarrow> time_el \<times> 'k" where
  "take_stamp K stamp k =
     (if hours stamp = 0 \<and> minutes stamp = 0 \<and> seconds stamp = 0 then get_time_direct K k else (stamp, k))"

definition check_time :: "'k kernel \<Rightarrow> world \<Rightarrow> 'k \<Rightarrow> world \<times> 'k" where
  "check_time K w k =
     (let (w, k) = (if \<not> initialTimeSet w
            then (case take_stamp K (time_stamp w) k of
                    (t, k) \<Rightarrow> (w\<lparr>initialTimeSet := True, time_initial := t\<rparr>, k))
            else (w, k)) in
      if \<not> finalTimeSet w \<and> gameState w = Finish
      then (case take_stamp K (time_stamp w) k of
              (t, k) \<Rightarrow> (w\<lparr>finalTimeSet := True, time_final := t\<rparr>, k))
      else (w, k))"

definition hex_digit :: "nat \<Rightarrow> char" where
  "hex_digit d = (if d < 10 then char_of (48 + d) else char_of (87 + d))"

fun hex_string :: "nat \<Rightarrow> string" where
  "hex_string n = (if n < 16 then [hex_digit n] else hex_string (n div 16) @ [hex_digit (n mod 16)])"

fun dec_string :: "nat \<Rightarrow> string" where
  "dec_string n = (if n < 10 then [hex_digit n] else dec_string (n div 10) @ [hex_digit (n mod 10)])"

declare hex_string.simps [simp del] dec_string.simps [simp del]

definition decimal :: "int \<Rightarrow> string" where
  "decimal v = (if v < 0 then CHR ''-'' # dec_string (nat (- v)) else dec_string (nat v))"

definition is_digit :: "char \<Rightarrow> bool" where
  "is_digit c \<longleftrightarrow> 48 \<le> (of_char c :: nat) \<and> (of_char c :: nat) \<le> 57"

fun atoi_from :: "int \<Rightarrow> string \<Rightarrow> int option" where
  "atoi_from v [] = Some v"
| "atoi_from v (c # str) =
     (if is_digit c then do { v \<leftarrow> c_int (10 * v + (of_char c - 48)); atoi_from v str } else Some v)"

text \<open>A field of a time stamp: snprintf into a buffer of the right length, then atoi.\<close>

definition stamp_value :: "u32 \<Rightarrow> int option" where
  "stamp_value v = atoi_from 0 (hex_string (unat v))"

definition calculate_time :: "time_el \<Rightarrow> time_el \<Rightarrow> int option" where
  "calculate_time final initial =
     do {
       hours_final \<leftarrow> stamp_value (hours final);
       minutes_final \<leftarrow> stamp_value (minutes final);
       seconds_final \<leftarrow> stamp_value (seconds final);
       hours_initial \<leftarrow> stamp_value (hours initial);
       minutes_initial \<leftarrow> stamp_value (minutes initial);
       seconds_initial \<leftarrow> stamp_value (seconds initial);
       h \<leftarrow> c_int ((hours_final - hours_initial) * 3600);
       m \<leftarrow> c_int ((minutes_final - minutes_initial) * 60);
       t \<leftarrow> c_int (h + m);
       c_int (t + (seconds_final - seconds_initial))
     }"

subsection \<open>Frames\<close>

definition game_draw_cursor :: "xpm_loader \<Rightarrow> world \<Rightarrow> world option" where
  "game_draw_cursor xpm_load w =
     do {
       x \<leftarrow> int_of_double (x_mouse (hero w));
       y \<leftarrow> int_of_double (y_mouse (hero w));
       on_back (draw_xpm_at_pos xpm_load (screen_mode w) (Some cursor_xpm) (word_of_int x) (word_of_int y)) w
     }"

text \<open>The image of the player for a value of frame_counter; none is drawn beyond 16.\<close>

definition hero_frame :: "real \<Rightarrow> xpm_map option" where
  "hero_frame n =
     (if n \<le> 4 then Some player_xpm else if n \<le> 8 then Some player3_xpm
      else if n \<le> 12 then Some player4_xpm else if n \<le> 16 then Some player5_xpm
      else if n = 0 then Some player_xpm else None)"

definition game_draw_hero :: "xpm_loader \<Rightarrow> world \<Rightarrow> world option" where
  "game_draw_hero xpm_load w =
     (let w = (if is_moving (hero w)
               then (let w = w\<lparr>frame_counter := frame_counter w + 1\<rparr> in
                     if frame_counter w > 16 then w\<lparr>frame_counter := 0\<rparr> else w)
               else w\<lparr>current_frame := 0\<rparr>) in
      case hero_frame (frame_counter w) of
        None \<Rightarrow> Some w
      | Some xpm \<Rightarrow> do {
          x \<leftarrow> int_of_double (pos_x (hero w));
          y \<leftarrow> int_of_double (pos_y (hero w));
          on_back (\<lambda>b. map_option snd (draw_xpm_at_pos_at_delta xpm_load (screen_mode w) (Some xpm)
              (word_of_int x) (word_of_int y) (delta (hero w)) b)) w
        })"

definition game_fog :: "world \<Rightarrow> world option" where
  "game_fog w =
     do {
       maze_buf \<leftarrow> maze_buffer (w_video w);
       on_back (game_draw_fov_circle (screen_mode w) (pos_x (hero w)) (pos_y (hero w)) maze_buf) w
     }"

text \<open>XResolution / 2 and YResolution / 2.\<close>

abbreviation mid_x :: "world \<Rightarrow> int" where
  "mid_x w \<equiv> x_res (screen_mode w) div 2"

abbreviation mid_y :: "world \<Rightarrow> int" where
  "mid_y w \<equiv> y_res (screen_mode w) div 2"

definition waiting_frame :: "xpm_loader \<Rightarrow> world \<Rightarrow> world option" where
  "waiting_frame xpm_load w =
     do {
       w \<leftarrow> clear_back w;
       w \<leftarrow> put_text xpm_load ''Waiting for Player 2'' (mid_x w - 300) (mid_y w) 0xFFFFFFFF w;
       swap_buffers w
     }"

definition running_frame ::
  "'k kernel \<Rightarrow> xpm_loader \<Rightarrow> queue_alloc \<Rightarrow> world \<Rightarrow> 'k \<Rightarrow> (world \<times> 'k) option" where
  "running_frame K xpm_load a w k =
     do {
       let w = w\<lparr>hero := game_check_bound (screen_mode w) (hero w)\<rparr>;
       w \<leftarrow> clear_back w;
       w \<leftarrow> game_fog w;
       w \<leftarrow> game_draw_hero xpm_load w;
       w \<leftarrow> game_draw_cursor xpm_load w;
       (w, k) \<leftarrow> (if check_game_end (w_maze w) (hero w)
          then (let w = w\<lparr>gameState := Finish, won := True\<rparr> in
                if isMultiplayer w then send_char K a CHR ''L'' w k else Some (w, k))
          else Some (w, k));
       w \<leftarrow> swap_buffers w;
       Some (w, k)
     }"

definition finish_frame :: "xpm_loader \<Rightarrow> world \<Rightarrow> world option" where
  "finish_frame xpm_load w =
     do {
       w \<leftarrow> clear_back w;
       w \<leftarrow> (if won w
          then do {
            w \<leftarrow> put_text xpm_load ''YOU WON'' (mid_x w - 200) 200 0xFFFFFFFF w;
            w \<leftarrow> put_text xpm_load ''Time'' (mid_x w - 200) 400 0xFFFFFFFF w;
            sec \<leftarrow> calculate_time (time_final w) (time_initial w);
            w \<leftarrow> put_text xpm_load (decimal sec) (mid_x w - 200) 500 0xFFFFFFFF w;
            w \<leftarrow> put_text xpm_load ''seconds'' (mid_x w - 200) 600 0xFFFFFFFF w;
            put_text xpm_load ''Press ESC to exit'' (mid_x w - 200) 700 0xFFFFFFFF w
          }
          else put_text xpm_load ''YOU LOST'' 500 500 0xFFFFFFFF w);
       swap_buffers w
     }"

definition game_main_loop ::
  "'k kernel \<Rightarrow> xpm_loader \<Rightarrow> queue_alloc \<Rightarrow> world \<Rightarrow> 'k \<Rightarrow> (world \<times> 'k) option" where
  "game_main_loop K xpm_load a w k =
     (case check_time K w k of (w, k) \<Rightarrow>
        if gameState w = Waiting then do { w \<leftarrow> waiting_frame xpm_load w; Some (w, k) }
        else if gameState w = Running then running_frame K xpm_load a w k
        else do { w \<leftarrow> finish_frame xpm_load w; Some (w, k) })"

definition info_main_loop :: "xpm_loader \<Rightarrow> world \<Rightarrow> world option" where
  "info_main_loop xpm_load w =
     do {
       w \<leftarrow> clear_back w;
       w \<leftarrow> put_title xpm_load ''How to Play'' (mid_x w - 330) (y_res (screen_mode w) div 10) w;
       w \<leftarrow> put_text xpm_load ''W - Move Forward'' (mid_x w - 240) 250 0xFFFFFFFF w;
       w \<leftarrow> put_text xpm_load ''A - Move Left'' (mid_x w - 195) 315 0xFFFFFFFF w;
       w \<leftarrow> put_text xpm_load ''S - Move Back'' (mid_x w - 195) 380 0xFFFFFFFF w;
       w \<leftarrow> put_text xpm_load ''D - Move Right'' (mid_x w - 210) 445 0xFFFFFFFF w;
       w \<leftarrow> put_text xpm_load ''Mouse Left - Aim Player'' (mid_x w - 345) 510 0xFFFFFFFF w;
       w \<leftarrow> put_text xpm_load ''ESC - Go back to the menu'' (mid_x w - 375) 575 0xFFFFFFFF w;
       swap_buffers w
     }"

subsection \<open>Elapsed time\<close>

text \<open>A number as the clock keeps it: one decimal digit per half byte.\<close>

definition bcd :: "int \<Rightarrow> u32" where
  "bcd v = word_of_int (16 * (v div 10) + v mod 10)"

definition stamp :: "int \<Rightarrow> int \<Rightarrow> int \<Rightarrow> time_el" where
  "stamp h m s = \<lparr>seconds = bcd s, minutes = bcd m, hours = bcd h\<rparr>"

lemma stamp_values: "list_all (\<lambda>v. stamp_value (bcd v) = Some v) [0..59]"
  by code_simp

lemma stamp_value_bcd: "0 \<le> v \<Longrightarrow> v < 60 \<Longrightarrow> stamp_value (bcd v) = Some v"
  using stamp_values by (auto simp: list_all_iff)

text \<open>C29: for two readings of the clock, which keeps its numbers in BCD, calculate_time is the difference of
  the two times of day in seconds; a game that ends after midnight gets a negative time.\<close>

theorem elapsed_time:
  assumes "0 \<le> h" "h < 24" "0 \<le> m" "m < 60" "0 \<le> s" "s < 60"
    and "0 \<le> h'" "h' < 24" "0 \<le> m'" "m' < 60" "0 \<le> s'" "s' < 60"
  shows "calculate_time (stamp h' m' s') (stamp h m s) =
    Some ((h' * 3600 + m' * 60 + s') - (h * 3600 + m * 60 + s))"
  using assms by (simp add: calculate_time_def stamp_def stamp_value_bcd)

theorem elapsed_time_witness:
  "calculate_time (stamp 0 0 7) (stamp 23 59 58) = Some (- 86391) \<and>
   calculate_time (stamp 10 5 7) (stamp 10 4 58) = Some 9"
  using elapsed_time [of 23 59 58 0 0 7] elapsed_time [of 10 4 58 10 5 7] by simp

end
