(* ===== verification/Menu_Model.thy ===== *)
theory Menu_Model
  imports Game_World
begin

text \<open>
  The menu, game/menu.c: its buttons, the cursor, and what a click on a button does. The function
  pointer onClick is one of the four handlers, named by the datatype handler; calling it, or reading
  a label, through NULL is undefined.

  handler_at says which button lies under a point; the four buttons of the menu are shown not to
  overlap, so a click starts at most one handler.
\<close>

definition MAX_BUTTONS :: int where
  "MAX_BUTTONS = 10"

definition menu_mouse_handler :: "world \<Rightarrow> world" where
  "menu_mouse_handler w =
     (let mp = mouse_packet (w_mouse w);
          p = hero w;
          p = p\<lparr>x_mouse := x_mouse p + of_int (sint (delta_x mp)) * 0.5\<rparr>;
          p = p\<lparr>y_mouse := y_mouse p - of_int (sint (delta_y mp)) * 0.5\<rparr>;
          p = (if x_mouse p > of_int (x_res (screen_mode w))
               then p\<lparr>x_mouse := of_int (x_res (screen_mode w))\<rparr> else p);
          p = (if y_mouse p > of_int (y_res (screen_mode w))
               then p\<lparr>y_mouse := of_int (y_res (screen_mode w))\<rparr> else p);
          p = (if x_mouse p < 0 then p\<lparr>x_mouse := 0\<rparr> else p);
          p = (if y_mouse p < 0 then p\<lparr>y_mouse := 0\<rparr> else p) in
      w\<lparr>hero := p\<rparr>)"

definition create_button ::
  "int \<Rightarrow> int \<Rightarrow> int \<Rightarrow> int \<Rightarrow> string option \<Rightarrow> handler option \<Rightarrow> world \<Rightarrow> world option" where
  "create_button x y width height label click w =
     (if button_count w < MAX_BUTTONS
      then do {
        guard_ub (0 \<le> button_count w \<and> button_count w < int (length (buttons w)));
        Some (w\<lparr>buttons := (buttons w)[nat (button_count w) :=
                  \<lparr>b_x = x, b_y = y, b_width = width, b_height = height, b_label = label, onClick = click\<rparr>],
                button_count := button_count w + 1\<rparr>)
      }
      else Some w)"

definition is_button_pressed :: "button \<Rightarrow> int \<Rightarrow> int \<Rightarrow> bool option" where
  "is_button_pressed b mouse_x mouse_y =
     (if mouse_x \<ge> b_x b then do {
        right \<leftarrow> c_int (b_x b + b_width b);
        if mouse_x \<le> right \<and> mouse_y \<ge> b_y b then do {
          bottom \<leftarrow> c_int (b_y b + b_height b);
          Some (mouse_y \<le> bottom)
        } else Some False
      } else Some False)"

definition draw_button :: "xpm_loader \<Rightarrow> button \<Rightarrow> world \<Rightarrow> world option" where
  "draw_button xpm_load b w =
     do {
       mx \<leftarrow> int_of_double (x_mouse (hero w));
       my \<leftarrow> int_of_double (y_mouse (hero w));
       pressed \<leftarrow> is_button_pressed b mx my;
       let (button_color, background_color) = (if pressed then (0x000000, 0xFF0000) else (0xFF0000 :: u32, 0x000000));
       w \<leftarrow> on_back (draw_rectangle (screen_mode w) (b_x b) (b_y b) (b_width b) (b_height b) background_color) w;
       label \<leftarrow> b_label b;
       let padding = 20;
       let text_width = int (length label) * 30;
       let text_height = 20;
       let text_x = b_x b + padding + (b_width b - 2 * padding) sdiv 2 - text_width sdiv 2;
       let text_y = b_y b + padding + (b_height b - 2 * padding) sdiv 2 - text_height sdiv 2;
       if button_color = 0xFF0000 then put_text xpm_load label text_x text_y 0xFFFFFFFF w
       else put_text xpm_load label text_x text_y 0x000000 w
     }"

text \<open>buttons[i].\<close>

definition button_nr :: "world \<Rightarrow> int \<Rightarrow> button option" where
  "button_nr w i =
     (if 0 \<le> i \<and> i < int (length (buttons w)) then Some (buttons w ! nat i) else None)"

definition draw_buttons :: "xpm_loader \<Rightarrow> world \<Rightarrow> world option" where
  "draw_buttons xpm_load w =
     for_each (\<lambda>i w. do { b \<leftarrow> button_nr w i; draw_button xpm_load b w }) [0..button_count w - 1] w"

definition menu_draw_cursor :: "xpm_loader \<Rightarrow> world \<Rightarrow> world option" where
  "menu_draw_cursor xpm_load w =
     do {
       x \<leftarrow> int_of_double (x_mouse (hero w));
       y \<leftarrow> int_of_double (y_mouse (hero w));
       on_back (draw_xpm_at_pos xpm_load (screen_mode w) (Some cursor_xpm) (word_of_int x) (word_of_int y)) w
     }"

definition single_player :: "world \<Rightarrow> world" where
  "single_player w = w\<lparr>state := Game, isMultiplayer := False, gameState := Running\<rparr>"

definition multiple_player :: "'k kernel \<Rightarrow> queue_alloc \<Rightarrow> world \<Rightarrow> 'k \<Rightarrow> (world \<times> 'k) option" where
  "multiple_player K a w k =
     (let w = w\<lparr>state := Game, isMultiplayer := True\<rparr> in
      if host w then send_char K a CHR ''M'' w k else send_char K a CHR ''S'' w k)"

definition how_to :: "world \<Rightarrow> world" where
  "how_to w = w\<lparr>state := HowTo\<rparr>"

definition exit_game :: "world \<Rightarrow> world" where
  "exit_game w = w\<lparr>running := False\<rparr>"

text \<open>The call of onClick.\<close>

fun call_handler :: "'k kernel \<Rightarrow> queue_alloc \<Rightarrow> handler option \<Rightarrow> world \<Rightarrow> 'k \<Rightarrow> (world \<times> 'k) option" where
  "call_handler K a None w k = None"
| "call_handler K a (Some Single_Player) w k = Some (single_player w, k)"
| "call_handler K a (Some Multiple_Player) w k = multiple_player K a w k"
| "call_handler K a (Some How_To) w k = Some (how_to w, k)"
| "call_handler K a (Some Exit_Game) w k = Some (exit_game w, k)"

definition click_button ::
  "'k kernel \<Rightarrow> queue_alloc \<Rightarrow> int \<Rightarrow> int \<Rightarrow> int \<Rightarrow> world \<times> 'k \<Rightarrow> (world \<times> 'k) option" where
  "click_button K a mouse_x mouse_y i = (\<lambda>(w, k). do {
     b \<leftarrow> button_nr w i;
     pressed \<leftarrow> is_button_pressed b mouse_x mouse_y;
     if pressed \<and> lb (mouse_packet (w_mouse w)) then call_handler K a (onClick b) w k else Some (w, k)
   })"

definition handle_mouse_click ::
  "'k kernel \<Rightarrow> queue_alloc \<Rightarrow> int \<Rightarrow> int \<Rightarrow> world \<Rightarrow> 'k \<Rightarrow> (world \<times> 'k) option" where
  "handle_mouse_click K a mouse_x mouse_y w k =
     for_each (click_button K a mouse_x mouse_y) [0..button_count w - 1] (w, k)"

text \<open>The four buttons, created in the first frame of the menu.\<close>

definition create_buttons :: "world \<Rightarrow> world option" where
  "create_buttons w =
     (let x = x_res (screen_mode w) div 2 - 200; h = y_res (screen_mode w) in
      do {
        w \<leftarrow> create_button x (h * 1 div 5 + 100) 400 50 (Some ''SinglePlayer'') (Some Single_Player) w;
        w \<leftarrow> create_button x (h * 2 div 5 + 100) 400 50 (Some ''MultiPlayer'') (Some Multiple_Player) w;
        w \<leftarrow> create_button x (h * 3 div 5 + 100) 400 50 (Some ''How to Play'') (Some How_To) w;
        create_button x (h * 4 div 5 + 100) 400 50 (Some ''Exit'') (Some Exit_Game) w
      })"

definition menu_main_loop ::
  "'k kernel \<Rightarrow> xpm_loader \<Rightarrow> queue_alloc \<Rightarrow> world \<Rightarrow> 'k \<Rightarrow> (world \<times> 'k) option" where
  "menu_main_loop K xpm_load a w k =
     do {
       w \<leftarrow> (if button_count w < 1 then create_buttons w else Some w);
       w \<leftarrow> clear_back w;
       w \<leftarrow> put_title xpm_load ''LCOMaze'' (mid_x w - 200) (y_res (screen_mode w) div 10) w;
       mx \<leftarrow> int_of_double (x_mouse (hero w));
       my \<leftarrow> int_of_double (y_mouse (hero w));
       (w, k) \<leftarrow> handle_mouse_click K a mx my w k;
       w \<leftarrow> draw_buttons xpm_load w;
       w \<leftarrow> menu_draw_cursor xpm_load w;
       w \<leftarrow> swap_buffers w;
       Some (w, k)
     }"

declare MAX_BUTTONS_def [model_defs]

subsection \<open>The four buttons\<close>

definition menu_buttons :: "vbe_mode_info \<Rightarrow> button list" where
  "menu_buttons mi = map (\<lambda>(n, label, h). \<lparr>b_x = x_res mi div 2 - 200, b_y = y_res mi * n div 5 + 100,
       b_width = 400, b_height = 50, b_label = Some label, onClick = Some h\<rparr>)
     [(1, ''SinglePlayer'', Single_Player), (2, ''MultiPlayer'', Multiple_Player),
      (3, ''How to Play'', How_To), (4, ''Exit'', Exit_Game)]"

definition menu_ready :: "world \<Rightarrow> bool" where
  "menu_ready w \<longleftrightarrow> button_count w = 4 \<and> length (buttons w) = 10 \<and>
     take 4 (buttons w) = menu_buttons (screen_mode w)"

lemma create_buttons_run:
  assumes "length (buttons w) = 10" and "button_count w = 0"
  shows "create_buttons w = Some (w\<lparr>buttons := menu_buttons (screen_mode w) @ drop 4 (buttons w), button_count := 4\<rparr>)"
proof -
  obtain b0 b1 b2 b3 bs where "buttons w = b0 # b1 # b2 # b3 # bs"
    using assms(1) by (auto simp: length_Suc_conv numeral_eq_Suc)
  with assms show ?thesis
    by (simp add: create_buttons_def create_button_def MAX_BUTTONS_def menu_buttons_def Let_def)
qed

text \<open>The function of the button that a point lies on.\<close>

definition handler_at :: "vbe_mode_info \<Rightarrow> int \<Rightarrow> int \<Rightarrow> handler option" where
  "handler_at mi mx my =
     (let on = (\<lambda>n. \<bar>mx - x_res mi div 2\<bar> \<le> 200 \<and> y_res mi * n div 5 + 100 \<le> my \<and> my \<le> y_res mi * n div 5 + 150) in
      if on 1 then Some Single_Player else if on 2 then Some Multiple_Player
      else if on 3 then Some How_To else if on 4 then Some Exit_Game else None)"

lemma send_char_frame:
  assumes "send_char K a c w k = Some (w', k')"
  shows "\<exists>s. w' = w\<lparr>w_serial := s\<rparr>"
  using assms by (auto simp: send_char_def elim!: bind_SomeE split: prod.splits)

lemma call_handler_frame:
  assumes "call_handler K a h w k = Some (w', k')"
  shows "buttons w' = buttons w \<and> button_count w' = button_count w \<and> w_mouse w' = w_mouse w \<and>
    w_video w' = w_video w \<and> hero w' = hero w \<and> w_maze w' = w_maze w"
proof (cases "(K, a, h, w, k)" rule: call_handler.cases)
  case (3 K' a' w1 k1)
  then show ?thesis
    using assms by (auto simp: multiple_player_def Let_def split: if_splits dest!: send_char_frame)
qed (use assms in \<open>auto simp: single_player_def how_to_def exit_game_def\<close>)

lemma menu_button_pressed:
  assumes "n \<in> {1, 2, 3, 4}"
  shows "is_button_pressed \<lparr>b_x = x_res mi div 2 - 200, b_y = y_res mi * n div 5 + 100, b_width = 400,
      b_height = 50, b_label = l, onClick = h\<rparr> mx my =
    Some (\<bar>mx - x_res mi div 2\<bar> \<le> 200 \<and> y_res mi * n div 5 + 100 \<le> my \<and> my \<le> y_res mi * n div 5 + 150)"
proof -
  have n: "0 \<le> n" "n \<le> 4" using assms by auto
  have "y_res mi * n div 5 \<le> y_res mi * 4 div 5" using n(2) by (intro zdiv_mono1 mult_left_mono) simp_all
  moreover have "0 \<le> y_res mi * n div 5" using n(1) by (simp add: pos_imp_zdiv_nonneg_iff)
  moreover have "0 \<le> x_res mi div 2" "x_res mi div 2 \<le> 32767" "y_res mi * 4 div 5 \<le> 52428"
    using resolution_bounds [of mi] by simp_all
  ultimately show ?thesis by (auto simp: is_button_pressed_def abs_le_iff)
qed

lemma menu_rows:
  assumes "260 \<le> y_res mi"
  shows "y_res mi * 1 div 5 + 150 < y_res mi * 2 div 5 + 100"
    "y_res mi * 2 div 5 + 150 < y_res mi * 3 div 5 + 100"
    "y_res mi * 3 div 5 + 150 < y_res mi * 4 div 5 + 100"
proof -
  have step: "y * n div 5 + 150 < y * (n + 1) div 5 + 100" if "260 \<le> y" for y n :: int
  proof -
    have "(y * n + 52 * 5) div 5 \<le> y * (n + 1) div 5"
      using that by (intro zdiv_mono1) (simp_all add: distrib_left)
    then show ?thesis by simp
  qed
  show "y_res mi * 1 div 5 + 150 < y_res mi * 2 div 5 + 100"
    "y_res mi * 2 div 5 + 150 < y_res mi * 3 div 5 + 100"
    "y_res mi * 3 div 5 + 150 < y_res mi * 4 div 5 + 100"
    using step [OF assms, of 1] step [OF assms, of 2] step [OF assms, of 3] by simp_all
qed

text \<open>A pass of the loop over button n, given that it is the button the menu created there.\<close>

lemma click_menu_button:
  assumes "menu_ready w" and "n \<in> {0, 1, 2, 3}"
  shows "click_button K a mx my n (w, k) =
    (if \<bar>mx - x_res (screen_mode w) div 2\<bar> \<le> 200 \<and> y_res (screen_mode w) * (n + 1) div 5 + 100 \<le> my \<and>
        my \<le> y_res (screen_mode w) * (n + 1) div 5 + 150 \<and> lb (mouse_packet (w_mouse w))
     then call_handler K a (Some ([Single_Player, Multiple_Player, How_To, Exit_Game] ! nat n)) w k
     else Some (w, k))"
proof -
  have "nat n < 4" using assms(2) by auto
  then have "buttons w ! nat n = menu_buttons (screen_mode w) ! nat n"
    using assms(1) unfolding menu_ready_def by (metis nth_take)
  moreover have "0 \<le> n" "n < 10" using assms(2) by auto
  ultimately have b: "button_nr w n = Some (menu_buttons (screen_mode w) ! nat n)"
    using assms(1) by (simp add: button_nr_def menu_ready_def)
  show ?thesis
    using assms(2) menu_button_pressed [of "n + 1" "screen_mode w"]
    by (auto simp: click_button_def b menu_buttons_def)
qed

lemma call_handler_ready:
  "call_handler K a h w k = Some (w', k') \<Longrightarrow> menu_ready w \<Longrightarrow> menu_ready w' \<and>
     screen_mode w' = screen_mode w \<and> mouse_packet (w_mouse w') = mouse_packet (w_mouse w)"
  using call_handler_frame [of K a h w k w' k'] by (simp add: menu_ready_def)

text \<open>A frame of the menu with the left button down runs the handler of the button under the cursor,
  once, and no other; off the buttons, or without the button down, a click does nothing. The four
  buttons never overlap on a screen at least 260 pixels high.\<close>

lemma clicks_run:
  assumes "menu_ready w" and "260 \<le> y_res (screen_mode w)"
  shows "handle_mouse_click K a mx my w k =
    (if lb (mouse_packet (w_mouse w)) \<and> handler_at (screen_mode w) mx my \<noteq> None
     then call_handler K a (handler_at (screen_mode w) mx my) w k else Some (w, k))"
proof -
  let ?mi = "screen_mode w" and ?lb = "lb (mouse_packet (w_mouse w))"
  let ?h = "\<lambda>n. Some ([Single_Player, Multiple_Player, How_To, Exit_Game] ! nat n)"
  define on where "on = (\<lambda>n. \<bar>mx - x_res ?mi div 2\<bar> \<le> 200 \<and> y_res ?mi * n div 5 + 100 \<le> my \<and>
    my \<le> y_res ?mi * n div 5 + 150)"
  define ok where "ok = (\<lambda>(w' :: world, k' :: 'a). menu_ready w' \<and> screen_mode w' = ?mi \<and>
    mouse_packet (w_mouse w') = mouse_packet (w_mouse w))"
  have pass: "click_button K a mx my n s = (if on (n + 1) \<and> ?lb then case_prod (call_handler K a (?h n)) s else Some s)"
    if "n \<in> set [0, 1, 2, 3]" "ok s" for n s
    using that click_menu_button [of "fst s" n K a mx my "snd s"] by (auto simp: ok_def on_def split: prod.splits)
  have keep: "ok s'" if "ok s" "case_prod (call_handler K a h) s = Some s'" for h s s'
    using that call_handler_ready [of K a h "fst s" "snd s" "fst s'" "snd s'"] by (auto simp: ok_def)
  have apart: "\<not> (on n \<and> on m)" if "y_res ?mi * n div 5 + 150 < y_res ?mi * m div 5 + 100" for n m
    using that by (auto simp: on_def)
  have on4: "\<not> (on 1 \<and> on 2)" "\<not> (on 1 \<and> on 3)" "\<not> (on 1 \<and> on 4)" "\<not> (on 2 \<and> on 3)" "\<not> (on 2 \<and> on 4)"
    "\<not> (on 3 \<and> on 4)"
    by (rule apart, use menu_rows [OF assms(2)] in linarith)+
  have here: "handler_at ?mi mx my = (if on 1 then Some Single_Player else if on 2 then Some Multiple_Player
      else if on 3 then Some How_To else if on 4 then Some Exit_Game else None)"
    by (simp only: handler_at_def on_def Let_def)
  have "handle_mouse_click K a mx my w k = for_each (click_button K a mx my) [0, 1, 2, 3] (w, k)"
    using assms(1) by (simp only: handle_mouse_click_def) (simp add: menu_ready_def upto.simps)
  also have "\<dots> = (case filter (\<lambda>n. on (n + 1) \<and> ?lb) [0, 1, 2, 3] of [] \<Rightarrow> Some (w, k)
      | n # _ \<Rightarrow> case_prod (call_handler K a (?h n)) (w, k))"
    by (rule for_each_one [where ok = ok]) (use pass keep on4 assms(1) in \<open>auto simp: ok_def\<close>)
  also have "\<dots> = (if ?lb \<and> handler_at ?mi mx my \<noteq> None then call_handler K a (handler_at ?mi mx my) w k else Some (w, k))"
    using on4 by (simp add: here)
  finally show ?thesis .
qed

definition exit_click_world :: world where
  "exit_click_world = start_world\<lparr>w_video := (w_video start_world)\<lparr>mode_info := mode_14c\<rparr>,
     w_mouse := idle_mouse\<lparr>mouse_packet := zero_packet\<lparr>lb := True\<rparr>\<rparr>,
     buttons := menu_buttons mode_14c @ drop 4 (buttons start_world), button_count := 4\<rparr>"

lemma clicks_run_witness:
  "handle_mouse_click tape_kernel (True, True, replicate 100 0) 576 800 exit_click_world (tape []) =
    Some (exit_game exit_click_world, tape [])"
proof -
  have "menu_ready exit_click_world" "260 \<le> y_res (screen_mode exit_click_world)"
    by (simp_all add: menu_ready_def exit_click_world_def start_world_def menu_buttons_def mode_14c_def Let_def)
  moreover have "lb (mouse_packet (w_mouse exit_click_world))"
    by (simp add: exit_click_world_def start_world_def Let_def)
  moreover have "handler_at (screen_mode exit_click_world) 576 800 = Some Exit_Game"
    by (simp add: handler_at_def exit_click_world_def start_world_def mode_14c_def Let_def)
  ultimately show ?thesis using clicks_run [of exit_click_world tape_kernel _ 576 800] by simp
qed

end
