(* ===== verification/Minix_Ipc.thy ===== *)
theory Minix_Ipc
  imports Maze_Prelude
begin

text \<open>
  The parts of MINIX's message passing that the main loop decides on: process endpoints
  (minix/endpoint.h, with the task numbers of minix/com.h) and the status word of a received
  message (minix/ipcconst.h). An endpoint is a process slot and a generation packed into one int.
\<close>

unbundle bit_operations_syntax

definition MAX_NR_TASKS :: int where
  "MAX_NR_TASKS = 1023"

definition ENDPOINT_GENERATION_SHIFT :: nat where
  "ENDPOINT_GENERATION_SHIFT = 15"

definition ENDPOINT_GENERATION_SIZE :: int where
  "ENDPOINT_GENERATION_SIZE = push_bit ENDPOINT_GENERATION_SHIFT 1"

definition ENDPOINT_MAX_GENERATION :: int where
  "ENDPOINT_MAX_GENERATION = INT_MAX sdiv ENDPOINT_GENERATION_SIZE - 1"

definition ENDPOINT_SLOT_TOP :: int where
  "ENDPOINT_SLOT_TOP = ENDPOINT_GENERATION_SIZE - MAX_NR_TASKS"

text \<open>ANY, NONE and SELF.\<close>

definition ANY_endpoint :: int where
  "ANY_endpoint = ENDPOINT_SLOT_TOP - 1"

definition NONE_endpoint :: int where
  "NONE_endpoint = ENDPOINT_SLOT_TOP - 2"

definition SELF_endpoint :: int where
  "SELF_endpoint = ENDPOINT_SLOT_TOP - 3"

definition MAX_NR_PROCS :: int where
  "MAX_NR_PROCS = ENDPOINT_SLOT_TOP - 3"

definition HARDWARE :: int where
  "HARDWARE = -1"

text \<open>_ENDPOINT, _ENDPOINT_G and _ENDPOINT_P. Shifting a negative value to the left is undefined in C.\<close>

definition ENDPOINT :: "int \<Rightarrow> int \<Rightarrow> int option" where
  "ENDPOINT g p =
     do {
       guard_ub (0 \<le> g);
       s \<leftarrow> c_int (push_bit ENDPOINT_GENERATION_SHIFT g);
       c_int (s + p)
     }"

definition ENDPOINT_G :: "int \<Rightarrow> int option" where
  "ENDPOINT_G e = do { s \<leftarrow> c_int (e + MAX_NR_TASKS); Some (drop_bit ENDPOINT_GENERATION_SHIFT s) }"

definition ENDPOINT_P :: "int \<Rightarrow> int option" where
  "ENDPOINT_P e =
     do {
       s \<leftarrow> c_int (e + MAX_NR_TASKS);
       Some ((s AND (ENDPOINT_GENERATION_SIZE - 1)) - MAX_NR_TASKS)
     }"

text \<open>The status of a received message: the call in the low six bits, flags from bit 16 on.\<close>

definition IPC_STATUS_CALL_MASK :: int where
  "IPC_STATUS_CALL_MASK = 0x3F"

definition IPC_STATUS_CALL :: "int \<Rightarrow> int" where
  "IPC_STATUS_CALL status = drop_bit 0 status AND IPC_STATUS_CALL_MASK"

definition IPC_STATUS_CALL_TO :: "int \<Rightarrow> int" where
  "IPC_STATUS_CALL_TO call = push_bit 0 (call AND IPC_STATUS_CALL_MASK)"

definition IPC_STATUS_FLAGS :: "int \<Rightarrow> int" where
  "IPC_STATUS_FLAGS flgs = push_bit 16 flgs"

definition IPC_STATUS_FLAGS_TEST :: "int \<Rightarrow> int \<Rightarrow> int" where
  "IPC_STATUS_FLAGS_TEST status flgs = drop_bit 16 status AND flgs"

text \<open>The numbers of the system calls.\<close>

datatype ipc_call = SEND | RECEIVE | SENDREC | NOTIFY | SENDNB | MINIX_KERNINFO | SENDA

fun ipc_call_number :: "ipc_call \<Rightarrow> int" where
  "ipc_call_number SEND = 1"
| "ipc_call_number RECEIVE = 2"
| "ipc_call_number SENDREC = 3"
| "ipc_call_number NOTIFY = 4"
| "ipc_call_number SENDNB = 5"
| "ipc_call_number MINIX_KERNINFO = 6"
| "ipc_call_number SENDA = 16"

definition is_ipc_notify :: "int \<Rightarrow> bool" where
  "is_ipc_notify ipc_status \<longleftrightarrow> IPC_STATUS_CALL ipc_status = ipc_call_number NOTIFY"

definition is_ipc_asynch :: "int \<Rightarrow> bool" where
  "is_ipc_asynch ipc_status \<longleftrightarrow>
     is_ipc_notify ipc_status \<or> IPC_STATUS_CALL ipc_status = ipc_call_number SENDA"

declare MAX_NR_TASKS_def [model_defs] ENDPOINT_GENERATION_SHIFT_def [model_defs]
  ENDPOINT_GENERATION_SIZE_def [model_defs] ENDPOINT_MAX_GENERATION_def [model_defs]
  ENDPOINT_SLOT_TOP_def [model_defs] ANY_endpoint_def [model_defs] NONE_endpoint_def [model_defs]
  SELF_endpoint_def [model_defs] MAX_NR_PROCS_def [model_defs] HARDWARE_def [model_defs]
  ENDPOINT_def [model_defs] ENDPOINT_G_def [model_defs] ENDPOINT_P_def [model_defs]
  IPC_STATUS_CALL_MASK_def [model_defs] IPC_STATUS_CALL_def [model_defs]
  IPC_STATUS_CALL_TO_def [model_defs] IPC_STATUS_FLAGS_def [model_defs]
  IPC_STATUS_FLAGS_TEST_def [model_defs] is_ipc_notify_def [model_defs] is_ipc_asynch_def [model_defs]

lemma endpoint_consts:
  "ENDPOINT_GENERATION_SIZE = 32768" "ENDPOINT_MAX_GENERATION = 65534" "ENDPOINT_SLOT_TOP = 31745"
  by (simp_all add: model_defs push_bit_eq_mult)

text \<open>C32: packing a generation and a process slot into an endpoint never overflows, and both are got
  back from it, for every generation up to the maximum and every slot in the range the constants
  allow, the special numbers ANY, NONE and SELF and the negative kernel tasks included.\<close>

theorem endpoint_roundtrip:
  assumes "0 \<le> g" and "g \<le> ENDPOINT_MAX_GENERATION"
    and "- MAX_NR_TASKS \<le> p" and "p < ENDPOINT_SLOT_TOP"
  shows "\<exists>e. ENDPOINT g p = Some e \<and> ENDPOINT_G e = Some g \<and> ENDPOINT_P e = Some p"
proof -
  let ?e = "g * 32768 + p"
  have le: "g * 32768 \<le> 65534 * 32768" "0 \<le> g * 32768" "0 \<le> p + 1023" "p + 1023 < 32768"
    using assms unfolding endpoint_consts by (simp_all add: MAX_NR_TASKS_def)
  then have small: "c_int (g * 32768) = Some (g * 32768)" "c_int ?e = Some ?e"
    "c_int (?e + 1023) = Some (?e + 1023)"
    by (simp_all add: c_int_def INT_MAX_def)
  have split: "?e + 1023 = (p + 1023) + g * 32768" by simp
  have "(?e + 1023) div 32768 = g" "(?e + 1023) mod 32768 = p + 1023"
    unfolding split using le(3,4) by simp_all
  moreover have "and (?e + 1023) 32767 = (?e + 1023) mod 32768"
    using take_bit_eq_mask [of 15 "?e + 1023"] by (simp add: mask_eq_exp_minus_1 take_bit_eq_mod)
  ultimately have "ENDPOINT_G ?e = Some g" "ENDPOINT_P ?e = Some p"
    using small(3)
    by (simp_all add: ENDPOINT_G_def ENDPOINT_P_def endpoint_consts MAX_NR_TASKS_def
        ENDPOINT_GENERATION_SHIFT_def drop_bit_eq_div)
  moreover have "ENDPOINT g p = Some ?e"
    using small assms(1) by (simp add: ENDPOINT_def ENDPOINT_GENERATION_SHIFT_def push_bit_eq_mult)
  ultimately show ?thesis by blast
qed

theorem endpoint_roundtrip_witness:
  "\<exists>e. ENDPOINT 7 HARDWARE = Some e \<and> ENDPOINT_G e = Some 7 \<and> ENDPOINT_P e = Some HARDWARE"
  using endpoint_roundtrip [of 7 HARDWARE] unfolding endpoint_consts
  by (simp add: HARDWARE_def MAX_NR_TASKS_def)

text \<open>A status word made from a call and flags gives both back.\<close>

lemma ipc_status_parts:
  assumes "0 \<le> flgs"
  shows "IPC_STATUS_CALL (IPC_STATUS_CALL_TO (ipc_call_number c) OR IPC_STATUS_FLAGS flgs) = ipc_call_number c"
    and "is_ipc_notify (IPC_STATUS_CALL_TO (ipc_call_number c) OR IPC_STATUS_FLAGS flgs) \<longleftrightarrow> c = NOTIFY"
proof -
  have call: "ipc_call_number c AND 63 = ipc_call_number c" by (cases c) simp_all
  have "push_bit 16 flgs AND 63 = (0 :: int)"
  proof -
    have "push_bit 16 flgs AND mask 6 = take_bit 6 (push_bit 16 flgs)" by (simp add: take_bit_eq_mask)
    also have "\<dots> = 0" by (simp add: take_bit_push_bit)
    finally show ?thesis by (simp add: mask_eq_exp_minus_1)
  qed
  then show 1: "IPC_STATUS_CALL (IPC_STATUS_CALL_TO (ipc_call_number c) OR IPC_STATUS_FLAGS flgs) = ipc_call_number c"
    using call by (simp add: IPC_STATUS_CALL_def IPC_STATUS_CALL_TO_def IPC_STATUS_FLAGS_def
        IPC_STATUS_CALL_MASK_def bit.conj_disj_distrib2)
  show "is_ipc_notify (IPC_STATUS_CALL_TO (ipc_call_number c) OR IPC_STATUS_FLAGS flgs) \<longleftrightarrow> c = NOTIFY"
    unfolding is_ipc_notify_def 1 by (cases c) simp_all
qed

end
