(* ===== verification/Main_Loop.thy ===== *)
theory Main_Loop
  imports Menu_Model Minix_Ipc
begin

text \<open>
  proj.c: the initialisation of proj_main_loop, its interrupt loop, and its end.

  driver_receive is a parameter: the loop is run on the list of what its calls give, one element per
  call. When the list ends while running still holds, the program waits for the next message.
  irq_sets holds the masks that the subscriptions returned; irq_hooks the hook ids that the kernel
  gave, which the drivers keep in global variables. The local variable c of the loop, the last char
  received, is part of its state.
\<close>

record irq_sets =
  irq_set_mouse :: u16
  irq_set_timer :: u8
  irq_set_kbd :: u16
  irq_set_rtc :: u16
  irq_set_serie :: u32

record irq_hooks =
  mouse_hook_id :: int
  timerHookId :: int
  kbd_hook_id :: int
  hook_id_rtc :: int
  sp_hook_id :: int

record received =
  receiver :: int
  ipc_status :: int
  m_source :: int
  interrupts :: "64 word"

subsection \<open>The interrupts\<close>

definition on_kbd :: "'k kernel \<Rightarrow> world \<Rightarrow> 'k \<Rightarrow> (world \<times> 'k) option" where
  "on_kbd K w k =
     (let (v, k) = kbd_ih K (kbd_value w) k;
          w = w\<lparr>kbd_value := v\<rparr>;
          w = (if kbd_value w = 0x81 then (game_reset w)\<lparr>state := Menu\<rparr> else w) in
      if state w = Game
      then do { p \<leftarrow> game_keyboard_handler (w_maze w) (kbd_value w) (hero w); Some (w\<lparr>hero := p\<rparr>, k) }
      else Some (w, k))"

definition on_mouse :: "'k kernel \<Rightarrow> world \<Rightarrow> 'k \<Rightarrow> (world \<times> 'k) option" where
  "on_mouse K w k =
     do {
       (m, k) \<leftarrow> mouse_interrupt K (w_mouse w) k;
       let w = w\<lparr>w_mouse := m\<rparr>;
       Some (if state w = Game then w\<lparr>hero := game_mouse_handler (mouse_packet m) (hero w)\<rparr>
             else if state w = Menu then menu_mouse_handler w
             else w, k)
     }"

definition on_timer :: "'k kernel \<Rightarrow> xpm_loader \<Rightarrow> queue_alloc \<Rightarrow> world \<Rightarrow> 'k \<Rightarrow> (world \<times> 'k) option" where
  "on_timer K xpm_load a w k =
     (if state w = Game then game_main_loop K xpm_load a w k
      else if state w = Menu then menu_main_loop K xpm_load a w k
      else if state w = HowTo then do { w \<leftarrow> info_main_loop xpm_load w; Some (w, k) }
      else Some (w, k))"

definition on_rtc :: "'k kernel \<Rightarrow> world \<Rightarrow> 'k \<Rightarrow> world \<times> 'k" where
  "on_rtc K w k = (case update K (time_stamp w) k of (t, k) \<Rightarrow> (w\<lparr>time_stamp := t\<rparr>, k))"

text \<open>What the char c makes the game do.\<close>

definition on_char :: "'k kernel \<Rightarrow> queue_alloc \<Rightarrow> u8 \<Rightarrow> world \<Rightarrow> 'k \<Rightarrow> (world \<times> 'k) option" where
  "on_char K a c w k =
     do {
       (w, k) \<leftarrow> (if c = of_char CHR ''M'' \<and> \<not> host w \<and> can_enter_multiplayer w
                   then game_activate_multiplayer K a w k else Some (w, k));
       (w, k) \<leftarrow> (if c = of_char CHR ''S'' \<and> host w
                   then game_activate_multiplayer K a w k else Some (w, k));
       Some (if c = of_char CHR ''L'' \<and> can_lose w then game_lose w else w, k)
     }"

definition on_serial :: "'k kernel \<Rightarrow> queue_alloc \<Rightarrow> u8 \<Rightarrow> world \<Rightarrow> 'k \<Rightarrow> (u8 \<times> world \<times> 'k) option" where
  "on_serial K a c w k =
     do {
       (c, s, k) \<leftarrow> receive K c (w_serial w) k;
       (w, k) \<leftarrow> on_char K a c (w\<lparr>w_serial := s\<rparr>) k;
       s \<leftarrow> clear_receive_queue (w_serial w);
       Some (c, w\<lparr>w_serial := s\<rparr>, k)
     }"

definition raised :: "64 word \<Rightarrow> 'a::len word \<Rightarrow> bool" where
  "raised ints irq \<longleftrightarrow> ints AND ucast irq \<noteq> 0"

definition on_notify ::
  "'k kernel \<Rightarrow> xpm_loader \<Rightarrow> queue_alloc \<Rightarrow> irq_sets \<Rightarrow> 64 word \<Rightarrow> u8 \<Rightarrow> world \<Rightarrow> 'k \<Rightarrow> (u8 \<times> world \<times> 'k) option" where
  "on_notify K xpm_load a irqs ints c w k =
     do {
       (w, k) \<leftarrow> (if raised ints (irq_set_kbd irqs) then on_kbd K w k else Some (w, k));
       (w, k) \<leftarrow> (if raised ints (irq_set_mouse irqs) then on_mouse K w k else Some (w, k));
       (w, k) \<leftarrow> (if raised ints (irq_set_timer irqs) then on_timer K xpm_load a w k else Some (w, k));
       (w, k) \<leftarrow> Some (if raised ints (irq_set_rtc irqs) then on_rtc K w k else (w, k));
       if raised ints (irq_set_serie irqs) \<and> c \<noteq> 0 then on_serial K a c w k else Some (c, w, k)
     }"

subsection \<open>The loop\<close>

datatype 'k loop_end = Waits u8 world 'k | Stopped u8 world 'k | Failed int world 'k

fun interrupt_loop ::
  "'k kernel \<Rightarrow> xpm_loader \<Rightarrow> queue_alloc \<Rightarrow> irq_sets \<Rightarrow> received list \<Rightarrow> u8 \<Rightarrow> world \<Rightarrow> 'k \<Rightarrow> 'k loop_end option" where
  "interrupt_loop K xpm_load a irqs msgs c w k =
     (if \<not> running w then Some (Stopped c w k)
      else case msgs of
        [] \<Rightarrow> Some (Waits c w k)
      | r # msgs \<Rightarrow>
          if receiver r \<noteq> 0 then Some (Failed 1 w k)
          else if is_ipc_notify (ipc_status r)
          then do {
            slot \<leftarrow> ENDPOINT_P (m_source r);
            if slot = HARDWARE
            then do {
              (c, w, k) \<leftarrow> on_notify K xpm_load a irqs (interrupts r) c w k;
              interrupt_loop K xpm_load a irqs msgs c w k
            }
            else interrupt_loop K xpm_load a irqs msgs c w k
          }
          else interrupt_loop K xpm_load a irqs msgs c w k)"

declare interrupt_loop.simps [simp del]

subsection \<open>Before and after the loop\<close>

text \<open>strncmp(s, t, n) = 0 for strings without NUL.\<close>

definition same_prefix :: "nat \<Rightarrow> string \<Rightarrow> string \<Rightarrow> bool" where
  "same_prefix n s t \<longleftrightarrow> take n s = take n t"

text \<open>What the initialisation gives: a code to return, or the state in which the loop starts.\<close>

type_synonym 'k started = "(int \<times> 'k) + (world \<times> irq_sets \<times> irq_hooks \<times> 'k)"

definition proj_start ::
  "'k kernel \<Rightarrow> 'k video_kernel \<Rightarrow> (nat \<Rightarrow> nat) \<Rightarrow> (cell_id \<Rightarrow> cell) \<Rightarrow> queue_alloc \<Rightarrow> queue_alloc \<Rightarrow>
     irq_hooks \<Rightarrow> string list \<Rightarrow> world \<Rightarrow> 'k \<Rightarrow> 'k started option" where
  "proj_start K V rnd junk a1 a2 hooks argv w k =
     (if int (length argv) < 1 then Some (Inl (1, k))
      else
        (let w = w\<lparr>host := same_prefix 4 (argv ! 0) ''host''\<rparr>;
             (err, m_set, m_hook, k) = mouse_subscribe_int K (mouse_hook_id hooks) (Some 0) k in
         if err \<noteq> 0 then Some (Inl (1, k))
         else
           (let (err, k_set, k_hook, k) = kbd_subscribe_int K (kbd_hook_id hooks) (Some 0) k in
            if err \<noteq> 0 then Some (Inl (1, k))
            else
              (let (err, k) = mouse_send_command K 0xF4 k in
               if err \<noteq> 0 then Some (Inl (1, k))
               else do {
                 (err, v, k) \<leftarrow> setFrameBuffer V 0x14C (w_video w) k;
                 let w = w\<lparr>w_video := v\<rparr>;
                 if err \<noteq> 0 then Some (Inl (1, k))
                 else
                   (let (err, k) = setGraphicsMode V 0x14C k in
                    if err \<noteq> 0 then Some (Inl (1, k))
                    else
                      (let (err, k) = timer_set_frequency K 0 45 k in
                       if err \<noteq> 0 then Some (Inl (1, k))
                       else
                         (let (err, t_set, t_hook, k) = timer_subscribe_int K (timerHookId hooks) (Some 0) k in
                          if err \<noteq> 0 then Some (Inl (1, k))
                          else
                            (let (err, k) = set_update K k in
                             if err \<noteq> 0 then Some (Inl (1, k))
                             else
                               (let (err, r_set, r_hook, k) = subscribe_rtc K (hook_id_rtc hooks) k in
                                if err \<noteq> 0 then Some (Inl (1, k))
                                else
                                  (let (_, k) = sp_enable_int K 0x3f8 (ucast (BIT 0)) k;
                                       (err, s_set, s_hook, s, k) =
                                         sp_subscribe_int K a1 a2 0x3f8 (Some 0) (sp_hook_id hooks) (w_serial w) k;
                                       w = w\<lparr>w_serial := s\<rparr> in
                                   if err \<noteq> 0 then Some (Inl (-1, k))
                                   else do {
                                     (w, k) \<leftarrow> init_game V rnd junk w k;
                                     Some (Inr (w,
                                       \<lparr>irq_set_mouse = the m_set, irq_set_timer = the t_set, irq_set_kbd = the k_set,
                                        irq_set_rtc = r_set, irq_set_serie = the s_set\<rparr>,
                                       \<lparr>mouse_hook_id = m_hook, timerHookId = t_hook, kbd_hook_id = k_hook,
                                        hook_id_rtc = r_hook, sp_hook_id = s_hook\<rparr>, k))
                                   }))))))
               }))))"

definition proj_stop :: "'k kernel \<Rightarrow> 'k video_kernel \<Rightarrow> irq_hooks \<Rightarrow> 'k \<Rightarrow> int \<times> 'k" where
  "proj_stop K V hooks k =
     (let (err, k) = kbd_unsubscribe_int K (kbd_hook_id hooks) k in
      if err \<noteq> 0 then (1, k)
      else
        (let (err, k) = mouse_send_command K 0xF5 k in
         if err \<noteq> 0 then (1, k)
         else
           (let (err, k) = mouse_unsubscribe_int K (mouse_hook_id hooks) k in
            if err \<noteq> 0 then (1, k)
            else
              (let (err, k) = timer_unsubscribe_int K (timerHookId hooks) k in
               if err \<noteq> 0 then (1, k)
               else
                 (let (err, k) = unsubscribe_rtc K (hook_id_rtc hooks) k in
                  if err \<noteq> 0 then (1, k)
                  else
                    (let (err, k) = clean_update K k in
                     if err \<noteq> 0 then (1, k)
                     else (let (_, k) = sp_unsubscribe K (sp_hook_id hooks) k in vg_exit_to_text V k)))))))"

datatype 'k program_end = Returns int 'k | Waits_For_Message u8 world 'k

definition proj_main_loop ::
  "'k kernel \<Rightarrow> 'k video_kernel \<Rightarrow> xpm_loader \<Rightarrow> (nat \<Rightarrow> nat) \<Rightarrow> (cell_id \<Rightarrow> cell) \<Rightarrow> queue_alloc \<Rightarrow> queue_alloc \<Rightarrow>
     queue_alloc \<Rightarrow> irq_hooks \<Rightarrow> string list \<Rightarrow> received list \<Rightarrow> world \<Rightarrow> 'k \<Rightarrow> 'k program_end option" where
  "proj_main_loop K V xpm_load rnd junk a1 a2 a hooks argv msgs w k =
     do {
       started \<leftarrow> proj_start K V rnd junk a1 a2 hooks argv w k;
       case started of
         Inl (err, k) \<Rightarrow> Some (Returns err k)
       | Inr (w, irqs, hooks, k) \<Rightarrow> do {
           r \<leftarrow> interrupt_loop K xpm_load a irqs msgs 1 w k;
           case r of
             Waits c w k \<Rightarrow> Some (Waits_For_Message c w k)
           | Failed err w k \<Rightarrow> Some (Returns err k)
           | Stopped c w k \<Rightarrow> (case proj_stop K V hooks k of (err, k) \<Rightarrow> Some (Returns err k))
         }
     }"

text \<open>The hook ids as the program starts.\<close>

definition start_hooks :: irq_hooks where
  "start_hooks = \<lparr>mouse_hook_id = 12, timerHookId = 0, kbd_hook_id = 7, hook_id_rtc = 8, sp_hook_id = 0\<rparr>"

subsection \<open>binary_to_decimal\<close>

text \<open>The accumulator is an int; rem * pow(2, temp) is a double, whose sum with it is converted back.\<close>

function binary_loop :: "int \<Rightarrow> nat \<Rightarrow> int \<Rightarrow> int option" where
  "binary_loop bin_num temp decimal_num =
     (if bin_num \<noteq> 0
      then do {
        decimal_num \<leftarrow> c_int (decimal_num + (bin_num smod 10) * 2 ^ temp);
        binary_loop (bin_num sdiv 10) (temp + 1) decimal_num
      }
      else Some decimal_num)"
  by auto
termination
proof (relation "measure (\<lambda>(n, _, _). nat \<bar>n\<bar>)")
  show "wf (measure (\<lambda>(n :: int, _ :: nat, _ :: int). nat \<bar>n\<bar>))" by simp
next
  fix n t d x
  assume "n \<noteq> (0 :: int)"
  then have "\<bar>n sdiv 10\<bar> < \<bar>n\<bar>" by (auto simp: signed_divide_int_def sgn_if)
  then show "((n sdiv 10, t + 1, x), n, t, d) \<in> measure (\<lambda>(n, _, _). nat \<bar>n\<bar>)"
    using \<open>n \<noteq> 0\<close> by simp
qed

declare binary_loop.simps [simp del]

definition binary_to_decimal :: "int \<Rightarrow> int option" where
  "binary_to_decimal bin_num = binary_loop bin_num 0 0"

end
