(* ===== verification/Drawing_Safety.thy ===== *)
theory Drawing_Safety
  imports Main_Loop
begin

text \<open>
  No drawing operation leaves its buffer, wherever on or off the screen it draws.

  keeps mi f says that f, on a buffer of the size of the screen, is defined and gives a buffer of that
  size. Every operation of graphics.c, maze.c and game.c that draws is shown to have this property; pixels
  beyond the screen are refused by vg_draw_pixel, and coordinates wrap around at 16 bits.
\<close>

definition keeps :: "vbe_mode_info \<Rightarrow> (u8 list \<Rightarrow> u8 list option) \<Rightarrow> bool" where
  "keeps mi f \<longleftrightarrow> (\<forall>buf. frame_ok mi buf \<longrightarrow> (\<exists>buf'. f buf = Some buf' \<and> frame_ok mi buf'))"

named_theorems keep_rules \<open>introduction rules for keeps\<close>

lemma keepsI: "(\<And>buf. frame_ok mi buf \<Longrightarrow> \<exists>buf'. f buf = Some buf' \<and> frame_ok mi buf') \<Longrightarrow> keeps mi f"
  by (simp add: keeps_def)

lemma keepsD: "keeps mi f \<Longrightarrow> frame_ok mi buf \<Longrightarrow> \<exists>buf'. f buf = Some buf' \<and> frame_ok mi buf'"
  by (simp add: keeps_def)

lemma keeps_some [keep_rules]: "keeps mi Some"
  by (simp add: keeps_def)

lemma keeps_bind [keep_rules]: "keeps mi f \<Longrightarrow> keeps mi g \<Longrightarrow> keeps mi (\<lambda>buf. f buf \<bind> g)"
  unfolding keeps_def by fastforce

lemma keeps_if [keep_rules]: "(c \<Longrightarrow> keeps mi f) \<Longrightarrow> (\<not> c \<Longrightarrow> keeps mi g) \<Longrightarrow> keeps mi (\<lambda>buf. if c then f buf else g buf)"
  by (simp add: keeps_def)

lemma keeps_for_each [keep_rules]:
  assumes "\<And>x. x \<in> set xs \<Longrightarrow> keeps mi (f x)"
  shows "keeps mi (for_each f xs)"
proof (rule keepsI)
  fix buf
  assume "frame_ok mi buf"
  then show "\<exists>buf'. for_each f xs buf = Some buf' \<and> frame_ok mi buf'"
    using assms
  proof (induction xs arbitrary: buf)
    case (Cons x xs)
    obtain buf1 where "f x buf = Some buf1" "frame_ok mi buf1"
      using keepsD [OF Cons.prems(2) Cons.prems(1)] by auto
    with Cons.IH [OF this(2)] Cons.prems(2) show ?case by auto
  qed simp
qed

subsection \<open>Pixels and rectangles\<close>

lemma keeps_pixel: "keeps mi (\<lambda>buf. map_option snd (vg_draw_pixel mi x y color buf))"
proof (rule keepsI)
  fix buf
  assume ok: "frame_ok mi buf"
  show "\<exists>buf'. map_option snd (vg_draw_pixel mi x y color buf) = Some buf' \<and> frame_ok mi buf'"
  proof (cases "on_screen mi (uint x) (uint y)")
    case True
    from draw_pixel_on [OF ok True, of color] show ?thesis by (metis option.map(2) snd_conv)
  next
    case False
    with ok draw_pixel_off [OF False] show ?thesis by simp
  qed
qed

lemma keeps_put_pixel [keep_rules]: "keeps mi (put_pixel mi a b color)"
  unfolding put_pixel_def by (rule keeps_pixel)

lemma keeps_rectangle [keep_rules]:
  assumes "0 < h" "h < 65536"
  shows "keeps mi (draw_rectangle mi x y w h color)"
proof (rule keepsI)
  fix buf
  assume ok: "frame_ok mi buf"
  have "uint (word_of_int h :: u16) = h" using assms by (simp only: uint_word_of_int) simp
  then have "uint (word_of_int y :: u16) < uint (word_of_int h :: u16) + uint (word_of_int y :: u16)"
    using assms(1) by simp
  from columns_exact [OF ok this, of "word_of_int x" "uint (word_of_int w :: u16) + uint (word_of_int x :: u16)" color]
  show "\<exists>buf'. draw_rectangle mi x y w h color buf = Some buf' \<and> frame_ok mi buf'"
    unfolding draw_rectangle_def vg_draw_rectangle_to_buffer_def by (elim exE conjE) simp
qed

lemma keeps_clear [keep_rules]: "bpp = word_of_int (bytes_per_pixel mi) \<Longrightarrow> keeps mi (clear mi bpp)"
  using clear_exact by (auto simp: keeps_def frame_ok_def)

lemma keeps_fov [keep_rules]: "frame_ok mi src \<Longrightarrow> keeps mi (game_draw_fov_circle mi x y src)"
  using fov_exact by (fastforce simp: keeps_def)

subsection \<open>Images and texts\<close>

lemma keeps_sprite [keep_rules]:
  assumes img: "image_ok (xpm_load xpm) px"
  shows "keeps mi (draw_xpm_at_pos xpm_load mi xpm x y)"
  unfolding draw_xpm_at_pos_def Let_def
proof (intro keeps_for_each)
  fix i j
  assume "i \<in> set [0..uint (img_h (xpm_load xpm)) - 1]" "j \<in> set [0..uint (img_w (xpm_load xpm)) - 1]"
  then have "map_at (xpm_load xpm) i j = Some (px ! nat (i * uint (img_w (xpm_load xpm)) + j))"
    by (intro map_at_ok [OF img]) auto
  then show "keeps mi (\<lambda>back. do {
      color \<leftarrow> map_at (xpm_load xpm) i j;
      if color \<noteq> 0x00ff00 then put_pixel mi (uint x + j) (uint y + i) color back else Some back })"
    by (simp add: keeps_if keeps_put_pixel keeps_some)
qed

lemma keeps_bigger:
  assumes img: "image_ok (xpm_load xpm) px"
    and dims: "uint (img_w (xpm_load xpm)) \<le> 16" "uint (img_h (xpm_load xpm)) \<le> 16" "uint t \<le> 4"
  shows "keeps mi (draw_xpm_x_times_bigger xpm_load mi xpm x y t color)"
  unfolding draw_xpm_x_times_bigger_def Let_def
proof (intro keeps_for_each)
  fix i j k l
  assume "i \<in> set [0..uint (img_h (xpm_load xpm)) - 1]" "j \<in> set [0..uint (img_w (xpm_load xpm)) - 1]"
    "k \<in> set [0..uint t - 1]" "l \<in> set [0..uint t - 1]"
  then have ij: "0 \<le> i" "i < uint (img_h (xpm_load xpm))" "0 \<le> j" "j < uint (img_w (xpm_load xpm))"
    "0 \<le> k" "k < 4" "0 \<le> l" "l < 4" using dims(3) by auto
  have le: "j * uint t \<le> 64" "i * uint t \<le> 64"
    using ij dims mult_mono [of j 16 "uint t" 4] mult_mono [of i 16 "uint t" 4] by simp_all
  have "0 \<le> uint x + j * uint t + k" "0 \<le> uint y + i * uint t + l" using ij by simp_all
  moreover have "uint x < 65536" "uint y < 65536" using uint_lt2p [of x] uint_lt2p [of y] by simp_all
  then have "uint x + j * uint t + k \<le> INT_MAX" "uint y + i * uint t + l \<le> INT_MAX"
    using le ij unfolding INT_MAX_def by linarith+
  ultimately have "c_int (uint x + j * uint t + k) = Some (uint x + j * uint t + k)"
    "c_int (uint y + i * uint t + l) = Some (uint y + i * uint t + l)"
    by (blast intro: c_int_nonneg)+
  then show "keeps mi (\<lambda>back. do {
      c \<leftarrow> map_at (xpm_load xpm) i j;
      a \<leftarrow> c_int (uint x + j * uint t + k);
      b \<leftarrow> c_int (uint y + i * uint t + l);
      put_pixel mi a b (if color = 0xFFFFFFFF then c else if c = 0xFF0000 then color else 0xFF0000) back })"
    using map_at_ok [OF img ij(1-4)] by (simp add: keeps_put_pixel)
qed

lemma keeps_letter:
  assumes "font_ok xpm_load" "printable c" "uint t \<le> 4"
  shows "keeps mi (\<lambda>back. if tolower c = CHR '' '' then Some back
    else draw_xpm_x_times_bigger xpm_load mi (get_xpm (tolower c)) x y t color back)"
  using font_glyph [OF assms(1,2)] assms(3) keeps_bigger keeps_some by (intro keeps_if) blast+

lemma keeps_text [keep_rules]:
  assumes font: "font_ok xpm_load"
  shows "\<forall>c \<in> set str. printable c \<Longrightarrow> keeps mi (draw_text xpm_load mi str x y color)"
proof (induction str arbitrary: x)
  case (Cons c str)
  have "keeps mi (\<lambda>back. if tolower c = CHR '' '' then Some back
      else draw_xpm_x_times_bigger xpm_load mi (get_xpm (tolower c)) x y 2 color back)"
    using Cons.prems by (intro keeps_letter [OF font]) simp_all
  from keeps_bind [OF this Cons.IH [of "x + 10 + 20"]] Cons.prems show ?case
    by (simp add: Let_def)
qed (simp add: keeps_def)

lemma keeps_title [keep_rules]:
  assumes font: "font_ok xpm_load"
  shows "\<forall>c \<in> set str. printable c \<Longrightarrow> keeps mi (draw_title xpm_load mi str x y)"
proof (induction str arbitrary: x)
  case (Cons c str)
  have "keeps mi (\<lambda>back. if tolower c = CHR '' '' then Some back
      else draw_xpm_x_times_bigger xpm_load mi (get_xpm (tolower c)) x y 4 0xFFFFFFFF back)"
    using Cons.prems by (intro keeps_letter [OF font]) simp_all
  from keeps_bind [OF this Cons.IH [of "x + 20 + 40"]] Cons.prems show ?case
    by (simp add: Let_def)
qed (simp add: keeps_def)

lemma keeps_hero:
  assumes hero: "hero_image (xpm_load xpm)"
    and "25 \<le> uint x" "uint x \<le> 65500" "25 \<le> uint y" "uint y \<le> 65500"
  shows "keeps mi (\<lambda>b. map_option snd (draw_xpm_at_pos_at_delta xpm_load mi xpm x y theta b))"
proof (rule keepsI)
  fix buf
  assume ok: "frame_ok mi buf"
  let ?img = "xpm_load xpm"
  have img: "img_w ?img = 40" "img_h ?img = 40" "img_map ?img \<noteq> None"
    using hero by (auto simp: hero_image_def image_ok_def)
  obtain rw rh m n where b: "calculate_rotated_bounds (of_int (uint (img_w ?img))) (of_int (uint (img_h ?img))) theta = (rw, rh)"
    "int_of_double rw = Some m" "int_of_double rh = Some n"
    using hero_bounds [OF img(1,2)] .
  have "keeps mi (rotated_pixel mi ?img x y theta rw rh i j)" for i j
    using rotated_pixel_near [OF _ assms] changed_within_ok by (intro keepsI) blast
  then have "keeps mi (for_each (\<lambda>i. for_each (\<lambda>j. rotated_pixel mi ?img x y theta rw rh i j) [0..m - 1]) [0..n - 1])"
    by (intro keeps_for_each)
  from keepsD [OF this ok] obtain buf' where
    "for_each (\<lambda>i. for_each (\<lambda>j. rotated_pixel mi ?img x y theta rw rh i j) [0..m - 1]) [0..n - 1] buf = Some buf'"
    "frame_ok mi buf'" by blast
  then show "\<exists>buf'. map_option snd (draw_xpm_at_pos_at_delta xpm_load mi xpm x y theta buf) = Some buf' \<and> frame_ok mi buf'"
    using img(3) unfolding draw_xpm_at_pos_at_delta_def Let_def b prod.case by auto
qed

end
