(* ===== verification/Serial_Safety.thy ===== *)
theory Serial_Safety
  imports Main_Loop
begin

text \<open>
  The serial port driver returns, and leaves its queues intact, when the line behaves: line_ok K waiting says
  that the number waiting bounds the chars in the UART (bit 0 of LSR is set only if there are some, and reading
  one makes their number smaller) and the looks at a busy transmitter still to come: a pass of the sending loop,
  which reads IIR and LSR, finds it not ready (bit 5 of LSR clear) only if waiting gets smaller. So a busy line gets
  ready. send_never_returns_on_busy_line of Serial_Port shows what happens when it does not.
\<close>

definition line_ok :: "'k kernel \<Rightarrow> ('k \<Rightarrow> nat) \<Rightarrow> bool" where
  "line_ok K waiting \<longleftrightarrow>
     (\<forall>k e v k'. sys_inb K (0x3f8 + 5) k = (e, v, k') \<longrightarrow> e = 0 \<longrightarrow>
        waiting k' \<le> waiting k \<and> (bit v 0 \<longrightarrow> 0 < waiting k')) \<and>
     (\<forall>k e1 v1 k1 e2 v2 k2. sys_inb K (0x3f8 + 2) k = (e1, v1, k1) \<longrightarrow> sys_inb K (0x3f8 + 5) k1 = (e2, v2, k2) \<longrightarrow>
        e1 = 0 \<longrightarrow> e2 = 0 \<longrightarrow> bit v2 5 \<or> waiting k2 < waiting k) \<and>
     (\<forall>k e v k'. sys_inb K 0x3f8 k = (e, v, k') \<longrightarrow> e = 0 \<longrightarrow> 0 < waiting k \<longrightarrow> waiting k' < waiting k)"

lemma line_status:
  "line_ok K waiting \<Longrightarrow> sys_inb K 1021 k = (0, v, k') \<Longrightarrow>
    waiting k' \<le> waiting k \<and> (bit v 0 \<longrightarrow> 0 < waiting k')"
  by (simp add: line_ok_def)

lemma line_gets_ready:
  assumes "line_ok K waiting" and "read_byte K 1018 k = (0, iir, k1)" and "sys_inb K 1021 k1 = (0, v, k2)"
  shows "bit v 5 \<or> waiting k2 < waiting k"
proof -
  obtain e1 v1 where "sys_inb K 1018 k = (e1, v1, k1)" "e1 = 0"
    using assms(2) by (auto simp: read_byte_eq split: prod.splits)
  moreover have "1018 = (1016 :: int) + 2" "1021 = (1016 :: int) + 5" by simp_all
  ultimately show ?thesis using assms(1,3) unfolding line_ok_def by metis
qed

lemma line_data:
  "line_ok K waiting \<Longrightarrow> sys_inb K 1016 k = (0, v, k') \<Longrightarrow> 0 < waiting k \<Longrightarrow> waiting k' < waiting k"
  by (simp add: line_ok_def)

subsection \<open>Queues, NULL included\<close>

definition queue_fine :: "queue_ptr \<Rightarrow> bool" where
  "queue_fine q \<longleftrightarrow> q = None \<or> queue_ptr_ok q"

lemma push_fine:
  assumes "queue_fine q"
  obtains r q' where "push_q q c = Some (r, q')" "queue_fine q'"
proof (cases "q = None")
  case True
  then have "push_q q c = Some (1, None)" by (simp add: push_q_def)
  then show thesis by (rule that) (simp add: queue_fine_def)
next
  case False
  with assms have ok: "queue_ptr_ok q" by (simp add: queue_fine_def)
  show thesis
  proof (cases "length (queue_items q) < 100")
    case True
    with push_q_room [OF ok True, of c] show thesis using that by (auto simp: queue_fine_def)
  next
    case False
    with push_q_no_room [OF ok, of c] ok show thesis using that by (auto simp: queue_fine_def)
  qed
qed

lemma top_fine: "queue_fine q \<Longrightarrow> \<exists>c. top_q q = Some c"
  using char_queue.front_items by (auto simp: queue_fine_def top_q_def)

lemma pop_fine: "queue_fine q \<Longrightarrow> queue_fine (pop_q q)"
  using char_queue.deq_items by (auto simp: queue_fine_def pop_q_def)

lemma pop_shorter:
  assumes "queue_fine q" "\<not> empty_q q"
  shows "length (queue_items (pop_q q)) < length (queue_items q)"
proof -
  have ok: "queue_ptr_ok q" using assms by (auto simp: queue_fine_def empty_q_def)
  with assms(2) have "queue_items q \<noteq> []" using char_queue.empty_items by blast
  then show ?thesis using char_queue.deq_items [OF ok] by simp
qed

lemma drain_fine: "queue_fine q \<Longrightarrow> \<exists>q'. drain_queue q = Some q' \<and> queue_fine q'"
  using drain_queue_empties [of q] by (auto simp: queue_fine_def drain_queue.simps [of None] empty_q_def)

definition serial_fine :: "serial \<Rightarrow> bool" where
  "serial_fine s \<longleftrightarrow> queue_fine (receive_queue s) \<and> queue_fine (transmit_queue s)"

subsection \<open>The interrupt handler\<close>

lemma transmit_loop_ends:
  "serial_fine s \<Longrightarrow> \<exists>r s' k'. ser_transmit_loop K b lsr s k = Some (r, s', k') \<and> serial_fine s'"
proof (induction "length (queue_items (transmit_queue s))" arbitrary: s lsr k rule: less_induct)
  case less
  show ?case
  proof (cases "bit lsr 5 \<and> \<not> empty_q (transmit_queue s)")
    case False
    then show ?thesis using less.prems by (auto simp: ser_transmit_loop.simps [of _ _ lsr])
  next
    case True
    have fine: "queue_fine (transmit_queue s)" using less.prems by (simp add: serial_fine_def)
    obtain c where c: "top_q (transmit_queue s) = Some c" using top_fine [OF fine] by blast
    let ?s = "s\<lparr>transmit_queue := pop_q (transmit_queue s)\<rparr>"
    have "length (queue_items (transmit_queue ?s)) < length (queue_items (transmit_queue s))"
      using pop_shorter [OF fine] True by simp
    moreover have s: "serial_fine ?s" using less.prems pop_fine [OF fine] by (simp add: serial_fine_def)
    ultimately have IH: "\<exists>r s' k'. ser_transmit_loop K b lsr ?s k = Some (r, s', k') \<and> serial_fine s'" for lsr k
      using less.hyps by blast
    obtain e k1 where out: "sys_outb K b (scast c) k = (e, k1)" by fastforce
    obtain e' l k2 where inb: "sys_inb K (b + 5) k1 = (e', l, k2)" by (metis prod_cases3)
    show ?thesis
      using True c out inb IH s less.prems by (auto simp: ser_transmit_loop.simps [of _ _ lsr])
  qed
qed

lemma receive_loop_ends:
  assumes line: "line_ok K waiting"
  shows "serial_fine s \<Longrightarrow> (bit lsr 0 \<longrightarrow> 0 < waiting k) \<Longrightarrow>
    \<exists>r s' k'. ser_receive_loop K 1016 lsr s k = Some (r, s', k') \<and> serial_fine s'"
proof (induction "waiting k" arbitrary: s lsr k rule: less_induct)
  case less
  show ?case
  proof (cases "bit lsr 0")
    case False
    then show ?thesis using less.prems by (auto simp: ser_receive_loop.simps [of _ _ lsr])
  next
    case True
    obtain e c k1 where inb: "sys_inb K 1016 k = (e, c, k1)" by (metis prod_cases3)
    obtain r q where q: "push_q (receive_queue s) (ucast c) = Some (r, q)" "queue_fine q"
      using push_fine less.prems(1) unfolding serial_fine_def by metis
    obtain e' l k2 where lsr: "sys_inb K 1021 k1 = (e', l, k2)" by (metis prod_cases3)
    have s: "serial_fine (s\<lparr>receive_queue := q\<rparr>)" using less.prems(1) q(2) by (simp add: serial_fine_def)
    show ?thesis
    proof (cases "e = 0 \<and> e' = 0")
      case False
      then show ?thesis using True inb q lsr s less.prems(1)
        by (auto simp: ser_receive_loop.simps [of _ _ lsr])
    next
      case both: True
      then have "waiting k1 < waiting k" using line_data [OF line, of k c k1] inb True less.prems(2) by simp
      moreover have l: "waiting k2 \<le> waiting k1" "bit l 0 \<longrightarrow> 0 < waiting k2"
        using line_status [OF line, of k1 l k2] lsr both by auto
      ultimately have "\<exists>r s' k'. ser_receive_loop K 1016 l (s\<lparr>receive_queue := q\<rparr>) k2 = Some (r, s', k') \<and> serial_fine s'"
        using less.hyps [OF _ s l(2)] by simp
      then show ?thesis using True both inb q lsr by (simp add: ser_receive_loop.simps [of _ _ lsr])
    qed
  qed
qed

lemma ser_ih_returns:
  assumes line: "line_ok K waiting" and "serial_fine s"
  shows "\<exists>r s' k'. ser_ih K 1016 s k = Some (r, s', k') \<and> serial_fine s'"
proof -
  obtain e iir k1 where iir: "read_byte K 1018 k = (e, iir, k1)" by (metis prod_cases3)
  obtain e' l k2 where lsr: "sys_inb K 1021 k1 = (e', l, k2)" by (metis prod_cases3)
  show ?thesis
  proof (cases "e = 0 \<and> e' = 0")
    case True
    then have "bit l 0 \<longrightarrow> 0 < waiting k2" using line_status [OF line, of k1 l k2] lsr by simp
    then show ?thesis
      using True iir lsr assms(2) transmit_loop_ends [OF assms(2), of K 1016 l k2]
        receive_loop_ends [OF line assms(2), of l k2]
      by (simp add: ser_ih_def)
  next
    case False
    then show ?thesis using iir lsr assms(2) by (auto simp: ser_ih_def)
  qed
qed

lemma receive_returns:
  assumes "line_ok K waiting" and "serial_fine s"
  obtains c' s' k' where "receive K c s k = Some (c', s', k')" "serial_fine s'"
proof -
  obtain r s1 k1 where ih: "ser_ih K 1016 s k = Some (r, s1, k1)" "serial_fine s1"
    using ser_ih_returns [OF assms] by blast
  have fine: "queue_fine (receive_queue s1)" using ih(2) by (simp add: serial_fine_def)
  obtain c1 where "top_q (receive_queue s1) = Some c1" using top_fine [OF fine] by blast
  moreover have "serial_fine (s1\<lparr>receive_queue := pop_q (receive_queue s1)\<rparr>)"
    using ih(2) pop_fine [OF fine] by (simp add: serial_fine_def)
  ultimately show thesis using ih that by (cases "empty_q (receive_queue s1)") (auto simp: receive_def)
qed

lemma clear_receive_returns:
  assumes "serial_fine s"
  obtains s' where "clear_receive_queue s = Some s'" "serial_fine s'"
proof -
  obtain q where "drain_queue (receive_queue s) = Some q" "queue_fine q"
    using drain_fine assms by (metis serial_fine_def)
  then have "clear_receive_queue s = Some (s\<lparr>receive_queue := q\<rparr>)" "serial_fine (s\<lparr>receive_queue := q\<rparr>)"
    using assms by (simp_all add: clear_receive_queue_def serial_fine_def)
  then show thesis by (rule that)
qed

subsection \<open>Sending\<close>

lemma send_loop_ends:
  assumes line: "line_ok K waiting"
  shows "serial_fine s \<Longrightarrow> \<exists>r s' k'. send_loop K 1016 s k = Some (r, s', k') \<and> serial_fine s'"
proof (induction "length (queue_items (transmit_queue s))" arbitrary: s k rule: less_induct)
  case less
  note shorter = less.hyps and fine_s = less.prems
  show ?case
  proof (cases "empty_q (transmit_queue s)")
    case True
    then show ?thesis using fine_s by (auto simp: send_loop.simps [of _ _ s])
  next
    case False
    have fine: "queue_fine (transmit_queue s)" using fine_s by (simp add: serial_fine_def)
    obtain c where c: "top_q (transmit_queue s) = Some c" using top_fine [OF fine] by blast
    let ?s = "s\<lparr>transmit_queue := pop_q (transmit_queue s)\<rparr>"
    have "length (queue_items (transmit_queue ?s)) < length (queue_items (transmit_queue s))"
      using pop_shorter [OF fine False] by simp
    moreover have "serial_fine ?s" using fine_s pop_fine [OF fine] by (simp add: serial_fine_def)
    ultimately have IH: "\<exists>r s' k'. send_loop K 1016 ?s k = Some (r, s', k') \<and> serial_fine s'" for k
      using shorter by blast
    show ?thesis
    proof (induction "waiting k" arbitrary: k rule: less_induct)
      case less
      obtain e iir k1 where iir: "read_byte K 1018 k = (e, iir, k1)" by (metis prod_cases3)
      obtain e' l k2 where lsr: "sys_inb K 1021 k1 = (e', l, k2)" by (metis prod_cases3)
      obtain e'' k3 where att: "send_attempts K c 10 k2 = (e'', k3)" by fastforce
      show ?case
      proof (cases "e = 0 \<and> e' = 0 \<and> \<not> bit l 5")
        case True
        then have "waiting k2 < waiting k" using line_gets_ready [OF line, of k iir k1 l k2] iir lsr by simp
        from less.hyps [OF this] True False iir lsr show ?thesis by (simp add: send_loop.simps [of _ _ s k])
      next
        case ready: False
        then show ?thesis
          using False c iir lsr att IH fine_s
          by (cases "e = 0"; cases "e' = 0") (auto simp: send_loop.simps [of _ _ s k])
      qed
    qed
  qed
qed

lemma sp_send_int_returns:
  assumes line: "line_ok K waiting" and "serial_fine s" and "length contents = 100"
  obtains r s' k' where "sp_send_int K (b1, b2, contents) 0x3f8 string s k = Some (r, s', k')" "serial_fine s'"
proof -
  have start: "queue_fine (alloc_queue (b1, b2, contents))"
    using alloc_queue_ok(1) [OF assms(3)] by (cases b1; cases b2) (auto simp: queue_fine_def alloc_queue_def new_queue_def)
  have "queue_fine q \<Longrightarrow> \<exists>q'. for_each (\<lambda>c q. map_option snd (push_q q c)) string q = Some q' \<and> queue_fine q'" for q
  proof (induction string arbitrary: q)
    case (Cons c string)
    obtain r q1 where "push_q q c = Some (r, q1)" "queue_fine q1" by (rule push_fine [OF Cons.prems])
    with Cons.IH [of q1] show ?case by simp
  qed simp
  then obtain q where q: "for_each (\<lambda>c q. map_option snd (push_q q c)) string (alloc_queue (b1, b2, contents)) = Some q"
    "queue_fine q" using start by blast
  have "serial_fine (s\<lparr>transmit_queue := q\<rparr>)" using assms(2) q(2) by (simp add: serial_fine_def)
  from send_loop_ends [OF line this, of k] obtain r s' k' where
    "send_loop K 1016 (s\<lparr>transmit_queue := q\<rparr>) k = Some (r, s', k')" "serial_fine s'" by blast
  then show thesis using q(1) that by (simp add: sp_send_int_def)
qed

end
