(* ===== verification/Player_Journey.thy ===== *)
theory Player_Journey
  imports Player_Motion
begin

text \<open>
  What a whole game of moves does, on the handlers of Player_Motion: sequences of inputs, the way
  the player takes through the cells, the aim with the mouse, the place where the game can end, and
  a winning sequence of keys for every generated maze.
\<close>

subsection \<open>Sequences of inputs\<close>

text \<open>A scan code, a mouse interrupt with the packet it sees, a frame (which clamps the cursor).\<close>

datatype input = Key u8 | Mouse packet | Frame

fun handle_input :: "maze \<Rightarrow> vbe_mode_info \<Rightarrow> input \<Rightarrow> player \<Rightarrow> player option" where
  "handle_input m mi (Key k) p = game_keyboard_handler m k p"
| "handle_input m mi (Mouse mp) p = Some (game_mouse_handler mp p)"
| "handle_input m mi Frame p = Some (game_check_bound mi p)"

fun players_after :: "maze \<Rightarrow> vbe_mode_info \<Rightarrow> input list \<Rightarrow> player \<Rightarrow> player list option" where
  "players_after m mi [] p = Some []"
| "players_after m mi (i # is) p =
     do { p' \<leftarrow> handle_input m mi i p; ps \<leftarrow> players_after m mi is p'; Some (p' # ps) }"

text \<open>The globals when init_game has run: everything else is zero-initialised.\<close>

definition start_player :: player where
  "start_player = \<lparr>pos_x = 50, pos_y = 50, x_mouse = 0, y_mouse = 0, delta = 0, direction = 0,
     is_moving = False, update_delta = False, img_width = 0, img_height = 0\<rparr>"

lemma mouse_handler_pos [simp]:
  "pos_x (game_mouse_handler mp p) = pos_x p" "pos_y (game_mouse_handler mp p) = pos_y p"
  by (simp_all add: game_mouse_handler_def Let_def)

lemma check_bound_pos [simp]:
  "pos_x (game_check_bound mi p) = pos_x p" "pos_y (game_check_bound mi p) = pos_y p"
  by (simp_all add: game_check_bound_def Let_def)

lemma handle_input_ok:
  assumes "generated m" and "player_ok m p"
  obtains p' where "handle_input m mi i p = Some p'" and "player_ok m p'"
    and "(player_cell p, player_cell p') \<in> maze_passages m \<union> Id"
proof (cases i)
  case (Key k)
  obtain p' where "game_keyboard_handler m k p = Some p'" "player_ok m p'"
    "player_cell p' = player_cell p \<or> (player_cell p, player_cell p') \<in> maze_passages m"
    using keyboard_handler_ok [OF assms] .
  with Key that show thesis by auto
next
  case (Mouse mp)
  with that [of "game_mouse_handler mp p"] assms show thesis
    by (simp add: player_ok_def player_cell_def)
next
  case Frame
  with that [of "game_check_bound mi p"] assms show thesis
    by (simp add: player_ok_def player_cell_def)
qed

lemma players_after_walk:
  assumes "generated m"
  shows "player_ok m p \<Longrightarrow> \<exists>ps. players_after m mi is p = Some ps \<and> length ps = length is \<and>
    (\<forall>q \<in> set ps. player_ok m q) \<and> walk (maze_passages m \<union> Id) (map player_cell (p # ps))"
proof (induction "is" arbitrary: p)
  case Nil
  then show ?case by simp
next
  case (Cons i "is")
  obtain p' where p': "handle_input m mi i p = Some p'" "player_ok m p'"
    "(player_cell p, player_cell p') \<in> maze_passages m \<union> Id"
    using handle_input_ok [OF assms Cons.prems] .
  with Cons.IH [OF p'(2)] show ?case by (auto simp: walk_Cons)
qed

lemma clear_at_centre:
  assumes "maze_wf m" and "m_cell_size m = 100"
    and "(i, j) \<in> maze_grid m" and "25 \<le> a" "a < 75" "25 \<le> b" "b < 75"
  shows "clear_at m (100 * j + a) (100 * i + b)"
proof -
  have "(100 * j + a) div 100 = j" "(100 * i + b) div 100 = i"
    using assms by (auto intro!: div_unique)
  with assms show ?thesis by (auto simp: clear_at_def maze_grid_def)
qed

lemma start_player_ok:
  assumes "generated m"
  shows "player_ok m start_player"
proof -
  note g = generated_maze [OF assms]
  have "(0, 0) \<in> maze_grid m" using g(1) by (auto simp: maze_wf_def maze_grid_def)
  from clear_at_centre [OF g(1,3) this, of 50 50] show ?thesis
    using trunc_of_int [of 50] by (simp add: player_ok_def start_player_def)
qed

subsection \<open>The aim\<close>

lemma atan2_polar:
  assumes "a \<noteq> 0 \<or> b \<noteq> 0"
  shows "cos (atan2 b a) = a / sqrt (a\<^sup>2 + b\<^sup>2)" and "sin (atan2 b a) = b / sqrt (a\<^sup>2 + b\<^sup>2)"
proof -
  have root: "sqrt (1 + (b / a)\<^sup>2) = sqrt (a\<^sup>2 + b\<^sup>2) / \<bar>a\<bar>" if "a \<noteq> 0"
  proof -
    have "1 + (b / a)\<^sup>2 = (a\<^sup>2 + b\<^sup>2) / a\<^sup>2" using that by (simp add: power_divide field_simps)
    then show ?thesis by (simp add: real_sqrt_divide)
  qed
  have "cos (atan2 b a) = a / sqrt (a\<^sup>2 + b\<^sup>2) \<and> sin (atan2 b a) = b / sqrt (a\<^sup>2 + b\<^sup>2)"
  proof (cases "a = 0")
    case True
    with assms show ?thesis by (auto simp: atan2_def)
  next
    case False
    then show ?thesis
      using root
      by (auto simp: atan2_def cos_arctan sin_arctan cos_diff sin_diff cos_add sin_add)
  qed
  then show "cos (atan2 b a) = a / sqrt (a\<^sup>2 + b\<^sup>2)" and "sin (atan2 b a) = b / sqrt (a\<^sup>2 + b\<^sup>2)"
    by blast+
qed

lemma aim:
  assumes "x_mouse p \<noteq> pos_x p \<or> y_mouse p \<noteq> pos_y p" and "img_width p = 0" and "img_height p = 0"
  defines "u \<equiv> x_mouse p - pos_x p" and "v \<equiv> y_mouse p - pos_y p"
  shows "key_step 0x11 (delta (game_update_delta p)) =
    (10 * u / sqrt (u\<^sup>2 + v\<^sup>2), 10 * v / sqrt (u\<^sup>2 + v\<^sup>2))"
proof -
  have d: "delta (game_update_delta p) = atan2 v (- u) + pi"
    using assms(2,3) by (simp add: game_update_delta_def u_def v_def)
  have "- u \<noteq> 0 \<or> v \<noteq> 0" using assms(1) by (auto simp: u_def v_def)
  from atan2_polar [OF this] show ?thesis
    unfolding d key_step_def by simp
qed

subsection \<open>Walking through a passage\<close>

lemma clear_along_row:
  assumes wf: "maze_wf m" and open_: "((i, j), (i, j + 1)) \<in> maze_passages m"
    and a: "50 \<le> a" "a \<le> 150"
  shows "clear_at m (100 * j + a) (100 * i + 50)"
proof -
  have swf: "store_wf (m_width m) (m_height m) (m_cells m)"
    and agree: "walls_agree (m_width m) (m_height m) (m_cells m)"
    using wf by (auto simp: maze_wf_def walls_wf_agree)
  have ij: "(i, j) \<in> grid (m_width m) (m_height m)" "(i, j + 1) \<in> grid (m_width m) (m_height m)"
    using walled.opened_within [OF wf] open_ by (auto simp: maze_grid_def)
  obtain c where c: "m_cells m (i, j) = Some c" using swf ij(1) by (rule store_wfD)
  obtain d where d: "m_cells m (i, j + 1) = Some d" using swf ij(2) by (rule store_wfD)
  have "\<not> right_wall c"
    using passage_iffs(2) [of "m_cells m" i j c, OF c] open_ by (simp add: maze_passages_def)
  moreover have "right_wall c = left_wall d" using agree c d unfolding walls_agree_def by blast
  moreover have "(100 * i + 50) div 100 = i" by (rule div_unique) auto
  moreover have "(100 * j + a) div 100 = (if a < 100 then j else j + 1)"
    using a by (auto intro!: div_unique)
  ultimately show ?thesis using a c d ij by (auto simp: clear_at_def)
qed

lemma clear_along_column:
  assumes wf: "maze_wf m" and open_: "((i, j), (i + 1, j)) \<in> maze_passages m"
    and a: "50 \<le> a" "a \<le> 150"
  shows "clear_at m (100 * j + 50) (100 * i + a)"
proof -
  have swf: "store_wf (m_width m) (m_height m) (m_cells m)"
    and agree: "walls_agree (m_width m) (m_height m) (m_cells m)"
    using wf by (auto simp: maze_wf_def walls_wf_agree)
  have ij: "(i, j) \<in> grid (m_width m) (m_height m)" "(i + 1, j) \<in> grid (m_width m) (m_height m)"
    using walled.opened_within [OF wf] open_ by (auto simp: maze_grid_def)
  obtain c where c: "m_cells m (i, j) = Some c" using swf ij(1) by (rule store_wfD)
  obtain d where d: "m_cells m (i + 1, j) = Some d" using swf ij(2) by (rule store_wfD)
  have "\<not> bottom_wall c"
    using passage_iffs(4) [of "m_cells m" i j c, OF c] open_ by (simp add: maze_passages_def)
  moreover have "bottom_wall c = top_wall d" using agree c d unfolding walls_agree_def by blast
  moreover have "(100 * j + 50) div 100 = j" by (rule div_unique) auto
  moreover have "(100 * i + a) div 100 = (if a < 100 then i else i + 1)"
    using a by (auto intro!: div_unique)
  ultimately show ?thesis using a c d ij by (auto simp: clear_at_def)
qed

text \<open>A player at integer coordinates who looks along the x axis.\<close>

definition stands_at :: "player \<Rightarrow> int \<Rightarrow> int \<Rightarrow> bool" where
  "stands_at p a b \<longleftrightarrow> pos_x p = of_int a \<and> pos_y p = of_int b \<and> delta p = 0 \<and> \<not> update_delta p"

lemma stands_at_cell:
  assumes "stands_at p (100 * j + 50) (100 * i + 50)"
  shows "player_cell p = (i, j)"
proof -
  have "trunc (pos_x p) = 100 * j + 50" "trunc (pos_y p) = 100 * i + 50"
    using assms unfolding stands_at_def by (simp_all only: trunc_of_int)
  then show ?thesis by (simp add: player_cell_def div_unique)
qed

text \<open>The keys that then move by (10, 0), (-10, 0), (0, -10), (0, 10).\<close>

definition straight_key :: "u8 \<Rightarrow> int \<Rightarrow> int \<Rightarrow> bool" where
  "straight_key k da db \<longleftrightarrow> (k, da, db) \<in> {(0x11, 10, 0), (0x1f, -10, 0), (0x1e, 0, -10), (0x20, 0, 10)}"

definition walk_keys :: "u8 set" where
  "walk_keys = {0x11, 0x1f, 0x1e, 0x20}"

lemma straight_walk: "straight_key k da db \<Longrightarrow> k \<in> walk_keys"
  by (auto simp: straight_key_def walk_keys_def)

lemma straight_move:
  assumes gen: "generated m" and here: "stands_at p a b" and clear: "clear_at m a b"
    and k: "straight_key k da db" and ahead: "clear_at m (a + da) (b + db)"
  obtains p' where "game_keyboard_handler m k p = Some p'" and "stands_at p' (a + da) (b + db)"
proof -
  have ok: "player_ok m p" using here clear by (simp add: player_ok_def stands_at_def)
  have step: "key_step k (delta p) = (of_int da, of_int db)"
    using k here by (auto simp: straight_key_def key_step_def stands_at_def)
  have pos: "pos_x p + of_int da = of_int (a + da)" "pos_y p + of_int db = of_int (b + db)"
    using here by (simp_all add: stands_at_def)
  obtain p' where p': "game_keyboard_handler m k p = Some p'"
    "(pos_x p', pos_y p') = (if clear_at m (trunc (pos_x p + fst (key_step k (delta p))))
        (trunc (pos_y p + snd (key_step k (delta p))))
      then (pos_x p + fst (key_step k (delta p)), pos_y p + snd (key_step k (delta p)))
      else (pos_x p, pos_y p))"
    "update_delta p' = update_delta p" "\<not> update_delta p \<Longrightarrow> delta p' = delta p"
    using keyboard_handler_moves [OF gen ok, of k] by metis
  have "stands_at p' (a + da) (b + db)"
    using p'(2-4) here ahead unfolding step fst_conv snd_conv pos trunc_of_int
    by (simp add: stands_at_def)
  with p'(1) show thesis by (rule that)
qed

lemma straight_moves:
  assumes gen: "generated m" and k: "straight_key k da db"
    and clear: "\<And>i. i \<le> n \<Longrightarrow> clear_at m (a + int i * da) (b + int i * db)"
    and here: "stands_at p a b"
  shows "\<exists>p'. for_each (game_keyboard_handler m) (replicate n k) p = Some p' \<and>
    stands_at p' (a + int n * da) (b + int n * db)"
  using clear
proof (induction n)
  case 0
  with here show ?case by simp
next
  case (Suc n)
  then obtain p1 where p1: "for_each (game_keyboard_handler m) (replicate n k) p = Some p1"
    "stands_at p1 (a + int n * da) (b + int n * db)" by force
  have "a + int n * da + da = a + int (Suc n) * da" "b + int n * db + db = b + int (Suc n) * db"
    by (simp_all add: algebra_simps)
  with straight_move [OF gen p1(2) _ k] Suc.prems [of n] Suc.prems [of "Suc n"] obtain p' where
    "game_keyboard_handler m k p1 = Some p'" "stands_at p' (a + int (Suc n) * da) (b + int (Suc n) * db)"
    by (metis le_refl le_Suc_eq)
  with p1(1) show ?case by (auto simp: replicate_append_same [symmetric] for_each_append)
qed

text \<open>Ten keys carry the player from the centre of a cell to that of the next.\<close>

lemma cross_passage:
  assumes gen: "generated m" and open_: "((i, j), (i', j')) \<in> maze_passages m"
    and here: "stands_at p (100 * j + 50) (100 * i + 50)"
  shows "\<exists>k p'. k \<in> walk_keys \<and> for_each (game_keyboard_handler m) (replicate 10 k) p = Some p' \<and>
    stands_at p' (100 * j' + 50) (100 * i' + 50)"
proof -
  note wf = generated_maze(1) [OF gen]
  have return: "((i', j'), (i, j)) \<in> maze_passages m" by (rule walled.opened_swap [OF wf open_])
  have "next_to (i, j) (i', j')" using open_ by (auto simp: maze_passages_def passages_def)
  then consider "i' = i" "j' = j + 1" | "i' = i" "j = j' + 1" | "i = i' + 1" "j' = j" | "i' = i + 1" "j' = j"
    by (auto simp: next_to_def)
  then have "\<exists>k da db. straight_key k da db \<and> 100 * j + 50 + 10 * da = 100 * j' + 50 \<and>
      100 * i + 50 + 10 * db = 100 * i' + 50 \<and>
      (\<forall>n \<le> 10. clear_at m (100 * j + 50 + int n * da) (100 * i + 50 + int n * db))"
  proof cases
    case 1
    have "clear_at m (100 * j + 50 + int n * 10) (100 * i + 50 + int n * 0)" if "n \<le> 10" for n
      using clear_along_row [OF wf, of i j "50 + int n * 10"] open_ 1 that by (simp add: add.assoc)
    with 1 show ?thesis
      by (intro exI [of _ "0x11"] exI [of _ 10] exI [of _ 0]) (simp add: straight_key_def)
  next
    case 2
    have "clear_at m (100 * j + 50 + int n * -10) (100 * i + 50 + int n * 0)" if "n \<le> 10" for n
    proof -
      have "100 * j + 50 + int n * -10 = 100 * j' + (150 - int n * 10)" "100 * i + 50 + int n * 0 = 100 * i + 50"
        using 2 by simp_all
      moreover have "clear_at m (100 * j' + (150 - int n * 10)) (100 * i + 50)"
        by (rule clear_along_row [OF wf]) (use return 2 that in auto)
      ultimately show ?thesis by (simp only:)
    qed
    with 2 show ?thesis
      by (intro exI [of _ "0x1f"] exI [of _ "-10"] exI [of _ 0]) (simp add: straight_key_def)
  next
    case 3
    have "clear_at m (100 * j + 50 + int n * 0) (100 * i + 50 + int n * -10)" if "n \<le> 10" for n
    proof -
      have "100 * i + 50 + int n * -10 = 100 * i' + (150 - int n * 10)" "100 * j + 50 + int n * 0 = 100 * j + 50"
        using 3 by simp_all
      moreover have "clear_at m (100 * j + 50) (100 * i' + (150 - int n * 10))"
        by (rule clear_along_column [OF wf]) (use return 3 that in auto)
      ultimately show ?thesis by (simp only:)
    qed
    with 3 show ?thesis
      by (intro exI [of _ "0x1e"] exI [of _ 0] exI [of _ "-10"]) (simp add: straight_key_def)
  next
    case 4
    have "clear_at m (100 * j + 50 + int n * 0) (100 * i + 50 + int n * 10)" if "n \<le> 10" for n
      using clear_along_column [OF wf, of i j "50 + int n * 10"] open_ 4 that by (simp add: add.assoc)
    with 4 show ?thesis
      by (intro exI [of _ "0x20"] exI [of _ 0] exI [of _ 10]) (simp add: straight_key_def)
  qed
  then obtain k da db where k: "straight_key k da db" "100 * j + 50 + 10 * da = 100 * j' + 50"
    "100 * i + 50 + 10 * db = 100 * i' + 50"
    and clear: "\<And>n. n \<le> 10 \<Longrightarrow> clear_at m (100 * j + 50 + int n * da) (100 * i + 50 + int n * db)"
    by blast
  have "\<exists>p'. for_each (game_keyboard_handler m) (replicate 10 k) p = Some p' \<and>
      stands_at p' (100 * j + 50 + int 10 * da) (100 * i + 50 + int 10 * db)"
    by (rule straight_moves [OF gen k(1) clear here])
  then show ?thesis using k(2,3) straight_walk [OF k(1)] by auto
qed

lemma reach_cell:
  assumes gen: "generated m" and start: "stands_at p 50 50"
  shows "((0, 0), q) \<in> (maze_passages m)\<^sup>* \<Longrightarrow>
    \<exists>keys p'. set keys \<subseteq> walk_keys \<and> for_each (game_keyboard_handler m) keys p = Some p' \<and>
      stands_at p' (100 * snd q + 50) (100 * fst q + 50)"
proof (induction rule: rtrancl_induct)
  case base
  have "set [] \<subseteq> walk_keys \<and> for_each (game_keyboard_handler m) [] p = Some p \<and>
      stands_at p (100 * snd (0, 0) + 50) (100 * fst (0, 0) + 50)"
    using start by simp
  then show ?case by blast
next
  case (step q r)
  then obtain keys p1 where p1: "set keys \<subseteq> walk_keys" "for_each (game_keyboard_handler m) keys p = Some p1"
    "stands_at p1 (100 * snd q + 50) (100 * fst q + 50)" by blast
  have "((fst q, snd q), (fst r, snd r)) \<in> maze_passages m" using step(2) by simp
  from cross_passage [OF gen this p1(3)] obtain k p' where "k \<in> walk_keys"
    "for_each (game_keyboard_handler m) (replicate 10 k) p1 = Some p'"
    "stands_at p' (100 * snd r + 50) (100 * fst r + 50)" by blast
  with p1(1,2) show ?case
    by (intro exI [of _ "keys @ replicate 10 k"] exI [of _ p']) (simp add: for_each_append)
qed

text \<open>From the start to the last cell, where the game ends.\<close>

lemma reach_exit:
  assumes gen: "generated m" and start: "stands_at p 50 50"
  obtains keys p' where "set keys \<subseteq> walk_keys" and "for_each (game_keyboard_handler m) keys p = Some p'"
    and "check_game_end m p'" and "player_cell p' = (m_height m - 1, m_width m - 1)"
proof -
  let ?e = "(m_height m - 1, m_width m - 1)"
  have "(0, 0) \<in> maze_grid m" "?e \<in> maze_grid m"
    using generated_maze(1) [OF gen] by (auto simp: maze_wf_def maze_grid_def)
  then have "((0, 0), ?e) \<in> (maze_passages m)\<^sup>*" using perfect.all_connected [OF gen] by blast
  from reach_cell [OF gen start this] obtain keys p' where
    run: "set keys \<subseteq> walk_keys" "for_each (game_keyboard_handler m) keys p = Some p'"
    and here: "stands_at p' (100 * (m_width m - 1) + 50) (100 * (m_height m - 1) + 50)" by auto
  have "check_game_end m p'"
    using here generated_maze(3) [OF gen] by (simp add: check_game_end_def stands_at_def)
  moreover have "player_cell p' = ?e" by (rule stands_at_cell [OF here])
  ultimately show thesis using run that by blast
qed

lemma start_stands: "stands_at start_player 50 50"
  by (simp add: stands_at_def start_player_def)

subsection \<open>Where the game can end\<close>

lemma clear_right_open:
  assumes wf: "maze_wf m" and clear: "clear_at m a b" and "100 * (a div 100) + 100 \<le> a + 25"
  shows "((b div 100, a div 100), (b div 100, a div 100 + 1)) \<in> maze_passages m"
proof -
  have swf: "store_wf (m_width m) (m_height m) (m_cells m)" using wf by (simp add: maze_wf_def)
  have "(b div 100, a div 100) \<in> grid (m_width m) (m_height m)"
    using clear div_pos_less [of 100 a "m_width m"] div_pos_less [of 100 b "m_height m"]
    by (simp add: clear_at_def pos_imp_zdiv_nonneg_iff mult.commute)
  with swf obtain c where c: "m_cells m (b div 100, a div 100) = Some c" by (rule store_wfD)
  then have "\<not> right_wall c" using clear assms(3) by (auto simp: clear_at_def)
  then show ?thesis
    using passage_iffs(2) [of "m_cells m" "b div 100" "a div 100" c, OF c] by (simp add: maze_passages_def)
qed

lemma clear_bottom_open:
  assumes wf: "maze_wf m" and clear: "clear_at m a b" and "100 * (b div 100) + 100 \<le> b + 25"
  shows "((b div 100, a div 100), (b div 100 + 1, a div 100)) \<in> maze_passages m"
proof -
  have swf: "store_wf (m_width m) (m_height m) (m_cells m)" using wf by (simp add: maze_wf_def)
  have "(b div 100, a div 100) \<in> grid (m_width m) (m_height m)"
    using clear div_pos_less [of 100 a "m_width m"] div_pos_less [of 100 b "m_height m"]
    by (simp add: clear_at_def pos_imp_zdiv_nonneg_iff mult.commute)
  with swf obtain c where c: "m_cells m (b div 100, a div 100) = Some c" by (rule store_wfD)
  then have "\<not> bottom_wall c" using clear assms(3) by (auto simp: clear_at_def)
  then show ?thesis
    using passage_iffs(4) [of "m_cells m" "b div 100" "a div 100" c, OF c] by (simp add: maze_passages_def)
qed

text \<open>The exit has an open side, to the left or upwards.\<close>

lemma exit_open:
  assumes gen: "generated m" and "1 < m_width m \<or> 1 < m_height m"
  defines "e \<equiv> (m_height m - 1, m_width m - 1)"
  shows "((m_height m - 1, m_width m - 2), e) \<in> maze_passages m \<or>
    ((m_height m - 2, m_width m - 1), e) \<in> maze_passages m"
proof -
  note wf = generated_maze(1) [OF gen]
  have pos: "0 < m_width m" "0 < m_height m" using wf by (auto simp: maze_wf_def)
  then have "e \<in> maze_grid m" "(0, 0) \<in> maze_grid m" by (auto simp: e_def maze_grid_def)
  then have "(e, (0, 0)) \<in> (maze_passages m)\<^sup>*" using perfect.all_connected [OF gen] by blast
  moreover have "e \<noteq> (0, 0)" using assms(2) by (auto simp: e_def)
  ultimately obtain q where q: "(e, q) \<in> maze_passages m" by (meson converse_rtranclE)
  then have "next_to e q" and "q \<in> maze_grid m" and "(q, e) \<in> maze_passages m"
    using walled.opened_within [OF wf] walled.opened_swap [OF wf q]
    by (auto simp: maze_passages_def passages_def)
  then show ?thesis by (auto simp: next_to_def e_def maze_grid_def)
qed

lemma last_cells:
  assumes "100 * (w - 1) - 25 \<le> a" "(a :: int) < 100 * w"
  shows "a div 100 = w - 1 \<or> a div 100 = w - 2 \<and> 100 * (a div 100) + 100 \<le> a + 25"
proof (cases "100 * (w - 1) \<le> a")
  case True
  then show ?thesis using assms by (auto intro: div_unique)
next
  case False
  then have "a div 100 = w - 2" using assms by (intro div_unique) auto
  then show ?thesis using assms by simp
qed

lemma end_near_exit:
  assumes gen: "generated m" and ok: "player_ok m p" and ending: "check_game_end m p"
  shows "\<exists>n \<le> 2. (player_cell p, (m_height m - 1, m_width m - 1)) \<in> maze_passages m ^^ n"
proof -
  note g = generated_maze [OF gen]
  let ?a = "trunc (pos_x p)" and ?b = "trunc (pos_y p)"
  let ?w = "m_width m" and ?h = "m_height m" and ?E = "maze_passages m"
  note clear = ok [unfolded player_ok_def]
  have pos: "?a = \<lfloor>pos_x p\<rfloor>" "?b = \<lfloor>pos_y p\<rfloor>"
    using clear trunc_pos by (auto simp: clear_at_def)
  have lower: "100 * (?w - 1) - 25 \<le> ?a" "100 * (?h - 1) - 25 \<le> ?b"
    using ending unfolding pos check_game_end_def g(3) by (simp_all add: le_floor_iff)
  have upper: "?a < 100 * ?w" "?b < 100 * ?h" using clear by (auto simp: clear_at_def)
  note col = last_cells [OF lower(1) upper(1)] and row = last_cells [OF lower(2) upper(2)]
  have cell: "player_cell p = (?b div 100, ?a div 100)" by (simp add: player_cell_def)
  have right: "?a div 100 = ?w - 2 \<Longrightarrow> ?a div 100 \<noteq> ?w - 1 \<Longrightarrow>
      ((?b div 100, ?w - 2), (?b div 100, ?w - 1)) \<in> ?E"
    using clear_right_open [OF g(1) clear] col by simp
  have down: "?b div 100 = ?h - 2 \<Longrightarrow> ?b div 100 \<noteq> ?h - 1 \<Longrightarrow>
      ((?h - 2, ?a div 100), (?h - 1, ?a div 100)) \<in> ?E"
    using clear_bottom_open [OF g(1) clear] row by simp
  have one: "(p, q) \<in> ?E \<Longrightarrow> \<exists>n \<le> 2. (p, q) \<in> ?E ^^ n" for p q
    by (intro exI [of _ 1]) simp
  have two: "(p, q) \<in> ?E \<Longrightarrow> (q, r) \<in> ?E \<Longrightarrow> \<exists>n \<le> 2. (p, r) \<in> ?E ^^ n" for p q r
    by (intro exI [of _ 2]) (auto simp: numeral_2_eq_2)
  consider "?a div 100 = ?w - 1" "?b div 100 = ?h - 1" | "?a div 100 = ?w - 2" "?b div 100 = ?h - 1"
    | "?a div 100 = ?w - 1" "?b div 100 = ?h - 2" | "?a div 100 = ?w - 2" "?b div 100 = ?h - 2"
    using col row by blast
  then show ?thesis
  proof cases
    case 1
    then show ?thesis unfolding cell by (intro exI [of _ 0]) simp
  next
    case 2
    then show ?thesis unfolding cell using right one by simp
  next
    case 3
    then show ?thesis unfolding cell using down one by simp
  next
    case 4
    have "0 \<le> ?a div 100" using clear by (simp add: clear_at_def pos_imp_zdiv_nonneg_iff)
    then have "1 < ?w \<or> 1 < ?h" using 4 by auto
    from exit_open [OF gen this] show ?thesis
      unfolding cell using 4 right down two by auto
  qed
qed

subsection \<open>Properties\<close>

text \<open>C2: on a generated maze no sequence of keys, mouse motions and frames makes a handler undefined
  (no NULL dereference in check_collision, no overflow), and the cells the player is in after each
  input form a walk through open passages, some inputs leaving the cell unchanged: the player
  never goes through a wall and never cuts a corner.\<close>

theorem player_never_crosses_walls:
  assumes "generate_maze rnd junk mode = Some m"
  shows "\<exists>ps. players_after m mi inputs start_player = Some ps \<and> length ps = length inputs \<and>
    (\<forall>q \<in> set ps. player_ok m q) \<and>
    walk (maze_passages m \<union> Id) (map player_cell (start_player # ps))"
proof -
  have "generated m" using assms by (auto simp: generated_def)
  from players_after_walk [OF this start_player_ok [OF this]] show ?thesis .
qed

theorem player_never_crosses_walls_witness:
  "\<exists>m ps. generate_maze (\<lambda>k. k) (\<lambda>_. blank_cell) mode_14c = Some m \<and>
    players_after m mode_14c [Key 0x11, Mouse (zero_packet\<lparr>lb := True, delta_x := 5, delta_y := -3\<rparr>), Frame, Key 0x20]
      start_player = Some ps \<and> length ps = 4"
proof -
  obtain m where m: "generate_maze (\<lambda>k. k) (\<lambda>_. blank_cell) mode_14c = Some m"
    using generate_maze_run [OF mode_14c_large, of "\<lambda>k. k" "\<lambda>_. blank_cell"] by metis
  from player_never_crosses_walls [OF m] this show ?thesis by fastforce
qed



text \<open>C19: on a well-formed maze of cells of 100 pixels, whose width and height in pixels are values of
  type int, check_collision decides exactly whether a square player of half width 25 fits: it is
  undefined just where a coordinate 25 pixels to a side of the place overflows, and everywhere else
  it answers false just when the place keeps that distance from the border of the maze and from
  every standing wall of its cell.\<close>

theorem check_collision_exact:
  assumes "maze_wf m" and "m_cell_size m = 100" and "pixels_fit m"
  shows "check_collision m px py 25 = (if sides_fit px py then Some (\<not> clear_at m px py) else None)"
  using collision_spec [OF assms] check_collision_overflow by simp

theorem check_collision_exact_witness:
  "\<exists>m. generate_maze (\<lambda>k. k) (\<lambda>_. blank_cell) mode_14c = Some m \<and>
    check_collision m 50 50 25 = Some False \<and> check_collision m 24 50 25 = Some True"
proof -
  obtain m where m: "generate_maze (\<lambda>k. k) (\<lambda>_. blank_cell) mode_14c = Some m"
    using generate_maze_run [OF mode_14c_large, of "\<lambda>k. k" "\<lambda>_. blank_cell"] by metis
  then have gen: "generated m" by (auto simp: generated_def)
  note g = generated_maze [OF gen]
  have "clear_at m 50 50"
    using start_player_ok [OF gen] trunc_of_int [of 50] by (simp add: player_ok_def start_player_def)
  moreover have "\<not> clear_at m 24 50" by (simp add: clear_at_def)
  ultimately show ?thesis
    using m check_collision_exact [OF g(1,3) generated_pixels_fit [OF gen], of 50 50]
      check_collision_exact [OF g(1,3) generated_pixels_fit [OF gen], of 24 50]
    by (auto simp: sides_fit_def INT_MAX_def)
qed

text \<open>C20: after a mouse motion with the left button down, W moves the player ten pixels straight
  towards the cursor, when that place is free, and leaves it where it is otherwise.\<close>

theorem forward_key_moves_to_cursor:
  assumes "generate_maze rnd junk mode = Some m" and "player_ok m p"
    and "img_width p = 0" and "img_height p = 0" and "lb mp"
    and "q = game_mouse_handler mp p" and "x_mouse q \<noteq> pos_x q \<or> y_mouse q \<noteq> pos_y q"
    and "u = x_mouse q - pos_x q" and "v = y_mouse q - pos_y q" and "r = sqrt (u\<^sup>2 + v\<^sup>2)"
  shows "\<exists>p'. game_keyboard_handler m 0x11 q = Some p' \<and>
    (pos_x p', pos_y p') =
      (if clear_at m (trunc (pos_x q + 10 * u / r)) (trunc (pos_y q + 10 * v / r))
       then (pos_x q + 10 * u / r, pos_y q + 10 * v / r) else (pos_x q, pos_y q))"
proof -
  have gen: "generated m" using assms(1) by (auto simp: generated_def)
  define q0 where "q0 = p\<lparr>x_mouse := x_mouse p + of_int (sint (delta_x mp)) * 0.5,
    y_mouse := y_mouse p - of_int (sint (delta_y mp)) * 0.5, update_delta := True\<rparr>"
  have q: "q = game_update_delta q0"
    using assms(5,6) by (simp add: game_mouse_handler_def q0_def Let_def)
  have "x_mouse q0 \<noteq> pos_x q0 \<or> y_mouse q0 \<noteq> pos_y q0" using assms(7) q by simp
  moreover have "img_width q0 = 0" "img_height q0 = 0" using assms(3,4) by (simp_all add: q0_def)
  ultimately have step: "key_step 0x11 (delta q) = (10 * u / r, 10 * v / r)"
    using aim [of q0] q assms(8,9,10) by simp
  have "player_ok m q" using assms(2,6) by (simp add: player_ok_def)
  from keyboard_handler_moves [OF gen this, of "0x11"] obtain p' where
    p': "game_keyboard_handler m 0x11 q = Some p'"
    "(pos_x p', pos_y p') =
      (if clear_at m (trunc (pos_x q + fst (key_step 0x11 (delta q))))
          (trunc (pos_y q + snd (key_step 0x11 (delta q))))
       then (pos_x q + fst (key_step 0x11 (delta q)), pos_y q + snd (key_step 0x11 (delta q)))
       else (pos_x q, pos_y q))" by blast
  show ?thesis using p' unfolding step fst_conv snd_conv by blast
qed

theorem forward_key_moves_to_cursor_witness:
  "\<exists>m p'. generate_maze (\<lambda>k. k) (\<lambda>_. blank_cell) mode_14c = Some m \<and>
    game_keyboard_handler m 0x11 (game_mouse_handler (zero_packet\<lparr>lb := True, delta_x := 100\<rparr>) start_player)
      = Some p' \<and> pos_x p' = 50 \<and> pos_y p' = 40"
proof -
  obtain m where m: "generate_maze (\<lambda>k. k) (\<lambda>_. blank_cell) mode_14c = Some m"
    using generate_maze_run [OF mode_14c_large, of "\<lambda>k. k" "\<lambda>_. blank_cell"] by metis
  then have gen: "generated m" by (auto simp: generated_def)
  note g = generated_maze [OF gen]
  let ?mp = "(zero_packet\<lparr>lb := True, delta_x := 100\<rparr>)"
  let ?q = "game_mouse_handler ?mp start_player"
  have q: "pos_x ?q = 50" "pos_y ?q = 50" "x_mouse ?q = 50" "y_mouse ?q = 0"
    by (simp_all add: game_mouse_handler_def Let_def start_player_def zero_packet_def)
  have "(0, 0) \<in> maze_grid m" using g(1) by (auto simp: maze_wf_def maze_grid_def)
  from clear_at_centre [OF g(1,3) this, of 50 40] have clear: "clear_at m 50 40" by simp
  have cursor: "x_mouse ?q \<noteq> pos_x ?q \<or> y_mouse ?q \<noteq> pos_y ?q" using q by simp
  have img: "img_width start_player = 0" "img_height start_player = 0"
    by (simp_all add: start_player_def)
  have r: "sqrt ((x_mouse ?q - pos_x ?q)\<^sup>2 + (y_mouse ?q - pos_y ?q)\<^sup>2) = 50"
    unfolding q by (simp add: real_sqrt_unique)
  have target: "pos_x ?q + 10 * (x_mouse ?q - pos_x ?q) / 50 = 50"
    "pos_y ?q + 10 * (y_mouse ?q - pos_y ?q) / 50 = 40"
    unfolding q by simp_all
  have lb: "lb ?mp" by simp
  have t: "trunc 50 = 50" "trunc 40 = 40" using trunc_of_int [of 50] trunc_of_int [of 40] by simp_all
  from forward_key_moves_to_cursor [OF m start_player_ok [OF gen] img lb refl cursor refl refl r [symmetric]]
  obtain p' where "game_keyboard_handler m 0x11 ?q = Some p'" "(pos_x p', pos_y p') = (50, 40)"
    unfolding target t using clear by auto
  with m show ?thesis by blast
qed

text \<open>C15: the game can end only in the exit cell or at most two open passages away from it: no
  player wins from behind a wall.\<close>

theorem game_ends_near_exit:
  assumes "generate_maze rnd junk mode = Some m"
    and "players_after m mi inputs start_player = Some ps"
    and "p \<in> set (start_player # ps)" and "check_game_end m p"
  shows "\<exists>n \<le> 2. (player_cell p, (m_height m - 1, m_width m - 1)) \<in> maze_passages m ^^ n"
proof -
  have gen: "generated m" using assms(1) by (auto simp: generated_def)
  have "player_ok m p"
    using players_after_walk [OF gen start_player_ok [OF gen], of mi inputs] start_player_ok [OF gen]
      assms(2,3) by auto
  from end_near_exit [OF gen this assms(4)] show ?thesis .
qed

lemma players_after_keys:
  "for_each (game_keyboard_handler m) keys p = Some p' \<Longrightarrow>
   \<exists>ps. players_after m mi (map Key keys) p = Some ps \<and> p' \<in> set (p # ps)"
  by (induction keys arbitrary: p) (fastforce elim!: bind_SomeE)+

theorem game_ends_near_exit_witness:
  "\<exists>m p inputs ps. generate_maze (\<lambda>k. k) (\<lambda>_. blank_cell) mode_14c = Some m \<and>
    players_after m mode_14c inputs start_player = Some ps \<and> p \<in> set (start_player # ps) \<and>
    check_game_end m p \<and>
    (\<exists>n \<le> 2. (player_cell p, (m_height m - 1, m_width m - 1)) \<in> maze_passages m ^^ n)"
proof -
  obtain m where m: "generate_maze (\<lambda>k. k) (\<lambda>_. blank_cell) mode_14c = Some m"
    using generate_maze_run [OF mode_14c_large, of "\<lambda>k. k" "\<lambda>_. blank_cell"] by metis
  then have gen: "generated m" by (auto simp: generated_def)
  obtain keys p' where run: "for_each (game_keyboard_handler m) keys start_player = Some p'"
    and ending: "check_game_end m p'"
    using reach_exit [OF gen start_stands] by metis
  obtain ps where ps: "players_after m mode_14c (map Key keys) start_player = Some ps"
    "p' \<in> set (start_player # ps)"
    using players_after_keys [OF run] by blast
  from game_ends_near_exit [OF m ps ending] m ps ending show ?thesis by blast
qed

text \<open>Game_check_bound puts the cursor on the screen and moves it no further than needed: a
  cursor that was on the screen stays where it is.\<close>

lemma check_bound_clamps:
  "0 \<le> x_mouse (game_check_bound mi p) \<and> x_mouse (game_check_bound mi p) \<le> of_int (uint (XResolution mi)) \<and>
   0 \<le> y_mouse (game_check_bound mi p) \<and> y_mouse (game_check_bound mi p) \<le> of_int (uint (YResolution mi)) \<and>
   x_mouse (game_check_bound mi p) = max 0 (min (x_mouse p) (of_int (uint (XResolution mi)))) \<and>
   y_mouse (game_check_bound mi p) = max 0 (min (y_mouse p) (of_int (uint (YResolution mi))))"
proof -
  have "0 \<le> real_of_int (uint (XResolution mi))" "0 \<le> real_of_int (uint (YResolution mi))"
    by (simp_all only: of_int_0_le_iff uint_ge_0)
  then show ?thesis
    unfolding game_check_bound_def Let_def max_def min_def by (simp del: of_int_uint)
qed

end
