(* ===== verification/World_Safety.thy ===== *)
theory World_Safety
  imports Drawing_Safety Serial_Safety Player_Journey
begin

text \<open>
  The invariant of the whole program's state, world_ok b: buffers of the size of the screen, a generated maze with the
  player at a clear place of it, a cursor whose coordinates are at most b away from the origin, drivers and time stamps that
  are intact, ten buttons. fine b r (fine_k with a kernel state) says that an operation is defined and its result
  satisfies world_ok b. The frames of the game, its mouse handlers and those of the menu are fine.
\<close>

subsection \<open>The invariant\<close>

definition screen_ok :: "world \<Rightarrow> bool" where
  "screen_ok w \<longleftrightarrow> video_ok (w_video w) \<and>
     (\<exists>buf. maze_buffer (w_video w) = Some buf \<and> frame_ok (screen_mode w) buf)"

definition stamp_ok :: "time_el \<Rightarrow> bool" where
  "stamp_ok t \<longleftrightarrow> seconds t < 256 \<and> minutes t < 256 \<and> hours t < 256"

definition packet_ok :: "packet \<Rightarrow> bool" where
  "packet_ok mp \<longleftrightarrow> \<bar>sint (delta_x mp)\<bar> \<le> 256 \<and> \<bar>sint (delta_y mp)\<bar> \<le> 256"

definition cursor_in :: "real \<Rightarrow> player \<Rightarrow> bool" where
  "cursor_in b p \<longleftrightarrow> \<bar>x_mouse p\<bar> \<le> b \<and> \<bar>y_mouse p\<bar> \<le> b"

definition menu_ok :: "world \<Rightarrow> bool" where
  "menu_ok w \<longleftrightarrow> (length (buttons w) = 10 \<and> button_count w = 0) \<or> menu_ready w"

definition world_ok :: "real \<Rightarrow> world \<Rightarrow> bool" where
  "world_ok b w \<longleftrightarrow> screen_ok w \<and> generated (w_maze w) \<and> player_ok (w_maze w) (hero w) \<and> cursor_in b (hero w) \<and>
     mouse_ok (w_mouse w) \<and> packet_ok (mouse_packet (w_mouse w)) \<and> serial_fine (w_serial w) \<and>
     stamp_ok (time_stamp w) \<and> stamp_ok (time_initial w) \<and> stamp_ok (time_final w) \<and> menu_ok w"

lemmas world_defs = world_ok_def screen_ok_def menu_ok_def menu_ready_def

text \<open>The images: what xpm_load gives for the letters, the cursor and the player.\<close>

definition images_ok :: "xpm_loader \<Rightarrow> bool" where
  "images_ok xpm_load \<longleftrightarrow> font_ok xpm_load \<and> (\<exists>px. image_ok (xpm_load (Some cursor_xpm)) px) \<and>
     hero_image (xpm_load (Some player_xpm)) \<and> hero_image (xpm_load (Some player3_xpm)) \<and>
     hero_image (xpm_load (Some player4_xpm)) \<and> hero_image (xpm_load (Some player5_xpm))"

text \<open>A change of the buffers only.\<close>

definition redraws :: "world \<Rightarrow> world \<Rightarrow> bool" where
  "redraws w w' \<longleftrightarrow> (\<exists>v. w' = w\<lparr>w_video := v\<rparr> \<and> video_ok v \<and> mode_info v = screen_mode w \<and>
     maze_buffer v = maze_buffer (w_video w))"

lemma redraws_trans: "redraws w w1 \<Longrightarrow> redraws w1 w2 \<Longrightarrow> redraws w w2"
  by (auto simp: redraws_def)

lemma redraws_screen: "redraws w w' \<Longrightarrow> screen_ok w \<Longrightarrow> screen_ok w'"
  by (auto simp: redraws_def screen_ok_def)

lemma redraws_same:
  "redraws w w' \<Longrightarrow> hero w' = hero w \<and> screen_mode w' = screen_mode w \<and> w_maze w' = w_maze w \<and>
    time_initial w' = time_initial w \<and> time_final w' = time_final w \<and> buttons w' = buttons w \<and>
    button_count w' = button_count w \<and> won w' = won w \<and> w_mouse w' = w_mouse w \<and> w_serial w' = w_serial w \<and>
    time_stamp w' = time_stamp w \<and> isMultiplayer w' = isMultiplayer w \<and> frame_counter w' = frame_counter w"
  by (auto simp: redraws_def)

lemma redraws_ok: "redraws w w' \<Longrightarrow> world_ok b w \<Longrightarrow> world_ok b w'"
  using redraws_same [of w w'] redraws_screen [of w w']
  by (simp add: world_ok_def menu_ok_def menu_ready_def)

definition goes :: "world \<Rightarrow> world option \<Rightarrow> bool" where
  "goes w r \<longleftrightarrow> (\<exists>w'. r = Some w' \<and> redraws w w')"

lemma goes_refl: "screen_ok w \<Longrightarrow> goes w (Some w)"
proof -
  assume "screen_ok w"
  then have "w = w\<lparr>w_video := w_video w\<rparr> \<and> video_ok (w_video w)" by (simp add: screen_ok_def)
  then show "goes w (Some w)" unfolding goes_def redraws_def by blast
qed

lemma goes_bind:
  assumes "screen_ok w" and "goes w r"
    and "\<And>w1. redraws w w1 \<Longrightarrow> screen_ok w1 \<Longrightarrow> goes w1 (f w1)"
  shows "goes w (r \<bind> f)"
proof -
  obtain w1 where w1: "r = Some w1" "redraws w w1" using assms(2) by (auto simp: goes_def)
  with assms(3) [OF w1(2) redraws_screen [OF w1(2) assms(1)]] show ?thesis
    by (auto simp: goes_def intro: redraws_trans)
qed

lemma goes_back:
  assumes "screen_ok w" and "keeps (screen_mode w) f"
  shows "goes w (on_back f w)"
proof -
  obtain buf where buf: "back_buffer (w_video w) = Some buf" "frame_ok (screen_mode w) buf"
    using assms(1) by (auto simp: screen_ok_def video_ok_def)
  obtain buf' where buf': "f buf = Some buf'" "frame_ok (screen_mode w) buf'"
    using keepsD [OF assms(2) buf(2)] by blast
  have "video_ok ((w_video w)\<lparr>back_buffer := Some buf'\<rparr>)"
    using assms(1) buf'(2) by (simp add: screen_ok_def video_ok_def)
  then have "redraws w (w\<lparr>w_video := (w_video w)\<lparr>back_buffer := Some buf'\<rparr>\<rparr>)"
    by (auto simp: redraws_def)
  with buf(1) buf'(1) show ?thesis by (simp add: goes_def on_back_def)
qed

lemma goes_swap:
  assumes "screen_ok w"
  shows "goes w (swap_buffers w)"
proof -
  have v: "video_ok (w_video w)" using assms by (simp add: screen_ok_def)
  then have "video_ok ((w_video w)\<lparr>frame_buffer := back_buffer (w_video w)\<rparr>)" by (auto simp: video_ok_def)
  then have "redraws w (w\<lparr>w_video := (w_video w)\<lparr>frame_buffer := back_buffer (w_video w)\<rparr>\<rparr>)"
    by (auto simp: redraws_def)
  then show ?thesis using swap_exact [OF v] by (simp add: goes_def swap_buffers_def)
qed

lemma goes_clear: "screen_ok w \<Longrightarrow> goes w (clear_back w)"
  unfolding clear_back_def
  by (rule goes_back, assumption, rule keeps_clear) (simp add: screen_ok_def video_ok_def)

lemma goes_text:
  "screen_ok w \<Longrightarrow> font_ok xpm_load \<Longrightarrow> \<forall>c \<in> set str. printable c \<Longrightarrow> goes w (put_text xpm_load str x y color w)"
  unfolding put_text_def by (intro goes_back keeps_text)

lemma goes_title:
  "screen_ok w \<Longrightarrow> font_ok xpm_load \<Longrightarrow> \<forall>c \<in> set str. printable c \<Longrightarrow> goes w (put_title xpm_load str x y w)"
  unfolding put_title_def by (intro goes_back keeps_title)

lemma printable_texts:
  "\<forall>c \<in> set ''Waiting for Player 2''. printable c" "\<forall>c \<in> set ''YOU WON''. printable c"
  "\<forall>c \<in> set ''Time''. printable c" "\<forall>c \<in> set ''seconds''. printable c"
  "\<forall>c \<in> set ''Press ESC to exit''. printable c" "\<forall>c \<in> set ''YOU LOST''. printable c"
  "\<forall>c \<in> set ''How to Play''. printable c" "\<forall>c \<in> set ''W - Move Forward''. printable c"
  "\<forall>c \<in> set ''A - Move Left''. printable c" "\<forall>c \<in> set ''S - Move Back''. printable c"
  "\<forall>c \<in> set ''D - Move Right''. printable c" "\<forall>c \<in> set ''Mouse Left - Aim Player''. printable c"
  "\<forall>c \<in> set ''ESC - Go back to the menu''. printable c" "\<forall>c \<in> set ''LCOMaze''. printable c"
  "\<forall>c \<in> set ''SinglePlayer''. printable c" "\<forall>c \<in> set ''MultiPlayer''. printable c"
  "\<forall>c \<in> set ''Exit''. printable c"
  by code_simp+

lemmas frame_rules = goes_bind goes_clear goes_text goes_title goes_swap printable_texts

lemma waiting_goes: "screen_ok w \<Longrightarrow> font_ok L \<Longrightarrow> goes w (waiting_frame L w)"
  unfolding waiting_frame_def by (intro frame_rules)

lemma info_goes: "screen_ok w \<Longrightarrow> font_ok L \<Longrightarrow> goes w (info_main_loop L w)"
  unfolding info_main_loop_def by (intro frame_rules)

subsection \<open>The end of a game\<close>

lemma hex_digits:
  "hex_digit 0 = CHR ''0''" "hex_digit 1 = CHR ''1''" "hex_digit 2 = CHR ''2''" "hex_digit 3 = CHR ''3''"
  "hex_digit 4 = CHR ''4''" "hex_digit 5 = CHR ''5''" "hex_digit 6 = CHR ''6''" "hex_digit 7 = CHR ''7''"
  "hex_digit 8 = CHR ''8''" "hex_digit 9 = CHR ''9''" "hex_digit 10 = CHR ''a''" "hex_digit 11 = CHR ''b''"
  "hex_digit 12 = CHR ''c''" "hex_digit 13 = CHR ''d''" "hex_digit 14 = CHR ''e''" "hex_digit 15 = CHR ''f''"
  by (simp_all add: hex_digit_def char_of_def bit_iff_odd)

lemma less_16: "d < 16 \<longleftrightarrow> d \<in> {0, 1, 2, 3, 4, 5, 6, 7, 8, 9, 10, 11, 12, 13, 14, 15 :: nat}"
  by (simp, presburger)

lemma hex_digit_value:
  assumes "d < 16"
  shows "is_digit (hex_digit d) \<longleftrightarrow> d < 10" and "d < 10 \<Longrightarrow> (of_char (hex_digit d) :: int) = 48 + int d"
  using assms unfolding less_16
  by (auto simp: hex_digits hex_digits(2) [unfolded One_nat_def] is_digit_def of_char_def)

lemma hex_value:
  assumes "n < 256"
  shows "\<exists>m. atoi_from 0 (hex_string n) = Some m \<and> 0 \<le> m \<and> m \<le> 99"
proof -
  have ab: "n div 16 < 16" "n mod 16 < 16" using assms by (simp_all add: less_mult_imp_div_less)
  have "hex_string n = (if n < 16 then [hex_digit n] else [hex_digit (n div 16), hex_digit (n mod 16)])"
    using ab by (simp add: hex_string.simps [of n] hex_string.simps [of "n div 16"])
  then show ?thesis
    using hex_digit_value [OF ab(1)] hex_digit_value [OF ab(2)] hex_digit_value [of n]
    by (auto simp: c_int_def INT_MAX_def)
qed

lemma stamp_value_byte:
  assumes "v < 256"
  obtains n where "stamp_value v = Some n" "0 \<le> n" "n \<le> 99"
proof -
  have "unat v < 256" using assms by (simp add: word_less_nat_alt)
  from hex_value [OF this] show thesis using that by (auto simp: stamp_value_def)
qed

lemma calculate_time_defined:
  assumes "stamp_ok t" "stamp_ok t'"
  shows "\<exists>v. calculate_time t t' = Some v"
proof -
  have b: "hours t < 256" "minutes t < 256" "seconds t < 256" "hours t' < 256" "minutes t' < 256" "seconds t' < 256"
    using assms by (simp_all add: stamp_ok_def)
  obtain h m s h' m' s' where v: "stamp_value (hours t) = Some h" "stamp_value (minutes t) = Some m"
    "stamp_value (seconds t) = Some s" "stamp_value (hours t') = Some h'" "stamp_value (minutes t') = Some m'"
    "stamp_value (seconds t') = Some s'"
    and "0 \<le> h" "h \<le> 99" "0 \<le> m" "m \<le> 99" "0 \<le> s" "s \<le> 99" "0 \<le> h'" "h' \<le> 99" "0 \<le> m'" "m' \<le> 99"
      "0 \<le> s'" "s' \<le> 99"
    by (rule stamp_value_byte [OF b(1)], rule stamp_value_byte [OF b(2)], rule stamp_value_byte [OF b(3)],
        rule stamp_value_byte [OF b(4)], rule stamp_value_byte [OF b(5)], rule stamp_value_byte [OF b(6)]) blast
  then show ?thesis unfolding calculate_time_def v by (simp add: c_int_def INT_MAX_def)
qed

lemma printable_digits:
  "printable CHR ''0''" "printable CHR ''1''" "printable CHR ''2''" "printable CHR ''3''" "printable CHR ''4''"
  "printable CHR ''5''" "printable CHR ''6''" "printable CHR ''7''" "printable CHR ''8''" "printable CHR ''9''"
  "printable CHR ''-''"
  by code_simp+

lemma digit_printable: "d < 10 \<Longrightarrow> printable (hex_digit d)"
  using printable_digits less_16 [of d] by (auto simp: hex_digits hex_digits(2) [unfolded One_nat_def])

lemma dec_string_printable: "\<forall>c \<in> set (dec_string n). printable c"
proof (induction n rule: dec_string.induct)
  case (1 n)
  then show ?case using digit_printable by (auto simp: dec_string.simps [of n])
qed

lemma decimal_printable: "\<forall>c \<in> set (decimal v). printable c"
  using dec_string_printable printable_digits by (simp add: decimal_def)

lemma finish_goes:
  assumes "screen_ok w" and "font_ok L" and "stamp_ok (time_final w)" "stamp_ok (time_initial w)"
  shows "goes w (finish_frame L w)"
proof -
  have final: "goes w2 (do { sec \<leftarrow> calculate_time (time_final w2) (time_initial w2); f sec w2 })"
    if "\<And>sec. goes w2 (f sec w2)" "time_final w2 = time_final w" "time_initial w2 = time_initial w" for f w2
    using calculate_time_defined [OF assms(3,4)] that by auto
  have won: "goes w1 (do {
      w \<leftarrow> put_text L ''YOU WON'' (mid_x w1 - 200) 200 0xFFFFFFFF w1;
      w \<leftarrow> put_text L ''Time'' (mid_x w - 200) 400 0xFFFFFFFF w;
      sec \<leftarrow> calculate_time (time_final w) (time_initial w);
      w \<leftarrow> put_text L (decimal sec) (mid_x w - 200) 500 0xFFFFFFFF w;
      w \<leftarrow> put_text L ''seconds'' (mid_x w - 200) 600 0xFFFFFFFF w;
      put_text L ''Press ESC to exit'' (mid_x w - 200) 700 0xFFFFFFFF w })"
    if "redraws w w1" "screen_ok w1" for w1
    using that assms(2)
    by (intro goes_bind final goes_text printable_texts decimal_printable) (auto dest!: redraws_same)
  show ?thesis
    unfolding finish_frame_def
  proof (intro goes_bind goes_clear goes_swap)
    fix w1
    assume w1: "redraws w w1" "screen_ok w1"
    show "goes w1 (if won w1 then do {
        w \<leftarrow> put_text L ''YOU WON'' (mid_x w1 - 200) 200 0xFFFFFFFF w1;
        w \<leftarrow> put_text L ''Time'' (mid_x w - 200) 400 0xFFFFFFFF w;
        sec \<leftarrow> calculate_time (time_final w) (time_initial w);
        w \<leftarrow> put_text L (decimal sec) (mid_x w - 200) 500 0xFFFFFFFF w;
        w \<leftarrow> put_text L ''seconds'' (mid_x w - 200) 600 0xFFFFFFFF w;
        put_text L ''Press ESC to exit'' (mid_x w - 200) 700 0xFFFFFFFF w }
      else put_text L ''YOU LOST'' 500 500 0xFFFFFFFF w1)"
      using won [OF w1] goes_text [OF w1(2) assms(2) printable_texts(6)] by simp
  qed (use assms(1) in simp_all)
qed

subsection \<open>The running game\<close>

lemma int_of_double_fits: "\<bar>r\<bar> \<le> 2147483647 \<Longrightarrow> \<exists>n. int_of_double r = Some n"
  using trunc_abs [of r] by (simp add: int_of_double_def c_int_def INT_MAX_def) linarith

definition fine :: "real \<Rightarrow> world option \<Rightarrow> bool" where
  "fine b r \<longleftrightarrow> (\<exists>w'. r = Some w' \<and> world_ok b w')"

definition fine_k :: "real \<Rightarrow> (world \<times> 'k) option \<Rightarrow> bool" where
  "fine_k b r \<longleftrightarrow> (\<exists>w' k'. r = Some (w', k') \<and> world_ok b w')"

lemma fine_bind: "fine b r \<Longrightarrow> (\<And>w. world_ok b w \<Longrightarrow> fine b (f w)) \<Longrightarrow> fine b (r \<bind> f)"
  by (auto simp: fine_def)

lemma fine_k_bind: "fine b r \<Longrightarrow> (\<And>w. world_ok b w \<Longrightarrow> fine_k b (f w)) \<Longrightarrow> fine_k b (r \<bind> f)"
  by (auto simp: fine_def)

lemma fine_kk_bind: "fine_k b r \<Longrightarrow> (\<And>w k. world_ok b w \<Longrightarrow> fine_k b (f (w, k))) \<Longrightarrow> fine_k b (r \<bind> f)"
  by (auto simp: fine_k_def)

lemma fine_pair_bind: "fine_k b r \<Longrightarrow> (\<And>w k. world_ok b w \<Longrightarrow> fine_k b (f w k)) \<Longrightarrow> fine_k b (r \<bind> (\<lambda>(w, k). f w k))"
  by (auto simp: fine_k_def)

lemma fine_k_some: "world_ok b w \<Longrightarrow> fine_k b (Some (w, k))"
  by (simp add: fine_k_def)

lemma goes_fine: "world_ok b w \<Longrightarrow> goes w r \<Longrightarrow> fine b r"
  by (auto simp: goes_def fine_def intro: redraws_ok)

lemma world_screen: "world_ok b w \<Longrightarrow> screen_ok w"
  by (simp add: world_ok_def)

lemma clear_fine: "world_ok b w \<Longrightarrow> fine b (clear_back w)"
  using goes_fine goes_clear world_screen by blast

lemma swap_fine: "world_ok b w \<Longrightarrow> fine b (swap_buffers w)"
  using goes_fine goes_swap world_screen by blast

lemma fog_fine:
  assumes "world_ok b w"
  shows "fine b (game_fog w)"
proof -
  obtain buf where "maze_buffer (w_video w) = Some buf" "frame_ok (screen_mode w) buf"
    using assms by (auto simp: world_ok_def screen_ok_def)
  then show ?thesis
    using goes_fine [OF assms goes_back [OF world_screen [OF assms] keeps_fov]] by (simp add: game_fog_def)
qed

lemma cursor_goes:
  assumes "world_ok b w" and "b \<le> 2147483647" and "images_ok L"
  shows "goes w (game_draw_cursor L w)" and "goes w (menu_draw_cursor L w)"
proof -
  obtain x y where "int_of_double (x_mouse (hero w)) = Some x" "int_of_double (y_mouse (hero w)) = Some y"
    using int_of_double_fits assms(1,2) unfolding world_ok_def cursor_in_def by (metis order_trans)
  moreover obtain px where "image_ok (L (Some cursor_xpm)) px" using assms(3) by (auto simp: images_ok_def)
  ultimately show "goes w (game_draw_cursor L w)" "goes w (menu_draw_cursor L w)"
    using goes_back [OF world_screen [OF assms(1)] keeps_sprite]
    by (simp_all add: game_draw_cursor_def menu_draw_cursor_def)
qed

lemma hero_frame_images: "images_ok L \<Longrightarrow> hero_frame n = Some xpm \<Longrightarrow> hero_image (L (Some xpm))"
  by (auto simp: hero_frame_def images_ok_def split: if_splits)

lemma player_word:
  assumes "generated m" "player_ok m p"
  obtains x y where "int_of_double (pos_x p) = Some x" "int_of_double (pos_y p) = Some y"
    and "uint (word_of_int x :: u16) = x" "uint (word_of_int y :: u16) = y"
    and "25 \<le> x" "x \<le> 65500" "25 \<le> y" "y \<le> 65500"
proof -
  note g = generated_maze [OF assms(1)]
  have t: "25 \<le> trunc (pos_x p)" "trunc (pos_x p) + 25 < 100 * m_width m"
    "25 \<le> trunc (pos_y p)" "trunc (pos_y p) + 25 < 100 * m_height m"
    using assms(2) by (auto simp: player_ok_def clear_at_def)
  then have le: "trunc (pos_x p) \<le> 65500" "trunc (pos_y p) \<le> 65500" using g(4,5) by linarith+
  have u: "uint (word_of_int v :: u16) = v" if "25 \<le> v" "v \<le> 65500" for v
    using that by (simp only: uint_word_of_int) simp
  have "int_of_double (pos_x p) = Some (trunc (pos_x p))" "int_of_double (pos_y p) = Some (trunc (pos_y p))"
    using t le by (simp_all add: int_of_double_def c_int_def INT_MAX_def)
  then show thesis using that u [OF t(1) le(1)] u [OF t(3) le(2)] t le by blast
qed

lemma hero_fine:
  assumes ok: "world_ok b w" and img: "images_ok L"
  shows "fine b (game_draw_hero L w)"
proof -
  define w1 where "w1 = (if is_moving (hero w)
      then (let w = w\<lparr>frame_counter := frame_counter w + 1\<rparr> in
            if frame_counter w > 16 then w\<lparr>frame_counter := 0\<rparr> else w)
      else w\<lparr>current_frame := 0\<rparr>)"
  have w1: "world_ok b w1" using ok by (simp add: w1_def world_defs Let_def)
  then have pl: "generated (w_maze w1)" "player_ok (w_maze w1) (hero w1)" by (simp_all add: world_ok_def)
  obtain x y where xy: "int_of_double (pos_x (hero w1)) = Some x" "int_of_double (pos_y (hero w1)) = Some y"
    and u: "uint (word_of_int x :: u16) = x" "uint (word_of_int y :: u16) = y"
    and b: "25 \<le> x" "x \<le> 65500" "25 \<le> y" "y \<le> 65500"
    using player_word [OF pl] .
  have "fine b (on_back (\<lambda>b. map_option snd (draw_xpm_at_pos_at_delta L (screen_mode w1) (Some xpm)
      (word_of_int x) (word_of_int y) (delta (hero w1)) b)) w1)" if "hero_frame (frame_counter w1) = Some xpm" for xpm
    using hero_frame_images [OF img that] b
    by (intro goes_fine [OF w1] goes_back [OF world_screen [OF w1]] keeps_hero) (simp_all only: u)
  then show ?thesis
    using w1 xy unfolding game_draw_hero_def w1_def [symmetric] Let_def [of w1]
    by (auto simp: fine_def split: option.splits)
qed

lemma send_char_fine:
  assumes ok: "world_ok b w" and line: "line_ok K waiting" and len: "length contents = 100"
  shows "fine_k b (send_char K (b1, b2, contents) c w k)"
proof -
  have s: "serial_fine (w_serial w)" using ok by (simp add: world_ok_def)
  obtain r s' k' where "sp_send_int K (b1, b2, contents) 0x3f8 [of_char c] (w_serial w) k = Some (r, s', k')"
    "serial_fine s'"
    using sp_send_int_returns [OF line s len] .
  then show ?thesis
    using ok by (simp add: send_char_def fine_k_def world_defs)
qed

lemma check_bound_cursor: "cursor_in 65535 (game_check_bound mi p)"
proof -
  define rx ry :: real where r: "rx = of_int (x_res mi)" "ry = of_int (y_res mi)"
  have "0 \<le> rx" "rx \<le> 65535" "0 \<le> ry" "ry \<le> 65535"
    using resolution_bounds [of mi] unfolding r by (simp_all only: of_int_0_le_iff uint_ge_0 of_int_le_numeral_iff)
  then show ?thesis unfolding cursor_in_def game_check_bound_def r [symmetric] Let_def by auto
qed

lemma running_fine:
  assumes ok: "world_ok b w" and img: "images_ok L" and line: "line_ok K waiting" and len: "length contents = 100"
  shows "fine_k 65535 (running_frame K L (b1, b2, contents) w k)"
proof -
  define w0 where "w0 = w\<lparr>hero := game_check_bound (screen_mode w) (hero w)\<rparr>"
  have w0: "world_ok 65535 w0"
    using ok check_bound_cursor [of "screen_mode w" "hero w"]
    by (simp add: w0_def world_defs player_ok_def)
  have ending: "fine_k 65535 (if check_game_end (w_maze v) (hero v)
      then (let w = v\<lparr>gameState := Finish, won := True\<rparr> in
            if isMultiplayer w then send_char K (b1, b2, contents) CHR ''L'' w k else Some (w, k))
      else Some (v, k))" if "world_ok 65535 v" for v k
  proof -
    have "world_ok 65535 (v\<lparr>gameState := Finish, won := True\<rparr>)"
      using that by (simp add: world_defs)
    from send_char_fine [OF this line len] fine_k_some [OF this, of k] show ?thesis
      using fine_k_some [OF that, of k] by (simp add: Let_def)
  qed
  have cursor: "fine 65535 (game_draw_cursor L v)" if "world_ok 65535 v" for v
    by (rule goes_fine [OF that cursor_goes(1) [OF that _ img]]) simp
  show ?thesis
    unfolding running_frame_def w0_def [symmetric] Let_def [of w0]
    by (intro fine_k_bind fine_pair_bind clear_fine fog_fine hero_fine cursor ending swap_fine fine_k_some w0 img)
qed

subsection \<open>The frame of the game\<close>

text \<open>What the clock's data port gives is a byte.\<close>

definition clock_ok :: "'k kernel \<Rightarrow> bool" where
  "clock_ok K \<longleftrightarrow> (\<forall>k e v k'. sys_inb K 0x71 k = (e, v, k') \<longrightarrow> v < 256)"

lemma rtc_read_byte: "clock_ok K \<Longrightarrow> rtc_read K reg k = (v, k') \<Longrightarrow> v < 256"
  unfolding rtc_read_def clock_ok_def by (fastforce split: prod.splits)

lemma take_stamp_ok:
  assumes "clock_ok K" and "stamp_ok t" and "take_stamp K t k = (t', k')"
  shows "stamp_ok t'"
  using assms(2,3) rtc_read_byte [OF assms(1)]
  by (auto simp: take_stamp_def get_time_direct_def stamp_ok_def Let_def split: if_splits prod.splits)

lemma update_ok:
  assumes "clock_ok K" and "stamp_ok t" and "update K t k = (t', k')"
  shows "stamp_ok t'"
  using assms(2,3) rtc_read_byte [OF assms(1)]
  by (auto simp: update_def get_time_def stamp_ok_def Let_def split: if_splits prod.splits)

lemma check_time_ok:
  assumes "clock_ok K" and "world_ok b w" and "check_time K w k = (w', k')"
  shows "world_ok b w'"
proof -
  have st: "stamp_ok (time_stamp w)" using assms(2) by (simp add: world_ok_def)
  define r where "r = (if \<not> initialTimeSet w
      then (case take_stamp K (time_stamp w) k of
              (t, k) \<Rightarrow> (w\<lparr>initialTimeSet := True, time_initial := t\<rparr>, k))
      else (w, k))"
  obtain w1 k1 where r: "r = (w1, k1)" by fastforce
  obtain t1 l1 where t1: "take_stamp K (time_stamp w) k = (t1, l1)" by fastforce
  have w1: "world_ok b w1" "time_stamp w1 = time_stamp w"
    using assms(2) take_stamp_ok [OF assms(1) st t1] r t1 unfolding r_def
    by (cases "initialTimeSet w"; auto simp: world_defs)+
  obtain t2 l2 where t2: "take_stamp K (time_stamp w1) k1 = (t2, l2)" by fastforce
  have "stamp_ok t2" using take_stamp_ok [OF assms(1) _ t2] st w1(2) by simp
  then have "world_ok b (w1\<lparr>finalTimeSet := True, time_final := t2\<rparr>)" using w1(1) by (simp add: world_defs)
  moreover have "check_time K w k = (if \<not> finalTimeSet w1 \<and> gameState w1 = Finish
      then (w1\<lparr>finalTimeSet := True, time_final := t2\<rparr>, l2) else (w1, k1))"
    unfolding check_time_def r_def [symmetric] r Let_def prod.case t2 ..
  ultimately show ?thesis using assms(3) w1(1) by (auto split: if_splits)
qed

lemma game_fine:
  assumes ok: "world_ok b w" and b: "65535 \<le> b" and img: "images_ok L" and K: "line_ok K waiting" "clock_ok K"
    and len: "length contents = 100"
  shows "fine_k b (game_main_loop K L (b1, b2, contents) w k)"
proof -
  obtain w1 k1 where ct: "check_time K w k = (w1, k1)" by fastforce
  have w1: "world_ok b w1" by (rule check_time_ok [OF K(2) ok ct])
  note s = world_screen [OF w1]
  have st: "stamp_ok (time_final w1)" "stamp_ok (time_initial w1)" using w1 by (simp_all add: world_ok_def)
  have font: "font_ok L" using img by (simp add: images_ok_def)
  have more: "fine_k 65535 r \<Longrightarrow> fine_k b r" for r :: "(world \<times> 'a) option"
    using b by (fastforce simp: fine_k_def world_ok_def cursor_in_def)
  have "fine b (waiting_frame L w1)" "fine b (finish_frame L w1)"
    using goes_fine [OF w1] waiting_goes [OF s font] finish_goes [OF s font st] by blast+
  then show ?thesis
    using more [OF running_fine [OF w1 img K(1) len, of b1 b2 k1]] ct
    by (cases "gameState w1") (auto simp: game_main_loop_def fine_def fine_k_def)
qed

subsection \<open>The menu\<close>

lemma menu_button:
  assumes "menu_ready w" and "i \<in> {0, 1, 2, 3}"
  obtains n l h where "button_nr w i = Some \<lparr>b_x = x_res (screen_mode w) div 2 - 200,
      b_y = y_res (screen_mode w) * n div 5 + 100, b_width = 400, b_height = 50, b_label = Some l, onClick = Some h\<rparr>"
    and "n \<in> {1, 2, 3, 4}" and "\<forall>c \<in> set l. printable c"
proof -
  have "nat i < 4" using assms(2) by auto
  then have "buttons w ! nat i = menu_buttons (screen_mode w) ! nat i"
    using assms(1) unfolding menu_ready_def by (metis nth_take)
  moreover have "0 \<le> i" "i < 10" using assms(2) by auto
  ultimately have "button_nr w i = Some (menu_buttons (screen_mode w) ! nat i)"
    using assms(1) by (simp add: button_nr_def menu_ready_def)
  moreover have "\<exists>n l h. n \<in> {1, 2, 3, 4} \<and> (\<forall>c \<in> set l. printable c) \<and> menu_buttons (screen_mode w) ! nat i =
    \<lparr>b_x = x_res (screen_mode w) div 2 - 200, b_y = y_res (screen_mode w) * n div 5 + 100,
     b_width = 400, b_height = 50, b_label = Some l, onClick = Some h\<rparr>"
    using assms(2)
  proof (elim insertE emptyE)
    assume "i = 0"
    then show ?thesis using printable_texts(15) by (intro exI [of _ 1] exI [of _ "''SinglePlayer''"] exI [of _ Single_Player]) (simp add: menu_buttons_def)
  next
    assume "i = 1"
    then show ?thesis using printable_texts(16) by (intro exI [of _ 2] exI [of _ "''MultiPlayer''"] exI [of _ Multiple_Player]) (simp add: menu_buttons_def)
  next
    assume "i = 2"
    then show ?thesis using printable_texts(7) by (intro exI [of _ 3] exI [of _ "''How to Play''"] exI [of _ How_To]) (simp add: menu_buttons_def)
  next
    assume "i = 3"
    then show ?thesis using printable_texts(17) by (intro exI [of _ 4] exI [of _ "''Exit''"] exI [of _ Exit_Game]) (simp add: menu_buttons_def)
  qed
  ultimately show thesis using that by metis
qed

lemma handler_fine:
  assumes ok: "world_ok b w" and line: "line_ok K waiting" and len: "length contents = 100"
  shows "fine_k b (call_handler K (b1, b2, contents) (Some h) w k)"
proof -
  have "world_ok b (w\<lparr>state := Game, isMultiplayer := True\<rparr>)" using ok by (simp add: world_defs)
  from send_char_fine [OF this line len] show ?thesis
    using ok by (cases h)
      (auto simp: fine_k_def single_player_def multiple_player_def how_to_def exit_game_def Let_def world_defs)
qed

lemma click_fine:
  assumes ok: "world_ok b w" and "menu_ready w" and line: "line_ok K waiting" and len: "length contents = 100"
    and i: "i \<in> {0, 1, 2, 3}"
  shows "\<exists>w' k'. click_button K (b1, b2, contents) mx my i (w, k) = Some (w', k') \<and> world_ok b w' \<and> menu_ready w'"
proof -
  obtain n l h where btn: "button_nr w i = Some \<lparr>b_x = x_res (screen_mode w) div 2 - 200,
      b_y = y_res (screen_mode w) * n div 5 + 100, b_width = 400, b_height = 50, b_label = Some l, onClick = Some h\<rparr>"
    and n: "n \<in> {1, 2, 3, 4}" by (rule menu_button [OF assms(2) i])
  obtain w' k' where h: "call_handler K (b1, b2, contents) (Some h) w k = Some (w', k')" "world_ok b w'"
    using handler_fine [OF ok line len, of b1 b2 h k] by (auto simp: fine_k_def)
  have "menu_ready w'" using call_handler_ready [OF h(1) assms(2)] by blast
  with h ok assms(2) show ?thesis
    unfolding click_button_def prod.case btn Option.bind.simps menu_button_pressed [OF n] by auto
qed

lemma clicks_fine:
  assumes line: "line_ok K waiting" and len: "length contents = 100" and "set is \<subseteq> {0, 1, 2, 3}"
  shows "world_ok b w \<Longrightarrow> menu_ready w \<Longrightarrow>
    \<exists>w' k'. for_each (click_button K (b1, b2, contents) mx my) is (w, k) = Some (w', k') \<and> world_ok b w' \<and> menu_ready w'"
  using assms(3)
proof (induction "is" arbitrary: w k)
  case (Cons i "is")
  obtain w1 k1 where "click_button K (b1, b2, contents) mx my i (w, k) = Some (w1, k1)" "world_ok b w1" "menu_ready w1"
    using click_fine [OF Cons.prems(1,2) line len, of i b1 b2 mx my k] Cons.prems(3) by auto
  with Cons.IH [of w1 k1] Cons.prems(3) show ?case by simp
qed simp

lemma draw_button_goes:
  assumes ok: "screen_ok w" and b: "b \<le> 2147483647" "cursor_in b (hero w)" and font: "font_ok L"
    and n: "n \<in> {1, 2, 3, 4}" and label: "\<forall>c \<in> set l. printable c"
  shows "goes w (draw_button L \<lparr>b_x = x_res mi div 2 - 200, b_y = y_res mi * n div 5 + 100, b_width = 400,
      b_height = 50, b_label = Some l, onClick = h\<rparr> w)"
proof -
  obtain mx my where m: "int_of_double (x_mouse (hero w)) = Some mx" "int_of_double (y_mouse (hero w)) = Some my"
    using int_of_double_fits b unfolding cursor_in_def by (metis order_trans)
  have "goes w (do { w \<leftarrow> on_back (draw_rectangle (screen_mode w) x y 400 50 c) w; put_text L l tx ty d w })"
    for x y c d tx ty
    using font label by (intro goes_bind goes_back keeps_rectangle ok goes_text) simp_all
  then show ?thesis
    unfolding draw_button_def m Option.bind.simps button.simps menu_button_pressed [OF n] Let_def
    by (simp split: prod.splits)
qed

lemma draw_buttons_goes:
  assumes ok: "screen_ok w" and b: "b \<le> 2147483647" "cursor_in b (hero w)" and font: "font_ok L"
    and ready: "menu_ready w"
  shows "goes w (draw_buttons L w)"
proof -
  have all: "goes w (for_each (\<lambda>i w. do { b \<leftarrow> button_nr w i; draw_button L b w }) is w)"
    if "set is \<subseteq> {0, 1, 2, 3}" "screen_ok w" "cursor_in b (hero w)" "menu_ready w" for "is" w
    using that
  proof (induction "is" arbitrary: w)
    case Nil
    then show ?case using goes_refl by simp
  next
    case (Cons i "is")
    have "i \<in> {0, 1, 2, 3}" using Cons.prems(1) by simp
    with Cons.prems(4) obtain n l h where btn: "button_nr w i = Some \<lparr>b_x = x_res (screen_mode w) div 2 - 200,
        b_y = y_res (screen_mode w) * n div 5 + 100, b_width = 400, b_height = 50, b_label = Some l, onClick = Some h\<rparr>"
      and n: "n \<in> {1, 2, 3, 4}" "\<forall>c \<in> set l. printable c" by (rule menu_button)
    have "goes w (do { b \<leftarrow> button_nr w i; draw_button L b w })"
      unfolding btn Option.bind.simps by (rule draw_button_goes [OF Cons.prems(2) b(1) Cons.prems(3) font n])
    then show ?case unfolding for_each.simps
    proof (rule goes_bind [OF Cons.prems(2)])
      fix w1
      assume w1: "redraws w w1" "screen_ok w1"
      have "cursor_in b (hero w1)" "menu_ready w1"
        using redraws_same [OF w1(1)] Cons.prems(3,4) by (simp_all add: menu_ready_def)
      with Cons.IH [OF _ w1(2)] Cons.prems(1)
      show "goes w1 (for_each (\<lambda>i w. do { b \<leftarrow> button_nr w i; draw_button L b w }) is w1)" by simp
    qed
  qed
  have "[0..button_count w - 1] = [0, 1, 2, 3]" using ready by (simp add: menu_ready_def upto.simps)
  then show ?thesis using all [of "[0, 1, 2, 3]" w] assms by (simp add: draw_buttons_def)
qed

lemma menu_fine:
  assumes ok: "world_ok b w" and b: "b \<le> 2147483647" and img: "images_ok L" and line: "line_ok K waiting"
    and len: "length contents = 100"
  shows "fine_k b (menu_main_loop K L (b1, b2, contents) w k)"
proof -
  have font: "font_ok L" using img by (simp add: images_ok_def)
  have "\<exists>w0. (if button_count w < 1 then create_buttons w else Some w) = Some w0 \<and> world_ok b w0 \<and> menu_ready w0"
  proof (cases "menu_ready w")
    case True
    then show ?thesis using ok by (simp add: menu_ready_def)
  next
    case False
    then have "length (buttons w) = 10" "button_count w = 0" using ok by (auto simp: world_ok_def menu_ok_def)
    moreover have "length (menu_buttons (screen_mode w)) = 4" by (simp add: menu_buttons_def)
    ultimately show ?thesis using ok create_buttons_run by (simp add: world_defs)
  qed
  then obtain w0 where w0: "(if button_count w < 1 then create_buttons w else Some w) = Some w0"
    "world_ok b w0" "menu_ready w0" by blast
  note s0 = world_screen [OF w0(2)]
  have "goes w0 (do {
      w \<leftarrow> clear_back w0;
      put_title L ''LCOMaze'' (mid_x w - 200) (y_res (screen_mode w) div 10) w })"
    using font by (intro frame_rules s0)
  then obtain w1 where w1: "do {
      w \<leftarrow> clear_back w0;
      put_title L ''LCOMaze'' (mid_x w - 200) (y_res (screen_mode w) div 10) w } = Some w1" "redraws w0 w1"
    by (auto simp: goes_def)
  have ok1: "world_ok b w1" "menu_ready w1"
    using redraws_ok [OF w1(2) w0(2)] redraws_same [OF w1(2)] w0(3) by (simp_all add: menu_ready_def)
  obtain mx my where m: "int_of_double (x_mouse (hero w1)) = Some mx" "int_of_double (y_mouse (hero w1)) = Some my"
    using int_of_double_fits ok1(1) b unfolding world_ok_def cursor_in_def by (metis order_trans)
  have "[0..button_count w1 - 1] = [0, 1, 2, 3]" using ok1(2) by (simp add: menu_ready_def upto.simps)
  then obtain w2 k2 where w2: "handle_mouse_click K (b1, b2, contents) mx my w1 k = Some (w2, k2)"
    "world_ok b w2" "menu_ready w2"
    using clicks_fine [OF line len _ ok1, of "[0, 1, 2, 3]" b1 b2 mx my k] by (auto simp: handle_mouse_click_def)
  have c2: "cursor_in b (hero w2)" using w2(2) by (simp add: world_ok_def)
  have "fine b (do { w \<leftarrow> draw_buttons L w2; w \<leftarrow> menu_draw_cursor L w; swap_buffers w })"
    by (intro fine_bind goes_fine [OF w2(2) draw_buttons_goes [OF world_screen [OF w2(2)] b c2 font w2(3)]])
      (auto intro: goes_fine goes_swap world_screen cursor_goes(2) b img)
  then obtain w3 where "do { w \<leftarrow> draw_buttons L w2; w \<leftarrow> menu_draw_cursor L w; swap_buffers w } = Some w3"
    "world_ok b w3" by (auto simp: fine_def)
  moreover have "menu_main_loop K L (b1, b2, contents) w k =
      map_option (\<lambda>w. (w, k2)) (do { w \<leftarrow> draw_buttons L w2; w \<leftarrow> menu_draw_cursor L w; swap_buffers w })"
  proof -
    have "menu_main_loop K L (b1, b2, contents) w k = do {
        w \<leftarrow> do { w \<leftarrow> clear_back w0; put_title L ''LCOMaze'' (mid_x w - 200) (y_res (screen_mode w) div 10) w };
        mx \<leftarrow> int_of_double (x_mouse (hero w));
        my \<leftarrow> int_of_double (y_mouse (hero w));
        (w, k) \<leftarrow> handle_mouse_click K (b1, b2, contents) mx my w k;
        w \<leftarrow> draw_buttons L w;
        w \<leftarrow> menu_draw_cursor L w;
        w \<leftarrow> swap_buffers w;
        Some (w, k) }"
      unfolding menu_main_loop_def w0(1) by simp
    then show ?thesis unfolding w1(1) by (simp add: m w2(1) map_conv_bind_option comp_def)
  qed
  ultimately show ?thesis by (simp add: fine_k_def)
qed

end
