(* ===== verification/Images.thy ===== *)
theory Images
  imports Sprites_Text
begin

text \<open>
  The images under src/src/images that the program draws, as the C arrays have them: columns and rows, the colours of
  the chars, and the pixels, one string per row. A colour "None" is None.

  xpm_load is code of the course's library; loads_xpm states what lcom/xpm.h says of it for the format
  XPM_8_8_8_8 (an image of the size of the pixmap, in 0x00RRGGBB, transparent pixels being
  TRANSPARENCY_COLOR_8_8_8_8). With it, the images have the properties that the drawing functions rely on.
\<close>

record xpm_source =
  x_columns :: nat
  x_rows :: nat
  x_colours :: "(char \<times> u32 option) list"
  x_pixels :: "string list"

subsection \<open>The arrays\<close>

definition cursor_image :: xpm_source where
  "cursor_image = \<lparr>x_columns = 19, x_rows = 30,
    x_colours = [(CHR '' '', Some 0x00ff00), (CHR ''.'', Some 0xffffff)],
    x_pixels =
     [''.                  '', ''..                 '', ''...                '', ''....               '', ''.....              '',
      ''......             '', ''.......            '', ''........           '', ''.........          '', ''..........         '',
      ''...........        '', ''............       '', ''.............      '', ''..............     '', ''...............    '',
      ''................   '', ''.................  '', ''.................. '', ''..........         '', ''..........         '',
      ''..........         '', ''...... ....        '', ''.....   ...        '', ''....    ....       '', ''...      ...       '',
      ''..       ...       '', ''.         ...      '', ''          ...      '', ''           ...     '', ''           ...     '']\<rparr>"

definition a_image :: xpm_source where
  "a_image = \<lparr>x_columns = 16, x_rows = 16,
    x_colours = [(CHR '' '', None), (CHR ''.'', Some 0xff0000)],
    x_pixels =
     [''     ......     '', ''     ......     '', ''     ......     '', ''  ...      ...  '', ''  ...      ...  '',
      ''  ...      ...  '', ''  ............  '', ''  ............  '', ''  ............  '', ''  ...      ...  '',
      ''  ...      ...  '', ''  ...      ...  '', ''  ...      ...  '', ''  ...      ...  '', ''  ...      ...  '',
      ''  ...      ...  '']\<rparr>"

definition b_image :: xpm_source where
  "b_image = \<lparr>x_columns = 16, x_rows = 16,
    x_colours = [(CHR '' '', None), (CHR ''.'', Some 0xff0000)],
    x_pixels =
     [''  .........     '', ''  .........     '', ''  .........     '', ''  ...      ...  '', ''  ...      ...  '',
      ''  ...      ...  '', ''  .........     '', ''  .........     '', ''  .........     '', ''  ...      ...  '',
      ''  ...      ...  '', ''  ...      ...  '', ''  ...      ...  '', ''  .........     '', ''  .........     '',
      ''  .........     '']\<rparr>"

definition c_image :: xpm_source where
  "c_image = \<lparr>x_columns = 16, x_rows = 16,
    x_colours = [(CHR '' '', None), (CHR ''.'', Some 0xff0000)],
    x_pixels =
     [''     ......     '', ''     ......     '', ''     ......     '', ''  ...      ...  '', ''  ...      ...  '',
      ''  ...      ...  '', ''  ...           '', ''  ...           '', ''  ...           '', ''  ...           '',
      ''  ...      ...  '', ''  ...      ...  '', ''  ...      ...  '', ''     ......     '', ''     ......     '',
      ''     ......     '']\<rparr>"

definition d_image :: xpm_source where
  "d_image = \<lparr>x_columns = 16, x_rows = 16,
    x_colours = [(CHR '' '', None), (CHR ''.'', Some 0xff0000)],
    x_pixels =
     [''  .........     '', ''  .........     '', ''  .........     '', ''  ...      ...  '', ''  ...      ...  '',
      ''  ...      ...  '', ''  ...      ...  '', ''  ...      ...  '', ''  ...      ...  '', ''  ...      ...  '',
      ''  ...      ...  '', ''  ...      ...  '', ''  ...      ...  '', ''  .........     '', ''  .........     '',
      ''  .........     '']\<rparr>"

definition e_image :: xpm_source where
  "e_image = \<lparr>x_columns = 16, x_rows = 16,
    x_colours = [(CHR '' '', None), (CHR ''.'', Some 0xff0000)],
    x_pixels =
     [''  ............  '', ''  ............  '', ''  ............  '', ''  ...           '', ''  ...           '',
      ''  ...           '', ''  .........     '', ''  .........     '', ''  .........     '', ''  ...           '',
      ''  ...           '', ''  ...           '', ''  ...           '', ''  ............  '', ''  ............  '',
      ''  ............  '']\<rparr>"

definition f_image :: xpm_source where
  "f_image = \<lparr>x_columns = 16, x_rows = 16,
    x_colours = [(CHR '' '', None), (CHR ''.'', Some 0xff0000)],
    x_pixels =
     [''  ............  '', ''  ............  '', ''  ............  '', ''  ...           '', ''  ...           '',
      ''  ...           '', ''  ...           '', ''  .........     '', ''  .........     '', ''  .........     '',
      ''  ...           '', ''  ...           '', ''  ...           '', ''  ...           '', ''  ...           '',
      ''  ...           '']\<rparr>"

definition g_image :: xpm_source where
  "g_image = \<lparr>x_columns = 16, x_rows = 16,
    x_colours = [(CHR '' '', None), (CHR ''.'', Some 0xff0000)],
    x_pixels =
     [''     ......     '', ''     ......     '', ''     ......     '', ''  ...           '', ''  ...           '',
      ''  ...           '', ''  ...   ......  '', ''  ...   ......  '', ''  ...   ......  '', ''  ...      ...  '',
      ''  ...      ...  '', ''  ...      ...  '', ''  ...      ...  '', ''     ......     '', ''     ......     '',
      ''     ......     '']\<rparr>"

definition h_image :: xpm_source where
  "h_image = \<lparr>x_columns = 16, x_rows = 16,
    x_colours = [(CHR '' '', None), (CHR ''.'', Some 0xff0000)],
    x_pixels =
     [''  ...      ...  '', ''  ...      ...  '', ''  ...      ...  '', ''  ...      ...  '', ''  ...      ...  '',
      ''  ...      ...  '', ''  ............  '', ''  ............  '', ''  ............  '', ''  ...      ...  '',
      ''  ...      ...  '', ''  ...      ...  '', ''  ...      ...  '', ''  ...      ...  '', ''  ...      ...  '',
      ''  ...      ...  '']\<rparr>"

definition i_image :: xpm_source where
  "i_image = \<lparr>x_columns = 16, x_rows = 16,
    x_colours = [(CHR '' '', None), (CHR ''.'', Some 0xff0000)],
    x_pixels =
     [''   .........    '', ''   .........    '', ''   .........    '', ''      ...       '', ''      ...       '',
      ''      ...       '', ''      ...       '', ''      ...       '', ''      ...       '', ''      ...       '',
      ''      ...       '', ''      ...       '', ''      ...       '', ''   .........    '', ''   .........    '',
      ''   .........    '']\<rparr>"

definition j_image :: xpm_source where
  "j_image = \<lparr>x_columns = 16, x_rows = 16,
    x_colours = [(CHR '' '', None), (CHR ''.'', Some 0xff0000)],
    x_pixels =
     [''           ...  '', ''           ...  '', ''           ...  '', ''           ...  '', ''           ...  '',
      ''           ...  '', ''           ...  '', ''           ...  '', ''           ...  '', ''  ...      ...  '',
      ''  ...      ...  '', ''  ...      ...  '', ''  ...      ...  '', ''     ......     '', ''     ......     '',
      ''     ......     '']\<rparr>"

definition k_image :: xpm_source where
  "k_image = \<lparr>x_columns = 16, x_rows = 16,
    x_colours = [(CHR '' '', None), (CHR ''.'', Some 0xff0000)],
    x_pixels =
     [''  ...      ...  '', ''  ...      ...  '', ''  ...      ...  '', ''  ...   ...     '', ''  ...   ...     '',
      ''  ...   ...     '', ''  ......        '', ''  ......        '', ''  ......        '', ''  ......        '',
      ''  ...   ...     '', ''  ...   ...     '', ''  ...   ...     '', ''  ...      ...  '', ''  ...      ...  '',
      ''  ...      ...  '']\<rparr>"

definition l_image :: xpm_source where
  "l_image = \<lparr>x_columns = 16, x_rows = 16,
    x_colours = [(CHR '' '', None), (CHR ''.'', Some 0xff0000)],
    x_pixels =
     [''  ...           '', ''  ...           '', ''  ...           '', ''  ...           '', ''  ...           '',
      ''  ...           '', ''  ...           '', ''  ...           '', ''  ...           '', ''  ...           '',
      ''  ...           '', ''  ...           '', ''  ...           '', ''  ............  '', ''  ............  '',
      ''  ............  '']\<rparr>"

definition m_image :: xpm_source where
  "m_image = \<lparr>x_columns = 16, x_rows = 16,
    x_colours = [(CHR '' '', None), (CHR ''.'', Some 0xff0000)],
    x_pixels =
     [''...         ... '', ''...         ... '', ''...         ... '', ''......   ...... '', ''......   ...... '',
      ''......   ...... '', ''...   ...   ... '', ''...   ...   ... '', ''...   ...   ... '', ''...         ... '',
      ''...         ... '', ''...         ... '', ''...         ... '', ''...         ... '', ''...         ... '',
      ''...         ... '']\<rparr>"

definition n_image :: xpm_source where
  "n_image = \<lparr>x_columns = 16, x_rows = 16,
    x_colours = [(CHR '' '', None), (CHR ''.'', Some 0xff0000)],
    x_pixels =
     [''  ...      ...  '', ''  ...      ...  '', ''  ...      ...  '', ''  ...      ...  '', ''  ......   ...  '',
      ''  ......   ...  '', ''  ......   ...  '', ''  ...   ......  '', ''  ...   ......  '', ''  ...   ......  '',
      ''  ...      ...  '', ''  ...      ...  '', ''  ...      ...  '', ''  ...      ...  '', ''  ...      ...  '',
      ''  ...      ...  '']\<rparr>"

definition o_image :: xpm_source where
  "o_image = \<lparr>x_columns = 16, x_rows = 16,
    x_colours = [(CHR '' '', None), (CHR ''.'', Some 0xff0000)],
    x_pixels =
     [''     ......     '', ''     ......     '', ''     ......     '', ''  ...      ...  '', ''  ...      ...  '',
      ''  ...      ...  '', ''  ...      ...  '', ''  ...      ...  '', ''  ...      ...  '', ''  ...      ...  '',
      ''  ...      ...  '', ''  ...      ...  '', ''  ...      ...  '', ''     ......     '', ''     ......     '',
      ''     ......     '']\<rparr>"

definition p_image :: xpm_source where
  "p_image = \<lparr>x_columns = 16, x_rows = 16,
    x_colours = [(CHR '' '', None), (CHR ''.'', Some 0xff0000)],
    x_pixels =
     [''  .........     '', ''  .........     '', ''  .........     '', ''  ...      ...  '', ''  ...      ...  '',
      ''  ...      ...  '', ''  .........     '', ''  .........     '', ''  .........     '', ''  ...           '',
      ''  ...           '', ''  ...           '', ''  ...           '', ''  ...           '', ''  ...           '',
      ''  ...           '']\<rparr>"

definition q_image :: xpm_source where
  "q_image = \<lparr>x_columns = 16, x_rows = 16,
    x_colours = [(CHR '' '', None), (CHR ''.'', Some 0xff0000)],
    x_pixels =
     [''     ......     '', ''     ......     '', ''     ......     '', ''  ...      ...  '', ''  ...      ...  '',
      ''  ...      ...  '', ''  ...      ...  '', ''  ...      ...  '', ''  ...      ...  '', ''  ...      ...  '',
      ''  ...   ...     '', ''  ...   ...     '', ''  ...   ...     '', ''     ...   ...  '', ''     ...   ...  '',
      ''     ...   ...  '']\<rparr>"

definition r_image :: xpm_source where
  "r_image = \<lparr>x_columns = 16, x_rows = 16,
    x_colours = [(CHR '' '', None), (CHR ''.'', Some 0xff0000)],
    x_pixels =
     [''  .........     '', ''  .........     '', ''  .........     '', ''  ...      ...  '', ''  ...      ...  '',
      ''  ...      ...  '', ''  .........     '', ''  .........     '', ''  .........     '', ''  ...   ...     '',
      ''  ...   ...     '', ''  ...   ...     '', ''  ...   ...     '', ''  ...      ...  '', ''  ...      ...  '',
      ''  ...      ...  '']\<rparr>"

definition s_image :: xpm_source where
  "s_image = \<lparr>x_columns = 16, x_rows = 16,
    x_colours = [(CHR '' '', None), (CHR ''.'', Some 0xff0000)],
    x_pixels =
     [''     .........  '', ''     .........  '', ''     .........  '', ''  ...           '', ''  ...           '',
      ''  ...           '', ''     ......     '', ''     ......     '', ''     ......     '', ''           ...  '',
      ''           ...  '', ''           ...  '', ''           ...  '', ''  .........     '', ''  .........     '',
      ''  .........     '']\<rparr>"

definition t_image :: xpm_source where
  "t_image = \<lparr>x_columns = 16, x_rows = 16,
    x_colours = [(CHR '' '', None), (CHR ''.'', Some 0xff0000)],
    x_pixels =
     ['' .............  '', '' .............  '', '' .............  '', ''      ...       '', ''      ...       '',
      ''      ...       '', ''      ...       '', ''      ...       '', ''      ...       '', ''      ...       '',
      ''      ...       '', ''      ...       '', ''      ...       '', ''      ...       '', ''      ...       '',
      ''      ...       '']\<rparr>"

definition u_image :: xpm_source where
  "u_image = \<lparr>x_columns = 16, x_rows = 16,
    x_colours = [(CHR '' '', None), (CHR ''.'', Some 0xff0000)],
    x_pixels =
     [''  ...      ...  '', ''  ...      ...  '', ''  ...      ...  '', ''  ...      ...  '', ''  ...      ...  '',
      ''  ...      ...  '', ''  ...      ...  '', ''  ...      ...  '', ''  ...      ...  '', ''  ...      ...  '',
      ''  ...      ...  '', ''  ...      ...  '', ''  ...      ...  '', ''     ......     '', ''     ......     '',
      ''     ......     '']\<rparr>"

definition v_image :: xpm_source where
  "v_image = \<lparr>x_columns = 16, x_rows = 16,
    x_colours = [(CHR '' '', None), (CHR ''.'', Some 0xff0000)],
    x_pixels =
     [''...         ... '', ''...         ... '', ''...         ... '', ''...         ... '', ''...         ... '',
      ''...         ... '', ''...         ... '', ''   ...   ...    '', ''   ...   ...    '', ''   ...   ...    '',
      ''   ...   ...    '', ''   ...   ...    '', ''   ...   ...    '', ''      ...       '', ''      ...       '',
      ''      ...       '']\<rparr>"

definition w_image :: xpm_source where
  "w_image = \<lparr>x_columns = 16, x_rows = 16,
    x_colours = [(CHR '' '', None), (CHR ''.'', Some 0xff0000)],
    x_pixels =
     [''...         ... '', ''...         ... '', ''...         ... '', ''...         ... '', ''...         ... '',
      ''...         ... '', ''...         ... '', ''...   ...   ... '', ''...   ...   ... '', ''...   ...   ... '',
      ''......   ...... '', ''......   ...... '', ''......   ...... '', ''...         ... '', ''...         ... '',
      ''...         ... '']\<rparr>"

definition x_image :: xpm_source where
  "x_image = \<lparr>x_columns = 16, x_rows = 16,
    x_colours = [(CHR '' '', None), (CHR ''.'', Some 0xff0000)],
    x_pixels =
     [''  ...      ...  '', ''  ...      ...  '', ''  ...      ...  '', ''  ...      ...  '', ''  ...      ...  '',
      ''  ...      ...  '', ''     ......     '', ''     ......     '', ''     ......     '', ''  ...      ...  '',
      ''  ...      ...  '', ''  ...      ...  '', ''  ...      ...  '', ''  ...      ...  '', ''  ...      ...  '',
      ''  ...      ...  '']\<rparr>"

definition y_image :: xpm_source where
  "y_image = \<lparr>x_columns = 16, x_rows = 16,
    x_colours = [(CHR '' '', None), (CHR ''.'', Some 0xff0000)],
    x_pixels =
     [''...         ... '', ''...         ... '', ''...         ... '', ''...         ... '', ''...         ... '',
      ''...         ... '', ''   .........    '', ''   .........    '', ''   .........    '', ''      ...       '',
      ''      ...       '', ''      ...       '', ''      ...       '', ''      ...       '', ''      ...       '',
      ''      ...       '']\<rparr>"

definition z_image :: xpm_source where
  "z_image = \<lparr>x_columns = 16, x_rows = 16,
    x_colours = [(CHR '' '', None), (CHR ''.'', Some 0xff0000)],
    x_pixels =
     [''  ............  '', ''  ............  '', ''  ............  '', ''        ...     '', ''        ...     '',
      ''        ...     '', ''     ...        '', ''     ...        '', ''     ...        '', ''  ...           '',
      ''  ...           '', ''  ...           '', ''  ...           '', ''  ............  '', ''  ............  '',
      ''  ............  '']\<rparr>"

definition number_eight_image :: xpm_source where
  "number_eight_image = \<lparr>x_columns = 15, x_rows = 15,
    x_colours = [(CHR '' '', None), (CHR ''.'', Some 0xff0000)],
    x_pixels =
     [''    ......     '', ''    ......     '', ''    ......     '', '' ...      ...  '', '' ...      ...  '',
      '' ...      ...  '', ''    ......     '', ''    ......     '', ''    ......     '', '' ...      ...  '',
      '' ...      ...  '', '' ...      ...  '', ''    ......     '', ''    ......     '', ''    ......     '']\<rparr>"

definition number_five_image :: xpm_source where
  "number_five_image = \<lparr>x_columns = 15, x_rows = 15,
    x_colours = [(CHR '' '', None), (CHR ''.'', Some 0xff0000)],
    x_pixels =
     ['' ............  '', '' ............  '', '' ............  '', '' ...           '', '' ...           '',
      '' ...           '', '' .........     '', '' .........     '', '' .........     '', ''          ...  '',
      ''          ...  '', ''          ...  '', '' .........     '', '' .........     '', '' .........     '']\<rparr>"

definition number_four_image :: xpm_source where
  "number_four_image = \<lparr>x_columns = 15, x_rows = 15,
    x_colours = [(CHR '' '', None), (CHR ''.'', Some 0xff0000)],
    x_pixels =
     [''       ...     '', ''       ...     '', ''       ...     '', ''    ......     '', ''    ......     '',
      ''    ......     '', '' ...   ...     '', '' ...   ...     '', '' ...   ...     '', '' ............  '',
      '' ............  '', '' ............  '', ''       ...     '', ''       ...     '', ''       ...     '']\<rparr>"

definition number_nine_image :: xpm_source where
  "number_nine_image = \<lparr>x_columns = 15, x_rows = 15,
    x_colours = [(CHR '' '', None), (CHR ''.'', Some 0xff0000)],
    x_pixels =
     [''    ......     '', ''    ......     '', ''    ......     '', '' ...      ...  '', '' ...      ...  '',
      '' ...      ...  '', ''    .........  '', ''    .........  '', ''    .........  '', ''          ...  '',
      ''          ...  '', ''          ...  '', ''       ...     '', ''       ...     '', ''       ...     '']\<rparr>"

definition number_one_image :: xpm_source where
  "number_one_image = \<lparr>x_columns = 15, x_rows = 15,
    x_colours = [(CHR '' '', None), (CHR ''.'', Some 0xff0000)],
    x_pixels =
     [''      ...      '', ''      ...      '', ''      ...      '', ''   ......      '', ''   ......      '',
      ''   ......      '', ''      ...      '', ''      ...      '', ''      ...      '', ''      ...      '',
      ''      ...      '', ''      ...      '', ''   .........   '', ''   .........   '', ''   .........   '']\<rparr>"

definition number_seven_image :: xpm_source where
  "number_seven_image = \<lparr>x_columns = 15, x_rows = 15,
    x_colours = [(CHR '' '', None), (CHR ''.'', Some 0xff0000)],
    x_pixels =
     ['' .........     '', '' .........     '', '' .........     '', ''          ...  '', ''          ...  '',
      ''          ...  '', ''          ...  '', ''          ...  '', ''          ...  '', ''       ...     '',
      ''       ...     '', ''       ...     '', ''       ...     '', ''       ...     '', ''       ...     '']\<rparr>"

definition number_six_image :: xpm_source where
  "number_six_image = \<lparr>x_columns = 15, x_rows = 15,
    x_colours = [(CHR '' '', None), (CHR ''.'', Some 0xff0000)],
    x_pixels =
     [''    ......     '', ''    ......     '', ''    ......     '', '' ...           '', '' ...           '',
      '' ...           '', '' .........     '', '' .........     '', '' .........     '', '' ...      ...  '',
      '' ...      ...  '', '' ...      ...  '', ''    ......     '', ''    ......     '', ''    ......     '']\<rparr>"

definition number_three_image :: xpm_source where
  "number_three_image = \<lparr>x_columns = 15, x_rows = 15,
    x_colours = [(CHR '' '', None), (CHR ''.'', Some 0xff0000)],
    x_pixels =
     [''    ......     '', ''    ......     '', ''    ......     '', '' ...      ...  '', '' ...      ...  '',
      '' ...      ...  '', ''       ...     '', ''       ...     '', ''       ...     '', '' ...      ...  '',
      '' ...      ...  '', '' ...      ...  '', ''    ......     '', ''    ......     '', ''    ......     '']\<rparr>"

definition number_two_image :: xpm_source where
  "number_two_image = \<lparr>x_columns = 15, x_rows = 15,
    x_colours = [(CHR '' '', None), (CHR ''.'', Some 0xff0000)],
    x_pixels =
     [''    ......     '', ''    ......     '', ''    ......     '', '' ...      ...  '', '' ...      ...  '',
      '' ...      ...  '', ''       ...     '', ''       ...     '', ''       ...     '', ''    ...        '',
      ''    ...        '', ''    ...        '', '' ............  '', '' ............  '', '' ............  '']\<rparr>"

definition number_zero_image :: xpm_source where
  "number_zero_image = \<lparr>x_columns = 15, x_rows = 15,
    x_colours = [(CHR '' '', None), (CHR ''.'', Some 0xff0000)],
    x_pixels =
     [''    ......     '', ''    ......     '', ''    ......     '', '' ...      ...  '', '' ...      ...  '',
      '' ...      ...  '', '' ...      ...  '', '' ...      ...  '', '' ...      ...  '', '' ...      ...  '',
      '' ...      ...  '', '' ...      ...  '', ''    ......     '', ''    ......     '', ''    ......     '']\<rparr>"

definition right_arrow_image :: xpm_source where
  "right_arrow_image = \<lparr>x_columns = 16, x_rows = 16,
    x_colours = [(CHR '' '', None), (CHR ''.'', Some 0xff0000)],
    x_pixels =
     [''                '', ''       .        '', ''       ..       '', ''       ...      '', ''       ....     '',
      ''       .....    '', ''       ......   '', ''       .......  '', ''............... '', ''       .......  '',
      ''       ......   '', ''       .....    '', ''       ....     '', ''       ...      '', ''       ..       '',
      ''       .        '']\<rparr>"

definition player_image :: xpm_source where
  "player_image = \<lparr>x_columns = 40, x_rows = 40,
    x_colours = [(CHR '' '', Some 0x00ff00), (CHR ''.'', Some 0x161318), (CHR ''X'', Some 0x3b353d),
     (CHR ''o'', Some 0x654f3d), (CHR ''O'', Some 0x4f4c50), (CHR ''+'', Some 0x6b646e),
     (CHR ''@'', Some 0x91755c), (CHR ''#'', Some 0xa79ca9), (CHR ''$'', Some 0xcdb28b),
     (CHR ''%'', Some 0xeae0ac), (CHR ''&'', Some 0xf1f1bc), (CHR ''*'', Some 0xfefeff)],
    x_pixels =
     [''                     ..OO++++.          '', ''                   ..O+O++OOOO.         '',
      ''             ......+++++++X....         '', ''             ..OOO++OO+++++++.          '',
      ''              .O+++XO+XXOXX+XX.         '', ''        ......OXXXX++XXX.......         '',
      ''         ....OX.XXXOXOXXO+..            '', ''        ..OO..XO..XXXXXX+++.            '',
      ''       .OOO+.++OX..X.......             '', ''      .OOXXOO+++OX..                    '',
      ''        .XX++++++O..                    '', ''       .XXXO..++XXO.                    '',
      ''         ..X.+.++XX.                    '', ''       ...+..O+..OX.                    '',
      ''     .....X+XXO+X..X.                   '', ''  ...XX++XXO$%XOO$X...                  '',
      '' .XXXX.OO+O+O$&XX@%XXX..                '', '' .XOX.+@$XoXO@$%@X$&+#+O.               '',
      '' .OXX.OO@%@$%@@o$%@$+*#+X.              '', '' .XX.OOo@@$@$%@@o$&@$+*+OX.             '',
      ''  .X.oo@o@@@@o$%@@$&$X+++OO.            '', ''   ..o@@@o$@$@o$%@@$$@XXOOX.            '',
      ''    .o@@@o$@$@o$%@@$$@XXOOX..           '', ''    .oo@o@@@@o$%@@$&$X+++OO.X.          '',
      ''    .OOo@@$@$%@@o$&@$+*+OX.OO.          '', ''     .OO@%@$%@@o$%@$+*#+X.XOO.          '',
      ''     .+@$XoXO@$%@X$&+#+O.XOOO.          '', ''      .OO+O+O$&XX@%XXX..XXOOX.          '',
      ''       ++XXO$%XOO$X...XXXXXX.           '', ''      ....X+XXO+X..XX.XXXX..            '',
      ''         .+..O+..OOXXX....              '', ''         .. .+.++O+OXX.      .....      '',
      ''           ...++++OXXO.     .XX++.  ..  '', ''           .XX++++++O..   ..XO+O....X.  '',
      ''           OXXOO+++OX.....XXXXXXXXX++.. '', ''          .+OO++++OX.XXXXXO+OXXO+++..O. '',
      ''          ...OOO++O..XXXXXXXO+++++X.O+. '', ''             +......+OOXOO+++OO++++O+.  '',
      ''            .. . .XXO..O+OOX++++OO++.   '', ''                  ... .+O...........    '']\<rparr>"

definition player3_image :: xpm_source where
  "player3_image = \<lparr>x_columns = 40, x_rows = 40,
    x_colours = [(CHR '' '', Some 0x00ff00), (CHR ''.'', Some 0x161318), (CHR ''X'', Some 0x3b353d),
     (CHR ''o'', Some 0x654f3d), (CHR ''O'', Some 0x4f4c50), (CHR ''+'', Some 0x6b646e),
     (CHR ''@'', Some 0x91755c), (CHR ''#'', Some 0xa79ca9), (CHR ''$'', Some 0xcdb28b),
     (CHR ''%'', Some 0xeae0ac), (CHR ''&'', Some 0xf1f1bc), (CHR ''*'', Some 0xfefeff)],
    x_pixels =
     [''                     ..OO++++.          '', ''                   ..O+O++OOOO.         '',
      ''             ......+++++++X....         '', ''             ..OOO++OO+++++++.          '',
      ''              .O+++XO+XXOXX+XX.         '', ''        ......OXXXX++XXX.......         '',
      ''         ....OX.XXXOXOXXO+..            '', ''        ..OO..XO..XXXXXX+++.            '',
      ''       .OOO+.++OX..X.......             '', ''      .OOXXOO+++OX..                    '',
      ''        .XX++++++O..                    '', ''       .XXXO..++XXO.                    '',
      ''         ..X.+.++XX.                    '', ''       ...+..O+..OX.                    '',
      ''     .....X+XXO+X..X.                   '', ''  ...XX++XXO$%XOO$X...                  '',
      '' .XXXX.OO+O+O$&XX@%XXX..                '', '' .XOX.+@$XoXO@$%@X$&+#+O.               '',
      '' .OXX.OO@%@$%@@o$%@$+*#+X.              '', '' .XX.OOo@@$@$%@@o$&@$+*+OX.             '',
      ''  .X.oo@o@@@@o$%@@$&$X+++OO.            '', ''   ..o@@@o$@$@o$%@@$$@XXOOX.            '',
      ''    .o@@@o$@$@o$%@@$$@XXOOX..           '', ''    .oo@o@@@@o$%@@$&$X+++OO.X.XXX       '',
      ''    .OOo@@$@$%@@o$&@$+*+OX.OOOOOOOOO    '', ''     .OO@%@$%@@o$%@$+*#+X.XOOOOXOOXOOX  '',
      ''     .+@$XoXO@$%@X$&+#+O.XOOOOOOXOOOX   '', ''      .OO+O+O$&XX@%XXX..XXOOXXOOXXOOX   '',
      ''       ++XXO$%XOO$X...XXXXXXXXXXXX      '', ''      ....X+XXO+X..XX.XXXX.             '',
      ''         .+..O+..OOXXX....              '', ''         .. .+.++O+OXX.      .....      '',
      ''           ...++++OXXO.     .XX++.  ..  '', ''           .XX++++++O..   ..XO+O....X.  '',
      ''           OXXOO+++OX.....XXXXXXXXX++.. '', ''          .+OO++++OX.XXXXXO+OXXO+++..O. '',
      ''          ...OOO++O..XXXXXXXO+++++X.O+. '', ''             +......+OOXOO+++OO++++O+.  '',
      ''            .. . .XXO..O+OOX++++OO++.   '', ''                  ... .+O...........    '']\<rparr>"

definition player4_image :: xpm_source where
  "player4_image = \<lparr>x_columns = 40, x_rows = 40,
    x_colours = [(CHR '' '', Some 0x00ff00), (CHR ''.'', Some 0x161318), (CHR ''X'', Some 0x3b353d),
     (CHR ''o'', Some 0x654f3d), (CHR ''O'', Some 0x4f4c50), (CHR ''+'', Some 0x6b646e),
     (CHR ''@'', Some 0x91755c), (CHR ''#'', Some 0xa79ca9), (CHR ''$'', Some 0xcdb28b),
     (CHR ''%'', Some 0xeae0ac), (CHR ''&'', Some 0xf1f1bc), (CHR ''*'', Some 0xfefeff)],
    x_pixels =
     [''                     ..OO++++.          '', ''                   ..O+O++OOOO.         '',
      ''             ......+++++++X....         '', ''             ..OOO++OO+++++++.          '',
      ''              .O+++XO+XXOXX+XX.         '', ''        ......OXXXX++XXX.......         '',
      ''         ....OX.XXXOXOXXO+..            '', ''        ..OO..XO..XXXXXX+++.            '',
      ''       .OOO+.++OX..X.......             '', ''      .OOXXOO+++OX..                    '',
      ''        .XX++++++O..                    '', ''       .XXXO..++XXO.                    '',
      ''         ..X.+.++XX.                    '', ''       ...+..O+..OX.                    '',
      ''     .....X+XXO+X..X.                   '', ''  ...XX++XXO$%XOO$X...XOOO              '',
      '' .XXXX.OO+O+O$&XX@%XXX..XXXXX.          '', '' .XOX.+@$XoXO@$%@X$&+#+O.XOOX.          '',
      '' .OXX.OO@%@$%@@o$%@$+*#+X.XOOO          '', '' .XX.OOo@@$@$%@@o$&@$+*+OX.XOO.         '',
      ''  .X.oo@o@@@@o$%@@$&$X+++OO.OO.         '', ''   ..o@@@o$@$@o$%@@$$@XXOOX.X.          '',
      ''    .o@@@o$@$@o$%@@$$@XXOOX..           '', ''    .oo@o@@@@o$%@@$&$X+++OO             '',
      ''    .OOo@@$@$%@@o$&@$+*+OX.             '', ''     .OO@%@$%@@o$%@$+*#+X.              '',
      ''     .+@$XoXO@$%@X$&+#+O.               '', ''      .OO+O+O$&XX@%XXX.                 '',
      ''       ++XXO$%XOO$X...                  '', ''      ....X+XXO+X..XX.                  '',
      ''         .+..O+..OOXX                   '', ''         .. .+.++O+OXX.      .....      '',
      ''           ...++++OXXO.     .XX++.  ..  '', ''           .XX++++++O..   ..XO+O....X.  '',
      ''           OXXOO+++OX.....XXXXXXXXX++.. '', ''          .+OO++++OX.XXXXXO+OXXO+++..O. '',
      ''          ...OOO++O..XXXXXXXO+++++X.O+. '', ''             +......+OOXOO+++OO++++O+.  '',
      ''            .. . .XXO..O+OOX++++OO++.   '', ''                  ... .+O...........    '']\<rparr>"

definition player5_image :: xpm_source where
  "player5_image = \<lparr>x_columns = 40, x_rows = 40,
    x_colours = [(CHR '' '', Some 0x00ff00), (CHR ''.'', Some 0x161318), (CHR ''X'', Some 0x3b353d),
     (CHR ''o'', Some 0x654f3d), (CHR ''O'', Some 0x4f4c50), (CHR ''+'', Some 0x6b646e),
     (CHR ''@'', Some 0x91755c), (CHR ''#'', Some 0xa79ca9), (CHR ''$'', Some 0xcdb28b),
     (CHR ''%'', Some 0xeae0ac), (CHR ''&'', Some 0xf1f1bc), (CHR ''*'', Some 0xfefeff)],
    x_pixels =
     [''                     ..OO++++.          '', ''                   ..O+O++OOOO.         '',
      ''             ......+++++++X....         '', ''             ..OOO++OO+++++++.          '',
      ''              .O+++XO+XXOXX+XX.         '', ''        ......OXXXX++XXX.......         '',
      ''         ....OX.XXXOXOXXO+..            '', ''        ..OO..XO..XXXXXX+++.            '',
      ''       .OOO+.++OX..X.......             '', ''      .OOXXOO+++OX..                    '',
      ''        .XX++++++O..                    '', ''       .XXXO..++XXO.                    '',
      ''         ..X.+.++XX.                    '', ''       ...+..O+..OX.                    '',
      ''     .....X+XXO+X..X.                   '', ''  ...XX++XXO$%XOO$X...XOOOOOOX          '',
      '' .XXXX.OO+O+O$&XX@%XXX..XXXXXXXX        '', '' .XOX.+@$XoXO@$%@X$&+#+O.XOOXXOOXXOO    '',
      '' .OXX.OO@%@$%@@o$%@$+*#+X.XOOOXOOOXOO   '', '' .XX.OOo@@$@$%@@o$&@$+*+OX.XOOXOOOO     '',
      ''  .X.oo@o@@@@o$%@@$&$X+++OO.OOOOXOO     '', ''   ..o@@@o$@$@o$%@@$$@XXOOX.            '',
      ''    .o@@@o$@$@o$%@@$$@XXOOX..           '', ''    .oo@o@@@@o$%@@$&$X+++OO             '',
      ''    .OOo@@$@$%@@o$&@$+*+OX.             '', ''     .OO@%@$%@@o$%@$+*#+X.              '',
      ''     .+@$XoXO@$%@X$&+#+O.               '', ''      .OO+O+O$&XX@%XXX.                 '',
      ''       ++XXO$%XOO$X...                  '', ''      ....X+XXO+X..XX.                  '',
      ''         .+..O+..OOXX                   '', ''         .. .+.++O+OXX.      .....      '',
      ''           ...++++OXXO.     .XX++.  ..  '', ''           .XX++++++O..   ..XO+O....X.  '',
      ''           OXXOO+++OX.....XXXXXXXXX++.. '', ''          .+OO++++OX.XXXXXO+OXXO+++..O. '',
      ''          ...OOO++O..XXXXXXXO+++++X.O+. '', ''             +......+OOXOO+++OO++++O+.  '',
      ''            .. . .XXO..O+OOX++++OO++.   '', ''                  ... .+O...........    '']\<rparr>"

fun xpm_array :: "xpm_map \<Rightarrow> xpm_source" where
  "xpm_array cursor_xpm = cursor_image"
| "xpm_array a_xpm = a_image"
| "xpm_array b_xpm = b_image"
| "xpm_array c_xpm = c_image"
| "xpm_array d_xpm = d_image"
| "xpm_array e_xpm = e_image"
| "xpm_array f_xpm = f_image"
| "xpm_array g_xpm = g_image"
| "xpm_array h_xpm = h_image"
| "xpm_array i_xpm = i_image"
| "xpm_array j_xpm = j_image"
| "xpm_array k_xpm = k_image"
| "xpm_array l_xpm = l_image"
| "xpm_array m_xpm = m_image"
| "xpm_array n_xpm = n_image"
| "xpm_array o_xpm = o_image"
| "xpm_array p_xpm = p_image"
| "xpm_array q_xpm = q_image"
| "xpm_array r_xpm = r_image"
| "xpm_array s_xpm = s_image"
| "xpm_array t_xpm = t_image"
| "xpm_array u_xpm = u_image"
| "xpm_array v_xpm = v_image"
| "xpm_array w_xpm = w_image"
| "xpm_array x_xpm = x_image"
| "xpm_array y_xpm = y_image"
| "xpm_array z_xpm = z_image"
| "xpm_array number_eight_xpm = number_eight_image"
| "xpm_array number_five_xpm = number_five_image"
| "xpm_array number_four_xpm = number_four_image"
| "xpm_array number_nine_xpm = number_nine_image"
| "xpm_array number_one_xpm = number_one_image"
| "xpm_array number_seven_xpm = number_seven_image"
| "xpm_array number_six_xpm = number_six_image"
| "xpm_array number_three_xpm = number_three_image"
| "xpm_array number_two_xpm = number_two_image"
| "xpm_array number_zero_xpm = number_zero_image"
| "xpm_array right_arrow_xpm = right_arrow_image"
| "xpm_array player_xpm = player_image"
| "xpm_array player3_xpm = player3_image"
| "xpm_array player4_xpm = player4_image"
| "xpm_array player5_xpm = player5_image"

subsection \<open>Loading\<close>

definition TRANSPARENCY_COLOR_8_8_8_8 :: u32 where
  "TRANSPARENCY_COLOR_8_8_8_8 = 0xFF000000"

definition pixel_colour :: "xpm_source \<Rightarrow> char \<Rightarrow> u32" where
  "pixel_colour x c = (case the (map_of (x_colours x) c) of Some rgb \<Rightarrow> rgb | None \<Rightarrow> TRANSPARENCY_COLOR_8_8_8_8)"

definition loads_xpm :: "xpm_loader \<Rightarrow> bool" where
  "loads_xpm L \<longleftrightarrow> (\<forall>g. img_w (L (Some g)) = of_nat (x_columns (xpm_array g)) \<and>
     img_h (L (Some g)) = of_nat (x_rows (xpm_array g)) \<and>
     img_map (L (Some g)) = Some (map (pixel_colour (xpm_array g)) (concat (x_pixels (xpm_array g)))))"

text \<open>The rows are as many and as long as the first line says.\<close>

definition rectangular :: "xpm_source \<Rightarrow> bool" where
  "rectangular x \<longleftrightarrow> length (x_pixels x) = x_rows x \<and> list_all (\<lambda>r. length r = x_columns x) (x_pixels x)"

definition all_maps :: "xpm_map list" where
  "all_maps =
    [cursor_xpm, a_xpm, b_xpm, c_xpm, d_xpm, e_xpm, f_xpm, g_xpm, h_xpm, i_xpm, j_xpm, k_xpm, l_xpm, m_xpm,
     n_xpm, o_xpm, p_xpm, q_xpm, r_xpm, s_xpm, t_xpm, u_xpm, v_xpm, w_xpm, x_xpm, y_xpm, z_xpm,
     number_eight_xpm, number_five_xpm, number_four_xpm, number_nine_xpm, number_one_xpm, number_seven_xpm,
     number_six_xpm, number_three_xpm, number_two_xpm, number_zero_xpm, right_arrow_xpm, player_xpm,
     player3_xpm, player4_xpm, player5_xpm]"

lemma every_map: "g \<in> set all_maps"
  by (cases g) (simp_all add: all_maps_def)

lemma arrays_rectangular: "rectangular (xpm_array g)"
proof -
  have "list_all (\<lambda>g. rectangular (xpm_array g)) all_maps" by code_simp
  then show ?thesis using every_map [of g] by (simp add: list_all_iff)
qed

definition big_maps :: "xpm_map list" where
  "big_maps = [cursor_xpm, player_xpm, player3_xpm, player4_xpm, player5_xpm]"

lemma array_sizes:
  "x_columns (xpm_array g) \<le> 40" "x_rows (xpm_array g) \<le> 40"
  "g \<notin> set big_maps \<Longrightarrow> x_columns (xpm_array g) \<le> 16 \<and> x_rows (xpm_array g) \<le> 16"
proof -
  have "list_all (\<lambda>g. x_columns (xpm_array g) \<le> 40 \<and> x_rows (xpm_array g) \<le> 40 \<and>
      (list_ex ((=) g) big_maps \<or> x_columns (xpm_array g) \<le> 16 \<and> x_rows (xpm_array g) \<le> 16)) all_maps"
    by code_simp
  then show "x_columns (xpm_array g) \<le> 40" "x_rows (xpm_array g) \<le> 40"
    "g \<notin> set big_maps \<Longrightarrow> x_columns (xpm_array g) \<le> 16 \<and> x_rows (xpm_array g) \<le> 16"
    using every_map [of g] by (auto simp: list_all_iff list_ex_iff)
qed

lemma length_concat_same: "list_all (\<lambda>r. length r = n) rs \<Longrightarrow> length (concat rs) = length rs * n"
  by (induction rs) simp_all

lemma nth_concat_same:
  "list_all (\<lambda>r. length r = n) rs \<Longrightarrow> i < length rs \<Longrightarrow> j < n \<Longrightarrow> concat rs ! (i * n + j) = rs ! i ! j"
proof (induction rs arbitrary: i)
  case (Cons r rs)
  then show ?case by (cases i) (simp_all add: nth_append)
qed simp

lemma loaded_size:
  assumes "loads_xpm L"
  shows "uint (img_w (L (Some g))) = int (x_columns (xpm_array g))" "uint (img_h (L (Some g))) = int (x_rows (xpm_array g))"
proof -
  have "uint (of_nat n :: u16) = int n" if "n \<le> 40" for n using that by (simp add: unsigned_of_nat take_bit_eq_mod)
  then show "uint (img_w (L (Some g))) = int (x_columns (xpm_array g))" "uint (img_h (L (Some g))) = int (x_rows (xpm_array g))"
    using assms array_sizes(1,2) [of g] by (simp_all add: loads_xpm_def)
qed

lemma loaded_image:
  assumes "loads_xpm L"
  shows "image_ok (L (Some g)) (map (pixel_colour (xpm_array g)) (concat (x_pixels (xpm_array g))))"
proof -
  have rect: "length (x_pixels (xpm_array g)) = x_rows (xpm_array g)"
    "list_all (\<lambda>r. length r = x_columns (xpm_array g)) (x_pixels (xpm_array g))"
    using arrays_rectangular [of g] by (simp_all add: rectangular_def)
  then have len: "length (concat (x_pixels (xpm_array g))) = x_rows (xpm_array g) * x_columns (xpm_array g)"
    using length_concat_same by metis
  have "x_rows (xpm_array g) * x_columns (xpm_array g) \<le> 40 * 40" using array_sizes(1,2) [of g] by (intro mult_le_mono)
  then have "int (x_rows (xpm_array g) * x_columns (xpm_array g)) \<le> int (40 * 40)" by (simp only: of_nat_le_iff)
  then show ?thesis
    using len assms loaded_size [OF assms, of g] by (simp add: image_ok_def loads_xpm_def INT_MAX_def)
qed

lemma loaded_font: "loads_xpm L \<Longrightarrow> font_ok L"
proof -
  assume L: "loads_xpm L"
  have "g \<notin> set big_maps" if "g \<in> ran get_xpm" for g
    using that by (auto simp: ran_def get_xpm_def big_maps_def split: if_splits)
  then show "font_ok L"
    using loaded_image [OF L] loaded_size [OF L] array_sizes(3) by (fastforce simp: font_ok_def)
qed

subsection \<open>The player\<close>

text \<open>Blank pixels at both ends of a row of the player's images: the corners, which a rotation may turn out of the square.\<close>

definition margins :: "nat list" where
  "margins = [4, 3, 2, 1] @ replicate 32 0 @ [1, 2, 3, 4]"

definition corners_blank :: "xpm_source \<Rightarrow> bool" where
  "corners_blank x \<longleftrightarrow> x_columns x = 40 \<and> x_rows x = 40 \<and> pixel_colour x CHR '' '' = 0x00ff00 \<and>
     list_all (\<lambda>(m, r). list_all (\<lambda>c. c = CHR '' '') (take m r @ drop (40 - m) r)) (zip margins (x_pixels x))"

lemma players_blank: "list_all (\<lambda>g. corners_blank (xpm_array g)) [player_xpm, player3_xpm, player4_xpm, player5_xpm]"
  by code_simp

lemma margin_close:
  assumes "i < 40" and "margins ! i \<le> j" and "j < 40 - margins ! i"
  shows "max ((int j - 20)\<^sup>2) ((int j - 19)\<^sup>2) + max ((int i - 20)\<^sup>2) ((int i - 19)\<^sup>2) < 676"
proof -
  have "list_all (\<lambda>i. (20 - int (margins ! i)) * (20 - int (margins ! i)) +
      max ((int i - 20) * (int i - 20)) ((int i - 19) * (int i - 19)) < 676 \<and> margins ! i \<le> 4) [0..<40]"
    by code_simp
  then have row: "(20 - int (margins ! i))\<^sup>2 + max ((int i - 20)\<^sup>2) ((int i - 19)\<^sup>2) < 676" "margins ! i \<le> 4"
    using assms(1) by (auto simp: list_all_iff power2_eq_square)
  have "\<bar>int j - 20\<bar> \<le> \<bar>20 - int (margins ! i)\<bar>" "\<bar>int j - 19\<bar> \<le> \<bar>20 - int (margins ! i)\<bar>"
    using assms(2,3) row(2) by linarith+
  then have "(int j - 20)\<^sup>2 \<le> (20 - int (margins ! i))\<^sup>2" "(int j - 19)\<^sup>2 \<le> (20 - int (margins ! i))\<^sup>2"
    unfolding abs_le_square_iff by simp_all
  then show ?thesis using row(1) by linarith
qed

lemma blank_pixel:
  assumes "corners_blank x" and "length (x_pixels x) = 40" and "list_all (\<lambda>r. length r = 40) (x_pixels x)"
    and "i < 40" and "j < 40" and "j < margins ! i \<or> 40 - margins ! i \<le> j"
  shows "x_pixels x ! i ! j = CHR '' ''"
proof -
  let ?m = "margins ! i" and ?r = "x_pixels x ! i"
  have len: "length margins = 40" "length ?r = 40" using assms(2-4) by (simp_all add: margins_def list_all_iff)
  have "(?m, ?r) \<in> set (zip margins (x_pixels x))"
    using assms(2,4) len(1) by (auto simp: set_zip intro!: exI [of _ i])
  then have blank: "\<forall>c \<in> set (take ?m ?r @ drop (40 - ?m) ?r). c = CHR '' ''"
    using assms(1) by (auto simp: corners_blank_def list_all_iff)
  show ?thesis
  proof (cases "j < ?m")
    case True
    then have "?r ! j \<in> set (take ?m ?r)" using assms(5) len(2) by (auto simp: in_set_conv_nth intro!: exI [of _ j])
    then show ?thesis using blank by auto
  next
    case False
    then have "?r ! j \<in> set (drop (40 - ?m) ?r)"
      using assms(5,6) len(2) by (auto simp: in_set_conv_nth intro!: exI [of _ "j - (40 - ?m)"])
    then show ?thesis using blank by auto
  qed
qed

lemma loaded_hero:
  assumes L: "loads_xpm L" and g: "g \<in> {player_xpm, player3_xpm, player4_xpm, player5_xpm}"
  shows "hero_image (L (Some g))"
proof -
  let ?x = "xpm_array g"
  have c: "corners_blank ?x" using g players_blank by auto
  then have size: "x_columns ?x = 40" "x_rows ?x = 40" by (simp_all add: corners_blank_def)
  then have rect: "length (x_pixels ?x) = 40" "list_all (\<lambda>r. length r = 40) (x_pixels ?x)"
    using arrays_rectangular [of g] by (simp_all add: rectangular_def)
  let ?px = "map (pixel_colour ?x) (concat (x_pixels ?x))"
  have len: "length (concat (x_pixels ?x)) = 1600" using length_concat_same [OF rect(2)] rect(1) by simp
  have "max ((j - 20)\<^sup>2) ((j - 19)\<^sup>2) + max ((i - 20)\<^sup>2) ((i - 19)\<^sup>2) < 676"
    if "i \<in> {0..<40}" "j \<in> {0..<40}" "?px ! nat (i * 40 + j) \<noteq> 0x00ff00" for i j :: int
  proof -
    have i: "nat i < 40" "int (nat i) = i" "nat j < 40" "int (nat j) = j" using that(1,2) by auto
    have n: "nat (i * 40 + j) = nat i * 40 + nat j" using that(1,2) by (simp add: nat_add_distrib nat_mult_distrib)
    have "?px ! nat (i * 40 + j) = pixel_colour ?x (x_pixels ?x ! nat i ! nat j)"
      using n i len nth_concat_same [OF rect(2), of "nat i" "nat j"] rect(1) by simp
    then have "x_pixels ?x ! nat i ! nat j \<noteq> CHR '' ''" using that(3) c by (auto simp: corners_blank_def)
    then have "\<not> (nat j < margins ! nat i \<or> 40 - margins ! nat i \<le> nat j)" using blank_pixel [OF c rect i(1,3)] by blast
    then show ?thesis using margin_close [OF i(1), of "nat j"] i by simp
  qed
  moreover have "img_w (L (Some g)) = 40" "img_h (L (Some g)) = 40" using L size by (simp_all add: loads_xpm_def)
  ultimately show ?thesis using loaded_image [OF L, of g] unfolding hero_image_def by blast
qed

end
