(* ===== verification/Program_Safety.thy ===== *)
theory Program_Safety
  imports World_Safety Images
begin

text \<open>
  The whole program is defined. Each interrupt of the loop keeps the invariant world_ok of World_Safety (the
  cursor bound grows by at most 128 per message), so every run of interrupt_loop does; setFrameBuffer and
  init_game establish it, so every run of proj_main_loop is defined. started P says that the
  subscriptions and initialisations before the loop are defined, and give a world and interrupt masks with
  P, or an early return. With the hook ids the drivers start with, the masks are start_masks, and one_line reads off
  which handler each of them runs. ready_kernel and ready_video are a machine on which every call succeeds.
\<close>

subsection \<open>The interrupts\<close>

lemma cursor_more: "cursor_in b p \<Longrightarrow> b \<le> b' \<Longrightarrow> cursor_in b' p"
  by (auto simp: cursor_in_def)

lemma world_more: "world_ok b w \<Longrightarrow> b \<le> b' \<Longrightarrow> world_ok b' w"
  using cursor_more by (auto simp: world_ok_def)

lemma kbd_fine:
  assumes ok: "world_ok b w"
  shows "fine_k b (on_kbd K w k)"
proof -
  obtain v k1 where v: "kbd_ih K (kbd_value w) k = (v, k1)" by fastforce
  define w1 where "w1 = (if v = 0x81 then (game_reset (w\<lparr>kbd_value := v\<rparr>))\<lparr>state := Menu\<rparr> else w\<lparr>kbd_value := v\<rparr>)"
  have gen: "generated (w_maze w)" using ok by (simp add: world_ok_def)
  have "player_ok (w_maze w) ((hero w)\<lparr>pos_x := 50, pos_y := 50\<rparr>)"
    using start_player_ok [OF gen] by (simp add: player_ok_def start_player_def)
  then have w1: "world_ok b w1"
    using ok by (simp add: w1_def world_defs game_reset_def cursor_in_def)
  then have "generated (w_maze w1)" "player_ok (w_maze w1) (hero w1)" by (simp_all add: world_ok_def)
  then obtain p where p: "game_keyboard_handler (w_maze w1) (kbd_value w1) (hero w1) = Some p" "player_ok (w_maze w1) p"
    "x_mouse p = x_mouse (hero w1)" "y_mouse p = y_mouse (hero w1)"
    using keyboard_handler_ok keyboard_handler_moves by (metis option.inject)
  have "world_ok b (w1\<lparr>hero := p\<rparr>)" using w1 p by (simp add: world_defs cursor_in_def)
  moreover have "on_kbd K w k = (if state w1 = Game
      then do { p \<leftarrow> game_keyboard_handler (w_maze w1) (kbd_value w1) (hero w1); Some (w1\<lparr>hero := p\<rparr>, k1) }
      else Some (w1, k1))"
    by (simp add: on_kbd_def v w1_def)
  ultimately show ?thesis using w1 p(1) by (simp add: fine_k_def)
qed

lemma decode_ok: "packet_ok (decode bs)"
proof -
  have "\<bar>sint (signed_delta s b)\<bar> \<le> 256" for s b
    using uint_lt2p [of b] uint_ge_0 [of b] by (simp add: signed_delta_value)
  then show ?thesis by (simp add: packet_ok_def decode_def)
qed

lemma mouse_interrupt_fine:
  assumes "mouse_ok m" and "packet_ok (mouse_packet m)"
  obtains m' k' where "mouse_interrupt K m k = Some (m', k')" "mouse_ok m'" "packet_ok (mouse_packet m')"
proof -
  obtain m1 k1 where ih: "mouse_ih K m k = (m1, k1)" by fastforce
  note same = mouse_ih_keeps [OF ih]
  have m1: "mouse_ok m1" "packet_ok (mouse_packet m1)" using assms same by (simp_all add: mouse_ok_def)
  have "packet_ok (mouse_packet (mouse_byte m1))" using m1(2) decode_ok by (auto simp: mouse_byte_def Let_def)
  then show thesis using mouse_interrupt_byte [OF assms(1), of K k] ih mouse_byte_ok [OF m1(1)] that by simp
qed

lemma mouse_step:
  assumes "\<bar>x\<bar> \<le> (b :: real)" and "\<bar>d :: int\<bar> \<le> 256"
  shows "\<bar>x + of_int d * 0.5\<bar> \<le> b + 128" and "\<bar>x - of_int d * 0.5\<bar> \<le> b + 128"
proof -
  have "\<bar>of_int d :: real\<bar> \<le> 256" using assms(2) by linarith
  then show "\<bar>x + of_int d * 0.5\<bar> \<le> b + 128" and "\<bar>x - of_int d * 0.5\<bar> \<le> b + 128"
    using assms(1) by linarith+
qed

lemma game_mouse_cursor:
  assumes "cursor_in b p" and "packet_ok mp"
  shows "cursor_in (b + 128) (game_mouse_handler mp p)"
  using mouse_step [of "x_mouse p" b "sint (delta_x mp)"] mouse_step [of "y_mouse p" b "sint (delta_y mp)"] assms
  unfolding cursor_in_def packet_ok_def game_mouse_handler_def Let_def by simp

lemma menu_mouse_cursor: "\<exists>p. menu_mouse_handler w = w\<lparr>hero := p\<rparr> \<and> cursor_in 65535 p \<and>
    pos_x p = pos_x (hero w) \<and> pos_y p = pos_y (hero w)"
proof -
  let ?mp = "mouse_packet (w_mouse w)"
  define p where "p = (hero w)\<lparr>x_mouse := x_mouse (hero w) + of_int (sint (delta_x ?mp)) * 0.5,
    y_mouse := y_mouse (hero w) - of_int (sint (delta_y ?mp)) * 0.5\<rparr>"
  have "menu_mouse_handler w = w\<lparr>hero := game_check_bound (screen_mode w) p\<rparr>"
    unfolding p_def menu_mouse_handler_def game_check_bound_def Let_def by simp
  moreover have "pos_x p = pos_x (hero w)" "pos_y p = pos_y (hero w)" by (simp_all add: p_def)
  ultimately show ?thesis using check_bound_cursor [of "screen_mode w" p]
    by (intro exI [of _ "game_check_bound (screen_mode w) p"]) simp
qed

lemma mouse_fine:
  assumes ok: "world_ok b w" and b: "65535 \<le> b"
  shows "fine_k (b + 128) (on_mouse K w k)"
proof -
  have m: "mouse_ok (w_mouse w)" "packet_ok (mouse_packet (w_mouse w))" using ok by (simp_all add: world_ok_def)
  obtain m' k' where m': "mouse_interrupt K (w_mouse w) k = Some (m', k')" "mouse_ok m'" "packet_ok (mouse_packet m')"
    using mouse_interrupt_fine [OF m] .
  have w1: "world_ok b (w\<lparr>w_mouse := m'\<rparr>)" using ok m' by (simp add: world_defs)
  have "world_ok (b + 128) (w\<lparr>w_mouse := m', hero := game_mouse_handler (mouse_packet m') (hero w)\<rparr>)"
    using ok m' game_mouse_cursor by (simp add: world_defs player_ok_def)
  moreover obtain p where "menu_mouse_handler (w\<lparr>w_mouse := m'\<rparr>) = w\<lparr>w_mouse := m', hero := p\<rparr>"
    "cursor_in 65535 p" "pos_x p = pos_x (hero w)" "pos_y p = pos_y (hero w)"
    using menu_mouse_cursor [of "w\<lparr>w_mouse := m'\<rparr>"] by auto
  then have "world_ok (b + 128) (menu_mouse_handler (w\<lparr>w_mouse := m'\<rparr>))"
    using w1 b cursor_more [of 65535 p "b + 128"] by (simp add: world_defs player_ok_def)
  moreover have "world_ok (b + 128) (w\<lparr>w_mouse := m'\<rparr>)" using world_more [OF w1] by simp
  ultimately show ?thesis using m'(1) by (cases "state w") (simp_all add: on_mouse_def fine_k_def)
qed

lemma timer_fine:
  assumes ok: "world_ok b w" and b: "65535 \<le> b" "b \<le> 2147483647" and img: "images_ok L"
    and K: "line_ok K waiting" "clock_ok K" and len: "length contents = 100"
  shows "fine_k b (on_timer K L (b1, b2, contents) w k)"
proof -
  have font: "font_ok L" using img by (simp add: images_ok_def)
  have "fine b (info_main_loop L w)" by (rule goes_fine [OF ok info_goes [OF world_screen [OF ok] font]])
  then show ?thesis
    using game_fine [OF ok b(1) img K len] menu_fine [OF ok b(2) img K(1) len]
    by (cases "state w") (auto simp: on_timer_def fine_def fine_k_def)
qed

lemma rtc_fine:
  assumes "world_ok b w" "clock_ok K" "on_rtc K w k = (w', k')"
  shows "world_ok b w'"
proof -
  obtain t l where t: "update K (time_stamp w) k = (t, l)" by fastforce
  have "stamp_ok t" using update_ok [OF assms(2) _ t] assms(1) by (simp add: world_ok_def)
  then show ?thesis using assms(1,3) t by (auto simp: on_rtc_def world_defs)
qed

lemma char_fine:
  assumes ok: "world_ok b w" and K: "line_ok K waiting" and len: "length contents = 100"
  shows "fine_k b (on_char K (b1, b2, contents) c w k)"
proof -
  have act: "fine_k b (game_activate_multiplayer K (b1, b2, contents) w k)" if "world_ok b w" for w k
  proof -
    have "world_ok b (w\<lparr>gameState := Running\<rparr>)" using that by (simp add: world_defs)
    from send_char_fine [OF this K len] fine_k_some [OF this, of k] show ?thesis
      by (simp add: game_activate_multiplayer_def Let_def)
  qed
  have lose: "world_ok b (game_lose w)" if "world_ok b w" for w
    using that by (simp add: game_lose_def world_defs)
  show ?thesis unfolding on_char_def
    by (rule fine_kk_bind, use act [OF ok] fine_k_some [OF ok, of k] in simp, unfold prod.case,
        rule fine_kk_bind, use act in \<open>simp add: fine_k_some\<close>, use lose in \<open>simp add: fine_k_some\<close>)
qed

lemma serial_int_fine:
  assumes ok: "world_ok b w" and K: "line_ok K waiting" and len: "length contents = 100"
  shows "\<exists>c' w' k'. on_serial K (b1, b2, contents) c w k = Some (c', w', k') \<and> world_ok b w'"
proof -
  have s: "serial_fine (w_serial w)" using ok by (simp add: world_ok_def)
  obtain c1 s1 k1 where r: "receive K c (w_serial w) k = Some (c1, s1, k1)" "serial_fine s1"
    using receive_returns [OF K s] .
  have "world_ok b (w\<lparr>w_serial := s1\<rparr>)" using ok r(2) by (simp add: world_defs)
  from char_fine [OF this K len, of b1 b2 c1 k1] obtain w2 k2 where
    w2: "on_char K (b1, b2, contents) c1 (w\<lparr>w_serial := s1\<rparr>) k1 = Some (w2, k2)" "world_ok b w2"
    by (auto simp: fine_k_def)
  then have "serial_fine (w_serial w2)" by (simp add: world_ok_def)
  then obtain s3 where s3: "clear_receive_queue (w_serial w2) = Some s3" "serial_fine s3"
    by (rule clear_receive_returns)
  have "world_ok b (w2\<lparr>w_serial := s3\<rparr>)" using w2(2) s3(2) by (simp add: world_defs)
  then show ?thesis using r(1) w2(1) s3(1) by (simp add: on_serial_def)
qed

lemma notify_fine:
  assumes ok: "world_ok b w" and b: "65535 \<le> b" "b + 128 \<le> 2147483647" and img: "images_ok L"
    and K: "line_ok K waiting" "clock_ok K" and len: "length contents = 100"
  shows "\<exists>c' w' k'. on_notify K L (b1, b2, contents) irqs ints c w k = Some (c', w', k') \<and> world_ok (b + 128) w'"
proof -
  let ?a = "(b1, b2, contents)"
  obtain w1 k1 where w1: "(if raised ints (irq_set_kbd irqs) then on_kbd K w k else Some (w, k)) = Some (w1, k1)"
    "world_ok b w1"
    using kbd_fine [OF ok, of K k] fine_k_some [OF ok, of k]
    by (cases "raised ints (irq_set_kbd irqs)") (auto simp: fine_k_def)
  obtain w2 k2 where w2: "(if raised ints (irq_set_mouse irqs) then on_mouse K w1 k1 else Some (w1, k1)) = Some (w2, k2)"
    "world_ok (b + 128) w2"
    using mouse_fine [OF w1(2) b(1), of K k1] world_more [OF w1(2), of "b + 128"]
    by (cases "raised ints (irq_set_mouse irqs)") (auto simp: fine_k_def)
  have b': "65535 \<le> b + 128" using b(1) by simp
  obtain w3 k3 where w3: "(if raised ints (irq_set_timer irqs) then on_timer K L ?a w2 k2 else Some (w2, k2)) = Some (w3, k3)"
    "world_ok (b + 128) w3"
    using timer_fine [OF w2(2) b' b(2) img K len, of b1 b2 k2] w2(2)
    by (cases "raised ints (irq_set_timer irqs)") (auto simp: fine_k_def)
  obtain w4 k4 where w4: "(if raised ints (irq_set_rtc irqs) then on_rtc K w3 k3 else (w3, k3)) = (w4, k4)"
    by fastforce
  have w4': "world_ok (b + 128) w4" using rtc_fine [OF w3(2) K(2), of k3 w4 k4] w3(2) w4 by (simp split: if_splits)
  have "\<exists>c' w' k'. (if raised ints (irq_set_serie irqs) \<and> c \<noteq> 0 then on_serial K ?a c w4 k4 else Some (c, w4, k4)) =
      Some (c', w', k') \<and> world_ok (b + 128) w'"
    using serial_int_fine [OF w4' K(1) len, of b1 b2 c k4] w4' by simp
  then show ?thesis unfolding on_notify_def w1(1) by (simp only: Option.bind.simps prod.case w2(1) w3(1) w4)
qed

subsection \<open>The loop\<close>

definition loop_end_ok :: "real \<Rightarrow> 'k loop_end \<Rightarrow> bool" where
  "loop_end_ok b r = (case r of Waits c w k \<Rightarrow> world_ok b w | Stopped c w k \<Rightarrow> world_ok b w | Failed e w k \<Rightarrow> world_ok b w)"

definition source_ok :: "received \<Rightarrow> bool" where
  "source_ok r \<longleftrightarrow> - INT_MAX \<le> m_source r + 1 \<and> m_source r \<le> INT_MAX - MAX_NR_TASKS"

lemma source_slot: "source_ok r \<Longrightarrow> \<exists>slot. ENDPOINT_P (m_source r) = Some slot"
  by (simp add: source_ok_def ENDPOINT_P_def MAX_NR_TASKS_def c_int_def INT_MAX_def)

lemma loop_fine:
  assumes img: "images_ok L" and K: "line_ok K waiting" "clock_ok K" and len: "length contents = 100"
  shows "world_ok b w \<Longrightarrow> 65535 \<le> b \<Longrightarrow> b + 128 * real (length msgs) \<le> 2147483647 \<Longrightarrow> \<forall>r \<in> set msgs. source_ok r \<Longrightarrow>
    \<exists>r. interrupt_loop K L (b1, b2, contents) irqs msgs c w k = Some r \<and> loop_end_ok (b + 128 * real (length msgs)) r"
proof (induction msgs arbitrary: b c w k)
  case Nil
  then show ?case by (simp add: interrupt_loop.simps loop_end_ok_def)
next
  case (Cons r msgs)
  have len': "b + 128 * real (length (r # msgs)) = (b + 128) + 128 * real (length msgs)" by simp
  have more: "world_ok b w \<Longrightarrow> world_ok (b + 128 * real (length (r # msgs))) w"
    by (rule world_more) (assumption, simp)
  have step: "world_ok b' w' \<Longrightarrow> b' \<in> {b, b + 128} \<Longrightarrow>
      \<exists>r'. interrupt_loop K L (b1, b2, contents) irqs msgs c' w' k' = Some r' \<and>
        loop_end_ok (b + 128 * real (length (r # msgs))) r'" for b' c' w' k'
    unfolding len' using Cons.IH [of "b + 128" w' c' k'] world_more [of b' w' "b + 128"] Cons.prems by auto
  obtain slot where slot: "ENDPOINT_P (m_source r) = Some slot" using source_slot Cons.prems(4) by auto
  have b2: "b + 128 \<le> 2147483647" using Cons.prems(3) unfolding len' by linarith
  obtain c1 w1 k1 where n: "on_notify K L (b1, b2, contents) irqs (interrupts r) c w k = Some (c1, w1, k1)"
    "world_ok (b + 128) w1"
    using notify_fine [OF Cons.prems(1,2) b2 img K len] by blast
  show ?case
    using step [OF n(2), of c1 k1] step [OF Cons.prems(1), of c k] more Cons.prems(1)
    by (simp add: interrupt_loop.simps [of _ _ _ _ "r # msgs"] slot n(1) loop_end_ok_def)
qed

subsection \<open>The start\<close>

text \<open>What the program relies on of the video calls: the mode has room for a cell of the maze and its buffer can be
  addressed with 32 bits, the memory that is mapped or allocated has the size asked for, and malloc succeeds.\<close>

definition mode_fine :: "vbe_mode_info \<Rightarrow> bool" where
  "mode_fine mi \<longleftrightarrow> 100 \<le> x_res mi \<and> 100 \<le> y_res mi \<and> 1 \<le> bytes_per_pixel mi \<and> bytes_per_pixel mi \<le> 4 \<and>
     x_res mi * y_res mi \<le> INT_MAX \<and> x_res mi * y_res mi * bytes_per_pixel mi < 2 ^ 32"

definition video_calls_ok :: "'k video_kernel \<Rightarrow> bool" where
  "video_calls_ok V \<longleftrightarrow>
     (\<forall>k e mi k'. vbe_get_mode_info V 0x14C k = (e, mi, k') \<longrightarrow> e = 0 \<longrightarrow> mode_fine mi) \<and>
     (\<forall>a n k bs k'. vm_map_phys V a n k = (Some bs, k') \<longrightarrow> length bs = unat n) \<and>
     (\<forall>n k. \<exists>bs k'. malloc V n k = (Some bs, k') \<and> length bs = unat n)"

lemma mode_frame:
  assumes "mode_fine mi"
  obtains n where "frame_size mi (word_of_int (bytes_per_pixel mi)) = Some n"
    and "\<forall>bs. length bs = unat n \<longrightarrow> frame_ok mi bs"
proof -
  define m where "m = nat (x_res mi * y_res mi * bytes_per_pixel mi)"
  have "0 \<le> x_res mi * y_res mi * bytes_per_pixel mi" using assms by (simp add: mode_fine_def)
  then have ok: "frame_ok mi bs" if "length bs = m" for bs
    using assms that by (simp add: frame_ok_def mode_fine_def m_def)
  obtain n where "frame_size mi (word_of_int (bytes_per_pixel mi)) = Some n" "unat n = m"
    using frame_size_ok [OF ok [of "replicate m 0"]] by auto
  with that ok show thesis by simp
qed

lemma set_frame_buffer_fine:
  assumes V: "video_calls_ok V" and "maze_buffer v = None"
  obtains err v' k' where "setFrameBuffer V 0x14C v k = Some (err, v', k')"
    and "err = 0 \<Longrightarrow> video_ok v' \<and> mode_fine (mode_info v') \<and> maze_buffer v' = None"
proof -
  obtain e mi k1 where mode: "vbe_get_mode_info V 0x14C k = (e, mi, k1)" by (metis prod_cases3)
  show thesis
  proof (cases "e = 0")
    case False
    then show thesis using that mode by (simp add: setFrameBuffer_def)
  next
    case True
    then have fine: "mode_fine mi" using V mode unfolding video_calls_ok_def by blast
    obtain n where n: "frame_size mi (word_of_int (bytes_per_pixel mi)) = Some n"
      "\<forall>bs. length bs = unat n \<longrightarrow> frame_ok mi bs" by (rule mode_frame [OF fine])
    obtain e2 k2 where priv: "sys_privctl_add_mem V (PhysBasePtr mi) (PhysBasePtr mi + n) k1 = (e2, k2)" by fastforce
    obtain m k3 where map: "vm_map_phys V (PhysBasePtr mi) n k2 = (m, k3)" by fastforce
    obtain bs k4 where alloc: "malloc V n k3 = (Some bs, k4)" "length bs = unat n"
      using V unfolding video_calls_ok_def by blast
    have m: "length f = unat n" if "m = Some f" for f
      using V map that unfolding video_calls_ok_def by blast
    let ?v = "v\<lparr>mode_info := mi, bytesPerPixel := word_of_int (bytes_per_pixel mi)\<rparr>"
    have run: "setFrameBuffer V 0x14C v k = (if e2 \<noteq> 0 then Some (1, ?v, k2)
        else Some (of_bool (m = None), ?v\<lparr>frame_buffer := m, back_buffer := Some bs\<rparr>, k4))"
      using True by (simp add: setFrameBuffer_def mode n(1) priv map alloc(1))
    show thesis
    proof (cases "e2 = 0")
      case False
      then show thesis using that run by simp
    next
      case True
      have "video_ok (?v\<lparr>frame_buffer := m, back_buffer := Some bs\<rparr>)" if "of_bool (m = None) = (0 :: int)"
        using that n(2) m alloc(2) by (auto simp: video_ok_def)
      then show thesis using that [of "of_bool (m = None)"] run True fine assms(2) by simp
    qed
  qed
qed

text \<open>The state in which init_game runs.\<close>

definition before_game :: "world \<Rightarrow> bool" where
  "before_game w \<longleftrightarrow> video_ok (w_video w) \<and> mode_fine (screen_mode w) \<and> maze_buffer (w_video w) = None \<and>
     cursor_in 65535 (hero w) \<and> mouse_ok (w_mouse w) \<and> packet_ok (mouse_packet (w_mouse w)) \<and>
     serial_fine (w_serial w) \<and> stamp_ok (time_stamp w) \<and> stamp_ok (time_initial w) \<and> stamp_ok (time_final w) \<and>
     length (buttons w) = 10 \<and> button_count w = 0"

lemma init_game_fine:
  assumes V: "video_calls_ok V" and w: "before_game w"
  shows "fine_k 65535 (init_game V rnd junk w k)"
proof -
  have mode: "mode_fine (screen_mode w)" "100 \<le> x_res (screen_mode w)" "100 \<le> y_res (screen_mode w)"
    using w by (simp_all add: before_game_def mode_fine_def)
  obtain m where m: "generate_maze rnd junk (screen_mode w) = Some m" "maze_wf m"
    "m_width m = x_res (screen_mode w) div 100" "m_height m = y_res (screen_mode w) div 100" "m_cell_size m = 100"
    using generate_maze_run [OF mode(2,3), of rnd junk] by metis
  have gen: "generated m" using m(1) by (auto simp: generated_def)
  obtain n where n: "frame_size (screen_mode w) (word_of_int (bytes_per_pixel (screen_mode w))) = Some n"
    "\<forall>bs. length bs = unat n \<longrightarrow> frame_ok (screen_mode w) bs" by (rule mode_frame [OF mode(1)])
  obtain bs k1 where alloc: "malloc V n k = (Some bs, k1)" "length bs = unat n"
    using V unfolding video_calls_ok_def by blast
  have "100 * m_width m \<le> x_res (screen_mode w)" "100 * m_height m \<le> y_res (screen_mode w)"
    unfolding m(3,4) by simp_all
  from draw_maze_exact [OF m(2,5) this n(2) [rule_format, OF alloc(2)]] obtain buf where
    buf: "draw_maze (screen_mode w) m bs = Some buf" "frame_ok (screen_mode w) buf" by blast
  let ?w = "w\<lparr>hero := (hero w)\<lparr>pos_x := 50, pos_y := 50\<rparr>, w_maze := m, w_video := (w_video w)\<lparr>maze_buffer := Some buf\<rparr>\<rparr>"
  have "init_game V rnd junk w k = Some (?w, k1)"
    using w m(1) n(1) alloc(1) buf(1)
    by (simp add: init_game_def generate_maze_buffer_def before_game_def Let_def)
  moreover have "player_ok m ((hero w)\<lparr>pos_x := 50, pos_y := 50\<rparr>)"
    using start_player_ok [OF gen] by (simp add: player_ok_def start_player_def)
  then have "world_ok 65535 ?w"
    using w gen buf(2) by (simp add: world_defs before_game_def cursor_in_def video_ok_def)
  ultimately show ?thesis by (simp add: fine_k_def)
qed

lemma subscribe_fine:
  assumes "serial_fine s" and "length contents1 = 100" and "length contents2 = 100"
    and "sp_subscribe_int K (x1, y1, contents1) (x2, y2, contents2) base bit_no hook s k = (err, b, h, s', k')"
  shows "serial_fine s'"
proof -
  have q: "queue_fine (alloc_queue (x, y, c))" if "length c = 100" for x y c
    using alloc_queue_ok(1) [OF that] by (cases x; cases y) (auto simp: queue_fine_def alloc_queue_def new_queue_def)
  have "queue_fine None" by (simp add: queue_fine_def)
  then show ?thesis
    using assms(1,4) q [OF assms(2), of x1 y1] q [OF assms(3), of x2 y2] by (auto simp: sp_subscribe_int_def serial_fine_def Let_def split: if_splits option.splits prod.splits)
qed

definition start_ok :: "world \<Rightarrow> bool" where
  "start_ok w \<longleftrightarrow> maze_buffer (w_video w) = None \<and>
     cursor_in 65535 (hero w) \<and> mouse_ok (w_mouse w) \<and> packet_ok (mouse_packet (w_mouse w)) \<and>
     serial_fine (w_serial w) \<and> stamp_ok (time_stamp w) \<and> stamp_ok (time_initial w) \<and> stamp_ok (time_final w) \<and>
     length (buttons w) = 10 \<and> button_count w = 0"

lemma start_world_ok: "start_ok start_world"
  by (simp add: start_ok_def start_world_def cursor_in_def idle_mouse_ok idle_mouse_def zero_packet_def packet_ok_def
      serial_fine_def queue_fine_def no_queues_def stamp_ok_def Let_def mouse_ok_def)

text \<open>A start that ends well gives a world and masks with the property P.\<close>

definition started :: "(world \<Rightarrow> irq_sets \<Rightarrow> bool) \<Rightarrow> 'k started option \<Rightarrow> bool" where
  "started P r \<longleftrightarrow> (\<exists>x. r = Some x \<and> (case x of Inl _ \<Rightarrow> True | Inr (w, irqs, hooks, k) \<Rightarrow> P w irqs))"

lemma started_return: "started P (Some (Inl x))"
  by (simp add: started_def)

lemma started_if:
  "(\<not> c \<Longrightarrow> started P r) \<Longrightarrow> (c \<Longrightarrow> started P r') \<Longrightarrow> started P (if c then r' else r)"
  by simp

lemma started_pair: "(\<And>a b. t = (a, b) \<Longrightarrow> started P (f a b)) \<Longrightarrow> started P (case t of (a, b) \<Rightarrow> f a b)"
  by (simp split: prod.splits)

lemma started_bind:
  "\<exists>x. r = Some x \<Longrightarrow> (\<And>x. r = Some x \<Longrightarrow> started P (f x)) \<Longrightarrow> started P (r \<bind> f)"
  by auto

lemma started_mono: "started P r \<Longrightarrow> (\<And>w irqs. P w irqs \<Longrightarrow> Q w irqs) \<Longrightarrow> started Q r"
  unfolding started_def by (elim exE conjE, rule exI, rule conjI, assumption) (auto split: sum.splits)

lemma init_started:
  assumes "video_calls_ok V" and "before_game w" and "\<And>w. world_ok 65535 w \<Longrightarrow> P w irqs"
  shows "started P (init_game V rnd junk w k \<bind> (\<lambda>(w, k). Some (Inr (w, irqs, hooks, k))))"
  using init_game_fine [OF assms(1,2), of rnd junk k] assms(3) by (auto simp: fine_k_def started_def)

lemmas started_rules = started_return started_if started_pair

text \<open>The masks of the subscriptions, from the hook ids the drivers start with.\<close>

definition start_masks :: irq_sets where
  "start_masks = \<lparr>irq_set_mouse = 0x1000, irq_set_timer = 1, irq_set_kbd = 0x80, irq_set_rtc = 0x100,
     irq_set_serie = 0x200\<rparr>"

lemma subscribed_masks:
  "mouse_subscribe_int K 12 (Some 0) k = (0, b1, h1, k1) \<Longrightarrow> the b1 = 0x1000"
  "kbd_subscribe_int K 7 (Some 0) k = (0, b2, h2, k2) \<Longrightarrow> the b2 = 0x80"
  "timer_subscribe_int K 0 (Some 0) k = (0, b3, h3, k3) \<Longrightarrow> the b3 = 1"
  "subscribe_rtc K 8 k = (0, b4, h4, k4) \<Longrightarrow> b4 = 0x100"
  "sp_subscribe_int K a1 a2 0x3f8 (Some 0) h s k = (0, b5, h5, s5, k5) \<Longrightarrow> the b5 = 0x200"
  by (auto simp: mouse_subscribe_int_def kbd_subscribe_int_def timer_subscribe_int_def subscribe_rtc_def
      sp_subscribe_int_def BIT_def Let_def split: prod.splits if_splits)

lemma before_game_ready:
  assumes "video_calls_ok V" and "start_ok w" and "setFrameBuffer V 0x14C (w_video w) k1 = Some (0, v, k2)"
    and "serial_fine s"
  shows "before_game (w\<lparr>host := h, w_video := v, w_serial := s\<rparr>)"
proof -
  have none: "maze_buffer (w_video w) = None" using assms(2) by (simp add: start_ok_def)
  have "\<exists>err v' k'. setFrameBuffer V 0x14C (w_video w) k1 = Some (err, v', k') \<and>
      (err = 0 \<longrightarrow> video_ok v' \<and> mode_fine (mode_info v') \<and> maze_buffer v' = None)"
    using set_frame_buffer_fine [OF assms(1) none] by metis
  with assms show ?thesis by (auto simp: start_ok_def before_game_def)
qed

lemma start_fine:
  assumes V: "video_calls_ok V" and w: "start_ok w" and len: "length contents1 = 100" "length contents2 = 100"
  shows "started (\<lambda>w irqs. world_ok 65535 w \<and> (hooks = start_hooks \<longrightarrow> irqs = start_masks))
    (proj_start K V rnd junk (x1, y1, contents1) (x2, y2, contents2) hooks argv w k)"
proof -
  have fb: "\<exists>x. setFrameBuffer V 0x14C (w_video w) k1 = Some x" for k1
    using set_frame_buffer_fine [OF V] w unfolding start_ok_def by metis
  have game: "before_game (w\<lparr>host := h, w_video := v, w_serial := s\<rparr>)"
    if "setFrameBuffer V 0x14C (w_video w) k1 = Some (0, v, k2)"
      "sp_subscribe_int K (x1, y1, contents1) (x2, y2, contents2) 0x3f8 b hook (w_serial w) k3 = (e, b', h', s, k4)"
    for h v s k1 k2 k3 k4 b hook e b' h'
    using before_game_ready [OF V w that(1)] subscribe_fine [OF _ len that(2)] w by (simp add: start_ok_def)
  show ?thesis
    unfolding proj_start_def Let_def
    apply (intro started_rules)
    apply (rule started_bind)
    subgoal using fb by fastforce
    apply (intro started_rules)
    apply (rule init_started [OF V])
    subgoal using game by simp
    subgoal by (auto simp: start_hooks_def start_masks_def dest!: subscribed_masks)
    done
qed

subsection \<open>One line, one handler\<close>

lemma one_line:
  "on_notify K L a start_masks (push_bit 7 1) c w k = do { (w, k) \<leftarrow> on_kbd K w k; Some (c, w, k) }"
  "on_notify K L a start_masks (push_bit 12 1) c w k = do { (w, k) \<leftarrow> on_mouse K w k; Some (c, w, k) }"
  "on_notify K L a start_masks (push_bit 0 1) c w k = do { (w, k) \<leftarrow> on_timer K L a w k; Some (c, w, k) }"
  "on_notify K L a start_masks (push_bit 8 1) c w k = Some (c, on_rtc K w k)"
  "on_notify K L a start_masks (push_bit 9 1) c w k = (if c \<noteq> 0 then on_serial K a c w k else Some (c, w, k))"
  by (auto simp: on_notify_def start_masks_def raised_def split: Option.bind_splits)

lemma loaded_images_ok: "loads_xpm L \<Longrightarrow> images_ok L"
  using loaded_font loaded_image loaded_hero by (auto simp: images_ok_def)

subsection \<open>Properties\<close>


text \<open>C8: the invariant world_ok of the program's state: buffers of the size of the screen, a generated maze with the player at a
  clear place of it, a cursor within a bound b, intact drivers, time stamps and buttons. From a state with the invariant and with b
  at least 65535, every run of the interrupt loop is defined and ends in a state with the invariant, the bound of the cursor having
  grown by 128 per message, as long as it stays within INT_MAX, and provided that the images are fit for drawing (images_ok), that
  the serial line gets ready and runs dry (line_ok), that the clock gives bytes (clock_ok), and that no message has a sender on
  which _ENDPOINT_P overflows (source_ok). The allocations of new_queue may fail.\<close>

theorem loop_keeps_world:
  assumes "images_ok L" and "line_ok K waiting" and "clock_ok K" and "length contents = 100"
    and "world_ok b w" and "65535 \<le> b" and "b + 128 * real (length msgs) \<le> 2147483647"
    and "\<forall>r \<in> set msgs. source_ok r"
  shows "\<exists>r. interrupt_loop K L (b1, b2, contents) irqs msgs c w k = Some r \<and>
    loop_end_ok (b + 128 * real (length msgs)) r"
  by (rule loop_fine [OF assms])

text \<open>C33: with the hook ids the drivers start with, every subscribed line has a bit of its own: when the program has
  started, a notification of one line runs the handler of that device and no other. Bit 7 runs the keyboard's, bit 12 the
  mouse's, bit 0 the timer's, bit 8 the clock's, and bit 9 the serial port's, the last only while the last char received is
  not NUL. (The two queues of the serial port have been allocated with 100 places each, or not at all, and the video calls give the
  memory asked for.)\<close>

theorem line_runs_its_handler:
  assumes "video_calls_ok V" and "length contents1 = 100" and "length contents2 = 100"
    and "proj_start K V rnd junk (x1, y1, contents1) (x2, y2, contents2) start_hooks argv start_world k0 =
      Some (Inr (w0, irqs, hooks, k1))"
  shows "on_notify K L a irqs (push_bit 7 1) c w k = do { (w, k) \<leftarrow> on_kbd K w k; Some (c, w, k) } \<and>
    on_notify K L a irqs (push_bit 12 1) c w k = do { (w, k) \<leftarrow> on_mouse K w k; Some (c, w, k) } \<and>
    on_notify K L a irqs (push_bit 0 1) c w k = do { (w, k) \<leftarrow> on_timer K L a w k; Some (c, w, k) } \<and>
    on_notify K L a irqs (push_bit 8 1) c w k = Some (c, on_rtc K w k) \<and>
    on_notify K L a irqs (push_bit 9 1) c w k = (if c \<noteq> 0 then on_serial K a c w k else Some (c, w, k))"
proof -
  have "irqs = start_masks"
    using start_fine [OF assms(1) start_world_ok assms(2,3), of start_hooks K rnd junk x1 y1 x2 y2 argv k0] assms(4)
    by (simp add: started_def)
  then show ?thesis using one_line [of K L a c w k] by simp
qed

subsection \<open>A machine on which everything succeeds\<close>

definition zeros :: "u32 \<Rightarrow> u8 list" where
  "zeros n = replicate (unat n) 0"

definition ready_video :: "'k video_kernel" where
  "ready_video = \<lparr>vbe_get_mode_info = (\<lambda>mode k. (0, mode_14c, k)), sys_privctl_add_mem = (\<lambda>a b k. (0, k)),
     vm_map_phys = (\<lambda>a n k. (Some (zeros n), k)), malloc = (\<lambda>n k. (Some (zeros n), k)), sys_int86 = (\<lambda>r k. (0, k))\<rparr>"

definition ready_kernel :: "unit kernel" where
  "ready_kernel = \<lparr>sys_inb = (\<lambda>port k. (0, if port = 0x60 then 0xFA else if port = 0x3fd then 0x20 else 0, k)),
     sys_outb = (\<lambda>port w k. (0, k)), sys_irqsetpolicy = (\<lambda>irq flags hook k. (0, hook, k)),
     sys_irqrmpolicy = (\<lambda>hook k. (0, k)), sys_irqdisable = (\<lambda>hook k. (0, k)), tickdelay_micros = (\<lambda>n k. k)\<rparr>"

lemma ready_ok: "video_calls_ok ready_video" "line_ok ready_kernel (\<lambda>_. 0)" "clock_ok ready_kernel"
  by (auto simp: video_calls_ok_def ready_video_def zeros_def mode_fine_def mode_14c_def bytes_per_pixel_def
      INT_MAX_def line_ok_def clock_ok_def ready_kernel_def)

text \<open>Every kernel whose calls succeed starts the program; the mouse's acknowledgement may change the kernel state.\<close>

definition ready_at :: "'k kernel \<Rightarrow> 'k \<Rightarrow> bool" where
  "ready_at K k \<longleftrightarrow>
     (\<forall>port. port \<noteq> 0x60 \<longrightarrow> port \<noteq> 0x64 \<longrightarrow> sys_inb K port k = (0, if port = 0x3fd then 0x20 else 0, k)) \<and>
     (\<forall>port v. sys_outb K port v k = (0, k)) \<and> (\<forall>irq flags hook. sys_irqsetpolicy K irq flags hook k = (0, hook, k)) \<and>
     (\<forall>n. tickdelay_micros K n k = k)"

lemma ready_at_unit: "ready_at ready_kernel ()"
  by (simp add: ready_at_def ready_kernel_def)

lemma ready_at_calls:
  assumes "ready_at K k"
  shows "port \<noteq> 0x60 \<Longrightarrow> port \<noteq> 0x64 \<Longrightarrow> sys_inb K port k = (0, if port = 0x3fd then 0x20 else 0, k)"
    "sys_outb K port v k = (0, k)" "sys_irqsetpolicy K irq flags hook k = (0, hook, k)" "tickdelay_micros K n k = k"
  using assms unfolding ready_at_def by blast+

lemma ready_send: "mouse_send_command ready_kernel 0xF4 () = (0, ())"
  by (simp add: mouse_send_command_def mouse_attempts.simps mouse_attempt_def kbc_send_command_def read_byte_eq ready_kernel_def)

lemma ready_subscribe:
  assumes "ready_at K k"
  shows "mouse_subscribe_int K h (Some 0) k = (0, Some (ucast (BIT (nat h))), h, k)"
    "kbd_subscribe_int K h (Some 0) k = (0, Some (ucast (BIT (nat h))), h, k)"
    "timer_subscribe_int K h (Some 0) k = (0, Some (ucast (BIT (nat h))), h, k)"
    "subscribe_rtc K h k = (0, ucast (BIT (nat h)), h, k)"
  by (simp_all add: mouse_subscribe_int_def kbd_subscribe_int_def timer_subscribe_int_def subscribe_rtc_def
      ready_at_calls [OF assms])

lemma ready_program:
  assumes "ready_at K k"
  shows "timer_set_frequency K 0 45 k = (0, k)" "set_update K k = (0, k)" "setGraphicsMode ready_video 0x14C k = (0, k)"
  by (simp_all add: timer_set_frequency_def timer_get_conf_def util_sys_inb_def util_get_LSB_def util_get_MSB_def
      set_update_def rtc_read_def setGraphicsMode_def ready_video_def ready_at_calls(1,2) [OF assms] Let_def)

lemma ready_frame_buffer:
  "\<exists>v. setFrameBuffer ready_video 0x14C (w_video start_world) k = Some (0, v, k)"
  by (simp add: setFrameBuffer_def ready_video_def frame_size_def mode_14c_def bytes_per_pixel_def Let_def)

abbreviation ready_queue :: queue_alloc where
  "ready_queue \<equiv> (True, True, replicate 100 0)"

lemma ready_start_at:
  assumes "ready_at K k0" and "mouse_send_command K 0xF4 k0 = (0, k)" and "ready_at K k"
  shows "\<exists>w irqs hooks. proj_start K ready_video rnd junk ready_queue ready_queue start_hooks [name] start_world k0 =
    Some (Inr (w, irqs, hooks, k))"
proof -
  let ?w = "start_world\<lparr>host := same_prefix 4 name ''host''\<rparr>"
  obtain v where v: "setFrameBuffer ready_video 0x14C (w_video start_world) k = Some (0, v, k)"
    using ready_frame_buffer [of k] ..
  have sp: "\<exists>s. sp_subscribe_int K ready_queue ready_queue 0x3f8 (Some 0) 0 (w_serial start_world) k =
      (0, Some (BIT 9), 9, s, k)"
    by (simp add: sp_subscribe_int_def ready_at_calls(2,3) [OF assms(3)] alloc_queue_def new_queue_def)
  then obtain s where s: "sp_subscribe_int K ready_queue ready_queue 0x3f8 (Some 0) 0 (w_serial start_world) k =
      (0, Some (BIT 9), 9, s, k)" by blast
  have "serial_fine s" using subscribe_fine [OF _ _ _ s] start_world_ok by (simp add: start_ok_def)
  then have before: "before_game (?w\<lparr>w_video := v, w_serial := s\<rparr>)"
    using before_game_ready [OF ready_ok(1) start_world_ok v] by simp
  have "\<exists>e. sp_enable_int K 0x3f8 (ucast (BIT 0)) k = (e, k)"
    by (simp add: sp_enable_int_def read_byte_eq ready_at_calls [OF assms(3)])
  then obtain e where sp: "sp_enable_int K 0x3f8 (ucast (BIT 0)) k = (e, k)" by blast
  obtain w' k' where w': "init_game ready_video rnd junk (?w\<lparr>w_video := v, w_serial := s\<rparr>) k = Some (w', k')"
    using init_game_fine [OF ready_ok(1) before] unfolding fine_k_def by metis
  moreover from this have "k' = k"
    by (auto simp: init_game_def generate_maze_buffer_def ready_video_def Let_def split: if_splits elim!: bind_SomeE)
  ultimately show ?thesis
    using v s sp by (simp add: proj_start_def start_hooks_def assms(2)
      ready_subscribe [OF assms(1)] ready_subscribe [OF assms(3)] ready_program [OF assms(3)])
qed

lemma ready_start:
  "\<exists>r. proj_start ready_kernel ready_video (\<lambda>_. 0) (\<lambda>_. blank_cell) ready_queue ready_queue start_hooks [name]
      start_world () = Some (Inr r)"
  using ready_start_at [OF ready_at_unit ready_send ready_at_unit] by blast

text \<open>A loader that gives the repository's images.\<close>

definition repository_images :: xpm_loader where
  "repository_images g = (case g of
       None \<Rightarrow> \<lparr>img_w = 0, img_h = 0, img_map = None\<rparr>
     | Some g \<Rightarrow> (let x = xpm_array g in \<lparr>img_w = of_nat (x_columns x), img_h = of_nat (x_rows x),
         img_map = Some (map (pixel_colour x) (concat (x_pixels x)))\<rparr>))"

lemma repository_loads: "loads_xpm repository_images"
  by (simp add: loads_xpm_def repository_images_def Let_def)

lemmas repository_images_ok = loaded_images_ok [OF repository_loads]

text \<open>A message of the kernel with the interrupts ints.\<close>

definition hardware_message :: "64 word \<Rightarrow> received" where
  "hardware_message ints = \<lparr>receiver = 0, ipc_status = 4, m_source = -1, interrupts = ints\<rparr>"

lemma hardware_source: "source_ok (hardware_message ints)"
  by (simp add: source_ok_def hardware_message_def INT_MAX_def MAX_NR_TASKS_def)


theorem line_runs_its_handler_witness:
  "\<exists>w irqs hooks k. proj_start ready_kernel ready_video (\<lambda>_. 0) (\<lambda>_. blank_cell) ready_queue ready_queue start_hooks
      [''host''] start_world () = Some (Inr (w, irqs, hooks, k)) \<and>
    on_notify ready_kernel repository_images ready_queue irqs (push_bit 8 1) 1 w k = Some (1, on_rtc ready_kernel w k)"
proof -
  obtain w irqs hooks k where r: "proj_start ready_kernel ready_video (\<lambda>_. 0) (\<lambda>_. blank_cell) ready_queue ready_queue
      start_hooks [''host''] start_world () = Some (Inr (w, irqs, hooks, k))"
    using ready_start by (metis prod_cases4)
  have len: "length (replicate 100 (0 :: u8)) = 100" by simp
  have "on_notify ready_kernel repository_images ready_queue irqs (push_bit 8 1) 1 w k = Some (1, on_rtc ready_kernel w k)"
    using line_runs_its_handler [OF ready_ok(1) len len r, of repository_images ready_queue 1 w k] by blast
  with r show ?thesis by blast
qed

theorem loop_keeps_world_witness:
  "\<exists>w irqs r. interrupt_loop ready_kernel repository_images ready_queue irqs [hardware_message 1] 1 w () = Some r \<and>
    loop_end_ok 65663 r"
proof -
  obtain w irqs hooks where r: "proj_start ready_kernel ready_video (\<lambda>_. 0) (\<lambda>_. blank_cell) ready_queue ready_queue
      start_hooks [''host''] start_world () = Some (Inr (w, irqs, hooks, ()))"
    using ready_start by (metis (full_types) old.unit.exhaust prod_cases4)
  have len: "length (replicate 100 (0 :: u8)) = 100" by simp
  have "world_ok 65535 w"
    using start_fine [OF ready_ok(1) start_world_ok len len, of start_hooks ready_kernel "\<lambda>_. 0" "\<lambda>_. blank_cell"
        True True True True "[''host'']" "()"] r by (simp add: started_def)
  from loop_keeps_world [OF repository_images_ok ready_ok(2,3) len this, of "[hardware_message 1]" True True irqs 1 "()"]
  show ?thesis by (auto simp: hardware_source)
qed

end
