(* ===== verification/Serial_Log.thy ===== *)
theory Serial_Log
  imports Program_Safety
begin

text \<open>
  What a machine hears and says on its serial line.

  wired K is the kernel K with a log in its state: the bytes that were read from the data port, and the bytes that were
  written to it. On a line that is ready whenever it is looked at (line_answers), sp_send_int of
  a char says that char, and receive hears some bytes and gives the first of them, or leaves its variable as it was
  when there were none. idle_line is the state of the driver between interrupts: both queues empty.
\<close>


definition wired :: "'k kernel \<Rightarrow> ('k \<times> u8 list \<times> u8 list) kernel" where
  "wired K = \<lparr>
     sys_inb = (\<lambda>port (k, hs, ss). case sys_inb K port k of
       (e, v, k) \<Rightarrow> (e, v, k, if port = 0x3f8 \<and> e = 0 then hs @ [ucast v] else hs, ss)),
     sys_outb = (\<lambda>port v (k, hs, ss). case sys_outb K port v k of
       (e, k) \<Rightarrow> (e, k, hs, if port = 0x3f8 then ss @ [ucast v] else ss)),
     sys_irqsetpolicy = (\<lambda>irq flags hook (k, l). case sys_irqsetpolicy K irq flags hook k of (e, h, k) \<Rightarrow> (e, h, k, l)),
     sys_irqrmpolicy = (\<lambda>hook (k, l). case sys_irqrmpolicy K hook k of (e, k) \<Rightarrow> (e, k, l)),
     sys_irqdisable = (\<lambda>hook (k, l). case sys_irqdisable K hook k of (e, k) \<Rightarrow> (e, k, l)),
     tickdelay_micros = (\<lambda>n (k, l). (tickdelay_micros K n k, l))\<rparr>"

lemma wired_calls:
  "sys_inb (wired K) port (k, hs, ss) = (case sys_inb K port k of
     (e, v, k) \<Rightarrow> (e, v, k, if port = 0x3f8 \<and> e = 0 then hs @ [ucast v] else hs, ss))"
  "sys_outb (wired K) port v (k, hs, ss) = (case sys_outb K port v k of
     (e, k) \<Rightarrow> (e, k, hs, if port = 0x3f8 then ss @ [ucast v] else ss))"
  by (simp_all add: wired_def)

lemma wired_other_port:
  "sys_inb (wired K) port k = (e, v, k') \<Longrightarrow> port \<noteq> 0x3f8 \<Longrightarrow> snd k' = snd k"
  "sys_outb (wired K) port x k = (e, k') \<Longrightarrow> port \<noteq> 0x3f8 \<Longrightarrow> snd k' = snd k"
  by (cases k; auto simp: wired_calls split: prod.splits)+

lemma wired_read: "read_byte (wired K) port k = (e, v, k') \<Longrightarrow> port \<noteq> 0x3f8 \<Longrightarrow> snd k' = snd k"
  by (auto simp: read_byte_eq split: prod.splits dest: wired_other_port)

lemma wired_inb: "sys_inb (wired K) port k = (e, v, k') \<Longrightarrow> sys_inb K port (fst k) = (e, v, fst k')"
  by (cases k) (auto simp: wired_calls split: prod.splits)

lemma wired_line_ok: "line_ok K waiting \<Longrightarrow> line_ok (wired K) (waiting \<circ> fst)"
  by (auto simp: line_ok_def dest!: wired_inb) blast

definition line_answers :: "'k kernel \<Rightarrow> bool" where
  "line_answers K \<longleftrightarrow> (\<forall>k. fst (sys_inb K 0x3fa k) = 0 \<and> fst (sys_inb K 0x3fd k) = 0 \<and>
     bit (fst (snd (sys_inb K 0x3fd k))) 5)"

lemma wired_fst: "fst (sys_inb (wired K) port k) = fst (sys_inb K port (fst k))"
    "fst (snd (sys_inb (wired K) port k)) = fst (snd (sys_inb K port (fst k)))"
  by (cases k; simp add: wired_calls split: prod.splits)+

lemma wired_line_answers: "line_answers K \<Longrightarrow> line_answers (wired K)"
  by (simp add: line_answers_def wired_fst)

subsection \<open>Sending\<close>

lemma status_bit: "bit (ucast (and 0xFF (v :: u32)) :: u8) 5 = bit v 5"
  unfolding byte_of_u32 by (simp add: bit_simps)

lemma ready_reads:
  assumes "line_answers K"
  shows "\<exists>v k'. read_byte K 0x3fa k = (0, v, k')" and "\<exists>v k'. sys_inb K 0x3fd k = (0, v, k') \<and> bit v 5"
    and "\<exists>v k'. read_byte K 0x3fd k = (0, v, k') \<and> bit v 5"
proof -
  have "\<exists>v k'. sys_inb K 0x3fa k = (0, v, k')"
    and lsr: "\<exists>v k'. sys_inb K 0x3fd k = (0, v, k') \<and> bit v 5"
    using assms unfolding line_answers_def by (metis prod.collapse)+
  then show "\<exists>v k'. read_byte K 0x3fa k = (0, v, k')" and "\<exists>v k'. sys_inb K 0x3fd k = (0, v, k') \<and> bit v 5"
    by (auto simp: read_byte_eq)
  then show "\<exists>v k'. read_byte K 0x3fd k = (0, v, k') \<and> bit v 5"
    using status_bit by (auto simp: read_byte_eq)
qed

lemma wired_attempt:
  assumes "line_ok K waiting" "line_answers K"
  shows "\<exists>k'. send_attempts (wired K) c 10 k = (0, k') \<and> snd k' = (fst (snd k), snd (snd k) @ [c])"
proof -
  obtain v k1 where r: "read_byte (wired K) 0x3fd k = (0, v, k1)" "bit v 5"
    using ready_reads(3) [OF wired_line_answers [OF assms(2)], of k] by blast
  have log: "snd k1 = snd k" by (rule wired_read [OF r(1)]) simp
  have "(ucast (ucast c :: u32) :: u8) = c" by (rule bit_word_eqI) (auto simp: bit_simps)
  then have "snd (snd (sys_outb (wired K) 0x3F8 (ucast c) k1)) = (fst (snd k1), snd (snd k1) @ [c])"
    by (cases k1) (auto simp: wired_calls split: prod.splits)
  moreover have "send_attempts (wired K) c 10 k = (0, snd (sys_outb (wired K) 0x3F8 (ucast c) k1))"
    using r send_attempts.simps(2) [of "wired K" c 9 k] by (simp add: sp_get_status_def)
  ultimately show ?thesis using log by auto
qed

lemma send_wired:
  assumes line: "line_ok K waiting" "line_answers K" and len: "length contents = 100"
  shows "\<exists>s' k'. sp_send_int (wired K) (True, True, contents) 0x3f8 [c] s k = Some (0, s', k') \<and>
    snd k' = (fst (snd k), snd (snd k) @ [c]) \<and> receive_queue s' = receive_queue s \<and>
    queue_ptr_ok (transmit_queue s') \<and> queue_items (transmit_queue s') = []"
proof -
  have new: "queue_ptr_ok (alloc_queue (True, True, contents))" "queue_items (alloc_queue (True, True, contents)) = []"
    using alloc_queue_ok [OF len] by simp_all
  obtain q where q: "push_q (alloc_queue (True, True, contents)) c = Some (0, q)" "queue_ptr_ok q" "queue_items q = [c]"
    using char_queue.enq_room [OF new(1), of c] new(2) by auto
  let ?s = "s\<lparr>transmit_queue := q\<rparr>" and ?s' = "s\<lparr>transmit_queue := pop_q q\<rparr>"
  have q': "\<not> empty_q q" "top_q q = Some c" "queue_ptr_ok (pop_q q)" "queue_items (pop_q q) = []" "empty_q (pop_q q)"
    using q char_queue.empty_items char_queue.front_items char_queue.deq_items [OF q(2)] by auto
  note wired_ok = wired_line_answers [OF line(2)]
  obtain iir k1 where r1: "read_byte (wired K) 0x3fa k = (0, iir, k1)" using ready_reads(1) [OF wired_ok] by blast
  obtain lsr k2 where r2: "sys_inb (wired K) 0x3fd k1 = (0, lsr, k2)" "bit lsr 5"
    using ready_reads(2) [OF wired_ok] by blast
  obtain k3 where att: "send_attempts (wired K) c 10 k2 = (0, k3)" "snd k3 = (fst (snd k2), snd (snd k2) @ [c])"
    using wired_attempt [OF line] by blast
  have "snd k2 = snd k" using wired_read [OF r1] wired_other_port(1) [OF r2(1)] by simp
  moreover have "send_loop (wired K) 0x3f8 ?s k = Some (0, ?s', k3)"
    using q' r1 r2 att(1) by (simp add: send_loop.simps [of _ _ ?s] send_loop.simps [of _ _ ?s'])
  ultimately show ?thesis
    using q(1) q' att(2) by (simp add: sp_send_int_def)
qed



subsection \<open>Receiving\<close>

definition idle_line :: "serial \<Rightarrow> bool" where
  "idle_line s \<longleftrightarrow> queue_ptr_ok (receive_queue s) \<and> queue_items (receive_queue s) = [] \<and>
     queue_ptr_ok (transmit_queue s) \<and> queue_items (transmit_queue s) = []"

lemma push_take:
  assumes "queue_ptr_ok q" "push_q q c = Some (r, q')"
  shows "queue_ptr_ok q' \<and> queue_items q' = take 100 (queue_items q @ [c])"
proof (cases "length (queue_items q) < 100")
  case True
  with char_queue.enq_room [OF assms(1), of c] assms(2) show ?thesis by auto
next
  case False
  with char_queue.enq_full [OF assms(1), of c] queue_items_le [OF assms(1)] assms show ?thesis by auto
qed

lemma take_pushed: "take n (take n (xs @ [x]) @ ys) = take n (xs @ x # ys)"
proof (cases "length xs < n")
  case False
  then show ?thesis by simp
qed simp

text \<open>What the receive loop reads, and what it keeps of it.\<close>

definition receives :: "serial \<Rightarrow> 'k \<times> u8 list \<times> u8 list \<Rightarrow> serial \<Rightarrow> 'k \<times> u8 list \<times> u8 list \<Rightarrow> bool" where
  "receives s k s' k' \<longleftrightarrow> (\<exists>bs. snd k' = (fst (snd k) @ bs, snd (snd k)) \<and> queue_ptr_ok (receive_queue s') \<and>
     queue_items (receive_queue s') = take 100 (queue_items (receive_queue s) @ bs) \<and>
     transmit_queue s' = transmit_queue s)"

lemma receives_none:
  "queue_ptr_ok (receive_queue s) \<Longrightarrow> snd k' = snd k \<Longrightarrow> receives s k s k'"
  using queue_items_le [of "receive_queue s"] by (auto simp: receives_def intro: exI [of _ "[]"])

lemma receives_one:
  assumes "receives (s\<lparr>receive_queue := q\<rparr>) k1 s' k'" and "push_q (receive_queue s) b = Some (r, q)"
    and "queue_ptr_ok (receive_queue s)" and "snd k1 = (fst (snd k) @ [b], snd (snd k))"
  shows "receives s k s' k'"
proof -
  obtain bs where "snd k' = (fst (snd k1) @ bs, snd (snd k1))" "queue_ptr_ok (receive_queue s')"
    "queue_items (receive_queue s') = take 100 (queue_items q @ bs)" "transmit_queue s' = transmit_queue s"
    using assms(1) by (auto simp: receives_def)
  moreover have "take 100 (queue_items q @ bs) = take 100 (queue_items (receive_queue s) @ b # bs)"
    using push_take [OF assms(3,2)] take_pushed by metis
  ultimately show ?thesis using assms(4) by (auto simp: receives_def intro!: exI [of _ "b # bs"])
qed

lemma wired_data:
  "sys_inb (wired K) 0x3f8 k = (e, v, k') \<Longrightarrow> snd k' = (if e = 0 then (fst (snd k) @ [ucast v], snd (snd k)) else snd k)"
  by (cases k) (auto simp: wired_calls split: prod.splits)

lemma receive_loop_wired:
  assumes line: "line_ok (wired K) waiting"
  shows "queue_ptr_ok (receive_queue s) \<Longrightarrow> (bit lsr 0 \<longrightarrow> 0 < waiting k) \<Longrightarrow>
    ser_receive_loop (wired K) 0x3f8 lsr s k = Some (r, s', k') \<Longrightarrow> receives s k s' k'"
proof (induction "waiting k" arbitrary: s lsr k rule: less_induct)
  case less
  show ?case
  proof (cases "bit lsr 0")
    case False
    then show ?thesis using less.prems by (auto simp: ser_receive_loop.simps [of _ _ lsr] intro: receives_none)
  next
    case True
    obtain e c k1 where inb: "sys_inb (wired K) 0x3f8 k = (e, c, k1)" by (metis prod_cases3)
    note log = wired_data [OF inb]
    show ?thesis
    proof (cases "e = 0")
      case False
      then show ?thesis using True inb log less.prems
        by (auto simp: ser_receive_loop.simps [of _ _ lsr] intro: receives_none)
    next
      case e: True
      obtain r1 q where q: "push_q (receive_queue s) (ucast c) = Some (r1, q)"
        using less.prems(3) True inb e by (auto simp: ser_receive_loop.simps [of _ _ lsr] split: Option.bind_splits)
      let ?s = "s\<lparr>receive_queue := q\<rparr>"
      have s: "queue_ptr_ok (receive_queue ?s)" using push_take [OF less.prems(1) q] by simp
      obtain e' l k2 where lsr: "sys_inb (wired K) 0x3fd k1 = (e', l, k2)" by (metis prod_cases3)
      have log2: "snd k2 = (fst (snd k) @ [ucast c], snd (snd k))"
        using wired_other_port(1) [OF lsr] log e by simp
      have "receives ?s k2 s' k'"
      proof (cases "e' = 0")
        case False
        then show ?thesis using True e inb q lsr less.prems(3) s
          by (auto simp: ser_receive_loop.simps [of _ _ lsr] intro: receives_none)
      next
        case e': True
        have "waiting k1 < waiting k" using line_data [OF line, of k c k1] inb e True less.prems(2) by simp
        moreover have l: "waiting k2 \<le> waiting k1" "bit l 0 \<longrightarrow> 0 < waiting k2"
          using line_status [OF line, of k1 l k2] lsr e' by auto
        ultimately show ?thesis using less.hyps [OF _ s l(2)] less.prems(3) True e e' inb q lsr
          by (simp add: ser_receive_loop.simps [of _ _ lsr])
      qed
      from receives_one [OF this q less.prems(1) log2] show ?thesis .
    qed
  qed
qed

lemma ser_ih_wired:
  assumes line: "line_ok (wired K) waiting" and idle: "idle_line s" and run: "ser_ih (wired K) 0x3f8 s k = Some (r, s', k')"
  shows "receives s k s' k'"
proof -
  have ok: "queue_ptr_ok (receive_queue s)" "empty_q (transmit_queue s)"
    using idle char_queue.empty_items by (auto simp: idle_line_def)
  obtain e iir k1 where iir: "read_byte (wired K) 0x3fa k = (e, iir, k1)" by (metis prod_cases3)
  obtain e' l k2 where lsr: "sys_inb (wired K) 0x3fd k1 = (e', l, k2)" by (metis prod_cases3)
  have log: "snd k1 = snd k" "snd k2 = snd k1" using wired_read [OF iir] wired_other_port(1) [OF lsr] by simp_all
  show ?thesis
  proof (cases "e = 0 \<and> \<not> bit iir 0 \<and> e' = 0 \<and> \<not> bit iir 1 \<and> bit iir 2")
    case True
    then have "ser_receive_loop (wired K) 0x3f8 l s k2 = Some (r, s', k')" using run iir lsr by (simp add: ser_ih_def)
    moreover have "bit l 0 \<longrightarrow> 0 < waiting k2" using line_status [OF line, of k1 l k2] lsr True by simp
    ultimately have "receives s k2 s' k'" using receive_loop_wired [OF line ok(1)] by blast
    then show ?thesis using log by (simp add: receives_def)
  next
    case False
    then show ?thesis using run iir lsr ok log
      by (auto simp: ser_ih_def ser_transmit_loop.simps [of _ _ l] split: if_splits intro: receives_none)
  qed
qed

text \<open>receive gives the first of the chars read, or leaves c as it was.\<close>

lemma receive_wired:
  assumes line: "line_ok (wired K) waiting" and idle: "idle_line s" and run: "receive (wired K) c s k = Some (c', s', k')"
  shows "\<exists>bs. c' = (case bs of [] \<Rightarrow> c | b # _ \<Rightarrow> b) \<and> snd k' = (fst (snd k) @ bs, snd (snd k)) \<and>
    queue_ptr_ok (receive_queue s') \<and> transmit_queue s' = transmit_queue s"
proof -
  obtain r s1 k1 where ih: "ser_ih (wired K) 0x3f8 s k = Some (r, s1, k1)"
    using run by (auto simp: receive_def split: Option.bind_splits prod.splits)
  obtain bs where bs: "snd k1 = (fst (snd k) @ bs, snd (snd k))" "queue_ptr_ok (receive_queue s1)"
    "queue_items (receive_queue s1) = take 100 bs" "transmit_queue s1 = transmit_queue s"
    using ser_ih_wired [OF line idle ih] idle by (auto simp: receives_def idle_line_def)
  show ?thesis
  proof (cases bs)
    case Nil
    then have "empty_q (receive_queue s1)" using char_queue.empty_items [OF bs(2)] bs(3) by simp
    then show ?thesis using run ih bs Nil by (auto simp: receive_def intro!: exI [of _ bs])
  next
    case (Cons b bs')
    have ne: "\<not> empty_q (receive_queue s1)" using char_queue.empty_items [OF bs(2)] bs(3) Cons by simp
    have "top_q (receive_queue s1) = Some b" using char_queue.front_items [OF bs(2)] bs(3) Cons by simp
    then show ?thesis using run ih bs Cons ne char_queue.deq_items [OF bs(2)]
      by (auto simp: receive_def intro!: exI [of _ bs])
  qed
qed

lemma clear_wired:
  assumes "clear_receive_queue s = Some s'" "queue_ptr_ok (receive_queue s)"
  shows "queue_ptr_ok (receive_queue s') \<and> queue_items (receive_queue s') = [] \<and> transmit_queue s' = transmit_queue s"
  using assms(1) drain_queue_empties [OF assms(2)] by (auto simp: clear_receive_queue_def)

end
