(* ===== verification/Game_Rules.thy ===== *)
theory Game_Rules
  imports Main_Loop
begin

text \<open>
  The rules of the game as a machine of its own.

  phase is what the rules are about: the screen, the state of the game, multiplayer or not, host or
  client, won or lost. rule gives, for an action, the next phase and the chars sent to the other
  player. handlers_follow_rules shows that menu.c, game.c and proj.c do exactly that: the handlers
  are equal to the rule followed by the sending of its chars.
\<close>

record phase =
  p_state :: screen
  p_running :: bool
  p_host :: bool
  p_multi :: bool
  p_game :: game_state
  p_won :: bool

datatype action = Escape | Click handler | Reach_Exit | Receive u8

definition activate :: "phase \<Rightarrow> phase \<times> char list" where
  "activate p =
     (p\<lparr>p_game := Running\<rparr>,
      if p_multi p then [if p_host p then CHR ''M'' else CHR ''S''] else [])"

fun rule :: "action \<Rightarrow> phase \<Rightarrow> phase \<times> char list" where
  "rule Escape p = (p\<lparr>p_state := Menu, p_multi := False, p_won := False, p_game := Waiting\<rparr>, [])"
| "rule (Click Single_Player) p = (p\<lparr>p_state := Game, p_multi := False, p_game := Running\<rparr>, [])"
| "rule (Click Multiple_Player) p =
     (p\<lparr>p_state := Game, p_multi := True\<rparr>, [if p_host p then CHR ''M'' else CHR ''S''])"
| "rule (Click How_To) p = (p\<lparr>p_state := HowTo\<rparr>, [])"
| "rule (Click Exit_Game) p = (p\<lparr>p_running := False\<rparr>, [])"
| "rule Reach_Exit p = (p\<lparr>p_game := Finish, p_won := True\<rparr>, if p_multi p then [CHR ''L''] else [])"
| "rule (Receive c) p =
     (if c = of_char CHR ''M'' \<and> \<not> p_host p \<and> p_game p = Waiting then activate p
      else if c = of_char CHR ''S'' \<and> p_host p then activate p
      else if c = of_char CHR ''L'' \<and> p_game p = Running then (p\<lparr>p_game := Finish, p_won := False\<rparr>, [])
      else (p, []))"

definition phase_of :: "world \<Rightarrow> phase" where
  "phase_of w = \<lparr>p_state = state w, p_running = running w, p_host = host w, p_multi = isMultiplayer w,
     p_game = gameState w, p_won = won w\<rparr>"

definition set_phase :: "phase \<Rightarrow> world \<Rightarrow> world" where
  "set_phase p w = w\<lparr>state := p_state p, running := p_running p, host := p_host p,
     isMultiplayer := p_multi p, gameState := p_game p, won := p_won p\<rparr>"

fun send_all :: "'k kernel \<Rightarrow> queue_alloc \<Rightarrow> char list \<Rightarrow> world \<Rightarrow> 'k \<Rightarrow> (world \<times> 'k) option" where
  "send_all K a [] w k = Some (w, k)"
| "send_all K a (c # cs) w k = do { (w, k) \<leftarrow> send_char K a c w k; send_all K a cs w k }"

text \<open>An action: the rule, then the sending.\<close>

definition obey :: "'k kernel \<Rightarrow> queue_alloc \<Rightarrow> action \<Rightarrow> world \<Rightarrow> 'k \<Rightarrow> (world \<times> 'k) option" where
  "obey K a act w k = (case rule act (phase_of w) of (p, cs) \<Rightarrow> send_all K a cs (set_phase p w) k)"

lemma send_all_single: "send_all K a [c] w k = send_char K a c w k"
  by (cases "send_char K a c w k") auto

declare send_all.simps(2) [simp del]

lemma set_phase_simps [simp]:
  "set_phase (phase_of w) w = w"
  "phase_of (set_phase p w) = p"
  by (simp_all add: set_phase_def phase_of_def)

lemma char_codes [simp]:
  "(of_char CHR ''M'' :: u8) = 77" "(of_char CHR ''S'' :: u8) = 83" "(of_char CHR ''L'' :: u8) = 76"
  by (simp_all add: of_char_def)

lemma activate_refines:
  "game_activate_multiplayer K a w k =
     (case activate (phase_of w) of (p, cs) \<Rightarrow> send_all K a cs (set_phase p w) k)"
  by (simp add: game_activate_multiplayer_def activate_def send_all_single set_phase_def phase_of_def Let_def)

lemma send_char_keeps:
  "send_char K a c w k = Some (w', k') \<Longrightarrow> phase_of w' = phase_of w"
  using send_char_frame [of K a c w k w' k'] by (auto simp: phase_of_def)

text \<open>The handlers follow the rules: what on_char does with a received char, what a button's
  function does, what the end of the maze does in a frame, and what releasing ESC does to the state of
  the game are the abstract rule followed by sending the chars it says.\<close>

lemma handlers_follow_rules:
  "on_char K a c w k = obey K a (Receive c) w k \<and>
   call_handler K a (Some h) w k = obey K a (Click h) w k \<and>
   (let w = w\<lparr>gameState := Finish, won := True\<rparr> in
      if isMultiplayer w then send_char K a CHR ''L'' w k else Some (w, k)) = obey K a Reach_Exit w k \<and>
   phase_of ((game_reset w)\<lparr>state := Menu\<rparr>) = fst (rule Escape (phase_of w))"
proof (intro conjI)
  show "on_char K a c w k = obey K a (Receive c) w k"
  proof -
    have after: "(game_activate_multiplayer K a w k \<bind> (\<lambda>(w, k). Some (w, k))) = game_activate_multiplayer K a w k"
      by (cases "game_activate_multiplayer K a w k") auto
    have guards: "can_enter_multiplayer w \<longleftrightarrow> p_game (phase_of w) = Waiting" "host w = p_host (phase_of w)"
      "can_lose w \<longleftrightarrow> p_game (phase_of w) = Running"
      by (simp_all add: can_enter_multiplayer_def can_lose_def phase_of_def)
    have lose: "game_lose w = set_phase ((phase_of w)\<lparr>p_game := Finish, p_won := False\<rparr>) w"
      by (simp add: game_lose_def set_phase_def phase_of_def)
    consider "c = 77" | "c = 83" | "c = 76" | "c \<noteq> 77" "c \<noteq> 83" "c \<noteq> 76" by blast
    then show ?thesis
      by cases (simp_all add: on_char_def obey_def activate_refines [symmetric] after guards lose)
  qed
  show "call_handler K a (Some h) w k = obey K a (Click h) w k"
    by (cases h) (simp_all add: obey_def single_player_def multiple_player_def how_to_def exit_game_def
        send_all_single set_phase_def phase_of_def Let_def)
  show "(let w = w\<lparr>gameState := Finish, won := True\<rparr> in
      if isMultiplayer w then send_char K a CHR ''L'' w k else Some (w, k)) = obey K a Reach_Exit w k"
    by (simp add: obey_def send_all_single set_phase_def phase_of_def Let_def)
  show "phase_of ((game_reset w)\<lparr>state := Menu\<rparr>) = fst (rule Escape (phase_of w))"
    by (simp add: game_reset_def phase_of_def)
qed

lemmas on_char_obeys = handlers_follow_rules [THEN conjunct1]

lemmas click_obeys = handlers_follow_rules [THEN conjunct2, THEN conjunct1]

lemmas exit_obeys = handlers_follow_rules [THEN conjunct2, THEN conjunct2, THEN conjunct1]

lemmas escape_obeys = handlers_follow_rules [THEN conjunct2, THEN conjunct2, THEN conjunct2]

end
