(* ===== verification/Two_Players.thy ===== *)
theory Two_Players
  imports Game_Rules
begin

text \<open>
  A host and a client playing against each other.

  phases are the two programs, as far as the rules of Game_Rules go; inbox holds the chars on their way
  to each of them. A step of the network is an action of one side, where its program allows it, or
  the arrival of one or more chars at one side in one interrupt: the program reads the first of them and
  clears its receive queue, which drops the others. play runs a list of moves, for concrete runs.

  joining is the action both sides take to start a game. players_start_together and joining_ends say
  that this brings both into the game, in a bounded number of steps; loser_has_a_winner says that
  nobody loses unless the other has won; network_runs shows states that remain possible.
\<close>

subsection \<open>The network\<close>

datatype side = Host | Client

fun other :: "side \<Rightarrow> side" where
  "other Host = Client" | "other Client = Host"

record net =
  phases :: "side \<Rightarrow> phase"
  inbox :: "side \<Rightarrow> char list"

definition net_start :: net where
  "net_start = \<lparr>phases = (\<lambda>s. \<lparr>p_state = Menu, p_running = True, p_host = (s = Host), p_multi = False,
     p_game = Waiting, p_won = False\<rparr>), inbox = (\<lambda>_. [])\<rparr>"

text \<open>When the program lets an action happen: clicks reach a button in the menu only, and the end of the
  maze is tested in the frames of a running game.\<close>

fun allowed :: "action \<Rightarrow> phase \<Rightarrow> bool" where
  "allowed Escape p \<longleftrightarrow> p_running p"
| "allowed (Click h) p \<longleftrightarrow> p_running p \<and> p_state p = Menu"
| "allowed Reach_Exit p \<longleftrightarrow> p_running p \<and> p_state p = Game \<and> p_game p = Running"
| "allowed (Receive c) p \<longleftrightarrow> False"

text \<open>Side s moves on to a phase and sends chars.\<close>

definition becomes :: "side \<Rightarrow> phase \<times> char list \<Rightarrow> net \<Rightarrow> net" where
  "becomes s r n = n\<lparr>phases := (phases n)(s := fst r),
     inbox := (inbox n)(other s := inbox n (other s) @ snd r)\<rparr>"

definition hear :: "char \<Rightarrow> phase \<Rightarrow> phase \<times> char list" where
  "hear c p = rule (Receive (of_char c)) p"

inductive net_step :: "action set \<Rightarrow> net \<Rightarrow> net \<Rightarrow> bool" for acts where
  act: "a \<in> acts \<Longrightarrow> allowed a (phases n s) \<Longrightarrow> net_step acts n (becomes s (rule a (phases n s)) n)"
| arrive: "inbox n s = c # dropped @ rest \<Longrightarrow>
    net_step acts n (becomes s (hear c (phases n s)) (n\<lparr>inbox := (inbox n)(s := rest)\<rparr>))"

lemma char_code_iff:
  "(of_char c :: u8) = 77 \<longleftrightarrow> c = CHR ''M''" "(of_char c :: u8) = 83 \<longleftrightarrow> c = CHR ''S''"
  "(of_char c :: u8) = 76 \<longleftrightarrow> c = CHR ''L''"
proof -
  obtain b0 b1 b2 b3 b4 b5 b6 b7 where c: "c = Char b0 b1 b2 b3 b4 b5 b6 b7" by (cases c)
  show "(of_char c :: u8) = 77 \<longleftrightarrow> c = CHR ''M''" "(of_char c :: u8) = 83 \<longleftrightarrow> c = CHR ''S''"
    "(of_char c :: u8) = 76 \<longleftrightarrow> c = CHR ''L''"
    unfolding c by (cases b0; cases b1; cases b2; cases b3; cases b4; cases b5; cases b6; cases b7;
      simp add: of_char_def)+
qed

lemma net_induct [consumes 1, case_names start act arrive]:
  assumes "(net_step acts)\<^sup>*\<^sup>* net_start n"
    and "P net_start"
    and "\<And>n a s. P n \<Longrightarrow> a \<in> acts \<Longrightarrow> allowed a (phases n s) \<Longrightarrow> P (becomes s (rule a (phases n s)) n)"
    and "\<And>n c dropped rest s. P n \<Longrightarrow> inbox n s = c # dropped @ rest \<Longrightarrow>
      P (becomes s (hear c (phases n s)) (n\<lparr>inbox := (inbox n)(s := rest)\<rparr>))"
  shows "P n"
  using assms(1) by (induction rule: rtranclp_induct) (auto elim!: net_step.cases intro: assms(2-4))

lemma hear_rule:
  "hear c p =
     (if c = CHR ''M'' \<and> \<not> p_host p \<and> p_game p = Waiting then activate p
      else if c = CHR ''S'' \<and> p_host p then activate p
      else if c = CHR ''L'' \<and> p_game p = Running then (p\<lparr>p_game := Finish, p_won := False\<rparr>, [])
      else (p, []))"
  by (simp add: hear_def char_code_iff)

subsection \<open>Joining\<close>

definition joining :: "action set" where
  "joining = {Click Multiple_Player}"

definition hs_ok :: "net \<Rightarrow> bool" where
  "hs_ok n \<longleftrightarrow> (\<forall>s. p_host (phases n s) = (s = Host) \<and>
       (p_game (phases n s) = Waiting \<or> p_game (phases n s) = Running) \<and>
       (p_multi (phases n s) \<longleftrightarrow> p_state (phases n s) \<noteq> Menu)) \<and>
     set (inbox n Host) \<subseteq> {CHR ''S''} \<and> set (inbox n Client) \<subseteq> {CHR ''M''} \<and>
     (\<forall>s. p_multi (phases n s) \<longrightarrow> p_game (phases n (other s)) = Running \<or> inbox n (other s) \<noteq> [])"

lemma all_side: "(\<forall>s. P s) \<longleftrightarrow> P Host \<and> P Client"
  by (metis side.exhaust)

lemma hs_reach: "(net_step joining)\<^sup>*\<^sup>* net_start n \<Longrightarrow> hs_ok n"
proof (induction rule: net_induct)
  case start
  then show ?case by (simp add: hs_ok_def net_start_def all_side)
next
  case (act n a s)
  then show ?case
    by (cases s) (auto simp: hs_ok_def all_side joining_def becomes_def)
next
  case (arrive n c dropped rest s)
  have "c = (if s = Host then CHR ''S'' else CHR ''M'')" using arrive(1,2) by (cases s) (auto simp: hs_ok_def)
  then show ?case using arrive
    by (cases s) (auto simp: hs_ok_def all_side becomes_def hear_rule activate_def)
qed

text \<open>What is left to happen while the players join: an S is answered with an M, and an M may be
  answered with an S once.\<close>

fun weight_of :: "char \<Rightarrow> nat" where
  "weight_of c = (if c = CHR ''S'' then 3 else 1)"

definition weight :: "net \<Rightarrow> nat" where
  "weight n = sum_list (List.map weight_of (inbox n Host)) + sum_list (List.map weight_of (inbox n Client)) +
     (if p_state (phases n Host) = Menu then 2 else 0) + (if p_state (phases n Client) = Menu then 4 else 0) +
     (if p_game (phases n Client) = Waiting then 4 else 0)"

lemma joining_decreases:
  assumes "hs_ok n" "net_step joining n n'"
  shows "weight n' < weight n"
  using assms(2)
proof cases
  case (act a s)
  then show ?thesis using assms(1)
    by (cases s) (auto simp: joining_def becomes_def weight_def hs_ok_def all_side)
next
  case (arrive s c dropped rest)
  have "c = (if s = Host then CHR ''S'' else CHR ''M'')" using arrive assms(1) by (cases s) (auto simp: hs_ok_def)
  then show ?thesis using arrive assms(1)
    by (cases s) (auto simp: hs_ok_def all_side becomes_def hear_rule activate_def weight_def)
qed

subsection \<open>Winning and losing\<close>

definition lost :: "phase \<Rightarrow> bool" where
  "lost p \<longleftrightarrow> p_game p = Finish \<and> \<not> p_won p"

text \<open>lh and lc say whether an L is on its way to the host and to the client.\<close>

definition pair_ok :: "phase \<Rightarrow> phase \<Rightarrow> bool \<Rightarrow> bool \<Rightarrow> bool" where
  "pair_ok h c lh lc \<longleftrightarrow>
     p_host h \<and> \<not> p_host c \<and>
     (p_won h \<longrightarrow> p_state h = Game \<and> p_game h \<noteq> Waiting) \<and> (p_won c \<longrightarrow> p_state c = Game \<and> p_game c = Finish) \<and>
     (lost h \<longrightarrow> p_won c) \<and> (lost c \<longrightarrow> p_won h) \<and>
     (lh \<longrightarrow> p_won c) \<and> (lc \<longrightarrow> p_won h \<or> p_won c)"

definition sends_l :: "phase \<times> char list \<Rightarrow> bool" where
  "sends_l r \<longleftrightarrow> CHR ''L'' \<in> set (snd r)"

lemma pair_click:
  assumes "pair_ok h c lh lc"
  shows "allowed (Click b) h \<Longrightarrow> pair_ok (fst (rule (Click b) h)) c lh (lc \<or> sends_l (rule (Click b) h))"
    and "allowed (Click b) c \<Longrightarrow> pair_ok h (fst (rule (Click b) c)) (lh \<or> sends_l (rule (Click b) c)) lc"
  using assms by (cases "p_won h"; cases "p_won c"; cases b; simp add: pair_ok_def lost_def sends_l_def)+

lemma pair_exit:
  assumes "pair_ok h c lh lc"
  shows "allowed Reach_Exit h \<Longrightarrow> pair_ok (fst (rule Reach_Exit h)) c lh (lc \<or> sends_l (rule Reach_Exit h))"
    and "allowed Reach_Exit c \<Longrightarrow> pair_ok h (fst (rule Reach_Exit c)) (lh \<or> sends_l (rule Reach_Exit c)) lc"
  using assms by (cases "p_won h"; cases "p_won c"; simp add: pair_ok_def lost_def)+

lemma pair_activate:
  assumes "pair_ok h c lh lc"
  shows "pair_ok (fst (activate h)) c lh lc"
    and "p_game c = Waiting \<Longrightarrow> pair_ok h (fst (activate c)) lh lc"
  using assms by (cases "p_won h"; cases "p_won c"; simp add: pair_ok_def lost_def activate_def)+

lemma pair_lose:
  assumes "pair_ok h c lh lc"
  shows "p_game h = Running \<Longrightarrow> lh \<Longrightarrow> pair_ok (h\<lparr>p_game := Finish, p_won := False\<rparr>) c lh' lc"
    and "p_game c = Running \<Longrightarrow> lc \<Longrightarrow> pair_ok h (c\<lparr>p_game := Finish, p_won := False\<rparr>) lh lc'"
  using assms by (cases "p_won h"; cases "p_won c"; simp add: pair_ok_def lost_def)+

lemma pair_fewer:
  assumes "pair_ok h c lh lc" "lh' \<longrightarrow> lh" "lc' \<longrightarrow> lc"
  shows "pair_ok h c lh' lc'"
  using assms unfolding pair_ok_def by blast

lemma pair_rule:
  assumes "pair_ok h c lh lc" "a \<noteq> Escape"
  shows "allowed a h \<Longrightarrow> pair_ok (fst (rule a h)) c lh (lc \<or> sends_l (rule a h))"
    and "allowed a c \<Longrightarrow> pair_ok h (fst (rule a c)) (lh \<or> sends_l (rule a c)) lc"
  using assms pair_click [OF assms(1)] pair_exit [OF assms(1)] by (cases a; simp only: allowed.simps; blast)+

lemma hear_cases:
  obtains (go) "hear ch p = activate p" "p_host p \<or> p_game p = Waiting" "\<not> sends_l (hear ch p)"
    | (lose) "hear ch p = (p\<lparr>p_game := Finish, p_won := False\<rparr>, [])" "ch = CHR ''L''" "p_game p = Running"
    | (keep) "hear ch p = (p, [])"
proof -
  have "\<not> sends_l (activate p)" by (simp add: activate_def sends_l_def)
  then show ?thesis using that unfolding hear_rule by presburger
qed

lemma pair_hear:
  assumes "pair_ok h c lh lc"
  shows "(ch = CHR ''L'' \<longrightarrow> lh) \<Longrightarrow> pair_ok (fst (hear ch h)) c lh (lc \<or> sends_l (hear ch h))"
    and "(ch = CHR ''L'' \<longrightarrow> lc) \<Longrightarrow> pair_ok h (fst (hear ch c)) (lh \<or> sends_l (hear ch c)) lc"
proof -
  have h: "p_host h" "\<not> p_host c" using assms unfolding pair_ok_def by blast+
  show "pair_ok (fst (hear ch h)) c lh (lc \<or> sends_l (hear ch h))" if "ch = CHR ''L'' \<longrightarrow> lh"
  proof (cases rule: hear_cases [of ch h])
    case go
    then show ?thesis using pair_activate(1) [OF assms] by simp
  next
    case lose
    then show ?thesis using pair_lose(1) [OF assms] that by (simp add: sends_l_def)
  next
    case keep
    then show ?thesis using assms by (simp add: sends_l_def)
  qed
  show "pair_ok h (fst (hear ch c)) (lh \<or> sends_l (hear ch c)) lc" if "ch = CHR ''L'' \<longrightarrow> lc"
  proof (cases rule: hear_cases [of ch c])
    case go
    then show ?thesis using pair_activate(2) [OF assms] h by simp
  next
    case lose
    then show ?thesis using pair_lose(2) [OF assms] that by (simp add: sends_l_def)
  next
    case keep
    then show ?thesis using assms by (simp add: sends_l_def)
  qed
qed

lemma pair_lost: "pair_ok h c lh lc \<Longrightarrow> (lost h \<longrightarrow> p_won c) \<and> (lost c \<longrightarrow> p_won h)"
  unfolding pair_ok_def by blast

definition under_way :: "net \<Rightarrow> side \<Rightarrow> bool" where
  "under_way n s \<longleftrightarrow> CHR ''L'' \<in> set (inbox n s)"

lemma result_reach:
  "(net_step (- {Escape}))\<^sup>*\<^sup>* net_start n \<Longrightarrow>
    pair_ok (phases n Host) (phases n Client) (under_way n Host) (under_way n Client)"
proof (induction rule: net_induct)
  case start
  then show ?case by (simp add: pair_ok_def net_start_def lost_def under_way_def)
next
  case (act n a s)
  have "a \<noteq> Escape" using act(2) by simp
  from pair_rule [OF act(1) this] act(3) show ?case
    by (cases s) (simp_all add: becomes_def under_way_def sends_l_def)
next
  case (arrive n c dropped rest s)
  have l: "c = CHR ''L'' \<longrightarrow> under_way n s" "CHR ''L'' \<in> set rest \<longrightarrow> under_way n s"
    using arrive(2) by (simp_all add: under_way_def)
  show ?case
  proof (cases s)
    case Host
    show ?thesis using pair_fewer [OF pair_hear(1) [OF arrive(1), of c]] l
      by (simp add: becomes_def under_way_def sends_l_def Host)
  next
    case Client
    show ?thesis using pair_fewer [OF pair_hear(2) [OF arrive(1), of c]] l
      by (simp add: becomes_def under_way_def sends_l_def Client)
  qed
qed

subsection \<open>Runs\<close>

datatype move = Do action | Get nat

text \<open>Get k receives k chars at once.\<close>

fun make :: "side \<times> move \<Rightarrow> net \<Rightarrow> net option" where
  "make (s, Do a) n = (if allowed a (phases n s) then Some (becomes s (rule a (phases n s)) n) else None)"
| "make (s, Get k) n =
     (case inbox n s of
        [] \<Rightarrow> None
      | c # cs \<Rightarrow> if p_running (phases n s) \<and> 0 < k
          then Some (becomes s (hear c (phases n s)) (n\<lparr>inbox := (inbox n)(s := drop (k - 1) cs)\<rparr>)) else None)"

lemma make_step:
  assumes "make (s, m) n = Some n'" and "\<forall>a. m = Do a \<longrightarrow> a \<in> acts"
  shows "net_step acts n n'"
proof (cases m)
  case (Do a)
  then show ?thesis using assms by (auto split: if_splits intro: net_step.act)
next
  case (Get k)
  then obtain c cs where cs: "inbox n s = c # cs" "p_running (phases n s)"
    "n' = becomes s (hear c (phases n s)) (n\<lparr>inbox := (inbox n)(s := drop (k - 1) cs)\<rparr>)"
    using assms(1) by (auto split: list.splits if_splits)
  have "inbox n s = c # take (k - 1) cs @ drop (k - 1) cs" by (simp add: cs(1))
  from net_step.arrive [OF this] show ?thesis unfolding cs(3) .
qed

fun play :: "(side \<times> move) list \<Rightarrow> net \<Rightarrow> net option" where
  "play [] n = Some n"
| "play (m # ms) n = do { n \<leftarrow> make m n; play ms n }"

fun uses :: "move \<Rightarrow> action list" where
  "uses (Do a) = [a]" | "uses (Get k) = []"

lemma play_steps:
  "play ms n = Some n' \<Longrightarrow> set (concat (List.map (uses \<circ> snd) ms)) \<subseteq> acts \<Longrightarrow>
    (net_step acts ^^ length ms) n n'"
proof (induction ms arbitrary: n)
  case (Cons m ms)
  obtain s v where m: "m = (s, v)" by (cases m)
  obtain n1 where n1: "make m n = Some n1" "play ms n1 = Some n'"
    using Cons.prems(1) by (auto split: Option.bind_splits)
  have "net_step acts n n1"
    using make_step [OF n1(1) [unfolded m], of acts] Cons.prems(2) by (cases v) (auto simp: m)
  moreover have "(net_step acts ^^ length ms) n1 n'" using Cons.IH [OF n1(2)] Cons.prems(2) by simp
  ultimately show ?case unfolding list.size add_Suc_right add_0_right by (rule relpowp_Suc_I2)
qed simp

definition both_join :: "(side \<times> move) list" where
  "both_join = [(Host, Do (Click Multiple_Player)), (Client, Do (Click Multiple_Player)), (Client, Get 1)]"

definition in_game :: "(side \<times> move) list" where
  "in_game = both_join @ [(Host, Get 2), (Client, Get 1)]"

definition over :: "net \<Rightarrow> side \<Rightarrow> game_state \<times> bool" where
  "over n s = (p_game (phases n s), p_won (phases n s))"

definition quiet :: "net \<Rightarrow> bool" where
  "quiet n \<longleftrightarrow> inbox n Host = [] \<and> inbox n Client = []"

lemma reach_by:
  assumes "\<exists>n. play ms net_start = Some n \<and> P n" and "set (concat (List.map (uses \<circ> snd) ms)) \<subseteq> acts"
  shows "\<exists>n. (net_step acts)\<^sup>*\<^sup>* net_start n \<and> P n"
  using play_steps [OF _ assms(2)] assms(1) relpowp_imp_rtranclp by metis

lemmas play_simps = in_game_def both_join_def net_start_def becomes_def hear_rule activate_def quiet_def
  over_def lost_def joining_def

subsection \<open>Properties\<close>

text \<open>C24: in a run of the network of the two rule machines in which the players' only actions are clicks on Multiplayer (joining), when
  both players have selected Multiplayer and no char is under way any more, both games run, whoever selected first and however the
  chars were delivered or dropped.\<close>

theorem players_start_together:
  assumes "(net_step joining)\<^sup>*\<^sup>* net_start n"
    and "p_multi (phases n Host)" "p_multi (phases n Client)" "inbox n Host = []" "inbox n Client = []"
  shows "p_game (phases n Host) = Running \<and> p_game (phases n Client) = Running"
  using hs_reach [OF assms(1)] assms(2-5) by (auto simp: hs_ok_def all_side)

theorem players_start_together_witness:
  "\<exists>n. (net_step joining)\<^sup>*\<^sup>* net_start n \<and> p_game (phases n Host) = Running \<and> p_game (phases n Client) = Running"
proof -
  have "\<exists>n. (net_step joining)\<^sup>*\<^sup>* net_start n \<and>
      p_multi (phases n Host) \<and> p_multi (phases n Client) \<and> inbox n Host = [] \<and> inbox n Client = []"
    by (rule reach_by [of in_game]) (simp_all add: play_simps)
  then show ?thesis using players_start_together by blast
qed

text \<open>C27: joining ends: in a run of the network of the two rule machines in which the players' only actions are clicks on Multiplayer
  (joining), after two clicks and at most eight arrivals of chars the two programs are quiet, they do not answer each other for ever.\<close>

theorem joining_ends:
  assumes "(net_step joining ^^ m) net_start n"
  shows "m \<le> 10"
proof -
  have "weight n + m \<le> 10" using assms
  proof (induction m arbitrary: n)
    case 0
    then have "n = net_start" by simp
    then show ?case by (simp add: weight_def net_start_def)
  next
    case (Suc m)
    then obtain n' where n': "(net_step joining ^^ m) net_start n'" "net_step joining n' n" by auto
    have "hs_ok n'" using hs_reach relpowp_imp_rtranclp [OF n'(1)] by blast
    with Suc.IH [OF n'(1)] joining_decreases [OF _ n'(2)] show ?case by fastforce
  qed
  then show ?thesis by simp
qed

theorem joining_ends_witness: "\<exists>n. (net_step joining ^^ 5) net_start n \<and> (5 :: nat) \<le> 10"
proof -
  have "\<exists>n. play in_game net_start = Some n" by (simp add: play_simps)
  then obtain n where "play in_game net_start = Some n" ..
  then have "(net_step joining ^^ length in_game) net_start n"
    by (rule play_steps) (simp add: play_simps)
  moreover have "length in_game = 5" by (simp add: in_game_def both_join_def)
  ultimately have run: "(net_step joining ^^ 5) net_start n" by simp
  with joining_ends [OF run] show ?thesis by blast
qed

text \<open>C25: as long as nobody leaves the game with ESC, in every state that the network of the two rule machines reaches, a player is told
  that the game is lost only if the other player has been told that it is won.\<close>

theorem loser_has_a_winner:
  assumes "(net_step (- {Escape}))\<^sup>*\<^sup>* net_start n" and "lost (phases n s)"
  shows "p_won (phases n (other s))"
  using pair_lost [OF result_reach [OF assms(1)]] assms(2) by (cases s) simp_all

theorem loser_has_a_winner_witness:
  "\<exists>n. (net_step (- {Escape}))\<^sup>*\<^sup>* net_start n \<and> lost (phases n Client) \<and> p_won (phases n Host)"
proof -
  have "\<exists>n. (net_step (- {Escape}))\<^sup>*\<^sup>* net_start n \<and> lost (phases n Client)"
    by (rule reach_by [of "in_game @ [(Host, Do Reach_Exit), (Client, Get 1)]"]) (simp_all add: play_simps)
  then show ?thesis using loser_has_a_winner [of _ Client] by auto
qed

text \<open>Four states that the network reaches. Quiet, both games finished and both players told that they have won. Quiet, the
  host's game finished and won and the client's still running: the L arrived together with another char and was
  dropped. The host sent back into the running game by an S that arrived after it had won, the L not delivered yet. Quiet, both
  players in a game of two, the host waiting and the client's game running: the host left the game with ESC and joined again, and a
  client in the game does not answer an M.\<close>

lemma network_runs:
  "(\<exists>n. (net_step UNIV)\<^sup>*\<^sup>* net_start n \<and> quiet n \<and>
      over n Host = (Finish, True) \<and> over n Client = (Finish, True)) \<and>
   (\<exists>n. (net_step UNIV)\<^sup>*\<^sup>* net_start n \<and> quiet n \<and>
      over n Host = (Finish, True) \<and> over n Client = (Running, False)) \<and>
   (\<exists>n. (net_step UNIV)\<^sup>*\<^sup>* net_start n \<and> over n Host = (Running, True) \<and> CHR ''L'' \<in> set (inbox n Client)) \<and>
   (\<exists>n. (net_step UNIV)\<^sup>*\<^sup>* net_start n \<and> quiet n \<and> p_multi (phases n Host) \<and> p_multi (phases n Client) \<and>
      over n Host = (Waiting, False) \<and> over n Client = (Running, False))"
proof (intro conjI)
  show "\<exists>n. (net_step UNIV)\<^sup>*\<^sup>* net_start n \<and> quiet n \<and>
      over n Host = (Finish, True) \<and> over n Client = (Finish, True)"
    by (rule reach_by [of "in_game @ [(Host, Do Reach_Exit), (Client, Do Reach_Exit), (Host, Get 1), (Client, Get 1)]"])
      (simp_all add: play_simps)
  show "\<exists>n. (net_step UNIV)\<^sup>*\<^sup>* net_start n \<and> quiet n \<and>
      over n Host = (Finish, True) \<and> over n Client = (Running, False)"
    by (rule reach_by [of "both_join @ [(Host, Get 2), (Host, Do Reach_Exit), (Client, Get 2)]"])
      (simp_all add: play_simps)
  show "\<exists>n. (net_step UNIV)\<^sup>*\<^sup>* net_start n \<and> over n Host = (Running, True) \<and> CHR ''L'' \<in> set (inbox n Client)"
    by (rule reach_by [of "both_join @ [(Host, Get 1), (Host, Do Reach_Exit), (Host, Get 1)]"])
      (simp_all add: play_simps)
  show "\<exists>n. (net_step UNIV)\<^sup>*\<^sup>* net_start n \<and> quiet n \<and> p_multi (phases n Host) \<and> p_multi (phases n Client) \<and>
      over n Host = (Waiting, False) \<and> over n Client = (Running, False)"
    by (rule reach_by [of "in_game @ [(Host, Do Escape), (Host, Do (Click Multiple_Player)), (Client, Get 1)]"])
      (simp_all add: play_simps)
qed

end
