(* ===== verification/Loop_Rules.thy ===== *)
theory Loop_Rules
  imports Serial_Log Two_Players
begin

text \<open>
  The interrupt loop and the rules of Game_Rules.

  The state of a player is its phase and the last char received. turn is a step of it: an action that is allowed, or
  an interrupt of the line, which brings some bytes. A turn is labelled with the bytes heard and the chars said;
  turns are several. same w w' says that what the rules depend on did not change, stays w r that an
  operation has this property: all drawing has it. advances says that a handler took turns, and that the log of the
  line (Serial_Log) grew by what was heard and said in them. Every handler advances, and so does the loop.
\<close>


subsection \<open>Turns\<close>

text \<open>A mode says which actions may be taken, and whether an interrupt of the line may come without a char.\<close>

type_synonym mode = "action set \<times> bool"

inductive turn :: "mode \<Rightarrow> phase \<times> u8 \<Rightarrow> u8 list \<Rightarrow> char list \<Rightarrow> phase \<times> u8 \<Rightarrow> bool" for m where
  acts: "a \<in> fst m \<Longrightarrow> allowed a p \<Longrightarrow> rule a p = (p', cs) \<Longrightarrow> turn m (p, c) [] cs (p', c)"
| hears: "c \<noteq> 0 \<Longrightarrow> snd m \<or> bs \<noteq> [] \<Longrightarrow> c' = (case bs of [] \<Rightarrow> c | b # _ \<Rightarrow> b) \<Longrightarrow> rule (Receive c') p = (p', cs) \<Longrightarrow>
    turn m (p, c) bs cs (p', c')"

inductive turns :: "mode \<Rightarrow> phase \<times> u8 \<Rightarrow> u8 list \<Rightarrow> char list \<Rightarrow> phase \<times> u8 \<Rightarrow> bool" for m where
  none: "turns m x [] [] x"
| more: "turns m x hs cs y \<Longrightarrow> turn m y hs' cs' z \<Longrightarrow> turns m x (hs @ hs') (cs @ cs') z"

lemma turns_one: "turn m x hs cs y \<Longrightarrow> turns m x hs cs y"
  using turns.more [OF turns.none] by fastforce

lemma turns_append: "turns m y hs' cs' z \<Longrightarrow> turns m x hs cs y \<Longrightarrow> turns m x (hs @ hs') (cs @ cs') z"
  by (induction rule: turns.induct) (auto simp flip: append_assoc intro: turns.more)

subsection \<open>What the rules do not depend on\<close>

definition loop_ready :: "world \<Rightarrow> bool" where
  "loop_ready w \<longleftrightarrow> menu_ok w \<and> 260 \<le> y_res (screen_mode w) \<and> idle_line (w_serial w)"

definition same :: "world \<Rightarrow> world \<Rightarrow> bool" where
  "same w w' \<longleftrightarrow> phase_of w' = phase_of w \<and> buttons w' = buttons w \<and> button_count w' = button_count w \<and>
     screen_mode w' = screen_mode w \<and> w_serial w' = w_serial w"

lemma same_refl [simp]: "same w w"
  by (simp add: same_def)

lemma same_trans [trans]: "same w w1 \<Longrightarrow> same w1 w2 \<Longrightarrow> same w w2"
  by (simp add: same_def)

lemma same_ready: "same w w' \<Longrightarrow> loop_ready w \<Longrightarrow> loop_ready w'"
  by (simp add: same_def loop_ready_def menu_ok_def menu_ready_def)

text \<open>What drawing does not change: also the player, the maze and the mouse.\<close>

definition draws :: "world \<Rightarrow> world \<Rightarrow> bool" where
  "draws w w' \<longleftrightarrow> same w w' \<and> hero w' = hero w \<and> w_maze w' = w_maze w \<and> w_mouse w' = w_mouse w"

lemma draws_refl [simp]: "draws w w"
  by (simp add: draws_def)

lemma draws_trans [trans]: "draws w w1 \<Longrightarrow> draws w1 w2 \<Longrightarrow> draws w w2"
  unfolding draws_def using same_trans by auto

lemma draws_same: "draws w w' \<Longrightarrow> same w w'"
  by (simp add: draws_def)

definition stays :: "world \<Rightarrow> world option \<Rightarrow> bool" where
  "stays w r \<longleftrightarrow> (\<forall>w'. r = Some w' \<longrightarrow> draws w w')"

lemma staysD: "stays w r \<Longrightarrow> r = Some w' \<Longrightarrow> draws w w'"
  by (simp add: stays_def)

lemma stays_some: "draws w w' \<Longrightarrow> stays w (Some w')"
  by (simp add: stays_def)

lemma stays_bind: "stays w r \<Longrightarrow> (\<And>w1. stays w1 (f w1)) \<Longrightarrow> stays w (r \<bind> f)"
  unfolding stays_def using draws_trans by (auto split: Option.bind_splits)

lemma stays_value: "(\<And>x. stays w (f x)) \<Longrightarrow> stays w (r \<bind> f)"
  by (cases r) (auto simp: stays_def)

lemma stays_back: "stays w (on_back f w)"
  by (auto simp: stays_def on_back_def draws_def same_def phase_of_def split: Option.bind_splits)

lemma stays_swap: "stays w (swap_buffers w)"
  by (auto simp: stays_def swap_buffers_def swap_def draws_def same_def phase_of_def split: Option.bind_splits)

lemma stays_clear: "stays w (clear_back w)"
  by (simp add: clear_back_def stays_back)

lemma stays_text: "stays w (put_text L s x y c w)"
  by (simp add: put_text_def stays_back)

lemma stays_title: "stays w (put_title L s x y w)"
  by (simp add: put_title_def stays_back)

lemmas stays_rules = stays_back stays_swap stays_clear stays_text stays_title

lemma stays_fog: "stays w (game_fog w)"
  unfolding game_fog_def by (rule stays_value) (rule stays_back)

lemma stays_cursor: "stays w (game_draw_cursor L w)" "stays w (menu_draw_cursor L w)"
  unfolding game_draw_cursor_def menu_draw_cursor_def by (intro stays_value stays_back)+

lemma stays_hero: "stays w (game_draw_hero L w)"
proof -
  define w1 where "w1 = (if is_moving (hero w)
      then (let w = w\<lparr>frame_counter := frame_counter w + 1\<rparr> in
            if frame_counter w > 16 then w\<lparr>frame_counter := 0\<rparr> else w)
      else w\<lparr>current_frame := 0\<rparr>)"
  have w1: "draws w w1" by (simp add: w1_def draws_def same_def phase_of_def Let_def)
  have "stays w1 (game_draw_hero L w)"
    unfolding game_draw_hero_def w1_def [symmetric] Let_def [of w1]
    by (auto split: option.splits intro!: stays_some stays_value stays_back)
  then show ?thesis using draws_trans [OF w1] by (simp add: stays_def)
qed

lemma stays_button: "stays w (draw_button L b w)"
  unfolding draw_button_def Let_def
  by (intro stays_value) (auto split: prod.splits intro!: stays_bind [OF stays_back] intro: stays_value stays_text)

lemma stays_for_each: "(\<And>x w. stays w (f x w)) \<Longrightarrow> stays w (for_each f xs w)"
proof (induction xs arbitrary: w)
  case (Cons x xs)
  then show ?case by (auto intro: stays_bind)
qed (simp add: stays_some)

lemma stays_buttons: "stays w (draw_buttons L w)"
  unfolding draw_buttons_def by (intro stays_for_each stays_value stays_button)

lemma stays_waiting: "stays w (waiting_frame L w)"
  unfolding waiting_frame_def by (intro stays_bind stays_rules)

lemma stays_finish: "stays w (finish_frame L w)"
  unfolding finish_frame_def by (auto intro!: stays_bind stays_rules intro: stays_value)

lemma stays_info: "stays w (info_main_loop L w)"
  unfolding info_main_loop_def by (intro stays_bind stays_rules)

subsection \<open>Handlers and turns\<close>

text \<open>From c, w, k to c', w', k' the game takes turns, whose chars are heard and said on the line.\<close>

definition advances ::
  "mode \<Rightarrow> u8 list \<Rightarrow> u8 \<Rightarrow> world \<Rightarrow> 'k \<times> u8 list \<times> u8 list \<Rightarrow> u8 \<Rightarrow> world \<Rightarrow> 'k \<times> u8 list \<times> u8 list \<Rightarrow> bool" where
  "advances m hs c w k c' w' k' \<longleftrightarrow> loop_ready w' \<and>
     (\<exists>cs. snd k' = (fst (snd k) @ hs, snd (snd k) @ map of_char cs) \<and> turns m (phase_of w, c) hs cs (phase_of w', c'))"

lemma advances_same:
  "loop_ready w \<Longrightarrow> same w w' \<Longrightarrow> snd k' = snd k \<Longrightarrow> advances m [] c w k c w' k'"
  using same_ready turns.none [of m "(phase_of w, c)"]
  by (auto simp: advances_def same_def intro!: exI [of _ "[] :: char list"])

lemma advances_trans:
  assumes "advances m hs c w k c1 w1 k1" and "advances m hs' c1 w1 k1 c' w' k'"
  shows "advances m (hs @ hs') c w k c' w' k'"
proof -
  obtain cs where 1: "snd k1 = (fst (snd k) @ hs, snd (snd k) @ map of_char cs)" "turns m (phase_of w, c) hs cs (phase_of w1, c1)"
    using assms(1) by (auto simp: advances_def)
  obtain cs' where 2: "snd k' = (fst (snd k1) @ hs', snd (snd k1) @ map of_char cs')"
    "turns m (phase_of w1, c1) hs' cs' (phase_of w', c')" using assms(2) by (auto simp: advances_def)
  have "snd k' = (fst (snd k) @ hs @ hs', snd (snd k) @ map of_char (cs @ cs'))" using 1(1) 2(1) by simp
  then show ?thesis using turns_append [OF 2(2) 1(2)] assms(2) unfolding advances_def by blast
qed

lemmas advances_quiet_trans = advances_trans [where hs = "[]", unfolded append_Nil]

text \<open>The line that the machine is connected to.\<close>

definition good_line :: "'k kernel \<Rightarrow> ('k \<Rightarrow> nat) \<Rightarrow> u8 list \<Rightarrow> bool" where
  "good_line K waiting contents \<longleftrightarrow> line_ok K waiting \<and> line_answers K \<and> length contents = 100"

abbreviation memory :: "u8 list \<Rightarrow> queue_alloc" where
  "memory contents \<equiv> (True, True, contents)"

text \<open>What holds also while a received char is handled.\<close>

definition between :: "world \<Rightarrow> bool" where
  "between w \<longleftrightarrow> menu_ok w \<and> 260 \<le> y_res (screen_mode w) \<and> queue_ptr_ok (receive_queue (w_serial w)) \<and>
     queue_ptr_ok (transmit_queue (w_serial w)) \<and> queue_items (transmit_queue (w_serial w)) = []"

lemma loop_ready_between: "loop_ready w \<longleftrightarrow> between w \<and> queue_items (receive_queue (w_serial w)) = []"
  by (auto simp: loop_ready_def between_def idle_line_def)

lemma send_all_wired:
  assumes line: "good_line K waiting contents"
  shows "send_all (wired K) (memory contents) cs w k = Some (w', k') \<Longrightarrow> between w \<Longrightarrow>
    between w' \<and> phase_of w' = phase_of w \<and> receive_queue (w_serial w') = receive_queue (w_serial w) \<and>
    snd k' = (fst (snd k), snd (snd k) @ map of_char cs)"
proof (induction cs arbitrary: w k)
  case (Cons c cs)
  obtain s1 k1 where s1: "sp_send_int (wired K) (memory contents) 0x3f8 [of_char c] (w_serial w) k = Some (0, s1, k1)"
    "snd k1 = (fst (snd k), snd (snd k) @ [of_char c])" "receive_queue s1 = receive_queue (w_serial w)"
    "queue_ptr_ok (transmit_queue s1)" "queue_items (transmit_queue s1) = []"
    using send_wired [of K waiting contents "of_char c" "w_serial w" k] line by (auto simp: good_line_def)
  let ?w = "w\<lparr>w_serial := s1\<rparr>"
  have "between ?w" using Cons.prems(2) s1 by (simp add: between_def menu_ok_def menu_ready_def)
  moreover have "send_all (wired K) (memory contents) cs ?w k1 = Some (w', k')"
    using Cons.prems(1) s1(1) by (simp add: send_all.simps(2) send_char_def)
  ultimately show ?case using Cons.IH [of ?w k1] s1(2,3) by (simp add: phase_of_def)
qed simp

lemma obey_wired:
  assumes "good_line K waiting contents" and "obey (wired K) (memory contents) a w k = Some (w', k')" and "between w"
    and "rule a (phase_of w) = (p', cs)"
  shows "between w' \<and> phase_of w' = p' \<and> receive_queue (w_serial w') = receive_queue (w_serial w) \<and>
    snd k' = (fst (snd k), snd (snd k) @ map of_char cs)"
proof -
  have "between (set_phase p' w)"
    using assms(3) by (simp add: between_def menu_ok_def menu_ready_def set_phase_def)
  moreover have "w_serial (set_phase p' w) = w_serial w" by (simp add: set_phase_def)
  ultimately show ?thesis
    using send_all_wired [OF assms(1), of cs "set_phase p' w" k w' k'] assms(2,4) by (simp add: obey_def)
qed

lemma advances_act:
  assumes "good_line K waiting contents" and "obey (wired K) (memory contents) a w k = Some (w', k')" and "loop_ready w"
    and "allowed a (phase_of w)" and "a \<in> fst m"
  shows "advances m [] c w k c w' k'"
proof -
  obtain p' cs where r: "rule a (phase_of w) = (p', cs)" by (metis prod.collapse)
  have "between w" "queue_items (receive_queue (w_serial w)) = []" using assms(3) loop_ready_between by blast+
  from turns_one [OF turn.acts [OF assms(5,4) r, of c]] obey_wired [OF assms(1,2) this(1) r] this(2) show ?thesis
    by (auto simp: advances_def loop_ready_between)
qed

subsection \<open>The devices that do not touch the line\<close>

lemma keyboard_quiet: "kbd_ih (wired K) v k = (v', k') \<Longrightarrow> snd k' = snd k"
  by (auto simp: kbd_ih_def Let_def split: prod.splits if_splits dest!: wired_read)

lemma mouse_quiet: "mouse_interrupt (wired K) m k = Some (m', k') \<Longrightarrow> snd k' = snd k"
  by (auto simp: mouse_interrupt_def mouse_ih_def Let_def split: prod.splits if_splits Option.bind_splits dest!: wired_read)

lemma rtc_quiet: "snd (snd (rtc_read (wired K) reg k)) = snd k"
proof -
  obtain e k1 where o: "sys_outb (wired K) 0x70 reg k = (e, k1)" by (metis prod.collapse)
  obtain e' v k2 where i: "sys_inb (wired K) 0x71 k1 = (e', v, k2)" by (metis prod_cases3)
  show ?thesis using wired_other_port(2) [OF o] wired_other_port(1) [OF i] by (simp add: rtc_read_def o i)
qed

lemma rtc_quiet': "rtc_read (wired K) reg k = (v, k') \<Longrightarrow> snd k' = snd k"
  using rtc_quiet [of K reg k] by simp

lemma clock_quiet:
  "update (wired K) t k = (t', k') \<Longrightarrow> snd k' = snd k"
  "take_stamp (wired K) t k = (t', k') \<Longrightarrow> snd k' = snd k"
  by (auto simp: update_def get_time_def take_stamp_def get_time_direct_def Let_def
      split: prod.splits if_splits dest!: rtc_quiet')

lemma check_time_quiet: "check_time (wired K) w k = (w', k') \<Longrightarrow> snd k' = snd k \<and> same w w'"
  by (auto simp: check_time_def same_def phase_of_def Let_def split: prod.splits if_splits dest!: clock_quiet)

subsection \<open>The interrupts\<close>

lemma kbd_advances:
  assumes "on_kbd (wired K) w k = Some (w', k')" and "loop_ready w" and "running w"
    and "Escape \<in> fst m \<or> fst (kbd_ih (wired K) (kbd_value w) k) \<noteq> 0x81"
  shows "advances m [] c w k c w' k' \<and> running w'"
proof -
  obtain v k1 where v: "kbd_ih (wired K) (kbd_value w) k = (v, k1)" by (metis prod.collapse)
  define w1 where "w1 = (if v = 0x81 then (game_reset (w\<lparr>kbd_value := v\<rparr>))\<lparr>state := Menu\<rparr> else w\<lparr>kbd_value := v\<rparr>)"
  have "on_kbd (wired K) w k = (if state w1 = Game
      then do { p \<leftarrow> game_keyboard_handler (w_maze w1) (kbd_value w1) (hero w1); Some (w1\<lparr>hero := p\<rparr>, k1) }
      else Some (w1, k1))"
    by (simp add: on_kbd_def v w1_def)
  with assms(1) have w': "same w1 w'" "k' = k1"
    by (auto simp: same_def phase_of_def split: if_splits Option.bind_splits)
  have log: "snd k' = snd k" using keyboard_quiet [OF v] w'(2) by simp
  have "advances m [] c w k c w1 k' \<and> running w1"
  proof (cases "v = 0x81")
    case False
    then have "same w w1" by (simp add: w1_def same_def phase_of_def)
    then show ?thesis using advances_same [OF assms(2) _ log] assms(3) False by (simp add: w1_def)
  next
    case True
    have "phase_of w1 = fst (rule Escape (phase_of w))"
      using escape_obeys [of "w\<lparr>kbd_value := v\<rparr>"] True by (simp add: w1_def phase_of_def)
    then have "rule Escape (phase_of w) = (phase_of w1, [])" by simp
    moreover have "allowed Escape (phase_of w)" using assms(3) by (simp add: phase_of_def)
    moreover have "Escape \<in> fst m" using assms(4) v True by simp
    ultimately have "turns m (phase_of w, c) [] [] (phase_of w1, c)" by (intro turns_one turn.acts)
    moreover have "loop_ready w1"
      using assms(2) by (simp add: w1_def loop_ready_def menu_ok_def menu_ready_def game_reset_def)
    ultimately show ?thesis using log assms(3)
      by (auto simp: advances_def w1_def game_reset_def intro!: exI [of _ "[] :: char list"])
  qed
  moreover from this have "advances m [] c w1 k' c w' k'" using advances_same w' unfolding advances_def [of m "[]" c w] by blast
  moreover have "running w' = running w1" using w'(1) by (simp add: same_def phase_of_def)
  ultimately show ?thesis using advances_quiet_trans by blast
qed

lemma mouse_advances:
  assumes "on_mouse (wired K) w k = Some (w', k')" and "loop_ready w"
  shows "advances m [] c w k c w' k' \<and> running w' = running w"
proof -
  obtain m k1 where m: "mouse_interrupt (wired K) (w_mouse w) k = Some (m, k1)"
    using assms(1) by (auto simp: on_mouse_def split: Option.bind_splits)
  have same: "same w w'" "k' = k1"
    using assms(1) m by (auto simp: on_mouse_def same_def phase_of_def menu_mouse_handler_def Let_def split: if_splits)
  then show ?thesis using advances_same [OF assms(2)] mouse_quiet [OF m] by (simp add: same_def phase_of_def)
qed

lemma rtc_advances:
  assumes "on_rtc (wired K) w k = (w', k')" and "loop_ready w"
  shows "advances m [] c w k c w' k'"
  using assms by (auto simp: on_rtc_def same_def phase_of_def split: prod.splits dest!: clock_quiet intro!: advances_same)

text \<open>A frame of the game.\<close>

lemma running_frame_parts:
  assumes "running_frame K L a w k = Some (w', k')"
  obtains w1 w2 where "draws (w\<lparr>hero := game_check_bound (screen_mode w) (hero w)\<rparr>) w1"
    and "(if check_game_end (w_maze w1) (hero w1)
          then (let w = w1\<lparr>gameState := Finish, won := True\<rparr> in
                if isMultiplayer w then send_char K a CHR ''L'' w k else Some (w, k))
          else Some (w1, k)) = Some (w2, k')"
    and "draws w2 w'"
proof -
  define w0 where "w0 = w\<lparr>hero := game_check_bound (screen_mode w) (hero w)\<rparr>"
  obtain v1 v2 v3 w1 w2 where r: "clear_back w0 = Some v1" "game_fog v1 = Some v2" "game_draw_hero L v2 = Some v3"
    "game_draw_cursor L v3 = Some w1"
    "(if check_game_end (w_maze w1) (hero w1)
          then (let w = w1\<lparr>gameState := Finish, won := True\<rparr> in
                if isMultiplayer w then send_char K a CHR ''L'' w k else Some (w, k))
          else Some (w1, k)) = Some (w2, k')"
    "swap_buffers w2 = Some w'"
    using assms unfolding running_frame_def w0_def [symmetric] Let_def [of w0]
    by (auto simp: Let_def elim!: bind_SomeE)
  have "draws w0 v1" by (rule staysD [OF stays_clear r(1)])
  also have "draws v1 v2" by (rule staysD [OF stays_fog r(2)])
  also have "draws v2 v3" by (rule staysD [OF stays_hero r(3)])
  also have "draws v3 w1" by (rule staysD [OF stays_cursor(1) r(4)])
  finally show thesis using r(5) staysD [OF stays_swap r(6)] unfolding w0_def by (rule that)
qed

lemma running_advances:
  assumes "good_line K waiting contents" and "running_frame (wired K) L (memory contents) w k = Some (w', k')"
    and "loop_ready w" and "allowed Reach_Exit (phase_of w)"
    and "- {Escape} \<subseteq> fst m"
  shows "advances m [] c w k c w' k'"
proof -
  obtain w4 w5 where r: "draws (w\<lparr>hero := game_check_bound (screen_mode w) (hero w)\<rparr>) w4"
    "(if check_game_end (w_maze w4) (hero w4)
          then (let w = w4\<lparr>gameState := Finish, won := True\<rparr> in
                if isMultiplayer w then send_char (wired K) (memory contents) CHR ''L'' w k else Some (w, k))
          else Some (w4, k)) = Some (w5, k')"
    "draws w5 w'"
    using assms(2) by (rule running_frame_parts)
  have "same w (w\<lparr>hero := game_check_bound (screen_mode w) (hero w)\<rparr>)" by (simp add: same_def phase_of_def)
  then have w4: "same w w4" using draws_same [OF r(1)] same_trans by blast
  then have ready: "loop_ready w4" "allowed Reach_Exit (phase_of w4)"
    using same_ready [OF _ assms(3)] assms(4) by (simp_all add: same_def)
  have 1: "advances m [] c w k c w4 k" by (rule advances_same [OF assms(3) w4 refl])
  have 2: "advances m [] c w4 k c w5 k'"
  proof (cases "check_game_end (w_maze w4) (hero w4)")
    case True
    then have "obey (wired K) (memory contents) Reach_Exit w4 k = Some (w5, k')"
      using r(2) exit_obeys [of w4 "wired K" "memory contents" k] by simp
    then show ?thesis using advances_act [OF assms(1) _ ready] assms(5) by blast
  next
    case False
    then have "w5 = w4" "k' = k" using r(2) by simp_all
    then show ?thesis by (simp add: advances_same [OF ready(1)])
  qed
  then have "loop_ready w5" by (simp add: advances_def)
  then have "advances m [] c w5 k' c w' k'" using draws_same [OF r(3)] by (simp add: advances_same)
  with advances_quiet_trans [OF 1 2] show ?thesis by (rule advances_quiet_trans)
qed

lemma game_advances:
  assumes "good_line K waiting contents" and "game_main_loop (wired K) L (memory contents) w k = Some (w', k')"
    and "loop_ready w" and "running w" and "state w = Game"
    and "- {Escape} \<subseteq> fst m"
  shows "advances m [] c w k c w' k'"
proof -
  obtain w1 k1 where t: "check_time (wired K) w k = (w1, k1)" by (metis prod.collapse)
  note quiet = check_time_quiet [OF t]
  have w1: "loop_ready w1" using same_ready [OF _ assms(3)] quiet by blast
  have 1: "advances m [] c w k c w1 k1" using advances_same [OF assms(3)] quiet by blast
  have "advances m [] c w1 k1 c w' k'"
  proof (cases "gameState w1")
    case Waiting
    then have "waiting_frame L w1 = Some w'" "k' = k1"
      using assms(2) t by (auto simp: game_main_loop_def split: Option.bind_splits)
    then show ?thesis using stays_waiting [of w1 L] by (auto simp: stays_def draws_def intro: advances_same [OF w1])
  next
    case Running
    then have "running_frame (wired K) L (memory contents) w1 k1 = Some (w', k')"
      using assms(2) t by (simp add: game_main_loop_def)
    moreover have "allowed Reach_Exit (phase_of w1)"
      using Running quiet assms(4,5) by (simp add: same_def phase_of_def)
    ultimately show ?thesis using running_advances [OF assms(1) _ w1] assms(6) by blast
  next
    case Finish
    then have "finish_frame L w1 = Some w'" "k' = k1"
      using assms(2) t by (auto simp: game_main_loop_def split: Option.bind_splits)
    then show ?thesis using stays_finish [of w1 L] by (auto simp: stays_def draws_def intro: advances_same [OF w1])
  qed
  with 1 show ?thesis by (rule advances_quiet_trans)
qed

text \<open>A frame of the menu: the click on a button, between changes of the picture.\<close>

lemma menu_frame:
  assumes "menu_main_loop K L a w k = Some (w', k')" and "menu_ok w" and "260 \<le> y_res (screen_mode w)"
  obtains w1 mx my w2 where "phase_of w1 = phase_of w" "w_serial w1 = w_serial w" "screen_mode w1 = screen_mode w" "menu_ready w1"
      "hero w1 = hero w" "w_maze w1 = w_maze w"
    and "int_of_double (x_mouse (hero w)) = Some mx" "int_of_double (y_mouse (hero w)) = Some my"
    and "(if lb (mouse_packet (w_mouse w)) \<and> handler_at (screen_mode w) mx my \<noteq> None
      then call_handler K a (handler_at (screen_mode w) mx my) w1 k else Some (w1, k)) = Some (w2, k')"
    and "draws w2 w'"
proof -
  define w0 where "w0 = (if button_count w < 1
    then w\<lparr>buttons := menu_buttons (screen_mode w) @ drop 4 (buttons w), button_count := 4\<rparr> else w)"
  have w0: "menu_ready w0" "phase_of w0 = phase_of w" "w_serial w0 = w_serial w" "screen_mode w0 = screen_mode w"
    "hero w0 = hero w" "w_mouse w0 = w_mouse w" "w_maze w0 = w_maze w"
    using assms(2) by (auto simp: w0_def menu_ok_def menu_ready_def menu_buttons_def phase_of_def)
  have start: "(if button_count w < 1 then create_buttons w else Some w) = Some w0"
    using assms(2) create_buttons_run [of w] by (auto simp: w0_def menu_ok_def menu_ready_def)
  obtain w1 wt mx my w2 k2 w3 w4 where r: "clear_back w0 = Some wt"
    "put_title L ''LCOMaze'' (mid_x wt - 200) (y_res (screen_mode wt) div 10) wt = Some w1"
    "int_of_double (x_mouse (hero w1)) = Some mx" "int_of_double (y_mouse (hero w1)) = Some my"
    "handle_mouse_click K a mx my w1 k = Some (w2, k2)" "draw_buttons L w2 = Some w3" "menu_draw_cursor L w3 = Some w4"
    "swap_buffers w4 = Some w'" "k' = k2"
    using assms(1) unfolding menu_main_loop_def start by (auto elim!: bind_SomeE)
  have "draws w0 wt" "draws wt w1" "draws w2 w3" "draws w3 w4" "draws w4 w'"
    using staysD r stays_clear stays_title stays_buttons stays_cursor(2) stays_swap by blast+
  then have 1: "draws w0 w1" and 2: "draws w2 w'" by (blast intro: draws_trans)+
  have w1: "menu_ready w1" "260 \<le> y_res (screen_mode w1)"
    using 1 w0 assms(3) by (simp_all add: draws_def same_def menu_ready_def)
  note clicks_run [OF w1, of K a mx my k, unfolded r(5)]
  then show thesis
    using that [of w1 mx my w2] 1 2 w0 w1(1) r(3,4,9) by (simp add: draws_def same_def)
qed

text \<open>The same frame in full: besides the call of the button's function only the buttons, in the first frame, and
  the video buffers change.\<close>

definition paints :: "world \<Rightarrow> world option \<Rightarrow> bool" where
  "paints w r \<longleftrightarrow> (\<forall>w'. r = Some w' \<longrightarrow> (\<exists>v. w' = w\<lparr>w_video := v\<rparr> \<and> mode_info v = screen_mode w))"

lemma paintsD: "paints w r \<Longrightarrow> r = Some w' \<Longrightarrow> \<exists>v. w' = w\<lparr>w_video := v\<rparr> \<and> mode_info v = screen_mode w"
  by (simp add: paints_def)

lemma paints_bind: "paints w r \<Longrightarrow> (\<And>w1. paints w1 (f w1)) \<Longrightarrow> paints w (r \<bind> f)"
  unfolding paints_def by (fastforce split: Option.bind_splits)

lemma paints_value: "(\<And>x. paints w (f x)) \<Longrightarrow> paints w (r \<bind> f)"
  by (cases r) (auto simp: paints_def)

lemma paints_back: "paints w (on_back f w)"
  by (auto simp: paints_def on_back_def split: Option.bind_splits)

lemma paints_swap: "paints w (swap_buffers w)"
  by (auto simp: paints_def swap_buffers_def swap_def split: Option.bind_splits)

lemma paints_text: "paints w (clear_back w)" "paints w (put_text L s x y c w)" "paints w (put_title L s x y w)"
  by (simp_all add: clear_back_def put_text_def put_title_def paints_back)

lemma paints_cursor: "paints w (menu_draw_cursor L w)"
  unfolding menu_draw_cursor_def by (intro paints_value paints_back)

lemma paints_button: "paints w (draw_button L b w)"
  unfolding draw_button_def Let_def
  by (intro paints_value) (auto split: prod.splits intro!: paints_bind [OF paints_back] intro: paints_value paints_text)

lemma paints_for_each: "(\<And>x w. paints w (f x w)) \<Longrightarrow> paints w (for_each f xs w)"
proof (induction xs arbitrary: w)
  case (Cons x xs)
  then show ?case by (auto intro: paints_bind)
next
  case Nil
  have "w = w\<lparr>w_video := w_video w\<rparr> \<and> mode_info (w_video w) = screen_mode w" by simp
  then have "\<exists>v. w = w\<lparr>w_video := v\<rparr> \<and> mode_info v = screen_mode w" by (rule exI)
  then show ?case by (simp only: paints_def for_each.simps option.inject simp_thms)
qed

lemma paints_buttons: "paints w (draw_buttons L w)"
  unfolding draw_buttons_def by (intro paints_for_each paints_value paints_button)

definition with_buttons :: "world \<Rightarrow> world" where
  "with_buttons w = (if button_count w < 1
     then w\<lparr>buttons := menu_buttons (screen_mode w) @ drop 4 (buttons w), button_count := 4\<rparr> else w)"

lemma menu_frame_exact:
  assumes "menu_main_loop K L a w k = Some (w', k')" and "menu_ok w" and "260 \<le> y_res (screen_mode w)"
    and "int_of_double (x_mouse (hero w)) = Some mx" and "int_of_double (y_mouse (hero w)) = Some my"
  shows "\<exists>v w2 v'. mode_info v = screen_mode w \<and>
    (if lb (mouse_packet (w_mouse w)) \<and> handler_at (screen_mode w) mx my \<noteq> None
      then call_handler K a (handler_at (screen_mode w) mx my) ((with_buttons w)\<lparr>w_video := v\<rparr>) k
      else Some ((with_buttons w)\<lparr>w_video := v\<rparr>, k)) = Some (w2, k') \<and> w' = w2\<lparr>w_video := v'\<rparr>"
proof -
  let ?w0 = "with_buttons w"
  have w0: "menu_ready ?w0" "screen_mode ?w0 = screen_mode w" "hero ?w0 = hero w" "w_mouse ?w0 = w_mouse w"
    using assms(2) by (auto simp: with_buttons_def menu_ok_def menu_ready_def menu_buttons_def)
  have start: "(if button_count w < 1 then create_buttons w else Some w) = Some ?w0"
    using assms(2) create_buttons_run [of w] by (auto simp: with_buttons_def menu_ok_def menu_ready_def)
  obtain wt w1 m n w2 w3 w4 where r: "clear_back ?w0 = Some wt"
    "put_title L ''LCOMaze'' (mid_x wt - 200) (y_res (screen_mode wt) div 10) wt = Some w1"
    "int_of_double (x_mouse (hero w1)) = Some m" "int_of_double (y_mouse (hero w1)) = Some n"
    "handle_mouse_click K a m n w1 k = Some (w2, k')" "draw_buttons L w2 = Some w3" "menu_draw_cursor L w3 = Some w4"
    "swap_buffers w4 = Some w'"
    using assms(1) unfolding menu_main_loop_def start by (auto elim!: bind_SomeE)
  obtain vt where wt: "wt = ?w0\<lparr>w_video := vt\<rparr>" "mode_info vt = screen_mode w"
    using paintsD [OF paints_text(1) r(1)] w0(2) by auto
  obtain v where "w1 = wt\<lparr>w_video := v\<rparr>" "mode_info v = screen_mode wt" using paintsD [OF paints_text(3) r(2)] by blast
  with wt have w1: "w1 = ?w0\<lparr>w_video := v\<rparr>" "mode_info v = screen_mode w" by simp_all
  then have mn: "m = mx" "n = my" "menu_ready w1" "screen_mode w1 = screen_mode w" "w_mouse w1 = w_mouse w"
    using r(3,4) w0 assms(4,5) by (simp_all add: menu_ready_def)
  have click: "(if lb (mouse_packet (w_mouse w)) \<and> handler_at (screen_mode w) mx my \<noteq> None
      then call_handler K a (handler_at (screen_mode w) mx my) w1 k else Some (w1, k)) = Some (w2, k')"
    using clicks_run [OF mn(3), of K a mx my k, unfolded mn(4,5), OF assms(3)] r(5) unfolding mn(1,2) by simp
  obtain v3 where "w3 = w2\<lparr>w_video := v3\<rparr>" using paintsD [OF paints_buttons r(6)] by blast
  moreover obtain v4 where "w4 = w3\<lparr>w_video := v4\<rparr>" using paintsD [OF paints_cursor r(7)] by blast
  moreover obtain v' where "w' = w4\<lparr>w_video := v'\<rparr>" using paintsD [OF paints_swap r(8)] by blast
  ultimately have "w' = w2\<lparr>w_video := v'\<rparr>" by simp
  with click w1 show ?thesis by blast
qed

lemma menu_advances:
  assumes "good_line K waiting contents" and "menu_main_loop (wired K) L (memory contents) w k = Some (w', k')"
    and "loop_ready w" and "running w" and "state w = Menu"
    and "- {Escape} \<subseteq> fst m"
  shows "advances m [] c w k c w' k'"
proof -
  have "menu_ok w" "260 \<le> y_res (screen_mode w)" using assms(3) by (simp_all add: loop_ready_def)
  from menu_frame [OF assms(2) this] obtain w1 mx my w2 where
    w1: "phase_of w1 = phase_of w" "w_serial w1 = w_serial w" "screen_mode w1 = screen_mode w" "menu_ready w1"
    and click: "(if lb (mouse_packet (w_mouse w)) \<and> handler_at (screen_mode w) mx my \<noteq> None
      then call_handler (wired K) (memory contents) (handler_at (screen_mode w) mx my) w1 k else Some (w1, k)) = Some (w2, k')"
    and w': "draws w2 w'" .
  have ready: "loop_ready w1" using w1 assms(3) by (simp add: loop_ready_def menu_ok_def)
  have "advances m [] c w1 k c w2 k'"
  proof (cases "lb (mouse_packet (w_mouse w)) \<and> handler_at (screen_mode w) mx my \<noteq> None")
    case False
    then show ?thesis using click by (auto intro: advances_same [OF ready])
  next
    case True
    then obtain h where h: "handler_at (screen_mode w) mx my = Some h" by blast
    have "obey (wired K) (memory contents) (Click h) w1 k = Some (w2, k')"
      using click True h click_obeys [of "wired K" "memory contents" h w1 k] by simp
    moreover have "allowed (Click h) (phase_of w1)" using w1(1) assms(4,5) by (simp add: phase_of_def)
    moreover have "Click h \<in> fst m" using assms(6) by blast
    ultimately show ?thesis by (rule advances_act [OF assms(1) _ ready])
  qed
  moreover from this have "advances m [] c w2 k' c w' k'"
    unfolding advances_def [of m "[]" c w1] by (blast intro: advances_same [OF _ draws_same [OF w']])
  ultimately have "advances m [] c w1 k c w' k'" by (rule advances_quiet_trans)
  then show ?thesis using w1(1) by (simp add: advances_def)
qed

lemma timer_advances:
  assumes "good_line K waiting contents" and "on_timer (wired K) L (memory contents) w k = Some (w', k')"
    and "loop_ready w" and "running w"
    and "- {Escape} \<subseteq> fst m"
  shows "advances m [] c w k c w' k'"
proof (cases "state w")
  case Game
  then show ?thesis using assms(2) game_advances [OF assms(1) _ assms(3,4) _ assms(5)] by (simp add: on_timer_def)
next
  case Menu
  then show ?thesis using assms(2) menu_advances [OF assms(1) _ assms(3,4) _ assms(5)] by (simp add: on_timer_def)
next
  case HowTo
  then have "info_main_loop L w = Some w'" "k' = k"
    using assms(2) by (auto simp: on_timer_def split: Option.bind_splits)
  then show ?thesis using stays_info [of w L] by (auto simp: stays_def draws_def intro: advances_same [OF assms(3)])
qed

lemma serial_advances:
  assumes line: "good_line K waiting contents" and run: "on_serial (wired K) (memory contents) c w k = Some (c', w', k')"
    and ready: "loop_ready w" and "c \<noteq> 0" and "snd m \<or> fst (snd k') \<noteq> fst (snd k)"
  shows "\<exists>hs. advances m hs c w k c' w' k'"
proof -
  have ok: "line_ok (wired K) (waiting \<circ> fst)" using line wired_line_ok [of K waiting] by (auto simp: good_line_def)
  have idle: "idle_line (w_serial w)" using ready by (simp add: loop_ready_def)
  obtain c1 s1 k1 w2 s2 where r: "receive (wired K) c (w_serial w) k = Some (c1, s1, k1)"
    "on_char (wired K) (memory contents) c1 (w\<lparr>w_serial := s1\<rparr>) k1 = Some (w2, k')"
    "clear_receive_queue (w_serial w2) = Some s2" "c' = c1" "w' = w2\<lparr>w_serial := s2\<rparr>"
    using run by (auto simp: on_serial_def elim!: bind_SomeE)
  obtain bs where bs: "c1 = (case bs of [] \<Rightarrow> c | b # _ \<Rightarrow> b)" "snd k1 = (fst (snd k) @ bs, snd (snd k))"
    "queue_ptr_ok (receive_queue s1)" "transmit_queue s1 = transmit_queue (w_serial w)"
    using receive_wired [OF ok idle r(1)] by blast
  let ?w = "w\<lparr>w_serial := s1\<rparr>"
  have between: "between ?w"
    using ready bs(3,4) by (simp add: loop_ready_def between_def idle_line_def menu_ok_def menu_ready_def)
  obtain p' cs where rule: "rule (Receive c1) (phase_of ?w) = (p', cs)" by (metis prod.collapse)
  have obey: "between w2 \<and> phase_of w2 = p' \<and> snd k' = (fst (snd k1), snd (snd k1) @ map of_char cs)"
    using obey_wired [OF line _ between rule] r(2) on_char_obeys [of "wired K" "memory contents" c1 ?w k1] by simp
  have "queue_ptr_ok (receive_queue s2) \<and> queue_items (receive_queue s2) = [] \<and> transmit_queue s2 = transmit_queue (w_serial w2)"
    using clear_wired [OF r(3)] obey by (simp add: between_def)
  then have w': "loop_ready w'" "phase_of w' = p'"
    using obey r(5) by (simp_all add: loop_ready_def between_def idle_line_def menu_ok_def menu_ready_def phase_of_def)
  have "rule (Receive c1) (phase_of w) = (phase_of w', cs)" using rule w'(2) by (simp add: phase_of_def)
  moreover have "snd m \<or> bs \<noteq> []" using assms(5) bs(2) obey by auto
  ultimately have "turns m (phase_of w, c) bs cs (phase_of w', c1)"
    using turns_one [OF turn.hears [OF assms(4) _ bs(1)]] by blast
  then show ?thesis using w'(1) obey bs(2) r(4) by (auto simp: advances_def)
qed

lemma notify_advances:
  assumes line: "good_line K waiting contents"
    and run: "on_notify (wired K) L (memory contents) irqs ints c w k = Some (c', w', k')"
    and ready: "loop_ready w" and "running w" and acts: "- {Escape} \<subseteq> fst m"
    and esc: "Escape \<in> fst m \<or> \<not> raised ints (irq_set_kbd irqs) \<or> fst (kbd_ih (wired K) (kbd_value w) k) \<noteq> 0x81"
    and fresh: "snd m \<or> \<not> (raised ints (irq_set_serie irqs) \<and> c \<noteq> 0) \<or> fst (snd k') \<noteq> fst (snd k)"
  shows "\<exists>hs. advances m hs c w k c' w' k'"
proof -
  obtain w1 k1 where 1: "(if raised ints (irq_set_kbd irqs) then on_kbd (wired K) w k else Some (w, k)) = Some (w1, k1)"
    using run by (auto simp: on_notify_def elim!: bind_SomeE)
  obtain w2 k2 where 2: "(if raised ints (irq_set_mouse irqs) then on_mouse (wired K) w1 k1 else Some (w1, k1)) = Some (w2, k2)"
    using run by (auto simp: on_notify_def 1 elim!: bind_SomeE)
  obtain w3 k3 where 3: "(if raised ints (irq_set_timer irqs) then on_timer (wired K) L (memory contents) w2 k2
      else Some (w2, k2)) = Some (w3, k3)"
    using run by (auto simp: on_notify_def 1 2 elim!: bind_SomeE)
  obtain w4 k4 where 4: "(if raised ints (irq_set_rtc irqs) then on_rtc (wired K) w3 k3 else (w3, k3)) = (w4, k4)"
    by (metis prod.collapse)
  have 5: "(if raised ints (irq_set_serie irqs) \<and> c \<noteq> 0 then on_serial (wired K) (memory contents) c w4 k4
      else Some (c, w4, k4)) = Some (c', w', k')"
    using run by (simp add: on_notify_def 1 2 3 4)
  have stay: "advances m [] c v l c v l" if "loop_ready v" for c v l
    using advances_same [OF that same_refl refl] .
  have a1: "advances m [] c w k c w1 k1 \<and> running w1"
    using 1 kbd_advances [OF _ ready assms(4), of K k w1 k1 m c] stay [OF ready, of c k] assms(4) esc
    by (cases "raised ints (irq_set_kbd irqs)") simp_all
  then have r1: "loop_ready w1" by (simp add: advances_def)
  have a2: "advances m [] c w1 k1 c w2 k2 \<and> running w2"
    using 2 mouse_advances [OF _ r1, of K k1 w2 k2 m c] stay [OF r1, of c k1] a1
    by (cases "raised ints (irq_set_mouse irqs)") simp_all
  then have r2: "loop_ready w2" by (simp add: advances_def)
  have a3: "advances m [] c w2 k2 c w3 k3"
    using 3 timer_advances [OF line _ r2, of L k2 w3 k3 m c] stay [OF r2, of c k2] a2 acts
    by (cases "raised ints (irq_set_timer irqs)") simp_all
  then have r3: "loop_ready w3" by (simp add: advances_def)
  have a4: "advances m [] c w3 k3 c w4 k4"
    using 4 rtc_advances [OF _ r3, of K k3 w4 k4 m c] stay [OF r3, of c k3]
    by (cases "raised ints (irq_set_rtc irqs)") simp_all
  then have r4: "loop_ready w4" by (simp add: advances_def)
  have a: "advances m [] c w k c w4 k4" 
    using advances_quiet_trans [OF advances_quiet_trans [OF advances_quiet_trans [OF _ _] a3] a4] a1 a2 by blast
  then have "fst (snd k4) = fst (snd k)" by (auto simp: advances_def)
  then have "\<exists>hs. advances m hs c w4 k4 c' w' k'"
    using 5 serial_advances [OF line _ r4, of c k4 c' w' k' m] stay [OF r4, of c k4] fresh
    by (cases "raised ints (irq_set_serie irqs) \<and> c \<noteq> 0") auto
  then show ?thesis using advances_trans [OF a] by blast
qed

text \<open>The world and the last char at the end of the loop; after a failed driver_receive the last char is not kept.\<close>

fun reaches :: "u8 \<Rightarrow> world \<Rightarrow> 'k \<times> u8 list \<times> u8 list \<Rightarrow> ('k \<times> u8 list \<times> u8 list) loop_end \<Rightarrow> bool" where
  "reaches c w k (Waits c' w' k') \<longleftrightarrow> (\<exists>hs. advances (UNIV, True) hs c w k c' w' k')"
| "reaches c w k (Stopped c' w' k') \<longleftrightarrow> (\<exists>hs. advances (UNIV, True) hs c w k c' w' k')"
| "reaches c w k (Failed err w' k') \<longleftrightarrow> (\<exists>hs c'. advances (UNIV, True) hs c w k c' w' k')"

lemma reaches_after: "advances (UNIV, True) hs c w k c1 w1 k1 \<Longrightarrow> reaches c1 w1 k1 r \<Longrightarrow> reaches c w k r"
  using advances_trans by (cases r) (simp; blast)+

lemma loop_advances:
  assumes "good_line K waiting contents"
  shows "interrupt_loop (wired K) L (memory contents) irqs msgs c w k = Some r \<Longrightarrow> loop_ready w \<Longrightarrow> reaches c w k r"
proof (induction msgs arbitrary: c w k)
  case Nil
  have "advances (UNIV, True) [] c w k c w k" by (rule advances_same [OF Nil.prems(2) same_refl refl])
  with Nil.prems(1) show ?case by (auto simp: interrupt_loop.simps split: if_splits)
next
  case (Cons m msgs)
  have stay: "advances (UNIV, True) [] c w k c w k" by (rule advances_same [OF Cons.prems(2) same_refl refl])
  consider "\<not> running w" | "running w" "receiver m \<noteq> 0"
    | "running w" "receiver m = 0" "is_ipc_notify (ipc_status m)" "ENDPOINT_P (m_source m) = Some HARDWARE"
    | "running w" "receiver m = 0" "\<not> (is_ipc_notify (ipc_status m) \<and> ENDPOINT_P (m_source m) = Some HARDWARE)"
    by blast
  then show ?case
  proof cases
    case 2
    then have "r = Failed 1 w k" using Cons.prems(1) by (simp add: interrupt_loop.simps [of _ _ _ _ "m # msgs"])
    then show ?thesis using stay reaches.simps(3) by blast
  next
    case 3
    then obtain c1 w1 k1 where n: "on_notify (wired K) L (memory contents) irqs (interrupts m) c w k = Some (c1, w1, k1)"
      "interrupt_loop (wired K) L (memory contents) irqs msgs c1 w1 k1 = Some r"
      using Cons.prems(1) by (auto simp: interrupt_loop.simps [of _ _ _ _ "m # msgs"] elim!: bind_SomeE)
    obtain hs where a: "advances (UNIV, True) hs c w k c1 w1 k1"
      using notify_advances [OF assms n(1) Cons.prems(2) 3(1), of "(UNIV, True)"] by auto
    then have "loop_ready w1" by (simp add: advances_def)
    from reaches_after [OF a Cons.IH [OF n(2) this]] show ?thesis .
  next
    case 4
    then have "interrupt_loop (wired K) L (memory contents) irqs msgs c w k = Some r"
      using Cons.prems(1) by (auto simp: interrupt_loop.simps [of _ _ _ _ "m # msgs"] split: if_splits Option.bind_splits)
    then show ?thesis using Cons.IH Cons.prems(2) by blast
  qed (use Cons.prems(1) stay in \<open>auto simp: interrupt_loop.simps [of _ _ _ _ "m # msgs"]\<close>)
qed

end
