(* ===== verification/Loop_Runs.thy ===== *)
theory Loop_Runs
  imports Loop_Rules
begin

text \<open>
  Where the loop starts (begins P: what proj_main_loop's initialisation gives satisfies P), and what Loop_Rules says of
  its runs and of a frame of the menu. ready_world is a program started on the machine of Program_Safety.
\<close>

subsection \<open>Where the loop starts\<close>

definition begins :: "(world \<Rightarrow> bool) \<Rightarrow> 'k started option \<Rightarrow> bool" where
  "begins P r \<longleftrightarrow> (\<forall>w irqs hooks k. r = Some (Inr (w, irqs, hooks, k)) \<longrightarrow> P w)"

lemma begins_rules:
  "begins P (Some (Inl x))"
  "(c \<Longrightarrow> begins P r') \<Longrightarrow> (\<not> c \<Longrightarrow> begins P r) \<Longrightarrow> begins P (if c then r' else r)"
  "(\<And>a b. t = (a, b) \<Longrightarrow> begins P (f a b)) \<Longrightarrow> begins P (case t of (a, b) \<Rightarrow> f a b)"
  by (auto simp: begins_def split: prod.splits)

lemma begins_bind: "(\<And>x. r = Some x \<Longrightarrow> begins P (f x)) \<Longrightarrow> begins P (r \<bind> f)"
  by (cases r) (auto simp: begins_def)

lemma init_game_same:
  "init_game V rnd junk w k = Some (w', k') \<Longrightarrow> phase_of w' = phase_of w \<and> w_serial w' = w_serial w \<and>
     buttons w' = buttons w \<and> button_count w' = button_count w \<and> screen_mode w' = screen_mode w \<and>
     hero w' = (hero w)\<lparr>pos_x := 50, pos_y := 50\<rparr> \<and> w_mouse w' = w_mouse w"
  by (auto simp: init_game_def generate_maze_buffer_def phase_of_def Let_def split: if_splits prod.splits elim!: bind_SomeE)

lemma setFrameBuffer_mode:
  "setFrameBuffer V mode v k = Some (err, v', k') \<Longrightarrow> \<exists>e k1. vbe_get_mode_info V mode k = (e, mode_info v', k1)"
  by (auto simp: setFrameBuffer_def Let_def split: if_splits prod.splits elim!: bind_SomeE)

lemma subscribed_queues:
  assumes "sp_subscribe_int K (x1, y1, contents1) (x2, y2, contents2) base bit_no hook s k = (0, b, h, s', k')"
    and "length contents1 = 100" "length contents2 = 100"
  shows "idle_line s'"
proof -
  have "queue_ptr_ok (alloc_queue (x, y, c)) \<and> queue_items (alloc_queue (x, y, c)) = []"
    if "length c = 100" "alloc_queue (x, y, c) \<noteq> None" for x y c
    using alloc_queue_ok [OF that(1)] that(2) by (cases x; cases y) (auto simp: alloc_queue_def new_queue_def)
  from this [OF assms(2), of x1 y1] this [OF assms(3), of x2 y2] show ?thesis using assms(1)
    by (auto simp: sp_subscribe_int_def idle_line_def Let_def split: if_splits option.splits prod.splits)
qed

definition first_phase :: "bool \<Rightarrow> phase" where
  "first_phase h = \<lparr>p_state = Menu, p_running = True, p_host = h, p_multi = False, p_game = Waiting, p_won = False\<rparr>"

lemma init_begins:
  assumes "idle_line (w_serial w)" and "length (buttons w) = 10" and "button_count w = 0"
    and "(hero w)\<lparr>pos_x := 50, pos_y := 50\<rparr> = start_player" and "w_mouse w = idle_mouse"
  shows "begins (\<lambda>w'. phase_of w' = phase_of w \<and> screen_mode w' = screen_mode w \<and>
      hero w' = start_player \<and> w_mouse w' = idle_mouse \<and> (260 \<le> y_res (screen_mode w') \<longrightarrow> loop_ready w'))
    (init_game V rnd junk w k \<bind> (\<lambda>(w, k). Some (Inr (w, irqs, hooks, k))))"
proof (cases "init_game V rnd junk w k")
  case None
  then show ?thesis by (simp add: begins_def)
next
  case (Some r)
  obtain w' k' where r: "r = (w', k')" by (cases r)
  from init_game_same [OF Some [unfolded r]] show ?thesis
    using assms by (simp add: begins_def Some r loop_ready_def menu_ok_def)
qed

lemma start_fields:
  "length (buttons start_world) = 10" "button_count start_world = 0"
  "phase_of (start_world\<lparr>host := h, w_video := v, w_serial := s\<rparr>) = first_phase h"
  "(hero start_world)\<lparr>pos_x := 50, pos_y := 50\<rparr> = start_player" "w_mouse start_world = idle_mouse"
  by (simp_all add: start_world_def first_phase_def phase_of_def start_player_def Let_def)

lemma program_begins:
  assumes "length contents1 = 100" "length contents2 = 100"
  shows "begins (\<lambda>w. phase_of w = first_phase (same_prefix 4 (argv ! 0) ''host'') \<and>
      (\<exists>k e k'. vbe_get_mode_info V 0x14C k = (e, screen_mode w, k')) \<and>
      hero w = start_player \<and> w_mouse w = idle_mouse \<and> (260 \<le> y_res (screen_mode w) \<longrightarrow> loop_ready w))
    (proj_start K V rnd junk (x1, y1, contents1) (x2, y2, contents2) hooks argv start_world k)"
proof -
  let ?P = "\<lambda>w. phase_of w = first_phase (same_prefix 4 (argv ! 0) ''host'') \<and>
      (\<exists>k e k'. vbe_get_mode_info V 0x14C k = (e, screen_mode w, k')) \<and>
      hero w = start_player \<and> w_mouse w = idle_mouse \<and> (260 \<le> y_res (screen_mode w) \<longrightarrow> loop_ready w)"
  have init: "begins ?P (init_game V rnd junk (start_world\<lparr>host := same_prefix 4 (argv ! 0) ''host'', w_video := v, w_serial := s\<rparr>) k'
      \<bind> (\<lambda>(w, k). Some (Inr (w, irqs, hooks, k))))"
    if "sp_subscribe_int K (x1, y1, contents1) (x2, y2, contents2) base bit_no hook s0 k0 = (0, b, h, s, k1)"
      "setFrameBuffer V 0x14C v0 k2 = Some (e, v, k3)"
    for v0 k2 e k3 v s k' irqs hooks base bit_no hook s0 k0 b h k1
    using init_begins [of "start_world\<lparr>host := same_prefix 4 (argv ! 0) ''host'', w_video := v, w_serial := s\<rparr>" V rnd junk k' irqs hooks]
      subscribed_queues [OF that(1) assms] start_fields setFrameBuffer_mode [OF that(2)]
    by (auto simp: begins_def)
  show ?thesis
    unfolding proj_start_def Let_def
    by (intro begins_rules begins_bind init) simp_all
qed

subsection \<open>What the game variables never show\<close>

definition phase_ok :: "bool \<Rightarrow> phase \<Rightarrow> bool" where
  "phase_ok h p \<longleftrightarrow> p_host p = h \<and> (p_multi p \<longrightarrow> p_state p = Game) \<and>
     (p_won p \<longrightarrow> p_state p = Game \<and> p_game p \<noteq> Waiting)"

inductive_cases turnE: "turn m (p, c) hs cs (p', c')"

lemma rule_keeps: "phase_ok h p \<Longrightarrow> allowed a p \<or> (\<exists>c. a = Receive c) \<Longrightarrow> phase_ok h (fst (rule a p))"
  by (cases "(a, p)" rule: rule.cases) (auto simp: phase_ok_def activate_def)

lemma turn_keeps: "turn m (p, c) hs cs (p', c') \<Longrightarrow> phase_ok h p \<Longrightarrow> phase_ok h p'"
  by (erule turnE) (use rule_keeps in \<open>fastforce+\<close>)

lemma turns_keep: "turns m x hs cs y \<Longrightarrow> phase_ok h (fst x) \<Longrightarrow> phase_ok h (fst y)"
  by (induction rule: turns.induct) (auto intro: turn_keeps)

subsection \<open>Properties\<close>

fun end_world :: "'k loop_end \<Rightarrow> world" where
  "end_world (Waits c w k) = w" | "end_world (Stopped c w k) = w" | "end_world (Failed err w k) = w"

fun end_kernel :: "'k loop_end \<Rightarrow> 'k" where
  "end_kernel (Waits c w k) = k" | "end_kernel (Stopped c w k) = k" | "end_kernel (Failed err w k) = k"

lemma reaches_turns:
  "reaches c w (k, hs, ss) r \<Longrightarrow> \<exists>c' cs heard. snd (end_kernel r) = (hs @ heard, ss @ map of_char cs) \<and>
    turns (UNIV, True) (phase_of w, c) heard cs (phase_of (end_world r), c')"
  by (cases r) (auto simp: advances_def; blast)+

text \<open>C9: the interrupt loop plays by the rules. On a good line (good_line: the reads of its status succeed and find the transmitter
  ready at every look, finitely many chars wait in the UART, and every allocation of a queue succeeds) and from a state in which the
  screen is at least 260 pixels high, the buttons are those of the menu or not yet created, and both queues of the serial port are
  allocated and empty (loop_ready), a run of the loop, whatever messages arrive, takes the game through turns of the rule machine:
  each is an action that the rules allow at that moment, or the first of the chars that an interrupt of the line brought (the last
  char once more, when it brought none). The bytes read from the data port are the ones heard in these turns, and the bytes
  written to it are exactly the chars that the rules send, in order.\<close>

theorem loop_follows_rules:
  assumes "good_line K waiting contents" and "loop_ready w"
    and "interrupt_loop (wired K) L (memory contents) irqs msgs c w (k, [], []) = Some r"
  shows "\<exists>c' cs. turns (UNIV, True) (phase_of w, c) (fst (snd (end_kernel r))) cs (phase_of (end_world r), c') \<and>
    snd (snd (end_kernel r)) = map of_char cs"
  using reaches_turns [OF loop_advances [OF assms(1,3,2)]] by fastforce

text \<open>An interrupt of the line without a char repeats the last one: a host that has finished its game and whose last char was
  an S runs again. After a NUL the loop does not look at the line any more.\<close>

lemma stale_char_restarts:
  assumes "p_host p" and "p_game p = Finish"
  shows "turn (UNIV, True) (p, of_char CHR ''S'') [] (snd (activate p)) (p\<lparr>p_game := Running\<rparr>, of_char CHR ''S'')"
  by (rule turn.hears [where c' = "of_char CHR ''S''"]) (use assms in \<open>simp_all add: activate_def\<close>)

lemma deaf_after_nul: "on_notify K L a start_masks (push_bit 9 1) 0 w k = Some (0, w, k)"
  by (rule trans [OF one_line(5)]) simp

lemma ready_line: "good_line ready_kernel (\<lambda>_. 0) (replicate 100 0)"
  using ready_ok(2) by (simp add: good_line_def line_answers_def ready_kernel_def)

lemma wired_clock: "clock_ok K \<Longrightarrow> clock_ok (wired K)"
  unfolding clock_ok_def using wired_inb by metis

text \<open>A program started on the ready machine.\<close>

lemma ready_world:
  "\<exists>w irqs hooks. proj_start ready_kernel ready_video (\<lambda>_. 0) (\<lambda>_. blank_cell) ready_queue ready_queue start_hooks
      [name] start_world () = Some (Inr (w, irqs, hooks, ())) \<and> irqs = start_masks \<and>
    world_ok 65535 w \<and> screen_mode w = mode_14c \<and> loop_ready w \<and> phase_of w = first_phase (same_prefix 4 name ''host'')"
proof -
  obtain w irqs hooks where r: "proj_start ready_kernel ready_video (\<lambda>_. 0) (\<lambda>_. blank_cell) ready_queue ready_queue
      start_hooks [name] start_world () = Some (Inr (w, irqs, hooks, ()))"
    using ready_start by (metis (full_types) old.unit.exhaust prod_cases4)
  have len: "length (replicate 100 (0 :: u8)) = 100" by simp
  have "world_ok 65535 w \<and> irqs = start_masks"
    using start_fine [OF ready_ok(1) start_world_ok len len, of start_hooks ready_kernel "\<lambda>_. 0" "\<lambda>_. blank_cell"
        True True True True "[name]" "()"] r by (simp add: started_def)
  moreover have "phase_of w = first_phase (same_prefix 4 name ''host'') \<and> screen_mode w = mode_14c \<and> (260 \<le> y_res (screen_mode w) \<longrightarrow> loop_ready w)"
    using program_begins [OF len len, of "[name]" ready_video ready_kernel "\<lambda>_. 0" "\<lambda>_. blank_cell" True True True True
        start_hooks "()"] r
    by (auto simp: begins_def ready_video_def)
  moreover have "260 \<le> y_res mode_14c" by (simp add: mode_14c_def)
  ultimately show ?thesis using r by auto
qed

text \<open>A run of its loop: a frame, then a key and the line.\<close>

lemma ready_run:
  obtains w r where "loop_ready w" "phase_of w = first_phase True"
    "interrupt_loop (wired ready_kernel) repository_images ready_queue start_masks
      [hardware_message 1, hardware_message 0x281] 1 w ((), [], []) = Some r"
proof -
  obtain w where w: "world_ok 65535 w" "loop_ready w" "phase_of w = first_phase True"
    using ready_world [of "''host''"] by (auto simp: same_prefix_def)
  have len: "length (replicate 100 (0 :: u8)) = 100" by simp
  have "\<exists>r. interrupt_loop (wired ready_kernel) repository_images ready_queue start_masks
      [hardware_message 1, hardware_message 0x281] 1 w ((), [], []) = Some r \<and> loop_end_ok 65791 r"
    using loop_fine [OF repository_images_ok wired_line_ok [OF ready_ok(2)] wired_clock [OF ready_ok(3)] len w(1), of
        "[hardware_message 1, hardware_message 0x281]" True True start_masks 1 "((), [], [])"]
    by (simp add: hardware_source)
  with w(2,3) show thesis using that by blast
qed

theorem loop_follows_rules_witness:
  "\<exists>w r c' cs. interrupt_loop (wired ready_kernel) repository_images ready_queue start_masks
      [hardware_message 1, hardware_message 0x281] 1 w ((), [], []) = Some r \<and>
    turns (UNIV, True) (first_phase True, 1) (fst (snd (end_kernel r))) cs (phase_of (end_world r), c') \<and>
    snd (snd (end_kernel r)) = map of_char cs"
proof -
  obtain w r where w: "loop_ready w" "phase_of w = first_phase True"
    and r: "interrupt_loop (wired ready_kernel) repository_images ready_queue start_masks
      [hardware_message 1, hardware_message 0x281] 1 w ((), [], []) = Some r" by (rule ready_run)
  from loop_follows_rules [OF ready_line w(1) r] show ?thesis unfolding w(2) using r by blast
qed

text \<open>C10: the game variables agree, at every moment of a run from the start of the program on a good line (good_line, loop_ready): host
  stays what the command line said, a game of two players is on only while the game's screen is, and a player has won only on that
  screen and in a game that has begun.\<close>

theorem game_variables_agree:
  assumes "good_line K waiting contents" and "loop_ready w" and "phase_of w = first_phase h"
    and "interrupt_loop (wired K) L (memory contents) irqs msgs c w (k, [], []) = Some r"
  shows "host (end_world r) = h \<and> (isMultiplayer (end_world r) \<longrightarrow> state (end_world r) = Game) \<and>
    (won (end_world r) \<longrightarrow> state (end_world r) = Game \<and> gameState (end_world r) \<noteq> Waiting)"
proof -
  obtain c' cs heard where "turns (UNIV, True) (phase_of w, c) heard cs (phase_of (end_world r), c')"
    using reaches_turns [OF loop_advances [OF assms(1,4,2)]] by blast
  moreover have "phase_ok h (phase_of w)" by (simp add: assms(3) phase_ok_def first_phase_def)
  ultimately have "phase_ok h (phase_of (end_world r))" using turns_keep by fastforce
  then show ?thesis by (simp add: phase_ok_def phase_of_def)
qed

theorem game_variables_agree_witness:
  "\<exists>w r. interrupt_loop (wired ready_kernel) repository_images ready_queue start_masks
      [hardware_message 1, hardware_message 0x281] 1 w ((), [], []) = Some r \<and> host (end_world r) = True"
proof -
  obtain w r where w: "loop_ready w" "phase_of w = first_phase True"
    and r: "interrupt_loop (wired ready_kernel) repository_images ready_queue start_masks
      [hardware_message 1, hardware_message 0x281] 1 w ((), [], []) = Some r" by (rule ready_run)
  from game_variables_agree [OF ready_line w r] show ?thesis using r by blast
qed

lemma obey_phase: "obey K a act w k = Some (w', k') \<Longrightarrow> phase_of w' = fst (rule act (phase_of w))"
proof -
  have "send_all K a cs w k = Some (w', k') \<Longrightarrow> phase_of w' = phase_of w" for cs w k
  proof (induction cs arbitrary: w k)
    case (Cons c cs)
    then obtain w1 k1 where "send_char K a c w k = Some (w1, k1)" "send_all K a cs w1 k1 = Some (w', k')"
      by (auto simp: send_all.simps(2) elim!: bind_SomeE)
    with Cons.IH [of w1 k1] send_char_keeps show ?case by metis
  qed simp
  then show "obey K a act w k = Some (w', k') \<Longrightarrow> phase_of w' = fst (rule act (phase_of w))"
    by (auto simp: obey_def split: prod.splits)
qed

text \<open>C28: a frame of the menu on a screen at least 260 pixels high, with the cursor at (mx, my), is this and nothing else:
  with the left button down and a button under the cursor, one call of that button's function and no
  other, on the world as it was but for the pictures and for the buttons, which the first frame
  creates; and otherwise no call at all. Whatever comes before and after that call changes the video
  buffers only, and the kernel sees the call alone. The call moves the game as the rule of its
  button says.\<close>

theorem menu_frame_clicks:
  assumes "menu_main_loop K L a w k = Some (w', k')" and "menu_ok w" and "260 \<le> y_res (screen_mode w)"
    and "int_of_double (x_mouse (hero w)) = Some mx" and "int_of_double (y_mouse (hero w)) = Some my"
    and "h = (if lb (mouse_packet (w_mouse w)) then handler_at (screen_mode w) mx my else None)"
  shows "\<exists>v w2 v'. mode_info v = screen_mode w \<and> w' = w2\<lparr>w_video := v'\<rparr> \<and>
    (case h of
       None \<Rightarrow> w2 = (with_buttons w)\<lparr>w_video := v\<rparr> \<and> k' = k
     | Some b \<Rightarrow> call_handler K a (Some b) ((with_buttons w)\<lparr>w_video := v\<rparr>) k = Some (w2, k') \<and>
         phase_of w' = fst (rule (Click b) (phase_of w)))"
proof -
  obtain v w2 v' where v: "mode_info v = screen_mode w" and w': "w' = w2\<lparr>w_video := v'\<rparr>"
    and click: "(if lb (mouse_packet (w_mouse w)) \<and> handler_at (screen_mode w) mx my \<noteq> None
      then call_handler K a (handler_at (screen_mode w) mx my) ((with_buttons w)\<lparr>w_video := v\<rparr>) k
      else Some ((with_buttons w)\<lparr>w_video := v\<rparr>, k)) = Some (w2, k')"
    using menu_frame_exact [OF assms(1-5)] by blast
  let ?w1 = "(with_buttons w)\<lparr>w_video := v\<rparr>"
  have phases: "phase_of w' = phase_of w2" "phase_of ?w1 = phase_of w"
    by (simp_all add: w' phase_of_def with_buttons_def)
  show ?thesis
  proof (cases h)
    case None
    then have "\<not> (lb (mouse_packet (w_mouse w)) \<and> handler_at (screen_mode w) mx my \<noteq> None)"
      using assms(6) by (auto split: if_splits)
    with click have "w2 = ?w1 \<and> k' = k" by auto
    then show ?thesis using v w' None by auto
  next
    case (Some b)
    then have "lb (mouse_packet (w_mouse w))" "handler_at (screen_mode w) mx my = Some b"
      using assms(6) by (auto split: if_splits)
    with click have call: "call_handler K a (Some b) ?w1 k = Some (w2, k')" by simp
    then have "phase_of w' = fst (rule (Click b) (phase_of w))"
      using obey_phase [of K a "Click b" ?w1 k w2 k'] click_obeys [of K a b ?w1 k] phases by simp
    then show ?thesis using v w' call Some by auto
  qed
qed

theorem menu_frame_clicks_witness:
  "\<exists>w w'. menu_main_loop ready_kernel repository_images ready_queue w () = Some (w', ()) \<and>
    phase_of w = first_phase True \<and> phase_of w' = (first_phase True)\<lparr>p_running := False\<rparr>"
proof -
  obtain w0 where w0: "world_ok 65535 w0" "screen_mode w0 = mode_14c" "phase_of w0 = first_phase True"
    using ready_world [of "''host''"] by (auto simp: same_prefix_def)
  define w where "w = w0\<lparr>hero := (hero w0)\<lparr>x_mouse := 576, y_mouse := 800\<rparr>,
    w_mouse := idle_mouse\<lparr>mouse_packet := zero_packet\<lparr>lb := True\<rparr>\<rparr>\<rparr>"
  have w: "world_ok 65535 w" "screen_mode w = mode_14c" "phase_of w = first_phase True" "hero w = (hero w0)\<lparr>x_mouse := 576, y_mouse := 800\<rparr>"
    "lb (mouse_packet (w_mouse w))"
    using w0 by (simp_all add: w_def world_defs cursor_in_def phase_of_def idle_mouse_def mouse_ok_def zero_packet_def packet_ok_def
        player_ok_def)
  have len: "length (replicate 100 (0 :: u8)) = 100" by simp
  from menu_fine [OF w(1) _ repository_images_ok ready_ok(2) len, of True True "()"] obtain w' where
    run: "menu_main_loop ready_kernel repository_images ready_queue w () = Some (w', ())" by (auto simp: fine_k_def)
  have "menu_ok w" "260 \<le> y_res (screen_mode w)" using w(1,2) by (simp_all add: world_ok_def mode_14c_def)
  moreover have "int_of_double (x_mouse (hero w)) = Some 576" "int_of_double (y_mouse (hero w)) = Some 800"
    using w(4) int_of_double_small [of 576] int_of_double_small [of 800] by (simp_all add: trunc_def)
  ultimately have "phase_of w' = fst (rule (Click Exit_Game) (phase_of w))"
    using menu_frame_clicks [OF run, of 576 800 "Some Exit_Game"] w(2,5) by (auto simp: handler_at_def mode_14c_def)
  then show ?thesis using run w(3) by auto
qed

end
