(* ===== verification/Two_Machines.thy ===== *)
theory Two_Machines
  imports Loop_Runs
begin

text \<open>
  Two machines that are connected by their serial ports, each of them running the program.

  machines is the state of both, with the chars on the wires; in a step one of them handles a notification, as
  on_notify does it. net_of forgets all but the phases and the wires. Every step of the machines is some steps of
  the network of Two_Players (machines_step_net, from the turns of Loop_Rules), so every run is one, and its
  invariants hold of the programs: losing_machine_has_a_winner.
\<close>

text \<open>Bytes and chars.\<close>

definition chr :: "u8 \<Rightarrow> char" where
  "chr b = char_of (unat b)"

lemma of_char_chr [simp]: "(of_char (chr b) :: u8) = b"
proof -
  have "unat b < 256" using unsigned_less [where w = b and 'a = nat] by simp
  then have "(of_char (chr b) :: nat) = unat b" by (simp add: chr_def)
  then have "(of_nat (of_char (chr b)) :: u8) = of_nat (unat b)" by simp
  then show ?thesis by (simp add: of_nat_of_char)
qed

lemma chr_of_char [simp]: "chr (of_char c) = c"
proof -
  have "of_char c < (256 :: nat)" by simp
  then have "unat (of_nat (of_char c) :: u8) = of_char c" by (simp add: unat_of_nat)
  then show ?thesis by (simp add: chr_def of_nat_of_char)
qed

subsection \<open>Turns in the network\<close>

lemma other_other [simp]: "other s \<noteq> s" "s \<noteq> other s" "other (other s) = s"
  by (cases s; simp)+

lemma turn_in_net:
  assumes "turn m x hs cs y" and "\<not> snd m" and "phases n s = fst x" and "inbox n s = map chr hs @ rest"
  shows "net_step (fst m) n (n\<lparr>phases := (phases n)(s := fst y),
    inbox := (inbox n)(s := rest, other s := inbox n (other s) @ cs)\<rparr>)"
  using assms(1)
proof cases
  case (acts a p p' c)
  have "net_step (fst m) n (becomes s (rule a (phases n s)) n)"
    using acts assms(3) by (intro net_step.act) simp_all
  moreover have "becomes s (rule a (phases n s)) n = n\<lparr>phases := (phases n)(s := fst y),
    inbox := (inbox n)(s := rest, other s := inbox n (other s) @ cs)\<rparr>"
    using acts assms(3,4) by (simp add: becomes_def fun_upd_idem)
  ultimately show ?thesis by simp
next
  case (hears c c' p p')
  then obtain b bs where bs: "hs = b # bs" using assms(2) by (cases hs) auto
  have "inbox n s = chr b # map chr bs @ rest" using assms(4) bs by simp
  from net_step.arrive [OF this, of "fst m"] have
    "net_step (fst m) n (becomes s (hear (chr b) (phases n s)) (n\<lparr>inbox := (inbox n)(s := rest)\<rparr>))" .
  moreover have "hear (chr b) (phases n s) = (fst y, cs)" using hears bs assms(3) by (simp add: hear_def)
  ultimately show ?thesis by (simp add: becomes_def)
qed

lemma turns_in_net:
  assumes "turns m x hs cs y" and "\<not> snd m" and "phases n s = fst x"
  shows "inbox n s = map chr hs @ rest \<Longrightarrow>
    (net_step (fst m))\<^sup>*\<^sup>* n (n\<lparr>phases := (phases n)(s := fst y),
      inbox := (inbox n)(s := rest, other s := inbox n (other s) @ cs)\<rparr>)"
  using assms(1,3)
proof (induction arbitrary: rest rule: turns.induct)
  case (none x)
  then have "n\<lparr>phases := (phases n)(s := fst x), inbox := (inbox n)(s := rest, other s := inbox n (other s) @ [])\<rparr> = n"
    by (simp add: fun_upd_idem)
  then show ?case by (simp only: fst_conv rtranclp.rtrancl_refl)
next
  case (more x hs cs y hs' cs' z)
  let ?n = "n\<lparr>phases := (phases n)(s := fst y),
    inbox := (inbox n)(s := map chr hs' @ rest, other s := inbox n (other s) @ cs)\<rparr>"
  have "(net_step (fst m))\<^sup>*\<^sup>* n ?n" by (rule more.IH) (use more.prems in simp_all)
  moreover have "net_step (fst m) ?n (?n\<lparr>phases := (phases ?n)(s := fst z),
      inbox := (inbox ?n)(s := rest, other s := inbox ?n (other s) @ cs')\<rparr>)"
    by (rule turn_in_net [OF more.hyps(2) assms(2)]) simp_all
  moreover have "?n\<lparr>phases := (phases ?n)(s := fst z), inbox := (inbox ?n)(s := rest, other s := inbox ?n (other s) @ cs')\<rparr> =
      n\<lparr>phases := (phases n)(s := fst z), inbox := (inbox n)(s := rest, other s := inbox n (other s) @ cs @ cs')\<rparr>"
    by (simp add: fun_eq_iff)
  ultimately show ?case unfolding append_assoc by (metis rtranclp.rtrancl_into_rtrancl)
qed

subsection \<open>Two machines\<close>

record 'k machine =
  last_char :: u8
  m_world :: world
  m_kernel :: 'k

text \<open>What the machines consist of, besides their state.\<close>

record 'k hardware =
  kern :: "side \<Rightarrow> 'k kernel"
  masks :: "side \<Rightarrow> irq_sets"
  images :: xpm_loader
  spare :: "u8 list"

type_synonym 'k machines = "(side \<Rightarrow> 'k machine) \<times> (side \<Rightarrow> char list)"

text \<open>A machine handles a notification. It reads chars that are on the wire to it, and what it writes gets on the
  wire to the other one. ESC is released only if acts allow it, and an interrupt of the line comes with a char.\<close>

inductive machines_step :: "'k hardware \<Rightarrow> action set \<Rightarrow> 'k machines \<Rightarrow> 'k machines \<Rightarrow> bool" for E acts where
  "ms s = \<lparr>last_char = c, m_world = w, m_kernel = k\<rparr> \<Longrightarrow> running w \<Longrightarrow>
   on_notify (wired (kern E s)) (images E) (memory (spare E)) (masks E s) ints c w (k, [], []) = Some (c', w', k', hs, ss) \<Longrightarrow>
   ws s = map chr hs @ rest \<Longrightarrow>
   Escape \<in> acts \<or> \<not> raised ints (irq_set_kbd (masks E s)) \<or> fst (kbd_ih (kern E s) (kbd_value w) k) \<noteq> 0x81 \<Longrightarrow>
   \<not> (raised ints (irq_set_serie (masks E s)) \<and> c \<noteq> 0) \<or> hs \<noteq> [] \<Longrightarrow>
   machines_step E acts (ms, ws)
     (ms(s := \<lparr>last_char = c', m_world = w', m_kernel = k'\<rparr>), ws(s := rest, other s := ws (other s) @ map chr ss))"

definition net_of :: "'k machines \<Rightarrow> net" where
  "net_of n = \<lparr>phases = (\<lambda>s. phase_of (m_world (fst n s))), inbox = snd n\<rparr>"

definition machines_ready :: "'k machines \<Rightarrow> bool" where
  "machines_ready n \<longleftrightarrow> (\<forall>s. loop_ready (m_world (fst n s)))"

lemma wired_keyboard: "fst (kbd_ih (wired K) v (k, hs, ss)) = fst (kbd_ih K v k)"
  by (simp add: kbd_ih_def read_byte_eq wired_calls split: prod.splits)

lemma machines_step_net:
  assumes "machines_step E acts n n'" and "machines_ready n" and "\<And>s. good_line (kern E s) (waiting s) (spare E)"
    and "- {Escape} \<subseteq> acts"
  shows "(net_step acts)\<^sup>*\<^sup>* (net_of n) (net_of n') \<and> machines_ready n'"
  using assms(1)
proof cases
  case (1 ms s c w k ints c' w' k' hs ss ws rest)
  have ready: "loop_ready w" using assms(2) 1 unfolding machines_ready_def by (metis fst_conv machine.select_convs(2))
  have "\<exists>hs'. advances (acts, False) hs' c w (k, [], []) c' w' (k', hs, ss)"
    by (rule notify_advances [OF assms(3) 1(5) ready 1(4)]) (use 1 assms(4) in \<open>auto simp: wired_keyboard\<close>)
  then obtain cs where a: "loop_ready w'" "ss = map of_char cs" "turns (acts, False) (phase_of w, c) hs cs (phase_of w', c')"
    by (auto simp: advances_def)
  have net: "phases (net_of n) s = fst (phase_of w, c)" "inbox (net_of n) s = map chr hs @ rest"
    using 1 by (simp_all add: net_of_def)
  have "net_of n' = (net_of n)\<lparr>phases := (phases (net_of n))(s := fst (phase_of w', c')),
      inbox := (inbox (net_of n))(s := rest, other s := inbox (net_of n) (other s) @ cs)\<rparr>"
    using 1(1,2) a(2) by (auto simp: net_of_def o_def)
  with turns_in_net [OF a(3) _ net] have "(net_step acts)\<^sup>*\<^sup>* (net_of n) (net_of n')" by simp
  moreover have "machines_ready n'" using assms(2) a(1) 1(1,2) by (auto simp: machines_ready_def)
  ultimately show ?thesis by blast
qed

lemma machines_run_net:
  assumes "(machines_step E acts)\<^sup>*\<^sup>* n n'" and "machines_ready n" and "\<And>s. good_line (kern E s) (waiting s) (spare E)"
    and "- {Escape} \<subseteq> acts"
  shows "(net_step acts)\<^sup>*\<^sup>* (net_of n) (net_of n') \<and> machines_ready n'"
  using assms(1)
proof (induction rule: rtranclp_induct)
  case base
  then show ?case using assms(2) by simp
next
  case (step n1 n2)
  with machines_step_net [OF step.hyps(2) _ assms(3,4)] show ?case by (meson rtranclp_trans)
qed

subsection \<open>Two programs from their start\<close>

definition powered_on :: "'k hardware \<Rightarrow> 'k machines \<Rightarrow> bool" where
  "powered_on E n \<longleftrightarrow> (\<forall>s. snd n s = [] \<and> last_char (fst n s) = 1 \<and> 260 \<le> y_res (screen_mode (m_world (fst n s))) \<and>
     (\<exists>V rnd junk x1 y1 contents1 x2 y2 contents2 argv hooks k.
        length contents1 = 100 \<and> length contents2 = 100 \<and> same_prefix 4 (argv ! 0) ''host'' = (s = Host) \<and>
        proj_start (kern E s) V rnd junk (x1, y1, contents1) (x2, y2, contents2) start_hooks argv start_world k =
          Some (Inr (m_world (fst n s), masks E s, hooks, m_kernel (fst n s)))))"

lemma powered_on_ready:
  assumes "powered_on E n"
  shows "machines_ready n" and "net_of n = net_start"
proof -
  have w: "phase_of (m_world (fst n s)) = first_phase (s = Host) \<and> loop_ready (m_world (fst n s)) \<and> snd n s = []" for s
  proof -
    obtain V rnd junk x1 y1 contents1 x2 y2 contents2 argv hooks k where
      len: "length contents1 = 100" "length contents2 = 100" and h: "same_prefix 4 (argv ! 0) ''host'' = (s = Host)"
      and start: "proj_start (kern E s) V rnd junk (x1, y1, contents1) (x2, y2, contents2) start_hooks argv start_world k =
          Some (Inr (m_world (fst n s), masks E s, hooks, m_kernel (fst n s)))"
      using assms unfolding powered_on_def by metis
    have "snd n s = []" "260 \<le> y_res (screen_mode (m_world (fst n s)))" using assms by (auto simp: powered_on_def)
    then show ?thesis
      using program_begins [OF len, of argv V "kern E s" rnd junk x1 y1 x2 y2 start_hooks k] start h
      by (simp add: begins_def)
  qed
  then show "machines_ready n" by (simp add: machines_ready_def)
  show "net_of n = net_start" using w by (simp add: net_of_def net_start_def first_phase_def fun_eq_iff)
qed

text \<open>C11: two programs play in the network: when a host and a client, started by proj_main_loop's initialisation and
  connected by a line that loses nothing (good_line on either side), handle notifications in any order, what their game
  variables and the line hold is at every moment a state that the network of Two_Players reaches, provided that an
  interrupt of the line comes with a char. The actions of the network are to include all but Escape, which may be left out if the
  keyboards never send it. So what holds in every state that the network reaches by such actions, as loser_has_a_winner says for all
  actions but Escape, holds of the two programs.\<close>

theorem machines_play_in_net:
  assumes "powered_on E n0" and "\<forall>s. good_line (kern E s) (waiting s) (spare E)" and "- {Escape} \<subseteq> acts"
    and "(machines_step E acts)\<^sup>*\<^sup>* n0 n"
  shows "(net_step acts)\<^sup>*\<^sup>* net_start (net_of n)"
  using machines_run_net [OF assms(4) powered_on_ready(1) [OF assms(1)] assms(2) [rule_format] assms(3)]
    powered_on_ready(2) [OF assms(1)] by simp

lemma losing_machine_has_a_winner:
  assumes "powered_on E n0" and "\<forall>s. good_line (kern E s) (waiting s) (spare E)"
    and "(machines_step E (- {Escape}))\<^sup>*\<^sup>* n0 n"
    and "gameState (m_world (fst n s)) = Finish" and "\<not> won (m_world (fst n s))"
  shows "won (m_world (fst n (other s)))"
proof -
  have "(net_step (- {Escape}))\<^sup>*\<^sup>* net_start (net_of n)"
    using machines_run_net [OF assms(3) powered_on_ready(1) [OF assms(1)] assms(2) [rule_format] subset_refl]
      powered_on_ready(2) [OF assms(1)] by simp
  from pair_lost [OF result_reach [OF this]] have "lost (phases (net_of n) s) \<Longrightarrow> p_won (phases (net_of n) (other s))"
    by (cases s) simp_all
  then show ?thesis using assms(4,5) by (simp add: net_of_def phase_of_def lost_def)
qed

definition ready_hardware :: "unit hardware" where
  "ready_hardware = \<lparr>kern = (\<lambda>_. ready_kernel), masks = (\<lambda>_. start_masks), images = repository_images, spare = replicate 100 0\<rparr>"

lemma ready_machine:
  obtains w hooks where "proj_start ready_kernel ready_video (\<lambda>_. 0) (\<lambda>_. blank_cell) ready_queue ready_queue
      start_hooks [name] start_world () = Some (Inr (w, start_masks, hooks, ()))" "260 \<le> y_res (screen_mode w)"
proof -
  have "260 \<le> y_res mode_14c" by (simp add: mode_14c_def)
  with ready_world [of name] show thesis using that by auto
qed

lemma ready_machines: "\<exists>n. powered_on ready_hardware n"
proof -
  let ?start = "\<lambda>name. proj_start ready_kernel ready_video (\<lambda>_. 0) (\<lambda>_. blank_cell) ready_queue ready_queue
      start_hooks [name] start_world ()"
  obtain wh hh where host: "?start ''host'' = Some (Inr (wh, start_masks, hh, ()))" "260 \<le> y_res (screen_mode wh)"
    by (rule ready_machine)
  obtain wc hc where client: "?start ''client'' = Some (Inr (wc, start_masks, hc, ()))" "260 \<le> y_res (screen_mode wc)"
    by (rule ready_machine)
  let ?n = "(\<lambda>s. \<lparr>last_char = 1, m_world = if s = Host then wh else wc, m_kernel = ()\<rparr>, \<lambda>s. [])"
  have len: "length (replicate 100 (0 :: u8)) = 100" by simp
  have "\<exists>V rnd junk x1 y1 contents1 x2 y2 contents2 argv hooks k.
        length contents1 = 100 \<and> length contents2 = 100 \<and> same_prefix 4 (argv ! 0) ''host'' = (s = Host) \<and>
        proj_start ready_kernel V rnd junk (x1, y1, contents1) (x2, y2, contents2) start_hooks argv start_world k =
          Some (Inr (if s = Host then wh else wc, start_masks, hooks, ()))" for s
  proof (cases s)
    case Host
    have "same_prefix 4 ([''host''] ! 0) ''host'' = (s = Host)" by (simp add: Host same_prefix_def)
    with host(1) len show ?thesis unfolding Host simp_thms if_True by blast
  next
    case Client
    have "same_prefix 4 ([''client''] ! 0) ''host'' = (s = Host)" by (simp add: Client same_prefix_def)
    moreover have w: "(if s = Host then wh else wc) = wc" by (simp add: Client)
    ultimately show ?thesis using client(1) len unfolding w by blast
  qed
  then have "powered_on ready_hardware ?n" using host(2) client(2) by (simp add: powered_on_def ready_hardware_def)
  then show ?thesis by blast
qed

theorem machines_play_in_net_witness:
  "\<exists>n0 n. powered_on ready_hardware n0 \<and> machines_step ready_hardware UNIV n0 n \<and>
    (net_step UNIV)\<^sup>*\<^sup>* net_start (net_of n)"
proof -
  obtain ms ws where n0: "powered_on ready_hardware (ms, ws)" using ready_machines by (metis prod.collapse)
  obtain c w k where m: "ms Host = \<lparr>last_char = c, m_world = w, m_kernel = k\<rparr>" by (cases "ms Host") auto
  have w: "running w" "ws Host = []"
    using powered_on_ready [OF n0] m by (auto simp: net_of_def net_start_def phase_of_def fun_eq_iff dest!: spec [of _ Host])
  obtain w' k' hs ss where rtc: "on_rtc (wired ready_kernel) w (k, [], []) = (w', k', hs, ss)" by (metis prod_cases4)
  then have log: "hs = []" "ss = []" by (auto simp: on_rtc_def split: prod.splits dest!: clock_quiet)
  let ?n = "(ms(Host := \<lparr>last_char = c, m_world = w', m_kernel = k'\<rparr>), ws(Host := [], other Host := ws (other Host) @ map chr ss))"
  have "on_notify (wired (kern ready_hardware Host)) (images ready_hardware) (memory (spare ready_hardware))
      (masks ready_hardware Host) (push_bit 8 1) c w (k, [], []) = Some (c, w', k', hs, ss)"
    using one_line(4) [of "wired ready_kernel" repository_images ready_queue c w "(k, [], [])"] rtc
    by (simp add: ready_hardware_def)
  then have step: "machines_step ready_hardware UNIV (ms, ws) ?n"
    using machines_step.intros [where E = ready_hardware and acts = UNIV and ms = ms and ws = ws and s = Host and
        ints = "push_bit 8 1" and rest = "[]" and c = c and w = w and k = k and c' = c and w' = w' and k' = k' and hs = hs and
        ss = ss] m w log
    by (simp add: ready_hardware_def raised_def start_masks_def)
  have "\<forall>s. good_line (kern ready_hardware s) (\<lambda>_. 0) (spare ready_hardware)"
    using ready_line by (simp add: ready_hardware_def)
  moreover have "(machines_step ready_hardware UNIV)\<^sup>*\<^sup>* (ms, ws) ?n" using step by (rule r_into_rtranclp)
  ultimately have "(net_step UNIV)\<^sup>*\<^sup>* net_start (net_of ?n)" using machines_play_in_net [OF n0, of "\<lambda>_ _. 0" UNIV ?n] by blast
  with n0 step show ?thesis by blast
qed

end
