(* ===== verification/Winning_Run.thy ===== *)
theory Winning_Run
  imports Loop_Runs
begin

text \<open>
  A run of the whole program that wins a game: mouse, menu, keyboard and game together, in the interrupt loop.

  input_kernel says what the keyboard controller promises: the bytes that its devices sent wait in order, the
  status register tells the device of the first one, and reading the data port takes it. leads says that
  messages take the loop from one state to another. The lemmas follow the loop through the bytes of the mouse, the frame of the
  menu with the click, the keys and the last frame of the game.
\<close>

subsection \<open>The keyboard controller\<close>

text \<open>The bytes that wait, each with whether it is the mouse's.\<close>

type_synonym input = "(bool \<times> u8) list"

definition input_status :: "input \<Rightarrow> u32" where
  "input_status bs = (case bs of [] \<Rightarrow> 0 | (aux, b) # bs \<Rightarrow> if aux then 0x21 else 0x01)"

definition input_kernel :: "'k kernel \<Rightarrow> ('k \<Rightarrow> input) \<Rightarrow> bool" where
  "input_kernel K pending \<longleftrightarrow>
     (\<forall>k. \<exists>k'. sys_inb K 0x64 k = (0, input_status (pending k), k') \<and> pending k' = pending k) \<and>
     (\<forall>k aux b bs. pending k = (aux, b) # bs \<longrightarrow> (\<exists>k'. sys_inb K 0x60 k = (0, ucast b, k') \<and> pending k' = bs))"

lemma input_reads:
  assumes "input_kernel K pending" and "pending k = (aux, b) # bs"
  obtains k1 k2 where "read_byte K 0x64 k = (0, if aux then 0x21 else 0x01, k1)" and "read_byte K 0x60 k1 = (0, b, k2)"
    and "pending k2 = bs"
proof -
  obtain k1 where k1: "sys_inb K 0x64 k = (0, input_status (pending k), k1)" "pending k1 = (aux, b) # bs"
    using assms unfolding input_kernel_def by metis
  obtain k2 where k2: "sys_inb K 0x60 k1 = (0, ucast b, k2)" "pending k2 = bs"
    using assms(1) k1(2) unfolding input_kernel_def by metis
  have "read_byte K 0x64 k = (0, if aux then 0x21 else 0x01, k1)"
    by (simp add: read_byte_eq k1(1) input_status_def assms(2))
  moreover have "(ucast (ucast b :: u32) :: u8) = b" by (rule bit_word_eqI) (auto simp: bit_simps)
  then have "read_byte K 0x60 k1 = (0, b, k2)" by (simp add: read_byte_eq k2(1) byte_of_u32)
  ultimately show thesis using k2(2) by (rule that)
qed

lemma key_arrives:
  assumes "input_kernel K pending" and "pending k = (False, b) # bs"
  shows "\<exists>k'. kbd_ih K v k = (b, k') \<and> pending k' = bs"
  by (rule input_reads [OF assms]) (simp add: kbd_ih_def)

lemma mouse_arrives:
  assumes "input_kernel K pending" and "pending k = (True, b) # bs"
  shows "\<exists>k'. mouse_ih K m k = (m\<lparr>current_byte := b\<rparr>, k') \<and> pending k' = bs"
  by (rule input_reads [OF assms]) (simp add: mouse_ih_def)

subsection \<open>Messages lead the loop from state to state\<close>

definition leads :: "'k kernel \<Rightarrow> xpm_loader \<Rightarrow> queue_alloc \<Rightarrow> received list \<Rightarrow> world \<Rightarrow> 'k \<Rightarrow> world \<Rightarrow> 'k \<Rightarrow> bool" where
  "leads K L a ms w k w' k' \<longleftrightarrow>
     (\<forall>c ms'. interrupt_loop K L a start_masks (ms @ ms') c w k = interrupt_loop K L a start_masks ms' c w' k')"

lemma leads_nothing [simp]: "leads K L a [] w k w k"
  by (simp add: leads_def)

lemma leads_trans [trans]: "leads K L a ms w k w1 k1 \<Longrightarrow> leads K L a ms' w1 k1 w' k' \<Longrightarrow> leads K L a (ms @ ms') w k w' k'"
  by (simp add: leads_def)

lemmas leads_more = leads_trans [where ms = "[m]" for m, simplified]

lemma leads_notify:
  assumes "running w" and "\<And>c. on_notify K L a start_masks ints c w k = Some (c, w', k')"
  shows "leads K L a [hardware_message ints] w k w' k'"
proof -
  have "ENDPOINT_P (- 1) = Some HARDWARE" "is_ipc_notify 4" by code_simp+
  then show ?thesis using assms
    by (simp add: leads_def interrupt_loop.simps [of _ _ _ _ "_ # _"] hardware_message_def)
qed

lemma leads_waits:
  assumes "leads K L a ms w k w' k'" and "running w'"
  shows "interrupt_loop K L a start_masks ms c w k = Some (Waits c w' k')"
proof -
  have "interrupt_loop K L a start_masks (ms @ []) c w k = interrupt_loop K L a start_masks [] c w' k'"
    using assms(1) unfolding leads_def by blast
  then show ?thesis using assms(2) by (simp add: interrupt_loop.simps [of _ _ _ _ "[]"])
qed

abbreviation key_irq :: received where
  "key_irq \<equiv> hardware_message (push_bit 7 1)"

abbreviation mouse_irq :: received where
  "mouse_irq \<equiv> hardware_message (push_bit 12 1)"

abbreviation timer_irq :: received where
  "timer_irq \<equiv> hardware_message (push_bit 0 1)"

lemma leads_irq:
  "running w \<Longrightarrow> on_kbd K w k = Some (w', k') \<Longrightarrow> leads K L a [key_irq] w k w' k'"
  "running w \<Longrightarrow> on_mouse K w k = Some (w', k') \<Longrightarrow> leads K L a [mouse_irq] w k w' k'"
  "running w \<Longrightarrow> on_timer K L a w k = Some (w', k') \<Longrightarrow> leads K L a [timer_irq] w k w' k'"
  by (rule leads_notify, assumption, simp only: one_line Option.bind.simps prod.case)+

subsection \<open>The keys\<close>

lemma leads_key:
  assumes K: "input_kernel K pending" and w: "running w" "state w = Game" and k: "pending k = (False, b) # bs" "b \<noteq> 0x81"
    and p: "game_keyboard_handler (w_maze w) b (hero w) = Some p"
  shows "\<exists>k'. leads K L a [key_irq] w k (w\<lparr>kbd_value := b, hero := p\<rparr>) k' \<and> pending k' = bs \<and>
    on_kbd K w k = Some (w\<lparr>kbd_value := b, hero := p\<rparr>, k')"
proof -
  obtain k' where k': "kbd_ih K (kbd_value w) k = (b, k')" "pending k' = bs" using key_arrives [OF K k(1)] by blast
  have "on_kbd K w k = Some (w\<lparr>kbd_value := b, hero := p\<rparr>, k')" by (simp add: on_kbd_def k'(1) k(2) w(2) p)
  with leads_irq(1) [OF w(1) this, of L a] k'(2) show ?thesis by (intro exI [of _ k']) simp
qed

lemma leads_keys:
  assumes K: "input_kernel K pending"
  shows "running w \<Longrightarrow> state w = Game \<Longrightarrow> world_ok b w \<Longrightarrow> 0x81 \<notin> set keys \<Longrightarrow> pending k = map (Pair False) keys @ bs \<Longrightarrow>
    for_each (game_keyboard_handler (w_maze w)) keys (hero w) = Some p \<Longrightarrow>
    \<exists>w' k'. leads K L a (replicate (length keys) key_irq) w k w' k' \<and> pending k' = bs \<and> world_ok b w' \<and>
      hero w' = p \<and> w_maze w' = w_maze w \<and> phase_of w' = phase_of w"
proof (induction keys arbitrary: w k)
  case Nil
  then have "leads K L a [] w k w k \<and> pending k = bs \<and> world_ok b w \<and>
      hero w = p \<and> w_maze w = w_maze w \<and> phase_of w = phase_of w" by simp
  then show ?case unfolding list.size(3) replicate.simps(1) by blast
next
  case (Cons c keys)
  then obtain q where q: "game_keyboard_handler (w_maze w) c (hero w) = Some q"
    "for_each (game_keyboard_handler (w_maze w)) keys q = Some p" by (auto elim!: bind_SomeE)
  let ?w = "w\<lparr>kbd_value := c, hero := q\<rparr>"
  obtain k1 where k1: "leads K L a [key_irq] w k ?w k1" "pending k1 = map (Pair False) keys @ bs"
    "on_kbd K w k = Some (?w, k1)"
    using leads_key [OF K Cons.prems(1,2) _ _ q(1), of k "map (Pair False) keys @ bs" L a] Cons.prems(4,5) by auto
  have "world_ok b ?w" using kbd_fine [OF Cons.prems(3), of K k] k1(3) by (simp add: fine_k_def)
  then obtain w' k' where w': "leads K L a (replicate (length keys) key_irq) ?w k1 w' k'" "pending k' = bs" "world_ok b w'"
    "hero w' = p" "w_maze w' = w_maze ?w" "phase_of w' = phase_of ?w"
    using Cons.IH [of ?w k1] Cons.prems(1,2,4) k1(2) q(2) by auto
  have "leads K L a (replicate (length (c # keys)) key_irq) w k w' k'" using leads_more [OF k1(1) w'(1)] by simp
  then show ?case using w'(2-) by (auto simp: phase_of_def)
qed

subsection \<open>The mouse in the menu\<close>

definition menu_byte :: "u8 \<Rightarrow> world \<Rightarrow> world" where
  "menu_byte b w = menu_mouse_handler (w\<lparr>w_mouse := mouse_byte ((w_mouse w)\<lparr>current_byte := b\<rparr>)\<rparr>)"

lemma menu_handler_bound: "menu_mouse_handler w =
    w\<lparr>hero := game_check_bound (screen_mode w)
      ((hero w)\<lparr>x_mouse := x_mouse (hero w) + of_int (sint (delta_x (mouse_packet (w_mouse w)))) * 0.5,
        y_mouse := y_mouse (hero w) - of_int (sint (delta_y (mouse_packet (w_mouse w)))) * 0.5\<rparr>)\<rparr>"
  unfolding menu_mouse_handler_def game_check_bound_def Let_def by simp

lemma check_bound_keeps:
  "pos_x (game_check_bound mi p) = pos_x p \<and> pos_y (game_check_bound mi p) = pos_y p \<and>
    delta (game_check_bound mi p) = delta p \<and> update_delta (game_check_bound mi p) = update_delta p"
  by (simp add: game_check_bound_def Let_def)

text \<open>What a byte of the mouse does not change while the menu is on.\<close>

definition menu_moves :: "world \<Rightarrow> world \<Rightarrow> bool" where
  "menu_moves w w' \<longleftrightarrow> phase_of w' = phase_of w \<and> w_maze w' = w_maze w \<and> screen_mode w' = screen_mode w \<and>
     pos_x (hero w') = pos_x (hero w) \<and> pos_y (hero w') = pos_y (hero w) \<and> delta (hero w') = delta (hero w) \<and>
     update_delta (hero w') = update_delta (hero w)"

lemma menu_byte_moves: "menu_moves w (menu_byte b w)"
  by (simp add: menu_moves_def menu_byte_def menu_handler_bound check_bound_keeps phase_of_def)

lemma menu_bytes_move: "menu_moves w (fold menu_byte cs w)"
proof (induction cs arbitrary: w)
  case (Cons c cs)
  from Cons.IH [of "menu_byte c w"] menu_byte_moves [of w c] show ?case by (simp add: menu_moves_def)
qed (simp add: menu_moves_def)

lemma leads_byte:
  assumes K: "input_kernel K pending" and w: "running w" "state w = Menu" "world_ok b w" "65535 \<le> b"
    and k: "pending k = (True, c) # bs"
  shows "\<exists>k'. leads K L a [mouse_irq] w k (menu_byte c w) k' \<and> pending k' = bs \<and> world_ok (b + 128) (menu_byte c w)"
proof -
  obtain k' where k': "mouse_ih K (w_mouse w) k = ((w_mouse w)\<lparr>current_byte := c\<rparr>, k')" "pending k' = bs"
    using mouse_arrives [OF K k] by blast
  have "mouse_ok (w_mouse w)" using w(3) by (simp add: world_ok_def)
  then have "mouse_interrupt K (w_mouse w) k = Some (mouse_byte ((w_mouse w)\<lparr>current_byte := c\<rparr>), k')"
    using mouse_interrupt_byte [of "w_mouse w" K k] k'(1) by simp
  then have on: "on_mouse K w k = Some (menu_byte c w, k')" using w(2) by (simp add: on_mouse_def menu_byte_def)
  then have "world_ok (b + 128) (menu_byte c w)" using mouse_fine [OF w(3,4), of K k] by (simp add: fine_k_def)
  with leads_irq(2) [OF w(1) on, of L a] k'(2) show ?thesis by (intro exI [of _ k']) simp
qed

lemma leads_bytes:
  assumes K: "input_kernel K pending"
  shows "running w \<Longrightarrow> state w = Menu \<Longrightarrow> world_ok b w \<Longrightarrow> 65535 \<le> b \<Longrightarrow> pending k = map (Pair True) cs @ bs \<Longrightarrow>
    \<exists>k'. leads K L a (replicate (length cs) mouse_irq) w k (fold menu_byte cs w) k' \<and> pending k' = bs \<and>
      world_ok (b + 128 * real (length cs)) (fold menu_byte cs w)"
proof (induction cs arbitrary: w k b)
  case Nil
  then have "leads K L a [] w k w k \<and> pending k = bs \<and> world_ok b w" by simp
  then show ?case by (intro exI [of _ k]) simp
next
  case (Cons c cs)
  let ?w = "menu_byte c w"
  obtain k1 where k1: "leads K L a [mouse_irq] w k ?w k1" "pending k1 = map (Pair True) cs @ bs" "world_ok (b + 128) ?w"
    using leads_byte [OF K Cons.prems(1-4), of k c "map (Pair True) cs @ bs" L a] Cons.prems(5) by auto
  have "running ?w" "state ?w = Menu" using menu_byte_moves [of w c] Cons.prems(1,2) by (simp_all add: menu_moves_def phase_of_def)
  then obtain k' where k': "leads K L a (replicate (length cs) mouse_irq) ?w k1 (fold menu_byte cs ?w) k'" "pending k' = bs"
    "world_ok (b + 128 + 128 * real (length cs)) (fold menu_byte cs ?w)"
    using Cons.IH [of ?w "b + 128" k1] k1(2,3) Cons.prems(4) by auto
  have "b + 128 + 128 * real (length cs) = b + 128 * real (length (c # cs))" by simp
  with k' leads_more [OF k1(1) k'(1)] show ?case by (auto simp: algebra_simps)
qed

text \<open>Right and down with the left button held.\<close>

definition aim_packet :: "u8 list" where
  "aim_packet = [0x29, 0xC8, 0x6A]"

lemma aim_decoded: "sint (delta_x (decode aim_packet)) = 200" "sint (delta_y (decode aim_packet)) = -150" "lb (decode aim_packet)"
  by (simp_all add: aim_packet_def decode_def signed_delta_value)

text \<open>The menu's handler runs at every byte: it moves the cursor by the last whole packet, also at bytes that complete none.\<close>

definition at_cursor :: "real \<Rightarrow> real \<Rightarrow> mouse \<Rightarrow> world \<Rightarrow> bool" where
  "at_cursor x y m w \<longleftrightarrow> x_mouse (hero w) = x \<and> y_mouse (hero w) = y \<and> w_mouse w = m \<and> screen_mode w = mode_14c"

definition clamp :: "real \<Rightarrow> real \<Rightarrow> real" where
  "clamp hi r = max 0 (min r hi)"

lemma menu_byte_cursor:
  assumes "at_cursor x y m w" and "mouse_byte (m\<lparr>current_byte := b\<rparr>) = m'"
  shows "at_cursor (clamp 1152 (x + of_int (sint (delta_x (mouse_packet m'))) / 2))
    (clamp 864 (y - of_int (sint (delta_y (mouse_packet m'))) / 2)) m' (menu_byte b w)"
  using assms by (simp add: at_cursor_def menu_byte_def menu_handler_bound check_bound_clamps clamp_def mode_14c_def)

text \<open>The driver after a packet bs, and what a packet does then.\<close>

definition after_packet :: "u8 list \<Rightarrow> mouse" where
  "after_packet bs = \<lparr>current_byte = bs ! 2, byte_index = 0, mouse_bytes = bs, mouse_packet = decode bs\<rparr>"

definition step_x :: "packet \<Rightarrow> real \<Rightarrow> real" where
  "step_x p x = clamp 1152 (x + of_int (sint (delta_x p)) / 2)"

definition step_y :: "packet \<Rightarrow> real \<Rightarrow> real" where
  "step_y p y = clamp 864 (y - of_int (sint (delta_y p)) / 2)"

lemma packet_moves:
  assumes "at_cursor x y m w" and "byte_index m = 0" and "length (mouse_bytes m) = 3" and "bit b0 3"
  shows "at_cursor (step_x (decode [b0, b1, b2]) (step_x (mouse_packet m) (step_x (mouse_packet m) x)))
    (step_y (decode [b0, b1, b2]) (step_y (mouse_packet m) (step_y (mouse_packet m) y)))
    (after_packet [b0, b1, b2]) (fold menu_byte [b0, b1, b2] w)"
proof -
  obtain c0 c1 c2 where c: "mouse_bytes m = [c0, c1, c2]"
    using assms(3) by (auto simp: numeral_3_eq_3 length_Suc_conv)
  define m1 where "m1 = m\<lparr>current_byte := b0, byte_index := 1, mouse_bytes := [b0, c1, c2]\<rparr>"
  define m2 where "m2 = m\<lparr>current_byte := b1, byte_index := 2, mouse_bytes := [b0, b1, c2]\<rparr>"
  have b: "mouse_byte (m\<lparr>current_byte := b0\<rparr>) = m1" "mouse_byte (m1\<lparr>current_byte := b1\<rparr>) = m2"
    "mouse_byte (m2\<lparr>current_byte := b2\<rparr>) = after_packet [b0, b1, b2]"
    using assms(2,4) by (simp_all add: mouse_byte_def m1_def m2_def c after_packet_def Let_def)
  have p: "mouse_packet m1 = mouse_packet m" "mouse_packet m2 = mouse_packet m"
    "mouse_packet (after_packet [b0, b1, b2]) = decode [b0, b1, b2]"
    by (simp_all add: m1_def m2_def after_packet_def)
  show ?thesis
    using menu_byte_cursor [OF menu_byte_cursor [OF menu_byte_cursor [OF assms(1) b(1)] b(2)] b(3)]
    by (simp add: p step_x_def step_y_def)
qed

text \<open>Two packets bring the cursor from the corner onto the first button.\<close>

lemma aim_twice:
  assumes "at_cursor 0 0 idle_mouse w"
  shows "at_cursor 400 300 (after_packet aim_packet) (fold menu_byte (aim_packet @ aim_packet) w)"
proof -
  note aim = aim_decoded [unfolded aim_packet_def]
  have "at_cursor 100 75 (after_packet [0x29, 0xC8, 0x6A]) (fold menu_byte [0x29, 0xC8, 0x6A] w)"
    using packet_moves [OF assms, of "0x29" "0xC8" "0x6A"]
    by (simp add: idle_mouse_def zero_packet_def step_x_def step_y_def clamp_def aim)
  then have "at_cursor 400 300 (after_packet [0x29, 0xC8, 0x6A]) (fold menu_byte [0x29, 0xC8, 0x6A] (fold menu_byte [0x29, 0xC8, 0x6A] w))"
    using packet_moves [of 100 75 "after_packet [0x29, 0xC8, 0x6A]" "fold menu_byte [0x29, 0xC8, 0x6A] w" "0x29" "0xC8" "0x6A"]
    by (simp add: after_packet_def step_x_def step_y_def clamp_def aim)
  then show ?thesis by (simp add: aim_packet_def)
qed

subsection \<open>The click and the end\<close>

text \<open>A frame of the menu with the left button held on a button whose handler makes no kernel call.\<close>

lemma leads_press:
  assumes w: "running w" "state w = Menu" "world_ok b w" and b: "b \<le> 2147483647"
    and L: "images_ok L" and line: "line_ok K waiting" and len: "length contents = 100"
    and here: "at_cursor (of_int x) (of_int y) m w" and m: "lb (mouse_packet m)"
    and h: "handler_at mode_14c x y = Some h" "\<And>v. call_handler K (b1, b2, contents) (Some h) v k = Some (f v, k)"
  shows "\<exists>v w'. leads K L (b1, b2, contents) [timer_irq] w k w' k \<and> world_ok b w' \<and> draws (f v) w' \<and>
    phase_of v = phase_of w \<and> hero v = hero w \<and> w_maze v = w_maze w"
proof -
  let ?a = "(b1, b2, contents)"
  obtain w' k' where run: "menu_main_loop K L ?a w k = Some (w', k')" and ok: "world_ok b w'"
    using menu_fine [OF w(3) b L line len, of b1 b2 k] by (auto simp: fine_k_def)
  have mode: "screen_mode w = mode_14c" "lb (mouse_packet (w_mouse w))" using here m by (simp_all add: at_cursor_def)
  have "menu_ok w" "260 \<le> y_res (screen_mode w)" using w(3) mode(1) by (simp_all add: world_ok_def mode_14c_def)
  from menu_frame [OF run this] obtain v mx my w2 where
    v: "phase_of v = phase_of w" "hero v = hero w" "w_maze v = w_maze w"
    and xy: "int_of_double (x_mouse (hero w)) = Some mx" "int_of_double (y_mouse (hero w)) = Some my"
    and click: "(if lb (mouse_packet (w_mouse w)) \<and> handler_at (screen_mode w) mx my \<noteq> None
      then call_handler K ?a (handler_at (screen_mode w) mx my) v k else Some (v, k)) = Some (w2, k')"
    and w': "draws w2 w'" .
  have "mx = x" "my = y" using xy here by (auto simp: at_cursor_def int_of_double_def c_int_def split: if_splits)
  then have w2: "w2 = f v" "k' = k" using click mode h by simp_all
  have "on_timer K L ?a w k = Some (w', k)" using run w(2) w2(2) by (simp add: on_timer_def)
  from leads_irq(3) [OF w(1) this] show ?thesis using ok w' v unfolding w2(1) by blast
qed

lemma check_time_draws: "check_time K w k = (w', k') \<Longrightarrow> draws w w'"
  by (auto simp: check_time_def draws_def same_def phase_of_def Let_def split: prod.splits if_splits)

lemma leads_end:
  assumes w: "running w" "state w = Game" "gameState w = Running" "\<not> isMultiplayer w" "world_ok b w" and b: "65535 \<le> b"
    and L: "images_ok L" and K: "line_ok K waiting" "clock_ok K" and len: "length contents = 100"
    and here: "check_game_end (w_maze w) (hero w)"
  shows "\<exists>w' k'. leads K L (b1, b2, contents) [timer_irq] w k w' k' \<and> running w' \<and> won w' \<and> gameState w' = Finish \<and>
    w_maze w' = w_maze w \<and> player_cell (hero w') = player_cell (hero w)"
proof -
  let ?a = "(b1, b2, contents)"
  obtain w' k' where run: "game_main_loop K L ?a w k = Some (w', k')"
    using game_fine [OF w(5) b L K len, of b1 b2 k] by (auto simp: fine_k_def)
  obtain v k1 where v: "check_time K w k = (v, k1)" by fastforce
  have dv: "draws w v" by (rule check_time_draws [OF v])
  then have phase: "phase_of v = phase_of w" by (simp add: draws_def same_def)
  then have "running_frame K L ?a v k1 = Some (w', k')"
    using run v w(3) by (simp add: game_main_loop_def phase_of_def)
  then obtain w1 w2 where w1: "draws (v\<lparr>hero := game_check_bound (screen_mode v) (hero v)\<rparr>) w1"
    and ended: "(if check_game_end (w_maze w1) (hero w1)
          then (let w = w1\<lparr>gameState := Finish, won := True\<rparr> in
                if isMultiplayer w then send_char K ?a CHR ''L'' w k1 else Some (w, k1))
          else Some (w1, k1)) = Some (w2, k')"
    and w': "draws w2 w'" by (rule running_frame_parts)
  have h: "hero w1 = game_check_bound (screen_mode v) (hero w)" "w_maze w1 = w_maze w" "phase_of w1 = phase_of w"
    using w1 dv phase by (simp_all add: draws_def same_def phase_of_def)
  then have "check_game_end (w_maze w1) (hero w1)" "\<not> isMultiplayer w1"
    using here w(4) by (simp_all add: check_game_end_def check_bound_keeps phase_of_def)
  then have w2: "w2 = w1\<lparr>gameState := Finish, won := True\<rparr>" using ended by (simp add: Let_def)
  have "on_timer K L ?a w k = Some (w', k')" using run w(2) by (simp add: on_timer_def)
  from leads_irq(3) [OF w(1) this] show ?thesis
    using w' h w(1) unfolding w2
    by (auto simp: draws_def same_def phase_of_def player_cell_def check_bound_keeps intro!: exI [of _ w'] exI [of _ k'])
qed

subsection \<open>The whole run\<close>

text \<open>The messages: two packets of the mouse, a frame, keys, a frame.\<close>

definition winning_messages :: "nat \<Rightarrow> received list" where
  "winning_messages n = replicate 6 mouse_irq @ [timer_irq] @ replicate n key_irq @ [timer_irq]"

lemma walk_keys_no_escape: "set keys \<subseteq> walk_keys \<Longrightarrow> 0x81 \<notin> set keys"
  by (auto simp: walk_keys_def)

lemma menu_to_win:
  assumes K: "input_kernel K pending" "line_ok K waiting" "clock_ok K" and L: "images_ok L" and len: "length contents = 100"
    and w: "world_ok 65535 w" "phase_of w = first_phase h" "screen_mode w = mode_14c" "hero w = start_player" "w_mouse w = idle_mouse"
  obtains keys where "set keys \<subseteq> walk_keys"
    and "\<forall>k. pending k = map (Pair True) (aim_packet @ aim_packet) @ map (Pair False) keys \<longrightarrow>
      (\<exists>w' k'. leads K L (b1, b2, contents) (winning_messages (length keys)) w k w' k' \<and> running w' \<and> won w' \<and>
        gameState w' = Finish \<and> w_maze w' = w_maze w \<and>
        player_cell (hero w') = (m_height (w_maze w) - 1, m_width (w_maze w) - 1))"
proof -
  let ?a = "(b1, b2, contents)" and ?cs = "aim_packet @ aim_packet"
  define v where "v = fold menu_byte ?cs w"
  have v: "menu_moves w v" unfolding v_def by (rule menu_bytes_move)
  have run: "running w" "state w = Menu" "running v" "state v = Menu"
    using v w(2) by (simp_all add: menu_moves_def phase_of_def first_phase_def)
  have "at_cursor 0 0 idle_mouse w" using w by (simp add: at_cursor_def start_player_def)
  from aim_twice [OF this] have here: "at_cursor 400 300 (after_packet aim_packet) v" by (simp add: v_def)
  have "generated (w_maze v)" "stands_at (hero v) 50 50"
    using v w(1,4) by (simp_all add: world_ok_def menu_moves_def stands_at_def start_player_def)
  then obtain keys p where keys: "set keys \<subseteq> walk_keys"
    and p: "for_each (game_keyboard_handler (w_maze v)) keys (hero v) = Some p" "check_game_end (w_maze v) p"
      "player_cell p = (m_height (w_maze v) - 1, m_width (w_maze v) - 1)"
    by (rule reach_exit)
  have win: "\<exists>w' k'. leads K L ?a (winning_messages (length keys)) w k w' k' \<and> running w' \<and> won w' \<and> gameState w' = Finish \<and>
      w_maze w' = w_maze w \<and> player_cell (hero w') = (m_height (w_maze w) - 1, m_width (w_maze w) - 1)"
    if k: "pending k = map (Pair True) ?cs @ map (Pair False) keys" for k
  proof -
    have n: "length ?cs = 6" by (simp add: aim_packet_def)
    have "\<exists>k1. leads K L ?a (replicate 6 mouse_irq) w k v k1 \<and> pending k1 = map (Pair False) keys \<and>
        world_ok (65535 + 128 * real 6) v"
      using leads_bytes [OF K(1) run(1,2) w(1) order_refl k, of L ?a] unfolding n v_def .
    then obtain k1 where k1: "leads K L ?a (replicate 6 mouse_irq) w k v k1" "pending k1 = map (Pair False) keys @ []" "world_ok 66303 v"
      by auto
    have "handler_at mode_14c 400 300 = Some Single_Player" by (simp add: handler_at_def mode_14c_def)
    then obtain u w2 where "leads K L ?a [timer_irq] v k1 w2 k1" "world_ok 66303 w2" "draws (single_player u) w2"
      "phase_of u = phase_of v" "hero u = hero v" "w_maze u = w_maze v"
      using leads_press [OF run(3,4) k1(3) _ L K(2) len, of 400 300 "after_packet aim_packet" Single_Player b1 b2 k1 single_player]
        here aim_decoded(3) by (auto simp: after_packet_def)
    then have w2: "leads K L ?a [timer_irq] v k1 w2 k1" "world_ok 66303 w2" "hero w2 = hero v" "w_maze w2 = w_maze v"
      "phase_of w2 = (phase_of v)\<lparr>p_state := Game, p_multi := False, p_game := Running\<rparr>"
      by (simp_all add: draws_def same_def single_player_def phase_of_def)
    have r2: "running w2" "state w2 = Game" "\<not> isMultiplayer w2" "gameState w2 = Running"
      using w2(5) run(3) by (simp_all add: phase_of_def)
    obtain w3 k3 where w3: "leads K L ?a (replicate (length keys) key_irq) w2 k1 w3 k3" "world_ok 66303 w3" "hero w3 = p"
      "w_maze w3 = w_maze v" "phase_of w3 = phase_of w2"
      using leads_keys [OF K(1) r2(1,2) w2(2) walk_keys_no_escape [OF keys] k1(2), of p L ?a] w2(3,4) p(1) by auto
    have r3: "running w3" "state w3 = Game" "gameState w3 = Running" "\<not> isMultiplayer w3"
      using w3(5) r2 by (simp_all add: phase_of_def)
    obtain w' k' where w': "leads K L ?a [timer_irq] w3 k3 w' k'" "running w'" "won w'" "gameState w' = Finish"
      "w_maze w' = w_maze w3" "player_cell (hero w') = player_cell (hero w3)"
      using leads_end [OF r3 w3(2) _ L K(2,3) len, of b1 b2 k3] p(2) w3(3,4) by auto
    have "leads K L ?a (winning_messages (length keys)) w k w' k'"
      unfolding winning_messages_def by (intro leads_trans [OF k1(1)] leads_trans [OF w2(1)] leads_trans [OF w3(1)] w'(1))
    moreover have "w_maze v = w_maze w" using v by (simp add: menu_moves_def)
    ultimately show ?thesis using w' w3(3,4) p(3) by auto
  qed
  then have "\<forall>k. pending k = map (Pair True) ?cs @ map (Pair False) keys \<longrightarrow>
      (\<exists>w' k'. leads K L ?a (winning_messages (length keys)) w k w' k' \<and> running w' \<and> won w' \<and> gameState w' = Finish \<and>
      w_maze w' = w_maze w \<and> player_cell (hero w') = (m_height (w_maze w) - 1, m_width (w_maze w) - 1))" by blast
  with keys show thesis by (rule that)
qed

subsection \<open>Properties\<close>

text \<open>C5: the whole program can be won, whatever maze it generates: after its start there are keys such that, when the mouse
  sends two packets with its left button down and the keyboard sends these keys, the interrupts of these bytes and two frames, one
  after the mouse and one after the keys, take the interrupt loop from the menu through the game to a world
  in which the player has won and stands in the last cell.\<close>

theorem program_can_be_won:
  assumes "input_kernel K pending" and "line_ok K waiting" and "clock_ok K" and "loads_xpm L" and "video_calls_ok V"
    and "\<forall>k. fst (snd (vbe_get_mode_info V 0x14C k)) = mode_14c"
    and "length contents = 100" "length contents1 = 100" "length contents2 = 100"
    and "proj_start K V rnd junk (x1, y1, contents1) (x2, y2, contents2) start_hooks argv start_world k0 =
      Some (Inr (w, irqs, hooks, k1))"
  shows "\<exists>keys. set keys \<subseteq> {0x11, 0x1e, 0x1f, 0x20} \<and>
    (\<forall>k. pending k = map (Pair True) (aim_packet @ aim_packet) @ map (Pair False) keys \<longrightarrow>
      (\<exists>w' k'. interrupt_loop K L (b1, b2, contents) irqs (winning_messages (length keys)) 1 w k = Some (Waits 1 w' k') \<and>
        won w' \<and> gameState w' = Finish \<and>
        player_cell (hero w') = (m_height (w_maze w') - 1, m_width (w_maze w') - 1)))"
proof -
  have 1: "world_ok 65535 w" "irqs = start_masks"
    using start_fine [OF assms(5) start_world_ok assms(8,9), of start_hooks K rnd junk x1 y1 x2 y2 argv k0] assms(10)
    by (simp_all add: started_def)
  obtain k e k' where "vbe_get_mode_info V 0x14C k = (e, screen_mode w, k')" and
    2: "phase_of w = first_phase (same_prefix 4 (argv ! 0) ''host'')" "hero w = start_player" "w_mouse w = idle_mouse"
    using program_begins [OF assms(8,9), of argv V K rnd junk x1 y1 x2 y2 start_hooks k0] assms(10) by (auto simp: begins_def)
  with assms(6) have 3: "screen_mode w = mode_14c" by (metis fst_conv snd_conv)
  obtain keys where keys: "set keys \<subseteq> walk_keys"
    and win: "\<forall>k. pending k = map (Pair True) (aim_packet @ aim_packet) @ map (Pair False) keys \<longrightarrow>
      (\<exists>w' k'. leads K L (b1, b2, contents) (winning_messages (length keys)) w k w' k' \<and> running w' \<and> won w' \<and>
        gameState w' = Finish \<and> w_maze w' = w_maze w \<and>
        player_cell (hero w') = (m_height (w_maze w) - 1, m_width (w_maze w) - 1))"
    by (rule menu_to_win [OF assms(1-3) loaded_images_ok [OF assms(4)] assms(7) 1(1) 2(1) 3 2(2,3)])
  have wait: "interrupt_loop K L (b1, b2, contents) irqs ms 1 w k = Some (Waits 1 w' k')"
    if "leads K L (b1, b2, contents) ms w k w' k'" "running w'" for ms k w' k'
    using leads_waits [OF that] 1(2) by simp
  show ?thesis
  proof (intro exI [of _ keys] conjI allI impI)
    show "set keys \<subseteq> {0x11, 0x1e, 0x1f, 0x20}" using keys by (auto simp: walk_keys_def)
    fix k
    assume "pending k = map (Pair True) (aim_packet @ aim_packet) @ map (Pair False) keys"
    with win obtain w' k' where "leads K L (b1, b2, contents) (winning_messages (length keys)) w k w' k'" "running w'" "won w'"
      "gameState w' = Finish" "w_maze w' = w_maze w" "player_cell (hero w') = (m_height (w_maze w) - 1, m_width (w_maze w) - 1)"
      by blast
    then show "\<exists>w' k'. interrupt_loop K L (b1, b2, contents) irqs (winning_messages (length keys)) 1 w k = Some (Waits 1 w' k') \<and>
        won w' \<and> gameState w' = Finish \<and>
        player_cell (hero w') = (m_height (w_maze w') - 1, m_width (w_maze w') - 1)"
      using wait by (intro exI [of _ w'] exI [of _ k']) simp
  qed
qed

text \<open>A machine whose kernel state is what the devices have sent.\<close>

definition script_kernel :: "input kernel" where
  "script_kernel = \<lparr>sys_inb = (\<lambda>port bs. if port = 0x64 then (0, input_status bs, bs)
       else if port = 0x60 then (case bs of [] \<Rightarrow> (0, 0xFA, []) | (aux, b) # bs \<Rightarrow> (0, ucast b, bs))
       else (0, if port = 0x3fd then 0x20 else 0, bs)),
     sys_outb = (\<lambda>port w k. (0, k)), sys_irqsetpolicy = (\<lambda>irq flags hook k. (0, hook, k)),
     sys_irqrmpolicy = (\<lambda>hook k. (0, k)), sys_irqdisable = (\<lambda>hook k. (0, k)), tickdelay_micros = (\<lambda>n k. k)\<rparr>"

lemma script_ok: "input_kernel script_kernel id" "line_ok script_kernel (\<lambda>_. 0)" "clock_ok script_kernel"
  by (auto simp: input_kernel_def line_ok_def clock_ok_def script_kernel_def)

lemma script_ready: "ready_at script_kernel bs"
  by (simp add: ready_at_def script_kernel_def)

text \<open>The first byte is the mouse's acknowledgement of the command that starts its reports.\<close>

lemma script_send: "mouse_send_command script_kernel 0xF4 ((True, 0xFA) # bs) = (0, bs)"
  by (simp add: mouse_send_command_def mouse_attempts.simps mouse_attempt_def kbc_send_command_def read_byte_eq
      script_kernel_def input_status_def)

lemmas script_start = ready_start_at [OF script_ready script_send script_ready]

lemma ready_video_ok: "video_calls_ok ready_video" "\<forall>k. fst (snd (vbe_get_mode_info ready_video 0x14C k)) = mode_14c"
  by (auto simp: video_calls_ok_def ready_video_def zeros_def mode_fine_def mode_14c_def bytes_per_pixel_def INT_MAX_def)

theorem program_can_be_won_witness:
  "\<exists>w irqs hooks keys w' k'.
    proj_start script_kernel ready_video (\<lambda>k. k) (\<lambda>_. blank_cell) ready_queue ready_queue start_hooks [''host''] start_world
      [(True, 0xFA)] = Some (Inr (w, irqs, hooks, [])) \<and>
    interrupt_loop script_kernel repository_images ready_queue irqs (winning_messages (length keys)) 1 w
      (map (Pair True) (aim_packet @ aim_packet) @ map (Pair False) keys) = Some (Waits 1 w' k') \<and> won w'"
proof -
  obtain w irqs hooks where r: "proj_start script_kernel ready_video (\<lambda>k. k) (\<lambda>_. blank_cell) ready_queue ready_queue
      start_hooks [''host''] start_world [(True, 0xFA)] = Some (Inr (w, irqs, hooks, []))"
    using script_start [of "\<lambda>k. k" "\<lambda>_. blank_cell" "''host''"] by blast
  have len: "length (replicate 100 (0 :: u8)) = 100" by simp
  obtain keys where "\<forall>k. id k = map (Pair True) (aim_packet @ aim_packet) @ map (Pair False) keys \<longrightarrow>
      (\<exists>w' k'. interrupt_loop script_kernel repository_images ready_queue irqs (winning_messages (length keys)) 1 w k =
        Some (Waits 1 w' k') \<and> won w' \<and> gameState w' = Finish \<and>
        player_cell (hero w') = (m_height (w_maze w') - 1, m_width (w_maze w') - 1))"
    using program_can_be_won [OF script_ok repository_loads ready_video_ok len len len r, of True True] by blast
  then obtain w' k' where "interrupt_loop script_kernel repository_images ready_queue irqs (winning_messages (length keys)) 1 w
      (map (Pair True) (aim_packet @ aim_packet) @ map (Pair False) keys) = Some (Waits 1 w' k')" "won w'"
    by (metis id_apply)
  with r show ?thesis by blast
qed

end
