(* ===== verification/Leaving_Run.thy ===== *)
theory Leaving_Run
  imports Winning_Run
begin

text \<open>
  The program can always be left: one fixed script of keyboard and mouse bytes ends it from every state that a run of its
  loop can reach. Escape leads to the menu; two bytes bring the mouse driver to the start of a packet, five
  packets drive the cursor into the upper left corner, three more onto the button Exit; the next frame calls its handler.
\<close>

subsection \<open>The mode of the screen\<close>

definition same_menu :: "world \<Rightarrow> world \<Rightarrow> bool" where
  "same_menu w w' \<longleftrightarrow> screen_mode w' = screen_mode w \<and> buttons w' = buttons w \<and> button_count w' = button_count w"

lemma same_menu_ok: "same_menu w w' \<Longrightarrow> menu_ok w \<Longrightarrow> menu_ok w'"
  by (simp add: same_menu_def menu_ok_def menu_ready_def)

lemma input_mode:
  "on_kbd K w k = Some (w', k') \<Longrightarrow> same_menu w w'"
  "on_mouse K w k = Some (w', k') \<Longrightarrow> same_menu w w'"
  by (auto simp: on_kbd_def on_mouse_def same_menu_def game_reset_def menu_handler_bound Let_def
      split: prod.splits if_splits Option.bind_splits)

lemma send_char_mode: "send_char K a c w k = Some (w', k') \<Longrightarrow> screen_mode w' = screen_mode w"
  by (auto dest!: send_char_frame)

lemma draws_mode: "draws w w' \<Longrightarrow> screen_mode w' = screen_mode w"
  by (simp add: draws_def same_def)

lemma game_mode:
  assumes "game_main_loop K L a w k = Some (w', k')"
  shows "screen_mode w' = screen_mode w"
proof -
  obtain v l where v: "check_time K w k = (v, l)" by fastforce
  have vw: "screen_mode v = screen_mode w" by (rule draws_mode [OF check_time_draws [OF v]])
  show ?thesis
  proof (cases "gameState v")
    case Waiting
    then have "waiting_frame L v = Some w'" using assms v by (auto simp: game_main_loop_def split: Option.bind_splits)
    then show ?thesis using draws_mode [OF staysD [OF stays_waiting]] vw by simp
  next
    case Running
    then have "running_frame K L a v l = Some (w', k')" using assms v by (simp add: game_main_loop_def)
    then obtain w1 w2 where w1: "draws (v\<lparr>hero := game_check_bound (screen_mode v) (hero v)\<rparr>) w1"
      and ended: "(if check_game_end (w_maze w1) (hero w1)
          then (let w = w1\<lparr>gameState := Finish, won := True\<rparr> in
                if isMultiplayer w then send_char K a CHR ''L'' w l else Some (w, l))
          else Some (w1, l)) = Some (w2, k')"
      and w': "draws w2 w'" by (rule running_frame_parts)
    have "screen_mode w2 = screen_mode w1"
      using ended by (auto simp: Let_def split: if_splits dest: send_char_mode)
    then show ?thesis using draws_mode [OF w1] draws_mode [OF w'] vw by simp
  next
    case Finish
    then have "finish_frame L v = Some w'" using assms v by (auto simp: game_main_loop_def split: Option.bind_splits)
    then show ?thesis using draws_mode [OF staysD [OF stays_finish]] vw by simp
  qed
qed

lemma menu_mode:
  assumes "menu_main_loop K L a w k = Some (w', k')" and "menu_ok w" and "screen_mode w = mode_14c"
  shows "screen_mode w' = mode_14c"
proof -
  have "260 \<le> y_res (screen_mode w)" by (simp add: assms(3) mode_14c_def)
  from menu_frame [OF assms(1,2) this] obtain w1 mx my w2 where w1: "screen_mode w1 = screen_mode w"
    and click: "(if lb (mouse_packet (w_mouse w)) \<and> handler_at (screen_mode w) mx my \<noteq> None
      then call_handler K a (handler_at (screen_mode w) mx my) w1 k else Some (w1, k)) = Some (w2, k')"
    and w': "draws w2 w'" .
  have "screen_mode w2 = screen_mode w1"
    using click call_handler_frame [of K a _ w1 k w2 k'] by (auto split: if_splits)
  then show ?thesis using w1 draws_mode [OF w'] assms(3) by simp
qed

lemma timer_mode:
  assumes "on_timer K L a w k = Some (w', k')" and "menu_ok w" and "screen_mode w = mode_14c"
  shows "screen_mode w' = mode_14c"
  using assms game_mode [of K L a w k w' k'] menu_mode [of K L a w k w' k']
  by (cases "state w") (auto simp: on_timer_def dest!: draws_mode [OF staysD [OF stays_info]] split: Option.bind_splits)

lemma char_mode: "on_char K a c w k = Some (w', k') \<Longrightarrow> screen_mode w' = screen_mode w"
  by (auto simp: on_char_def game_activate_multiplayer_def game_lose_def Let_def
      split: if_splits Option.bind_splits dest!: send_char_mode)

lemma serial_mode: "on_serial K a c w k = Some (c', w', k') \<Longrightarrow> screen_mode w' = screen_mode w"
  by (auto simp: on_serial_def split: Option.bind_splits dest!: char_mode)

lemma notify_mode:
  assumes run: "on_notify K L a irqs ints c w k = Some (c', w', k')" and ok: "menu_ok w" "screen_mode w = mode_14c"
  shows "screen_mode w' = mode_14c"
proof -
  obtain w1 k1 where 1: "(if raised ints (irq_set_kbd irqs) then on_kbd K w k else Some (w, k)) = Some (w1, k1)"
    using run by (auto simp: on_notify_def elim!: bind_SomeE)
  obtain w2 k2 where 2: "(if raised ints (irq_set_mouse irqs) then on_mouse K w1 k1 else Some (w1, k1)) = Some (w2, k2)"
    using run by (auto simp: on_notify_def 1 elim!: bind_SomeE)
  obtain w3 k3 where 3: "(if raised ints (irq_set_timer irqs) then on_timer K L a w2 k2 else Some (w2, k2)) = Some (w3, k3)"
    using run by (auto simp: on_notify_def 1 2 elim!: bind_SomeE)
  obtain w4 k4 where 4: "(if raised ints (irq_set_rtc irqs) then on_rtc K w3 k3 else (w3, k3)) = (w4, k4)"
    by (metis prod.collapse)
  have 5: "(if raised ints (irq_set_serie irqs) \<and> c \<noteq> 0 then on_serial K a c w4 k4 else Some (c, w4, k4)) = Some (c', w', k')"
    using run by (simp add: on_notify_def 1 2 3 4)
  have "same_menu w w1" using 1 input_mode(1) [of K w k w1 k1] by (auto simp: same_menu_def split: if_splits)
  moreover have "same_menu w1 w2" using 2 input_mode(2) [of K w1 k1 w2 k2] by (auto simp: same_menu_def split: if_splits)
  ultimately have same: "same_menu w w2" by (simp add: same_menu_def)
  have "menu_ok w2" "screen_mode w2 = mode_14c"
    using same_menu_ok [OF same ok(1)] same ok(2) by (simp_all add: same_menu_def)
  then have "screen_mode w3 = mode_14c" using 3 timer_mode [of K L a w2 k2 w3 k3] by (auto split: if_splits)
  then have "screen_mode w4 = mode_14c" using 4 by (auto simp: on_rtc_def split: if_splits prod.splits)
  then show ?thesis using 5 serial_mode [of K a c w4 k4 c' w' k'] by (auto split: if_splits)
qed

text \<open>The loop keeps the mode; and it goes on where it waited when more messages come.\<close>

lemma loop_waits_mode:
  assumes L: "images_ok L" and K: "line_ok K waiting" "clock_ok K" and len: "length contents = 100"
  shows "interrupt_loop K L (b1, b2, contents) irqs msgs c w k = Some (Waits c' w' k') \<Longrightarrow> world_ok b w \<Longrightarrow> 65535 \<le> b \<Longrightarrow>
    b + 128 * real (length msgs) \<le> 2147483647 \<Longrightarrow> screen_mode w = mode_14c \<Longrightarrow>
    world_ok (b + 128 * real (length msgs)) w' \<and> screen_mode w' = mode_14c \<and> running w' \<and>
    (\<forall>ms. interrupt_loop K L (b1, b2, contents) irqs (msgs @ ms) c w k = interrupt_loop K L (b1, b2, contents) irqs ms c' w' k')"
proof (induction msgs arbitrary: b c w k)
  case Nil
  then show ?case by (simp add: interrupt_loop.simps [of _ _ _ _ "[]"] split: if_splits)
next
  case (Cons m msgs)
  have len': "b + 128 * real (length (m # msgs)) = (b + 128) + 128 * real (length msgs)" by simp
  have run: "running w" "receiver m = 0"
    using Cons.prems(1) by (simp_all add: interrupt_loop.simps [of _ _ _ _ "m # msgs"] split: if_splits)
  note loop = interrupt_loop.simps [of _ _ _ _ "m # ms" for ms]
  show ?case
  proof (cases "is_ipc_notify (ipc_status m) \<and> ENDPOINT_P (m_source m) = Some HARDWARE")
    case True
    then obtain c1 w1 k1 where n: "on_notify K L (b1, b2, contents) irqs (interrupts m) c w k = Some (c1, w1, k1)"
      "interrupt_loop K L (b1, b2, contents) irqs msgs c1 w1 k1 = Some (Waits c' w' k')"
      using Cons.prems(1) run by (auto simp: loop elim!: bind_SomeE)
    have b: "b + 128 \<le> 2147483647" "65535 \<le> b + 128" using Cons.prems(3,4) by (simp_all add: len')
    have "world_ok (b + 128) w1"
      using notify_fine [OF Cons.prems(2,3) b(1) L K len, of b1 b2 irqs "interrupts m" c k] n(1) by auto
    moreover have "menu_ok w" using Cons.prems(2) by (simp add: world_ok_def)
    then have "screen_mode w1 = mode_14c" using notify_mode [OF n(1)] Cons.prems(5) by simp
    ultimately show ?thesis
      using Cons.IH [OF n(2), of "b + 128"] b(2) Cons.prems(4) n(1) True run unfolding len' by (simp add: loop)
  next
    case False
    have skip: "interrupt_loop K L (b1, b2, contents) irqs (m # ms) c w k = interrupt_loop K L (b1, b2, contents) irqs ms c w k" for ms
      using Cons.prems(1) run False by (auto simp: loop elim!: bind_SomeE)
    have more: "world_ok (b + 128) w" "65535 \<le> b + 128" using world_more [OF Cons.prems(2)] Cons.prems(3) by simp_all
    show ?thesis
      using Cons.IH [of c w k "b + 128"] more Cons.prems(1,4,5) unfolding len' by (simp add: skip)
  qed
qed

subsection \<open>The script\<close>

definition corner_packet :: "u8 list" where
  "corner_packet = [0x18, 0x01, 0xFF]"

definition exit_packet :: "u8 list" where
  "exit_packet = [0x29, 0x8C, 0x18]"

definition leave_bytes :: "u8 list" where
  "leave_bytes = [0, 0] @ concat (replicate 5 corner_packet) @ concat (replicate 3 exit_packet)"

definition leave_input :: input where
  "leave_input = (False, 0x81) # map (Pair True) leave_bytes"

definition leave_messages :: "received list" where
  "leave_messages = [key_irq] @ replicate 26 mouse_irq @ [timer_irq]"

lemma leave_packets: "sint (delta_x (decode corner_packet)) = -255" "sint (delta_y (decode corner_packet)) = 255"
  "sint (delta_x (decode exit_packet)) = 140" "sint (delta_y (decode exit_packet)) = -232" "lb (decode exit_packet)"
  by (simp_all add: corner_packet_def exit_packet_def decode_def signed_delta_value)

text \<open>The first byte of a packet has bit 3 set, a zero has not: two zeros end in byte 0 of the driver's packet.\<close>

lemma two_zeros:
  assumes "mouse_ok m" and "m1 = mouse_byte (m\<lparr>current_byte := 0\<rparr>)" and "m2 = mouse_byte (m1\<lparr>current_byte := 0\<rparr>)"
  shows "byte_index m2 = 0 \<and> length (mouse_bytes m2) = 3"
  using assms(1) unfolding assms(2,3) by (auto simp: mouse_ok_def mouse_byte_def Let_def)

definition in_box :: "real \<Rightarrow> real \<Rightarrow> real \<Rightarrow> real \<Rightarrow> bool" where
  "in_box x y hx hy \<longleftrightarrow> 0 \<le> x \<and> x \<le> hx \<and> 0 \<le> y \<and> y \<le> hy"

lemma clamp_in_box: "in_box (clamp 1152 x) (clamp 864 y) 1152 864"
  by (simp add: in_box_def clamp_def)

lemma sync_moves:
  assumes "mouse_ok (w_mouse w)" and "screen_mode w = mode_14c"
  shows "\<exists>x y m. at_cursor x y m (fold menu_byte [0, 0] w) \<and> byte_index m = 0 \<and> length (mouse_bytes m) = 3"
proof -
  have "at_cursor (x_mouse (hero w)) (y_mouse (hero w)) (w_mouse w) w" by (simp add: at_cursor_def assms(2))
  from menu_byte_cursor [OF menu_byte_cursor [OF this refl] refl] show ?thesis
    using two_zeros [OF assms(1) refl refl] by (simp, blast)
qed

lemma corner_first:
  assumes "at_cursor x y m w" and "byte_index m = 0" and "length (mouse_bytes m) = 3"
  shows "\<exists>x y. at_cursor x y (after_packet corner_packet) (fold menu_byte corner_packet w) \<and> in_box x y 1152 864"
proof -
  have "bit (0x18 :: u8) 3" by simp
  from packet_moves [OF assms this, of "0x01" "0xFF"] show ?thesis
    unfolding corner_packet_def [symmetric] step_x_def step_y_def using clamp_in_box by blast
qed

lemma corner_step:
  assumes "in_box x y hx hy"
  shows "in_box (step_x (decode corner_packet) x) (step_y (decode corner_packet) y) (max 0 (hx - 127.5)) (max 0 (hy - 127.5))"
  using assms by (auto simp: in_box_def step_x_def step_y_def clamp_def leave_packets)

lemma max_steps: "max 0 (max 0 (h - 382.5) - 382.5 * real n) \<le> max 0 (h - 382.5 * real (Suc n))"
proof -
  have e: "382.5 * real (Suc n) = 382.5 * real n + 382.5" by (simp add: field_simps)
  have "max 0 (max 0 (h - d) - c) \<le> max 0 (h - (c + d))" if "0 \<le> c" for c d :: real
    using that by auto
  then show ?thesis unfolding e by simp
qed

lemma corner_packets:
  "at_cursor x y (after_packet corner_packet) w \<Longrightarrow> in_box x y hx hy \<Longrightarrow>
    \<exists>x y. at_cursor x y (after_packet corner_packet) (fold menu_byte (concat (replicate n corner_packet)) w) \<and>
      in_box x y (max 0 (hx - 382.5 * real n)) (max 0 (hy - 382.5 * real n))"
proof (induction n arbitrary: x y w hx hy)
  case 0
  then show ?case by (auto simp: in_box_def)
next
  case (Suc n)
  let ?p = "decode corner_packet"
  have bit: "bit (0x18 :: u8) 3" by simp
  have "at_cursor (step_x ?p (step_x ?p (step_x ?p x))) (step_y ?p (step_y ?p (step_y ?p y)))
      (after_packet corner_packet) (fold menu_byte corner_packet w)"
    using packet_moves [OF Suc.prems(1) _ _ bit, of "0x01" "0xFF"]
    unfolding corner_packet_def [symmetric] by (simp add: after_packet_def, simp add: corner_packet_def)
  moreover have "in_box (step_x ?p (step_x ?p (step_x ?p x))) (step_y ?p (step_y ?p (step_y ?p y)))
      (max 0 (hx - 382.5)) (max 0 (hy - 382.5))"
    using corner_step [OF corner_step [OF corner_step [OF Suc.prems(2)]]] by (auto simp: in_box_def)
  ultimately obtain x' y' where here: "at_cursor x' y' (after_packet corner_packet)
      (fold menu_byte (concat (replicate n corner_packet)) (fold menu_byte corner_packet w))"
    "in_box x' y' (max 0 (max 0 (hx - 382.5) - 382.5 * real n)) (max 0 (max 0 (hy - 382.5) - 382.5 * real n))"
    using Suc.IH by blast
  then have "in_box x' y' (max 0 (hx - 382.5 * real (Suc n))) (max 0 (hy - 382.5 * real (Suc n)))"
    unfolding in_box_def using max_steps [of hx n] max_steps [of hy n] by linarith
  with here show ?case unfolding replicate_Suc concat.simps fold_append comp_def by blast
qed

lemma exit_packets:
  assumes "at_cursor 0 0 (after_packet corner_packet) w"
  shows "at_cursor 490 812 (after_packet exit_packet) (fold menu_byte (concat (replicate 3 exit_packet)) w)"
proof -
  have bit: "bit (0x29 :: u8) 3" by simp
  note moves = packet_moves [OF _ _ _ bit, of _ _ _ _ "0x8C" "0x18", folded exit_packet_def]
  have len: "length corner_packet = 3" "length exit_packet = 3" by (simp_all add: corner_packet_def exit_packet_def)
  let ?f = "fold menu_byte exit_packet"
  have 1: "at_cursor 70 116 (after_packet exit_packet) (?f w)"
    using moves [OF assms] by (simp add: after_packet_def len step_x_def step_y_def clamp_def leave_packets)
  have 2: "at_cursor 280 464 (after_packet exit_packet) (?f (?f w))"
    using moves [OF 1] by (simp add: after_packet_def len step_x_def step_y_def clamp_def leave_packets)
  have 3: "at_cursor 490 812 (after_packet exit_packet) (?f (?f (?f w)))"
    using moves [OF 2] by (simp add: after_packet_def len step_x_def step_y_def clamp_def leave_packets)
  then show ?thesis by (simp add: numeral_3_eq_3)
qed

lemma leave_cursor:
  assumes "mouse_ok (w_mouse w)" and "screen_mode w = mode_14c"
  shows "at_cursor 490 812 (after_packet exit_packet) (fold menu_byte leave_bytes w)"
proof -
  obtain x y m where 1: "at_cursor x y m (fold menu_byte [0, 0] w)" "byte_index m = 0" "length (mouse_bytes m) = 3"
    using sync_moves [OF assms] by blast
  obtain x y where 2: "at_cursor x y (after_packet corner_packet) (fold menu_byte corner_packet (fold menu_byte [0, 0] w))"
    "in_box x y 1152 864" using corner_first [OF 1] by blast
  let ?v = "fold menu_byte (concat (replicate 4 corner_packet)) (fold menu_byte corner_packet (fold menu_byte [0, 0] w))"
  have "at_cursor 0 0 (after_packet corner_packet) ?v"
    using corner_packets [OF 2, of 4] by (auto simp: in_box_def)
  moreover have "replicate 5 corner_packet = corner_packet # replicate 4 corner_packet" by (simp add: numeral_eq_Suc)
  then have "fold menu_byte leave_bytes w = fold menu_byte (concat (replicate 3 exit_packet)) ?v"
    unfolding leave_bytes_def by (simp only: concat.simps fold_append comp_def)
  ultimately show ?thesis using exit_packets by simp
qed

subsection \<open>The way out\<close>

lemma leads_escape:
  assumes K: "input_kernel K pending" and w: "running w" "world_ok b w" and k: "pending k = (False, 0x81) # bs"
  shows "\<exists>w' k'. leads K L a [key_irq] w k w' k' \<and> pending k' = bs \<and> world_ok b w' \<and> running w' \<and> state w' = Menu \<and>
    screen_mode w' = screen_mode w"
proof -
  obtain k' where k': "kbd_ih K (kbd_value w) k = (0x81, k')" "pending k' = bs" using key_arrives [OF K k] by blast
  define w' where "w' = (game_reset (w\<lparr>kbd_value := 0x81\<rparr>))\<lparr>state := Menu\<rparr>"
  have on: "on_kbd K w k = Some (w', k')" by (simp add: on_kbd_def k'(1) w'_def)
  have "world_ok b w'" using kbd_fine [OF w(2), of K k] on by (simp add: fine_k_def)
  moreover have "running w'" "state w' = Menu" "screen_mode w' = screen_mode w"
    using w(1) by (simp_all add: w'_def game_reset_def)
  ultimately show ?thesis using leads_irq(1) [OF w(1) on, of L a] k'(2) by (intro exI [of _ w'] exI [of _ k']) simp
qed

lemma leads_out:
  assumes K: "input_kernel K pending" "line_ok K waiting" and L: "images_ok L" and len: "length contents = 100"
    and w: "running w" "world_ok b w" "65535 \<le> b" "b + 3328 \<le> 2147483647" "screen_mode w = mode_14c"
    and k: "pending k = leave_input"
  shows "\<exists>w' k'. leads K L (b1, b2, contents) leave_messages w k w' k' \<and> \<not> running w'"
proof -
  let ?a = "(b1, b2, contents)"
  obtain w1 k1 where 1: "leads K L ?a [key_irq] w k w1 k1" "pending k1 = map (Pair True) leave_bytes @ []" "world_ok b w1"
    "running w1" "state w1 = Menu" "screen_mode w1 = mode_14c"
    using leads_escape [OF K(1) w(1,2) k [unfolded leave_input_def], of L ?a] w(5) by auto
  define v where "v = fold menu_byte leave_bytes w1"
  have n: "length leave_bytes = 26"
    by (simp add: leave_bytes_def corner_packet_def exit_packet_def numeral_eq_Suc)
  have "\<exists>k2. leads K L ?a (replicate 26 mouse_irq) w1 k1 v k2 \<and> pending k2 = [] \<and> world_ok (b + 128 * real 26) v"
    using leads_bytes [OF K(1) 1(4,5,3) w(3) 1(2), of L ?a] unfolding n v_def .
  then obtain k2 where 2: "leads K L ?a (replicate 26 mouse_irq) w1 k1 v k2" "world_ok (b + 3328) v" by auto
  have v: "running v" "state v = Menu"
    using menu_bytes_move [of w1 leave_bytes] 1(4,5) by (simp_all add: menu_moves_def v_def phase_of_def)
  have "mouse_ok (w_mouse w1)" using 1(3) by (simp add: world_ok_def)
  then have here: "at_cursor (of_int 490) (of_int 812) (after_packet exit_packet) v"
    unfolding v_def using leave_cursor [of w1] 1(6) by simp
  have lb: "lb (mouse_packet (after_packet exit_packet))" using leave_packets(5) by (simp add: after_packet_def)
  have at_exit: "handler_at mode_14c 490 812 = Some Exit_Game" by (simp add: handler_at_def mode_14c_def)
  obtain u w' where 3: "leads K L ?a [timer_irq] v k2 w' k2" "draws (exit_game u) w'"
    using leads_press [OF v 2(2) w(4) L K(2) len here lb at_exit, of b1 b2 k2 exit_game] by auto
  have "leads K L ?a leave_messages w k w' k2"
    unfolding leave_messages_def by (intro leads_trans [OF 1(1)] leads_trans [OF 2(1)] 3(1))
  moreover have "\<not> running w'" using 3(2) by (simp add: draws_def same_def exit_game_def phase_of_def)
  ultimately show ?thesis by blast
qed

lemma leads_stops:
  assumes "leads K L a ms w k w' k'" and "\<not> running w'"
  shows "interrupt_loop K L a start_masks ms c w k = Some (Stopped c w' k')"
proof -
  have "interrupt_loop K L a start_masks (ms @ []) c w k = interrupt_loop K L a start_masks [] c w' k'"
    using assms(1) unfolding leads_def by blast
  then show ?thesis using assms(2) by (simp add: interrupt_loop.simps [of _ _ _ _ "[]"])
qed

subsection \<open>Properties\<close>

text \<open>C6: the program can always be left: whenever it waits for a message, after whatever at most sixteen million messages, the same script
  ends it. When the keyboard sends Escape and the mouse the fixed bytes leave_bytes, their interrupts and one frame make the loop stop,
  and the program returns what the release of the devices (proj_stop) gives. (The controller delivers what the devices send
  (input_kernel), the screen is that of mode 0x14C, 1152 by 864, and line, clock, images and video calls are as for program_is_defined.)\<close>

theorem program_can_be_left:
  assumes "input_kernel K pending" and "line_ok K waiting" and "clock_ok K" and "loads_xpm L" and "video_calls_ok V"
    and "\<forall>k. fst (snd (vbe_get_mode_info V 0x14C k)) = mode_14c"
    and "length contents = 100" "length contents1 = 100" "length contents2 = 100" and "length msgs \<le> 16000000"
    and "proj_main_loop K V L rnd junk (x1, y1, contents1) (x2, y2, contents2) (b1, b2, contents) start_hooks argv msgs start_world k0 =
      Some (Waits_For_Message c w k)"
    and "pending k = leave_input"
  shows "\<exists>hooks k1 err k2. proj_stop K V hooks k1 = (err, k2) \<and>
    proj_main_loop K V L rnd junk (x1, y1, contents1) (x2, y2, contents2) (b1, b2, contents) start_hooks argv
      (msgs @ leave_messages) start_world k0 = Some (Returns err k2)"
proof -
  let ?a = "(b1, b2, contents)"
  obtain w0 irqs hooks k1 where start: "proj_start K V rnd junk (x1, y1, contents1) (x2, y2, contents2) start_hooks argv start_world k0 =
      Some (Inr (w0, irqs, hooks, k1))"
    and run: "interrupt_loop K L ?a irqs msgs 1 w0 k1 = Some (Waits c w k)"
    using assms(11) by (auto simp: proj_main_loop_def elim!: bind_SomeE split: sum.splits prod.splits loop_end.splits)
  have w0: "world_ok 65535 w0" "irqs = start_masks"
    using start_fine [OF assms(5) start_world_ok assms(8,9), of start_hooks K rnd junk x1 y1 x2 y2 argv k0] start
    by (simp_all add: started_def)
  obtain l e l' where "vbe_get_mode_info V 0x14C l = (e, screen_mode w0, l')"
    using program_begins [OF assms(8,9), of argv V K rnd junk x1 y1 x2 y2 start_hooks k0] start by (auto simp: begins_def)
  with assms(6) have mode: "screen_mode w0 = mode_14c" by (metis fst_conv snd_conv)
  let ?b = "65535 + 128 * real (length msgs)"
  have "real (length msgs) \<le> 16000000" using assms(10) by linarith
  then have b: "?b \<le> 2147483647" "65535 \<le> ?b" "?b + 3328 \<le> 2147483647" by linarith+
  have w: "world_ok ?b w" "screen_mode w = mode_14c" "running w"
    and more: "\<And>ms. interrupt_loop K L ?a irqs (msgs @ ms) 1 w0 k1 = interrupt_loop K L ?a irqs ms c w k"
    using loop_waits_mode [OF loaded_images_ok [OF assms(4)] assms(2,3,7) run w0(1) order_refl b(1) mode] by blast+
  obtain w' k' where "leads K L ?a leave_messages w k w' k'" "\<not> running w'"
    using leads_out [OF assms(1,2) loaded_images_ok [OF assms(4)] assms(7) w(3,1) b(2,3) w(2) assms(12)] by blast
  then have "interrupt_loop K L ?a irqs (msgs @ leave_messages) 1 w0 k1 = Some (Stopped c w' k')"
    unfolding more unfolding w0(2) by (rule leads_stops)
  moreover obtain err k2 where "proj_stop K V hooks k' = (err, k2)" by fastforce
  ultimately show ?thesis using start by (auto simp: proj_main_loop_def)
qed

theorem program_can_be_left_witness:
  "\<exists>w err k. proj_main_loop script_kernel ready_video repository_images (\<lambda>k. k) (\<lambda>_. blank_cell) ready_queue ready_queue
      ready_queue start_hooks [''host''] [] start_world ((True, 0xFA) # leave_input) = Some (Waits_For_Message 1 w leave_input) \<and>
    proj_main_loop script_kernel ready_video repository_images (\<lambda>k. k) (\<lambda>_. blank_cell) ready_queue ready_queue
      ready_queue start_hooks [''host''] leave_messages start_world ((True, 0xFA) # leave_input) = Some (Returns err k)"
proof -
  let ?run = "\<lambda>msgs. proj_main_loop script_kernel ready_video repository_images (\<lambda>k. k) (\<lambda>_. blank_cell) ready_queue ready_queue
      ready_queue start_hooks [''host''] msgs start_world ((True, 0xFA) # leave_input)"
  have len: "length (replicate 100 (0 :: u8)) = 100" by simp
  obtain w irqs hooks where r: "proj_start script_kernel ready_video (\<lambda>k. k) (\<lambda>_. blank_cell) ready_queue ready_queue
      start_hooks [''host''] start_world ((True, 0xFA) # leave_input) = Some (Inr (w, irqs, hooks, leave_input))"
    using script_start [of "\<lambda>k. k" "\<lambda>_. blank_cell" "''host''" leave_input] by blast
  have "running w"
    using program_begins [OF len len, of "[''host'']" ready_video script_kernel "\<lambda>k. k" "\<lambda>_. blank_cell" True True True True
        start_hooks "(True, 0xFA) # leave_input"] r by (auto simp: begins_def phase_of_def first_phase_def)
  then have waits: "?run [] = Some (Waits_For_Message 1 w leave_input)"
    by (simp add: proj_main_loop_def r interrupt_loop.simps [of _ _ _ _ "[]"])
  have "\<exists>hooks k1 err k2. proj_stop script_kernel ready_video hooks k1 = (err, k2) \<and> ?run ([] @ leave_messages) = Some (Returns err k2)"
    by (rule program_can_be_left [OF script_ok repository_loads ready_video_ok len len len _ waits]) simp_all
  then show ?thesis using waits by auto
qed

end
