(* ===== verification/Text_Output.thy ===== *)
theory Text_Output
  imports World_Safety
begin

text \<open>
  What the program writes on its console: dump_memory and print_cell of game/maze.c; and main of proj.c.

  What printf writes is the result of the model, in the directions that the code uses: %02x (hex02), and %d (decimal,
  as for the texts of the screen). The lemmas read the output back: a dump determines the bytes, and a
  printed cell its place and its walls.
\<close>

subsection \<open>The code\<close>

definition newline :: char where
  "newline = CHR 0x0A"

definition hex02 :: "u8 \<Rightarrow> string" where
  "hex02 v = (if unat v < 16 then CHR ''0'' # hex_string (unat v) else hex_string (unat v))"

text \<open>The bytes from p on, as far as they are p's; a byte behind them is undefined.\<close>

primrec dump_memory :: "u8 list \<Rightarrow> nat \<Rightarrow> string option" where
  "dump_memory p 0 = Some []"
| "dump_memory p (Suc i) =
     do {
       out \<leftarrow> dump_memory p i;
       guard_ub (i < length p);
       Some (out @ hex02 (p ! i) @ '' '' @ (if (i + 1) mod 16 = 0 then [newline] else []))
     }"

definition of_flag :: "bool \<Rightarrow> int" where
  "of_flag b = (if b then 1 else 0)"

fun print_cell :: "cell option \<Rightarrow> string" where
  "print_cell None = ''Cell is NULL'' @ [newline]"
| "print_cell (Some c) =
     ''Cell at ('' @ decimal (c_x c) @ '', '' @ decimal (c_y c) @ '') with walls: top='' @ decimal (of_flag (top_wall c))
     @ '', bottom='' @ decimal (of_flag (bottom_wall c)) @ '', left='' @ decimal (of_flag (left_wall c))
     @ '', right='' @ decimal (of_flag (right_wall c)) @ [newline]"

text \<open>The course framework, as far as main calls it.\<close>

record 's framework =
  lcf_set_language :: "string \<Rightarrow> 's \<Rightarrow> 's"
  lcf_trace_calls :: "string \<Rightarrow> 's \<Rightarrow> 's"
  lcf_log_output :: "string \<Rightarrow> 's \<Rightarrow> 's"
  lcf_start :: "int \<Rightarrow> string list \<Rightarrow> 's \<Rightarrow> int \<times> 's"
  lcf_cleanup :: "'s \<Rightarrow> 's"

definition main_program :: "'s framework \<Rightarrow> int \<Rightarrow> string list \<Rightarrow> 's \<Rightarrow> int \<times> 's" where
  "main_program F argc argv s =
     (let s = lcf_set_language F ''EN-US'' s;
          s = lcf_trace_calls F ''/home/lcom/labs/g1/proj/src/log/trace.txt'' s;
          s = lcf_log_output F ''/home/lcom/labs/g1/proj/src/log/output.txt'' s
      in (case lcf_start F argc argv s of
            (r, s) \<Rightarrow> if r \<noteq> 0 then (1, s) else (0, lcf_cleanup F s)))"

subsection \<open>Reading a dump\<close>

definition digit_value :: "char \<Rightarrow> nat" where
  "digit_value c = (if is_digit c then of_char c - 48 else of_char c - 87)"

fun read_dump :: "string \<Rightarrow> u8 list" where
  "read_dump (a # b # s # rest) =
     (if a = newline then read_dump (b # s # rest)
      else of_nat (16 * digit_value a + digit_value b) # read_dump rest)"
| "read_dump _ = []"

lemma digit_value_hex: "d < 16 \<Longrightarrow> digit_value (hex_digit d) = d"
  by (simp add: digit_value_def hex_digit_def is_digit_def)

lemma hex_digit_no_newline: "d < 16 \<Longrightarrow> hex_digit d \<noteq> newline"
proof -
  assume "d < 16"
  hence "48 \<le> (of_char (hex_digit d) :: nat)" by (simp add: hex_digit_def)
  moreover have "of_char newline = (10 :: nat)" by (simp add: newline_def of_char_def)
  ultimately show ?thesis by auto
qed

lemma unat_bound: "unat (v :: u8) < 256"
  using unsigned_less [of v] by simp

lemma hex02_digits: "hex02 v = [hex_digit (unat v div 16), hex_digit (unat v mod 16)]"
proof -
  have "unat v < 256" using unat_bound [of v] by simp
  hence "unat v div 16 < 16" by simp
  thus ?thesis
    by (auto simp: hex02_def hex_digits hex_string.simps [of "unat v"] hex_string.simps [of "unat v div 16"])
qed

lemma read_newline: "read_dump (newline # rest) = read_dump rest"
proof (cases rest)
  case (Cons a r)
  thus ?thesis by (cases r) auto
qed simp

lemma read_dump_byte: "read_dump (hex02 v @ '' '' @ rest) = v # read_dump rest"
proof -
  have "unat v < 256" using unat_bound [of v] by simp
  hence "unat v div 16 < 16" by simp
  thus ?thesis by (simp add: hex02_digits hex_digit_no_newline digit_value_hex)
qed

definition dump_piece :: "u8 list \<Rightarrow> nat \<Rightarrow> string" where
  "dump_piece p i = hex02 (p ! i) @ '' '' @ (if (i + 1) mod 16 = 0 then [newline] else [])"

lemma read_piece: "read_dump (dump_piece p i @ rest) = p ! i # read_dump rest"
  unfolding dump_piece_def append_assoc read_dump_byte by (simp add: read_newline)

lemma dump_memory_pieces: "n \<le> length p \<Longrightarrow> dump_memory p n = Some (concat (map (dump_piece p) [0..<n]))"
  by (induction n) (simp_all add: dump_piece_def guard_ub_def)

lemma read_pieces: "read_dump (concat (map (dump_piece p) is)) = map ((!) p) is"
  by (induction "is") (simp_all add: read_piece)

text \<open>The dump of n bytes of an object that has as many determines them.\<close>

lemma dump_reads_back:
  assumes "n \<le> length p"
  shows "\<exists>out. dump_memory p n = Some out \<and> read_dump out = take n p"
  using assms by (auto simp: dump_memory_pieces read_pieces intro: nth_equalityI)

lemma dump_beyond: "length p < n \<Longrightarrow> dump_memory p n = None"
  by (induction n) (auto simp: guard_ub_def less_Suc_eq split: Option.bind_splits)

subsection \<open>Reading a cell\<close>

fun dec_value :: "nat \<Rightarrow> string \<Rightarrow> nat" where
  "dec_value v [] = v"
| "dec_value v (c # str) = dec_value (10 * v + digit_value c) str"

lemma dec_value_append: "dec_value v (s @ t) = dec_value (dec_value v s) t"
  by (induction v s rule: dec_value.induct) simp_all

lemma dec_value_string: "dec_value 0 (dec_string n) = n"
proof (induction n rule: dec_string.induct)
  case (1 n)
  show ?case
  proof (cases "n < 10")
    case False
    thus ?thesis using 1 by (simp add: dec_string.simps [of n] dec_value_append digit_value_hex)
  qed (simp add: dec_string.simps [of n] digit_value_hex)
qed

lemma dec_string_digits: "\<forall>c \<in> set (dec_string n). is_digit c"
proof (induction n rule: dec_string.induct)
  case (1 n)
  thus ?case by (cases "n < 10") (simp_all add: dec_string.simps [of n] hex_digit_value)
qed

lemma dec_string_nonempty: "dec_string n \<noteq> []"
  by (simp add: dec_string.simps [of n])

lemma minus_no_digit: "\<not> is_digit CHR ''-''"
  by (simp add: is_digit_def of_char_def)

lemma decimal_injective: "decimal v = decimal w \<longleftrightarrow> v = w"
proof
  assume eq: "decimal v = decimal w"
  have neg: "hd (decimal u) = CHR ''-'' \<longleftrightarrow> u < 0" for u
    using dec_string_digits [of "nat u"] dec_string_nonempty [of "nat u"] minus_no_digit
    by (cases "dec_string (nat u)") (auto simp: decimal_def)
  have "v < 0 \<longleftrightarrow> w < 0" using neg [of v] neg [of w] eq by simp
  moreover have "dec_string (nat \<bar>v\<bar>) = dec_string (nat \<bar>w\<bar>)"
    using eq calculation by (auto simp: decimal_def split: if_splits)
  hence "nat \<bar>v\<bar> = nat \<bar>w\<bar>" by (metis dec_value_string)
  ultimately show "v = w" by arith
qed simp

definition numeral_char :: "char \<Rightarrow> bool" where
  "numeral_char c \<longleftrightarrow> is_digit c \<or> c = CHR ''-''"

lemma decimal_chars: "\<forall>c \<in> set (decimal v). numeral_char c"
  using dec_string_digits by (simp add: decimal_def numeral_char_def)

lemma split_numeral:
  assumes "\<forall>c \<in> set xs. numeral_char c" "\<forall>c \<in> set ys. numeral_char c" "\<not> numeral_char a"
  shows "xs @ a # r = ys @ a # s \<longleftrightarrow> xs = ys \<and> r = s"
  using assms
proof (induction xs arbitrary: ys)
  case Nil
  thus ?case by (cases ys) auto
next
  case (Cons x xs)
  thus ?case by (cases ys) auto
qed

lemma decimal_then:
  "\<not> numeral_char a \<Longrightarrow> decimal v @ a # r = decimal w @ a # s \<longleftrightarrow> v = w \<and> r = s"
  using split_numeral [OF decimal_chars decimal_chars, of a v r w s] decimal_injective by simp

lemma no_numerals: "\<not> numeral_char CHR '',''" "\<not> numeral_char CHR '')''" "\<not> numeral_char newline"
  by (simp_all add: numeral_char_def is_digit_def of_char_def newline_def)

lemma of_flag_eq: "of_flag a = of_flag b \<longleftrightarrow> a = b"
  by (simp add: of_flag_def)

text \<open>A printed cell shows its place and its walls, and nothing else of it.\<close>

lemma print_cell_shows:
  "print_cell (Some c) = print_cell (Some d) \<longleftrightarrow>
     c_x c = c_x d \<and> c_y c = c_y d \<and> top_wall c = top_wall d \<and> bottom_wall c = bottom_wall d
     \<and> left_wall c = left_wall d \<and> right_wall c = right_wall d"
  by (simp add: decimal_then decimal_injective no_numerals of_flag_eq)

lemma null_cell_shows: "print_cell None \<noteq> print_cell (Some c)"
  by simp

subsection \<open>The exit code\<close>

lemma main_exit_code: "fst (main_program F argc argv s) \<in> {0, 1}"
  by (simp add: main_program_def Let_def split: prod.split)

end
