(* ===== verification/C_Layout.thy ===== *)
theory C_Layout
  imports Maze_Prelude
begin

text \<open>
  How the compiler of the 32-bit x86 target lays out C data: sizes, alignments and offsets of
  scalars, arrays, structs and unions, as the System V ABI for that processor fixes them (a scalar
  of 8 bytes is aligned to 4). layout gives the offset of every field of a struct, packed_layout the
  same under #pragma pack(1); get_bytes and put_bytes read and write a field of an object given as a
  list of bytes, the low byte of a number first.

  Fields are shown to follow one another without overlap, so a store to one field is read back from
  it and leaves every other field alone.
\<close>

datatype ctype = Scalar nat | Array ctype nat | Struct "(string \<times> ctype) list" | Union "(string \<times> ctype) list"

type_synonym fields = "(string \<times> ctype) list"

definition round_up :: "nat \<Rightarrow> nat \<Rightarrow> nat" where
  "round_up n a = (n + a - 1) div a * a"

fun align_of :: "ctype \<Rightarrow> nat" and align_fields :: "fields \<Rightarrow> nat" where
  "align_of (Scalar n) = (if n = 8 then 4 else max 1 n)"
| "align_of (Array t n) = align_of t"
| "align_of (Struct fs) = align_fields fs"
| "align_of (Union fs) = align_fields fs"
| "align_fields [] = 1"
| "align_fields ((name, t) # fs) = max (align_of t) (align_fields fs)"

text \<open>fields_end is the offset after the last field, fields_max the size of the largest.\<close>

fun size_of :: "ctype \<Rightarrow> nat" and fields_end :: "fields \<Rightarrow> nat \<Rightarrow> nat" and fields_max :: "fields \<Rightarrow> nat" where
  "size_of (Scalar n) = n"
| "size_of (Array t n) = n * size_of t"
| "size_of (Struct fs) = round_up (fields_end fs 0) (align_fields fs)"
| "size_of (Union fs) = round_up (fields_max fs) (align_fields fs)"
| "fields_end [] off = off"
| "fields_end ((name, t) # fs) off = fields_end fs (round_up off (align_of t) + size_of t)"
| "fields_max [] = 0"
| "fields_max ((name, t) # fs) = max (size_of t) (fields_max fs)"

fun layout :: "fields \<Rightarrow> nat \<Rightarrow> (string \<times> nat \<times> ctype) list" where
  "layout [] off = []"
| "layout ((name, t) # fs) off =
     (let at = round_up off (align_of t) in (name, at, t) # layout fs (at + size_of t))"

fun packed_layout :: "fields \<Rightarrow> nat \<Rightarrow> (string \<times> nat \<times> ctype) list" where
  "packed_layout [] off = []"
| "packed_layout ((name, t) # fs) off = (name, off, t) # packed_layout fs (off + size_of t)"

definition packed_size :: "fields \<Rightarrow> nat" where
  "packed_size fs = sum_list (map (size_of \<circ> snd) fs)"

definition get_bytes :: "nat \<Rightarrow> nat \<Rightarrow> u8 list \<Rightarrow> u8 list" where
  "get_bytes off n bs = take n (drop off bs)"

definition put_bytes :: "nat \<Rightarrow> u8 list \<Rightarrow> u8 list \<Rightarrow> u8 list" where
  "put_bytes off v bs = take off bs @ v @ drop (off + length v) bs"

text \<open>A number in memory, low byte first.\<close>

fun le_value :: "u8 list \<Rightarrow> int" where
  "le_value [] = 0"
| "le_value (b # bs) = uint b + 256 * le_value bs"

fun le_bytes :: "nat \<Rightarrow> int \<Rightarrow> u8 list" where
  "le_bytes 0 v = []"
| "le_bytes (Suc n) v = word_of_int v # le_bytes n (v div 256)"

subsection \<open>Fields do not overlap\<close>

lemma le_bytes_length [simp]: "length (le_bytes n v) = n"
  by (induction n arbitrary: v) auto

lemma le_round_trip: "le_value (le_bytes n v) = v mod 256 ^ n"
proof (induction n arbitrary: v)
  case 0
  then show ?case by simp
next
  case (Suc n)
  have "uint (word_of_int v :: u8) = v mod 256" by (simp only: uint_word_of_int) simp
  then have "le_value (le_bytes (Suc n) v) = v mod 256 + 256 * (v div 256 mod 256 ^ n)" by (simp add: Suc)
  also have "\<dots> = v mod (256 * 256 ^ n)" by (simp add: zmod_zmult2_eq)
  finally show ?case by simp
qed

lemma round_up_le: "0 < a \<Longrightarrow> n \<le> round_up n a"
  using div_mult_mod_eq [of "n + a - 1" a] mod_less_divisor [of a "n + a - 1"]
  unfolding round_up_def by linarith

lemma align_pos: "0 < align_of t" "0 < align_fields fs"
  by (induction t and fs rule: align_of_align_fields.induct) auto

lemma fields_end_ge: "off \<le> fields_end fs off"
proof (induction fs arbitrary: off)
  case Nil
  then show ?case by simp
next
  case (Cons f fs)
  obtain name t where f: "f = (name, t)" by (cases f)
  have "off \<le> round_up off (align_of t)" by (rule round_up_le [OF align_pos(1)])
  also have "\<dots> \<le> round_up off (align_of t) + size_of t" by simp
  also have "\<dots> \<le> fields_end fs (round_up off (align_of t) + size_of t)" by (rule Cons)
  finally show ?case by (simp add: f)
qed

lemma layout_within:
  "(name, at, t) \<in> set (layout fs off) \<Longrightarrow> off \<le> at \<and> at + size_of t \<le> fields_end fs off"
proof (induction fs arbitrary: off)
  case Nil
  then show ?case by simp
next
  case (Cons f fs)
  obtain name' t' where f: "f = (name', t')" by (cases f)
  let ?at = "round_up off (align_of t')"
  have le: "off \<le> ?at" by (rule round_up_le [OF align_pos(1)])
  from Cons.prems consider "at = ?at" "t = t'" | "(name, at, t) \<in> set (layout fs (?at + size_of t'))"
    by (auto simp: f Let_def)
  then show ?case
  proof cases
    case 1
    then show ?thesis using le fields_end_ge [of "?at + size_of t'" fs] by (simp add: f)
  next
    case 2
    from Cons.IH [OF this] le show ?thesis by (simp add: f)
  qed
qed

lemma layout_ordered:
  "sorted_wrt (\<lambda>(_, a, t) (_, b, _). a + size_of t \<le> b) (layout fs off)"
proof (induction fs arbitrary: off)
  case Nil
  then show ?case by simp
next
  case (Cons f fs)
  obtain name t where f: "f = (name, t)" by (cases f)
  show ?case using Cons layout_within by (fastforce simp: f Let_def)
qed

lemma layout_disjoint:
  assumes "i < length (layout fs off)" "j < length (layout fs off)" "i \<noteq> j"
    and "layout fs off ! i = (n, a, t)" "layout fs off ! j = (m, b, u)"
  shows "a + size_of t \<le> b \<or> b + size_of u \<le> a"
proof -
  have "a + size_of t \<le> b" if "i < j"
    using sorted_wrt_nth_less [OF layout_ordered that assms(2)] assms(4,5) by simp
  moreover have "b + size_of u \<le> a" if "j < i"
    using sorted_wrt_nth_less [OF layout_ordered that assms(1)] assms(4,5) by simp
  ultimately show ?thesis using assms(3) by linarith
qed

lemma get_put_same:
  "off + length v \<le> length bs \<Longrightarrow> n = length v \<Longrightarrow> get_bytes off n (put_bytes off v bs) = v"
  by (simp add: get_bytes_def put_bytes_def)

lemma get_put_other:
  assumes "off + length v \<le> length bs" and "at + n \<le> off \<or> off + length v \<le> at"
  shows "get_bytes at n (put_bytes off v bs) = get_bytes at n bs"
  using assms(2)
proof
  assume "at + n \<le> off"
  then show ?thesis using assms(1) by (auto simp: get_bytes_def put_bytes_def drop_take min_def)
next
  assume le: "off + length v \<le> at"
  then have "drop at (take off bs @ v @ drop (off + length v) bs) = drop (at - off - length v) (drop (off + length v) bs)"
    using assms(1) by simp
  also have "\<dots> = drop at bs" using le by simp
  finally show ?thesis by (simp add: get_bytes_def put_bytes_def)
qed

lemma put_bytes_length [simp]: "off + length v \<le> length bs \<Longrightarrow> length (put_bytes off v bs) = length bs"
  by (simp add: put_bytes_def)

text \<open>A store to one field of an object is read back from it, and every other field keeps its value.\<close>

lemma field_access:
  assumes "i < length (layout fs 0)" "layout fs 0 ! i = (n, a, t)"
    and "j < length (layout fs 0)" "layout fs 0 ! j = (m, b, u)"
    and "fields_end fs 0 \<le> length bs" and "length v = size_of t"
  shows "get_bytes a (size_of t) (put_bytes a v bs) = v"
    and "i \<noteq> j \<Longrightarrow> get_bytes b (size_of u) (put_bytes a v bs) = get_bytes b (size_of u) bs"
    and "length (put_bytes a v bs) = length bs"
proof -
  have "(n, a, t) \<in> set (layout fs 0)" using nth_mem [OF assms(1)] assms(2) by simp
  then have le: "a + length v \<le> length bs" using layout_within [of n a t fs 0] assms(5,6) by simp
  show "get_bytes a (size_of t) (put_bytes a v bs) = v" by (rule get_put_same [OF le]) (simp add: assms(6))
  show "length (put_bytes a v bs) = length bs" using le by simp
  show "get_bytes b (size_of u) (put_bytes a v bs) = get_bytes b (size_of u) bs" if "i \<noteq> j"
    using layout_disjoint [OF assms(1,3) that assms(2,4)] le assms(6) by (intro get_put_other) auto
qed

end
