(* ===== verification/Message_Types.thy ===== *)
theory Message_Types
  imports C_Layout
begin

text \<open>
  The scalar types of MINIX that the fields of messages have, from the headers minix/type.h,
  sys/types.h, sys/ansi.h, sys/sigtypes.h, sys/fd_set.h and i386/ansi.h, i386/int_types.h, and the
  array lengths of minix/config.h and minix/ipc.h. char, short, int, long and pointers are those of
  the 32-bit x86 target.
\<close>

definition c_char :: ctype where "c_char = Scalar 1"
definition c_short :: ctype where "c_short = Scalar 2"
definition c_int_type :: ctype where "c_int_type = Scalar 4"
definition c_unsigned_int :: ctype where "c_unsigned_int = Scalar 4"
definition c_long :: ctype where "c_long = Scalar 4"
definition c_unsigned_long :: ctype where "c_unsigned_long = Scalar 4"
definition c_long_long :: ctype where "c_long_long = Scalar 8"
definition c_pointer :: ctype where "c_pointer = Scalar 4"

definition uint8_t :: ctype where "uint8_t = c_char"
definition uint16_t :: ctype where "uint16_t = c_short"
definition int32_t :: ctype where "int32_t = c_int_type"
definition uint32_t :: ctype where "uint32_t = c_unsigned_int"
definition int64_t :: ctype where "int64_t = c_long_long"
definition uint64_t :: ctype where "uint64_t = c_long_long"
definition u8_t :: ctype where "u8_t = uint8_t"
definition u16_t :: ctype where "u16_t = uint16_t"
definition u32_t :: ctype where "u32_t = uint32_t"
definition u64_t :: ctype where "u64_t = uint64_t"
definition phys_bytes :: ctype where "phys_bytes = c_unsigned_long"
definition endpoint_t :: ctype where "endpoint_t = c_int_type"
definition cp_grant_id_t :: ctype where "cp_grant_id_t = int32_t"
definition vir_bytes :: ctype where "vir_bytes = c_unsigned_long"
definition size_t :: ctype where "size_t = c_unsigned_int"
definition ssize_t :: ctype where "ssize_t = c_int_type"
definition time_t :: ctype where "time_t = int64_t"
definition clock_t :: ctype where "clock_t = c_unsigned_int"
definition clockid_t :: ctype where "clockid_t = c_int_type"
definition gid_t :: ctype where "gid_t = uint32_t"
definition mode_t :: ctype where "mode_t = uint32_t"
definition off_t :: ctype where "off_t = int64_t"
definition pid_t :: ctype where "pid_t = int32_t"
definition uid_t :: ctype where "uid_t = uint32_t"
definition dev_t :: ctype where "dev_t = uint64_t"
definition ino_t :: ctype where "ino_t = uint64_t"
definition key_t :: ctype where "key_t = c_long"
definition devmajor_t :: ctype where "devmajor_t = int32_t"
definition devminor_t :: ctype where "devminor_t = int32_t"

definition M_PATH_STRING_MAX :: nat where "M_PATH_STRING_MAX = 40"
definition CTL_SHORTNAME :: nat where "CTL_SHORTNAME = 8"
definition NR_DOMAIN :: nat where "NR_DOMAIN = 8"
definition NDEV_NAME_MAX :: nat where "NDEV_NAME_MAX = 16"
definition NDEV_HWADDR_MAX :: nat where "NDEV_HWADDR_MAX = 6"
definition NDEV_IOV_MAX :: nat where "NDEV_IOV_MAX = 8"
definition FD_SETSIZE :: nat where "FD_SETSIZE = 255"
definition NFDBITS :: nat where "NFDBITS = 32"

text \<open>The structs and the union that occur as fields.\<close>

definition sigset_t :: ctype where
  "sigset_t = Struct [(''__bits'', Array uint32_t 4)]"

definition fd_set :: ctype where
  "fd_set = Struct [(''fds_bits'', Array uint32_t ((FD_SETSIZE + (NFDBITS - 1)) div NFDBITS))]"

definition ds_val :: ctype where
  "ds_val = Union [(''grant'', cp_grant_id_t), (''u32'', u32_t), (''ep'', endpoint_t)]"

end
