(* ===== verification/Message_Formats_1.thy ===== *)
theory Message_Formats_1
  imports Message_Types
begin

text \<open>
  Message formats of minix/ipc.h, in the order of the file, from mess_u8 to mess_lc_pm_time.
  Each is the list of its fields with their types; the unit of declaration is one struct.
\<close>

definition mess_u8 :: fields where
  "mess_u8 = [(''data'', Array uint8_t 56)]"

definition mess_u16 :: fields where
  "mess_u16 = [(''data'', Array uint16_t 28)]"

definition mess_u32 :: fields where
  "mess_u32 = [(''data'', Array uint32_t 14)]"

definition mess_u64 :: fields where
  "mess_u64 = [(''data'', Array uint64_t 7)]"

definition mess_1 :: fields where
  "mess_1 = [(''m1ull1'', uint64_t), (''m1i1'', c_int_type), (''m1i2'', c_int_type),
     (''m1i3'', c_int_type), (''m1p1'', c_pointer), (''m1p2'', c_pointer), (''m1p3'', c_pointer),
     (''m1p4'', c_pointer), (''padding'', Array uint8_t 20)]"

definition mess_2 :: fields where
  "mess_2 = [(''m2ll1'', int64_t), (''m2i1'', c_int_type), (''m2i2'', c_int_type),
     (''m2i3'', c_int_type), (''m2l1'', c_long), (''m2l2'', c_long), (''m2p1'', c_pointer),
     (''sigset'', sigset_t), (''m2s1'', c_short), (''padding'', Array uint8_t 6)]"

definition mess_3 :: fields where
  "mess_3 = [(''m3i1'', c_int_type), (''m3i2'', c_int_type), (''m3p1'', c_pointer),
     (''m3ca1'', Array c_char 44)]"

definition mess_4 :: fields where
  "mess_4 = [(''m4ll1'', int64_t), (''m4l1'', c_long), (''m4l2'', c_long), (''m4l3'', c_long),
     (''m4l4'', c_long), (''m4l5'', c_long), (''padding'', Array uint8_t 28)]"

definition mess_7 :: fields where
  "mess_7 = [(''m7i1'', c_int_type), (''m7i2'', c_int_type), (''m7i3'', c_int_type),
     (''m7i4'', c_int_type), (''m7i5'', c_int_type), (''m7p1'', c_pointer), (''m7p2'', c_pointer),
     (''padding'', Array uint8_t 28)]"

definition mess_9 :: fields where
  "mess_9 = [(''m9ull1'', uint64_t), (''m9ull2'', uint64_t), (''m9l1'', c_long), (''m9l2'', c_long),
     (''m9l3'', c_long), (''m9l4'', c_long), (''m9l5'', c_long), (''m9s1'', c_short),
     (''m9s2'', c_short), (''m9s3'', c_short), (''m9s4'', c_short), (''padding'', Array uint8_t 12)]"

definition mess_10 :: fields where
  "mess_10 = [(''m10ull1'', u64_t), (''m10i1'', c_int_type), (''m10i2'', c_int_type),
     (''m10i3'', c_int_type), (''m10i4'', c_int_type), (''m10l1'', c_long), (''m10l2'', c_long),
     (''m10l3'', c_long), (''padding'', Array uint8_t 20)]"

definition mess_ds_reply :: fields where
  "mess_ds_reply = [(''val_out'', ds_val), (''val_len'', c_int_type),
     (''padding'', Array uint8_t 48)]"

definition mess_ds_req :: fields where
  "mess_ds_req = [(''key_grant'', cp_grant_id_t), (''key_len'', c_int_type),
     (''flags'', c_int_type), (''val_in'', ds_val), (''val_len'', c_int_type),
     (''owner'', endpoint_t), (''padding'', Array uint8_t 32)]"

definition mess_fs_vfs_breadwrite :: fields where
  "mess_fs_vfs_breadwrite = [(''seek_pos'', off_t), (''nbytes'', size_t),
     (''data'', Array uint8_t 44)]"

definition mess_fs_vfs_chmod :: fields where
  "mess_fs_vfs_chmod = [(''mode'', mode_t), (''data'', Array uint8_t 52)]"

definition mess_fs_vfs_chown :: fields where
  "mess_fs_vfs_chown = [(''mode'', mode_t), (''data'', Array uint8_t 52)]"

definition mess_fs_vfs_create :: fields where
  "mess_fs_vfs_create = [(''file_size'', off_t), (''inode'', ino_t), (''mode'', mode_t),
     (''uid'', uid_t), (''gid'', gid_t), (''data'', Array uint8_t 28)]"

definition mess_fs_vfs_getdents :: fields where
  "mess_fs_vfs_getdents = [(''seek_pos'', off_t), (''nbytes'', size_t), (''data'', Array uint8_t 44)]"

definition mess_fs_vfs_lookup :: fields where
  "mess_fs_vfs_lookup = [(''offset'', off_t), (''file_size'', off_t), (''device'', dev_t),
     (''inode'', ino_t), (''mode'', mode_t), (''uid'', uid_t), (''gid'', gid_t),
     (''symloop'', uint16_t), (''data'', Array uint8_t 10)]"

definition mess_fs_vfs_newnode :: fields where
  "mess_fs_vfs_newnode = [(''file_size'', off_t), (''device'', dev_t), (''inode'', ino_t),
     (''mode'', mode_t), (''uid'', uid_t), (''gid'', gid_t), (''data'', Array uint8_t 20)]"

definition mess_fs_vfs_rdlink :: fields where
  "mess_fs_vfs_rdlink = [(''nbytes'', size_t), (''data'', Array uint8_t 52)]"

definition mess_fs_vfs_readsuper :: fields where
  "mess_fs_vfs_readsuper = [(''file_size'', off_t), (''device'', dev_t), (''inode'', ino_t),
     (''flags'', uint32_t), (''mode'', mode_t), (''uid'', uid_t), (''gid'', gid_t),
     (''con_reqs'', uint16_t), (''data'', Array uint8_t 14)]"

definition mess_fs_vfs_readwrite :: fields where
  "mess_fs_vfs_readwrite = [(''seek_pos'', off_t), (''nbytes'', size_t),
     (''data'', Array uint8_t 44)]"

definition mess_i2c_li2cdriver_busc_i2c_exec :: fields where
  "mess_i2c_li2cdriver_busc_i2c_exec = [(''padding'', Array uint8_t 56)]"

definition mess_i2c_li2cdriver_busc_i2c_reserve :: fields where
  "mess_i2c_li2cdriver_busc_i2c_reserve = [(''padding'', Array uint8_t 56)]"

definition mess_input_linputdriver_input_conf :: fields where
  "mess_input_linputdriver_input_conf = [(''kbd_id'', c_int_type), (''mouse_id'', c_int_type),
     (''rsvd1_id'', c_int_type), (''rsvd2_id'', c_int_type), (''padding'', Array uint8_t 40)]"

definition mess_input_linputdriver_setleds :: fields where
  "mess_input_linputdriver_setleds = [(''led_mask'', uint32_t), (''padding'', Array uint8_t 52)]"

definition mess_input_tty_event :: fields where
  "mess_input_tty_event = [(''id'', c_int_type), (''page'', c_int_type), (''code'', c_int_type),
     (''value'', c_int_type), (''flags'', c_int_type), (''padding'', Array uint8_t 36)]"

definition mess_krn_lsys_schedule :: fields where
  "mess_krn_lsys_schedule = [(''acnt_queue'', time_t), (''acnt_deqs'', c_unsigned_long),
     (''acnt_ipc_sync'', c_unsigned_long), (''acnt_ipc_async'', c_unsigned_long),
     (''acnt_preempt'', c_unsigned_long), (''acnt_cpu'', uint32_t), (''acnt_cpu_load'', uint32_t),
     (''padding'', Array uint8_t 24)]"

definition mess_krn_lsys_sys_devio :: fields where
  "mess_krn_lsys_sys_devio = [(''value'', uint32_t), (''padding'', Array uint8_t 52)]"

definition mess_krn_lsys_sys_fork :: fields where
  "mess_krn_lsys_sys_fork = [(''endpt'', endpoint_t), (''msgaddr'', vir_bytes),
     (''padding'', Array uint8_t 48)]"

definition mess_krn_lsys_sys_getwhoami :: fields where
  "mess_krn_lsys_sys_getwhoami = [(''endpt'', endpoint_t), (''privflags'', c_int_type),
     (''initflags'', c_int_type), (''name'', Array c_char 44)]"

definition mess_krn_lsys_sys_irqctl :: fields where
  "mess_krn_lsys_sys_irqctl = [(''hook_id'', c_int_type), (''padding'', Array uint8_t 52)]"

definition mess_krn_lsys_sys_times :: fields where
  "mess_krn_lsys_sys_times = [(''real_ticks'', clock_t), (''boot_ticks'', clock_t),
     (''user_time'', clock_t), (''system_time'', clock_t), (''boot_time'', time_t),
     (''padding'', Array uint8_t 32)]"

definition mess_krn_lsys_sys_trace :: fields where
  "mess_krn_lsys_sys_trace = [(''data'', c_long), (''padding'', Array uint8_t 52)]"

definition mess_krn_lsys_sys_umap :: fields where
  "mess_krn_lsys_sys_umap = [(''dst_addr'', phys_bytes), (''padding'', Array uint8_t 52)]"

definition mess_krn_lsys_sys_vumap :: fields where
  "mess_krn_lsys_sys_vumap = [(''pcount'', c_int_type), (''padding'', Array uint8_t 52)]"

definition mess_lbdev_lblockdriver_msg :: fields where
  "mess_lbdev_lblockdriver_msg = [(''pos'', off_t), (''minor'', c_int_type), (''id'', c_int_type),
     (''access'', c_int_type), (''count'', c_int_type), (''grant'', cp_grant_id_t),
     (''flags'', c_int_type), (''user'', endpoint_t), (''request'', c_unsigned_long),
     (''padding'', Array uint8_t 16)]"

definition mess_lblockdriver_lbdev_reply :: fields where
  "mess_lblockdriver_lbdev_reply = [(''status'', c_int_type), (''id'', c_int_type),
     (''padding'', Array uint8_t 48)]"

definition mess_lc_ipc_semctl :: fields where
  "mess_lc_ipc_semctl = [(''id'', c_int_type), (''num'', c_int_type), (''cmd'', c_int_type),
     (''opt'', vir_bytes), (''ret'', c_int_type), (''padding'', Array uint8_t 36)]"

definition mess_lc_ipc_semget :: fields where
  "mess_lc_ipc_semget = [(''key'', key_t), (''nr'', c_int_type), (''flag'', c_int_type),
     (''retid'', c_int_type), (''padding'', Array uint8_t 40)]"

definition mess_lc_ipc_semop :: fields where
  "mess_lc_ipc_semop = [(''id'', c_int_type), (''ops'', c_pointer), (''size'', c_unsigned_int),
     (''padding'', Array uint8_t 42)]"

definition mess_lc_ipc_shmat :: fields where
  "mess_lc_ipc_shmat = [(''id'', c_int_type), (''addr'', c_pointer), (''flag'', c_int_type),
     (''retaddr'', c_pointer), (''padding'', Array uint8_t 40)]"

definition mess_lc_ipc_shmctl :: fields where
  "mess_lc_ipc_shmctl = [(''id'', c_int_type), (''cmd'', c_int_type), (''buf'', c_pointer),
     (''ret'', c_int_type), (''padding'', Array uint8_t 40)]"

definition mess_lc_ipc_shmdt :: fields where
  "mess_lc_ipc_shmdt = [(''addr'', c_pointer), (''padding'', Array uint8_t 52)]"

definition mess_lc_ipc_shmget :: fields where
  "mess_lc_ipc_shmget = [(''key'', key_t), (''size'', size_t), (''flag'', c_int_type),
     (''retid'', c_int_type), (''padding'', Array uint8_t 40)]"

definition mess_lc_mib_sysctl :: fields where
  "mess_lc_mib_sysctl = [(''oldp'', vir_bytes), (''oldlen'', size_t), (''newp'', vir_bytes),
     (''newlen'', size_t), (''namelen'', c_unsigned_int), (''namep'', vir_bytes),
     (''name'', Array c_int_type CTL_SHORTNAME)]"

definition mess_lc_pm_exec :: fields where
  "mess_lc_pm_exec = [(''name'', vir_bytes), (''namelen'', size_t), (''frame'', vir_bytes),
     (''framelen'', size_t), (''ps_str'', vir_bytes), (''padding'', Array uint8_t 36)]"

definition mess_lc_pm_exit :: fields where
  "mess_lc_pm_exit = [(''status'', c_int_type), (''padding'', Array uint8_t 52)]"

definition mess_lc_pm_getsid :: fields where
  "mess_lc_pm_getsid = [(''pid'', pid_t), (''padding'', Array uint8_t 52)]"

definition mess_lc_pm_groups :: fields where
  "mess_lc_pm_groups = [(''num'', c_int_type), (''ptr'', vir_bytes), (''padding'', Array uint8_t 48)]"

definition mess_lc_pm_itimer :: fields where
  "mess_lc_pm_itimer = [(''which'', c_int_type), (''value'', vir_bytes), (''ovalue'', vir_bytes),
     (''padding'', Array uint8_t 44)]"

definition mess_lc_pm_mcontext :: fields where
  "mess_lc_pm_mcontext = [(''ctx'', vir_bytes), (''padding'', Array uint8_t 52)]"

definition mess_lc_pm_priority :: fields where
  "mess_lc_pm_priority = [(''which'', c_int_type), (''who'', c_int_type), (''prio'', c_int_type),
     (''padding'', Array uint8_t 44)]"

definition mess_lc_pm_ptrace :: fields where
  "mess_lc_pm_ptrace = [(''pid'', pid_t), (''req'', c_int_type), (''addr'', vir_bytes),
     (''data'', c_long), (''padding'', Array uint8_t 40)]"

definition mess_lc_pm_reboot :: fields where
  "mess_lc_pm_reboot = [(''how'', c_int_type), (''padding'', Array uint8_t 52)]"

definition mess_lc_pm_rusage :: fields where
  "mess_lc_pm_rusage = [(''who'', endpoint_t), (''addr'', vir_bytes),
     (''padding'', Array uint8_t 48)]"

definition mess_lc_pm_setgid :: fields where
  "mess_lc_pm_setgid = [(''gid'', gid_t), (''padding'', Array uint8_t 52)]"

definition mess_lc_pm_setuid :: fields where
  "mess_lc_pm_setuid = [(''uid'', uid_t), (''padding'', Array uint8_t 52)]"

definition mess_lc_pm_sig :: fields where
  "mess_lc_pm_sig = [(''pid'', pid_t), (''nr'', c_int_type), (''act'', vir_bytes),
     (''oact'', vir_bytes), (''ret'', vir_bytes), (''padding'', Array uint8_t 36)]"

definition mess_lc_pm_sigset :: fields where
  "mess_lc_pm_sigset = [(''how'', c_int_type), (''ctx'', vir_bytes), (''set'', sigset_t),
     (''padding'', Array uint8_t 32)]"

definition mess_lc_pm_sprof :: fields where
  "mess_lc_pm_sprof = [(''action'', c_int_type), (''freq'', c_int_type),
     (''intr_type'', c_int_type), (''ctl_ptr'', vir_bytes), (''mem_ptr'', vir_bytes),
     (''mem_size'', size_t), (''padding'', Array uint8_t 32)]"

definition mess_lc_pm_sysuname :: fields where
  "mess_lc_pm_sysuname = [(''req'', c_int_type), (''field'', c_int_type), (''len'', size_t),
     (''value'', vir_bytes), (''padding'', Array uint8_t 40)]"

definition mess_lc_pm_time :: fields where
  "mess_lc_pm_time = [(''sec'', time_t), (''clk_id'', clockid_t), (''now'', c_int_type),
     (''nsec'', c_long), (''padding'', Array uint8_t 36)]"

text \<open>The formats of this file by name.\<close>

definition message_formats_1 :: "(string \<times> fields) list" where
  "message_formats_1 = [(''mess_u8'', mess_u8), (''mess_u16'', mess_u16), (''mess_u32'', mess_u32),
     (''mess_u64'', mess_u64), (''mess_1'', mess_1), (''mess_2'', mess_2), (''mess_3'', mess_3),
     (''mess_4'', mess_4), (''mess_7'', mess_7), (''mess_9'', mess_9), (''mess_10'', mess_10),
     (''mess_ds_reply'', mess_ds_reply), (''mess_ds_req'', mess_ds_req),
     (''mess_fs_vfs_breadwrite'', mess_fs_vfs_breadwrite),
     (''mess_fs_vfs_chmod'', mess_fs_vfs_chmod), (''mess_fs_vfs_chown'', mess_fs_vfs_chown),
     (''mess_fs_vfs_create'', mess_fs_vfs_create), (''mess_fs_vfs_getdents'', mess_fs_vfs_getdents),
     (''mess_fs_vfs_lookup'', mess_fs_vfs_lookup), (''mess_fs_vfs_newnode'', mess_fs_vfs_newnode),
     (''mess_fs_vfs_rdlink'', mess_fs_vfs_rdlink),
     (''mess_fs_vfs_readsuper'', mess_fs_vfs_readsuper),
     (''mess_fs_vfs_readwrite'', mess_fs_vfs_readwrite),
     (''mess_i2c_li2cdriver_busc_i2c_exec'', mess_i2c_li2cdriver_busc_i2c_exec),
     (''mess_i2c_li2cdriver_busc_i2c_reserve'', mess_i2c_li2cdriver_busc_i2c_reserve),
     (''mess_input_linputdriver_input_conf'', mess_input_linputdriver_input_conf),
     (''mess_input_linputdriver_setleds'', mess_input_linputdriver_setleds),
     (''mess_input_tty_event'', mess_input_tty_event),
     (''mess_krn_lsys_schedule'', mess_krn_lsys_schedule),
     (''mess_krn_lsys_sys_devio'', mess_krn_lsys_sys_devio),
     (''mess_krn_lsys_sys_fork'', mess_krn_lsys_sys_fork),
     (''mess_krn_lsys_sys_getwhoami'', mess_krn_lsys_sys_getwhoami),
     (''mess_krn_lsys_sys_irqctl'', mess_krn_lsys_sys_irqctl),
     (''mess_krn_lsys_sys_times'', mess_krn_lsys_sys_times),
     (''mess_krn_lsys_sys_trace'', mess_krn_lsys_sys_trace),
     (''mess_krn_lsys_sys_umap'', mess_krn_lsys_sys_umap),
     (''mess_krn_lsys_sys_vumap'', mess_krn_lsys_sys_vumap),
     (''mess_lbdev_lblockdriver_msg'', mess_lbdev_lblockdriver_msg),
     (''mess_lblockdriver_lbdev_reply'', mess_lblockdriver_lbdev_reply),
     (''mess_lc_ipc_semctl'', mess_lc_ipc_semctl), (''mess_lc_ipc_semget'', mess_lc_ipc_semget),
     (''mess_lc_ipc_semop'', mess_lc_ipc_semop), (''mess_lc_ipc_shmat'', mess_lc_ipc_shmat),
     (''mess_lc_ipc_shmctl'', mess_lc_ipc_shmctl), (''mess_lc_ipc_shmdt'', mess_lc_ipc_shmdt),
     (''mess_lc_ipc_shmget'', mess_lc_ipc_shmget), (''mess_lc_mib_sysctl'', mess_lc_mib_sysctl),
     (''mess_lc_pm_exec'', mess_lc_pm_exec), (''mess_lc_pm_exit'', mess_lc_pm_exit),
     (''mess_lc_pm_getsid'', mess_lc_pm_getsid), (''mess_lc_pm_groups'', mess_lc_pm_groups),
     (''mess_lc_pm_itimer'', mess_lc_pm_itimer), (''mess_lc_pm_mcontext'', mess_lc_pm_mcontext),
     (''mess_lc_pm_priority'', mess_lc_pm_priority), (''mess_lc_pm_ptrace'', mess_lc_pm_ptrace),
     (''mess_lc_pm_reboot'', mess_lc_pm_reboot), (''mess_lc_pm_rusage'', mess_lc_pm_rusage),
     (''mess_lc_pm_setgid'', mess_lc_pm_setgid), (''mess_lc_pm_setuid'', mess_lc_pm_setuid),
     (''mess_lc_pm_sig'', mess_lc_pm_sig), (''mess_lc_pm_sigset'', mess_lc_pm_sigset),
     (''mess_lc_pm_sprof'', mess_lc_pm_sprof), (''mess_lc_pm_sysuname'', mess_lc_pm_sysuname),
     (''mess_lc_pm_time'', mess_lc_pm_time)]"

text \<open>They all have the size of the payload.\<close>

lemma message_formats_1_size:
  "list_all (\<lambda>(_, fs). size_of (Struct fs) = 56) message_formats_1"
  by code_simp

end
