(* ===== verification/Message_Formats_2.thy ===== *)
theory Message_Formats_2
  imports Message_Types
begin

text \<open>
  Message formats of minix/ipc.h, in the order of the file, from mess_lc_pm_wait4 to mess_lsys_krn_sys_fork.
  Each is the list of its fields with their types; the unit of declaration is one struct.
\<close>

definition mess_lc_pm_wait4 :: fields where
  "mess_lc_pm_wait4 = [(''pid'', pid_t), (''options'', c_int_type), (''addr'', vir_bytes),
     (''padding'', Array uint8_t 44)]"

definition mess_lc_readclock_rtcdev :: fields where
  "mess_lc_readclock_rtcdev = [(''grant'', cp_grant_id_t), (''tm'', vir_bytes),
     (''flags'', c_int_type), (''padding'', Array uint8_t 44)]"

definition mess_lc_svrctl :: fields where
  "mess_lc_svrctl = [(''request'', c_unsigned_long), (''arg'', vir_bytes),
     (''padding'', Array uint8_t 48)]"

definition mess_lc_vfs_chown :: fields where
  "mess_lc_vfs_chown = [(''name'', vir_bytes), (''len'', size_t), (''fd'', c_int_type),
     (''owner'', uid_t), (''group'', gid_t), (''padding'', Array uint8_t 36)]"

definition mess_lc_vfs_close :: fields where
  "mess_lc_vfs_close = [(''fd'', c_int_type), (''nblock'', c_int_type),
     (''padding'', Array uint8_t 48)]"

definition mess_lc_vfs_creat :: fields where
  "mess_lc_vfs_creat = [(''name'', vir_bytes), (''len'', size_t), (''flags'', c_int_type),
     (''mode'', mode_t), (''padding'', Array uint8_t 40)]"

definition mess_lc_vfs_fchdir :: fields where
  "mess_lc_vfs_fchdir = [(''fd'', c_int_type), (''padding'', Array uint8_t 52)]"

definition mess_lc_vfs_fchmod :: fields where
  "mess_lc_vfs_fchmod = [(''fd'', c_int_type), (''mode'', mode_t), (''padding'', Array uint8_t 48)]"

definition mess_lc_vfs_fcntl :: fields where
  "mess_lc_vfs_fcntl = [(''fd'', c_int_type), (''cmd'', c_int_type), (''arg_int'', c_int_type),
     (''arg_ptr'', vir_bytes), (''padding'', Array uint8_t 40)]"

definition mess_lc_vfs_fstat :: fields where
  "mess_lc_vfs_fstat = [(''fd'', c_int_type), (''buf'', vir_bytes), (''padding'', Array uint8_t 48)]"

definition mess_lc_vfs_fsync :: fields where
  "mess_lc_vfs_fsync = [(''fd'', c_int_type), (''padding'', Array uint8_t 52)]"

definition mess_lc_vfs_gcov :: fields where
  "mess_lc_vfs_gcov = [(''labellen'', size_t), (''buflen'', size_t), (''label'', vir_bytes),
     (''buf'', vir_bytes), (''padding'', Array uint8_t 40)]"

definition mess_lc_vfs_getvfsstat :: fields where
  "mess_lc_vfs_getvfsstat = [(''flags'', int32_t), (''len'', size_t), (''buf'', vir_bytes),
     (''padding'', Array uint8_t 44)]"

definition mess_lc_vfs_ioctl :: fields where
  "mess_lc_vfs_ioctl = [(''fd'', c_int_type), (''req'', c_unsigned_long), (''arg'', vir_bytes),
     (''padding'', Array uint8_t 44)]"

definition mess_lc_vfs_link :: fields where
  "mess_lc_vfs_link = [(''name1'', vir_bytes), (''name2'', vir_bytes), (''len1'', size_t),
     (''len2'', size_t), (''padding'', Array uint8_t 40)]"

definition mess_lc_vfs_listen :: fields where
  "mess_lc_vfs_listen = [(''fd'', c_int_type), (''backlog'', c_int_type),
     (''padding'', Array u8_t 48)]"

definition mess_lc_vfs_lseek :: fields where
  "mess_lc_vfs_lseek = [(''offset'', off_t), (''fd'', c_int_type), (''whence'', c_int_type),
     (''padding'', Array uint8_t 40)]"

definition mess_lc_vfs_mknod :: fields where
  "mess_lc_vfs_mknod = [(''device'', dev_t), (''name'', vir_bytes), (''len'', size_t),
     (''mode'', mode_t), (''padding'', Array uint8_t 36)]"

definition mess_lc_vfs_mount :: fields where
  "mess_lc_vfs_mount = [(''flags'', c_int_type), (''devlen'', size_t), (''pathlen'', size_t),
     (''typelen'', size_t), (''labellen'', size_t), (''dev'', vir_bytes), (''path'', vir_bytes),
     (''type'', vir_bytes), (''label'', vir_bytes), (''padding'', Array uint8_t 20)]"

definition mess_lc_vfs_path :: fields where
  "mess_lc_vfs_path = [(''name'', vir_bytes), (''len'', size_t), (''flags'', c_int_type),
     (''mode'', mode_t), (''buf'', Array c_char M_PATH_STRING_MAX)]"

definition mess_lc_vfs_pipe2 :: fields where
  "mess_lc_vfs_pipe2 = [(''flags'', c_int_type), (''_unused'', c_int_type),
     (''oflags'', c_int_type), (''padding'', Array uint8_t 44)]"

definition mess_lc_vfs_readlink :: fields where
  "mess_lc_vfs_readlink = [(''name'', vir_bytes), (''namelen'', size_t), (''buf'', vir_bytes),
     (''bufsize'', size_t), (''padding'', Array uint8_t 40)]"

definition mess_lc_vfs_readwrite :: fields where
  "mess_lc_vfs_readwrite = [(''fd'', c_int_type), (''buf'', vir_bytes), (''len'', size_t),
     (''cum_io'', size_t), (''padding'', Array uint8_t 40)]"

definition mess_lc_vfs_select :: fields where
  "mess_lc_vfs_select = [(''nfds'', uint32_t), (''readfds'', c_pointer), (''writefds'', c_pointer),
     (''errorfds'', c_pointer), (''timeout'', vir_bytes), (''padding'', Array uint8_t 36)]"

definition mess_lc_vfs_sendrecv :: fields where
  "mess_lc_vfs_sendrecv = [(''fd'', c_int_type), (''buf'', vir_bytes), (''len'', size_t),
     (''flags'', c_int_type), (''addr'', vir_bytes), (''addr_len'', c_unsigned_int),
     (''padding'', Array uint8_t 32)]"

definition mess_lc_vfs_shutdown :: fields where
  "mess_lc_vfs_shutdown = [(''fd'', c_int_type), (''how'', c_int_type),
     (''padding'', Array uint8_t 48)]"

definition mess_lc_vfs_sockaddr :: fields where
  "mess_lc_vfs_sockaddr = [(''fd'', c_int_type), (''addr'', vir_bytes),
     (''addr_len'', c_unsigned_int), (''padding'', Array uint8_t 44)]"

definition mess_lc_vfs_socket :: fields where
  "mess_lc_vfs_socket = [(''domain'', c_int_type), (''type'', c_int_type),
     (''protocol'', c_int_type), (''padding'', Array uint8_t 44)]"

definition mess_lc_vfs_sockmsg :: fields where
  "mess_lc_vfs_sockmsg = [(''fd'', c_int_type), (''msgbuf'', vir_bytes), (''flags'', c_int_type),
     (''padding'', Array uint8_t 44)]"

definition mess_lc_vfs_sockopt :: fields where
  "mess_lc_vfs_sockopt = [(''fd'', c_int_type), (''level'', c_int_type), (''name'', c_int_type),
     (''buf'', vir_bytes), (''len'', c_unsigned_int), (''padding'', Array uint8_t 36)]"

definition mess_lc_vfs_stat :: fields where
  "mess_lc_vfs_stat = [(''len'', size_t), (''name'', vir_bytes), (''buf'', vir_bytes),
     (''padding'', Array uint8_t 44)]"

definition mess_lc_vfs_statvfs1 :: fields where
  "mess_lc_vfs_statvfs1 = [(''fd'', c_int_type), (''flags'', c_int_type), (''len'', size_t),
     (''name'', vir_bytes), (''buf'', vir_bytes), (''padding'', Array uint8_t 36)]"

definition mess_lc_vfs_truncate :: fields where
  "mess_lc_vfs_truncate = [(''offset'', off_t), (''fd'', c_int_type), (''name'', vir_bytes),
     (''len'', size_t), (''padding'', Array uint8_t 36)]"

definition mess_lc_vfs_umask :: fields where
  "mess_lc_vfs_umask = [(''mask'', mode_t), (''padding'', Array uint8_t 52)]"

definition mess_lc_vfs_umount :: fields where
  "mess_lc_vfs_umount = [(''name'', vir_bytes), (''namelen'', size_t), (''label'', vir_bytes),
     (''labellen'', size_t), (''padding'', Array uint8_t 40)]"

definition mess_lc_vm_brk :: fields where
  "mess_lc_vm_brk = [(''addr'', c_pointer), (''padding'', Array uint8_t 52)]"

definition mess_lc_vm_getphys :: fields where
  "mess_lc_vm_getphys = [(''endpt'', endpoint_t), (''addr'', c_pointer), (''ret_addr'', c_pointer),
     (''padding'', Array uint8_t 44)]"

definition mess_lc_vm_shm_unmap :: fields where
  "mess_lc_vm_shm_unmap = [(''forwhom'', endpoint_t), (''addr'', c_pointer),
     (''padding'', Array uint8_t 48)]"

definition mess_lchardriver_vfs_reply :: fields where
  "mess_lchardriver_vfs_reply = [(''status'', c_int_type), (''id'', uint32_t),
     (''padding'', Array uint8_t 48)]"

definition mess_lchardriver_vfs_sel1 :: fields where
  "mess_lchardriver_vfs_sel1 = [(''status'', c_int_type), (''minor'', int32_t),
     (''padding'', Array uint8_t 48)]"

definition mess_lchardriver_vfs_sel2 :: fields where
  "mess_lchardriver_vfs_sel2 = [(''status'', c_int_type), (''minor'', int32_t),
     (''padding'', Array uint8_t 48)]"

definition mess_lexec_pm_exec_new :: fields where
  "mess_lexec_pm_exec_new = [(''endpt'', endpoint_t), (''ptr'', vir_bytes),
     (''padding'', Array uint8_t 48)]"

definition mess_li2cdriver_i2c_busc_i2c_exec :: fields where
  "mess_li2cdriver_i2c_busc_i2c_exec = [(''grant'', cp_grant_id_t), (''padding'', Array uint8_t 52)]"

definition mess_li2cdriver_i2c_busc_i2c_reserve :: fields where
  "mess_li2cdriver_i2c_busc_i2c_reserve = [(''addr'', uint16_t), (''padding'', Array uint8_t 54)]"

definition mess_linputdriver_input_event :: fields where
  "mess_linputdriver_input_event = [(''id'', c_int_type), (''page'', c_int_type),
     (''code'', c_int_type), (''value'', c_int_type), (''flags'', c_int_type),
     (''padding'', Array uint8_t 36)]"

definition mess_lsockdriver_vfs_accept_reply :: fields where
  "mess_lsockdriver_vfs_accept_reply = [(''req_id'', int32_t), (''sock_id'', int32_t),
     (''status'', c_int_type), (''len'', c_unsigned_int), (''padding'', Array uint8_t 40)]"

definition mess_lsockdriver_vfs_recv_reply :: fields where
  "mess_lsockdriver_vfs_recv_reply = [(''req_id'', int32_t), (''status'', c_int_type),
     (''ctl_len'', c_unsigned_int), (''addr_len'', c_unsigned_int), (''flags'', c_int_type),
     (''padding'', Array uint8_t 36)]"

definition mess_lsockdriver_vfs_reply :: fields where
  "mess_lsockdriver_vfs_reply = [(''req_id'', int32_t), (''status'', c_int_type),
     (''padding'', Array uint8_t 48)]"

definition mess_lsockdriver_vfs_select_reply :: fields where
  "mess_lsockdriver_vfs_select_reply = [(''sock_id'', int32_t), (''status'', c_int_type),
     (''padding'', Array uint8_t 48)]"

definition mess_lsockdriver_vfs_socket_reply :: fields where
  "mess_lsockdriver_vfs_socket_reply = [(''req_id'', int32_t), (''sock_id'', int32_t),
     (''sock_id2'', int32_t), (''padding'', Array uint8_t 44)]"

definition mess_lsys_fi_ctl :: fields where
  "mess_lsys_fi_ctl = [(''gid'', cp_grant_id_t), (''size'', size_t), (''subtype'', c_int_type),
     (''padding'', Array uint8_t 44)]"

definition mess_lsys_fi_reply :: fields where
  "mess_lsys_fi_reply = [(''status'', c_int_type), (''padding'', Array uint8_t 52)]"

definition mess_lsys_getsysinfo :: fields where
  "mess_lsys_getsysinfo = [(''what'', c_int_type), (''where'', vir_bytes), (''size'', size_t),
     (''padding'', Array uint8_t 44)]"

definition mess_lsys_krn_readbios :: fields where
  "mess_lsys_krn_readbios = [(''size'', size_t), (''addr'', phys_bytes), (''buf'', vir_bytes),
     (''padding'', Array uint8_t 44)]"

definition mess_lsys_kern_safecopy :: fields where
  "mess_lsys_kern_safecopy = [(''from_to'', endpoint_t), (''gid'', cp_grant_id_t),
     (''offset'', size_t), (''address'', c_pointer), (''bytes'', size_t),
     (''padding'', Array uint8_t 36)]"

definition mess_lsys_krn_schedctl :: fields where
  "mess_lsys_krn_schedctl = [(''flags'', uint32_t), (''endpoint'', endpoint_t),
     (''priority'', c_int_type), (''quantum'', c_int_type), (''cpu'', c_int_type),
     (''padding'', Array uint8_t 36)]"

definition mess_lsys_krn_schedule :: fields where
  "mess_lsys_krn_schedule = [(''endpoint'', endpoint_t), (''quantum'', c_int_type),
     (''priority'', c_int_type), (''cpu'', c_int_type), (''niced'', c_int_type),
     (''padding'', Array uint8_t 36)]"

definition mess_lsys_krn_sys_abort :: fields where
  "mess_lsys_krn_sys_abort = [(''how'', c_int_type), (''padding'', Array uint8_t 52)]"

definition mess_lsys_krn_sys_clear :: fields where
  "mess_lsys_krn_sys_clear = [(''endpt'', endpoint_t), (''padding'', Array uint8_t 52)]"

definition mess_lsys_krn_sys_copy :: fields where
  "mess_lsys_krn_sys_copy = [(''src_endpt'', endpoint_t), (''src_addr'', vir_bytes),
     (''dst_endpt'', endpoint_t), (''dst_addr'', vir_bytes), (''nr_bytes'', phys_bytes),
     (''flags'', c_int_type), (''padding'', Array uint8_t 32)]"

definition mess_lsys_krn_sys_devio :: fields where
  "mess_lsys_krn_sys_devio = [(''request'', c_int_type), (''port'', c_int_type),
     (''value'', uint32_t), (''padding'', Array uint8_t 44)]"

definition mess_lsys_krn_sys_diagctl :: fields where
  "mess_lsys_krn_sys_diagctl = [(''code'', c_int_type), (''buf'', vir_bytes), (''len'', c_int_type),
     (''endpt'', endpoint_t), (''padding'', Array uint8_t 40)]"

definition mess_lsys_krn_sys_exec :: fields where
  "mess_lsys_krn_sys_exec = [(''endpt'', endpoint_t), (''ip'', vir_bytes), (''stack'', vir_bytes),
     (''name'', vir_bytes), (''ps_str'', vir_bytes), (''padding'', Array uint8_t 36)]"

definition mess_lsys_krn_sys_fork :: fields where
  "mess_lsys_krn_sys_fork = [(''endpt'', endpoint_t), (''slot'', endpoint_t), (''flags'', uint32_t),
     (''padding'', Array uint8_t 44)]"

text \<open>The formats of this file by name.\<close>

definition message_formats_2 :: "(string \<times> fields) list" where
  "message_formats_2 = [(''mess_lc_pm_wait4'', mess_lc_pm_wait4),
     (''mess_lc_readclock_rtcdev'', mess_lc_readclock_rtcdev), (''mess_lc_svrctl'', mess_lc_svrctl),
     (''mess_lc_vfs_chown'', mess_lc_vfs_chown), (''mess_lc_vfs_close'', mess_lc_vfs_close),
     (''mess_lc_vfs_creat'', mess_lc_vfs_creat), (''mess_lc_vfs_fchdir'', mess_lc_vfs_fchdir),
     (''mess_lc_vfs_fchmod'', mess_lc_vfs_fchmod), (''mess_lc_vfs_fcntl'', mess_lc_vfs_fcntl),
     (''mess_lc_vfs_fstat'', mess_lc_vfs_fstat), (''mess_lc_vfs_fsync'', mess_lc_vfs_fsync),
     (''mess_lc_vfs_gcov'', mess_lc_vfs_gcov), (''mess_lc_vfs_getvfsstat'', mess_lc_vfs_getvfsstat),
     (''mess_lc_vfs_ioctl'', mess_lc_vfs_ioctl), (''mess_lc_vfs_link'', mess_lc_vfs_link),
     (''mess_lc_vfs_listen'', mess_lc_vfs_listen), (''mess_lc_vfs_lseek'', mess_lc_vfs_lseek),
     (''mess_lc_vfs_mknod'', mess_lc_vfs_mknod), (''mess_lc_vfs_mount'', mess_lc_vfs_mount),
     (''mess_lc_vfs_path'', mess_lc_vfs_path), (''mess_lc_vfs_pipe2'', mess_lc_vfs_pipe2),
     (''mess_lc_vfs_readlink'', mess_lc_vfs_readlink),
     (''mess_lc_vfs_readwrite'', mess_lc_vfs_readwrite),
     (''mess_lc_vfs_select'', mess_lc_vfs_select), (''mess_lc_vfs_sendrecv'', mess_lc_vfs_sendrecv),
     (''mess_lc_vfs_shutdown'', mess_lc_vfs_shutdown),
     (''mess_lc_vfs_sockaddr'', mess_lc_vfs_sockaddr), (''mess_lc_vfs_socket'', mess_lc_vfs_socket),
     (''mess_lc_vfs_sockmsg'', mess_lc_vfs_sockmsg), (''mess_lc_vfs_sockopt'', mess_lc_vfs_sockopt),
     (''mess_lc_vfs_stat'', mess_lc_vfs_stat), (''mess_lc_vfs_statvfs1'', mess_lc_vfs_statvfs1),
     (''mess_lc_vfs_truncate'', mess_lc_vfs_truncate), (''mess_lc_vfs_umask'', mess_lc_vfs_umask),
     (''mess_lc_vfs_umount'', mess_lc_vfs_umount), (''mess_lc_vm_brk'', mess_lc_vm_brk),
     (''mess_lc_vm_getphys'', mess_lc_vm_getphys), (''mess_lc_vm_shm_unmap'', mess_lc_vm_shm_unmap),
     (''mess_lchardriver_vfs_reply'', mess_lchardriver_vfs_reply),
     (''mess_lchardriver_vfs_sel1'', mess_lchardriver_vfs_sel1),
     (''mess_lchardriver_vfs_sel2'', mess_lchardriver_vfs_sel2),
     (''mess_lexec_pm_exec_new'', mess_lexec_pm_exec_new),
     (''mess_li2cdriver_i2c_busc_i2c_exec'', mess_li2cdriver_i2c_busc_i2c_exec),
     (''mess_li2cdriver_i2c_busc_i2c_reserve'', mess_li2cdriver_i2c_busc_i2c_reserve),
     (''mess_linputdriver_input_event'', mess_linputdriver_input_event),
     (''mess_lsockdriver_vfs_accept_reply'', mess_lsockdriver_vfs_accept_reply),
     (''mess_lsockdriver_vfs_recv_reply'', mess_lsockdriver_vfs_recv_reply),
     (''mess_lsockdriver_vfs_reply'', mess_lsockdriver_vfs_reply),
     (''mess_lsockdriver_vfs_select_reply'', mess_lsockdriver_vfs_select_reply),
     (''mess_lsockdriver_vfs_socket_reply'', mess_lsockdriver_vfs_socket_reply),
     (''mess_lsys_fi_ctl'', mess_lsys_fi_ctl), (''mess_lsys_fi_reply'', mess_lsys_fi_reply),
     (''mess_lsys_getsysinfo'', mess_lsys_getsysinfo),
     (''mess_lsys_krn_readbios'', mess_lsys_krn_readbios),
     (''mess_lsys_kern_safecopy'', mess_lsys_kern_safecopy),
     (''mess_lsys_krn_schedctl'', mess_lsys_krn_schedctl),
     (''mess_lsys_krn_schedule'', mess_lsys_krn_schedule),
     (''mess_lsys_krn_sys_abort'', mess_lsys_krn_sys_abort),
     (''mess_lsys_krn_sys_clear'', mess_lsys_krn_sys_clear),
     (''mess_lsys_krn_sys_copy'', mess_lsys_krn_sys_copy),
     (''mess_lsys_krn_sys_devio'', mess_lsys_krn_sys_devio),
     (''mess_lsys_krn_sys_diagctl'', mess_lsys_krn_sys_diagctl),
     (''mess_lsys_krn_sys_exec'', mess_lsys_krn_sys_exec),
     (''mess_lsys_krn_sys_fork'', mess_lsys_krn_sys_fork)]"

text \<open>They all have the size of the payload.\<close>

lemma message_formats_2_size:
  "list_all (\<lambda>(_, fs). size_of (Struct fs) = 56) message_formats_2"
  by code_simp

end
