(* ===== verification/Message_Formats_3.thy ===== *)
theory Message_Formats_3
  imports Message_Types
begin

text \<open>
  Message formats of minix/ipc.h, in the order of the file, from mess_lsys_krn_sys_getinfo to mess_pm_lc_sigset.
  Each is the list of its fields with their types; the unit of declaration is one struct.
\<close>

definition mess_lsys_krn_sys_getinfo :: fields where
  "mess_lsys_krn_sys_getinfo = [(''request'', c_int_type), (''endpt'', endpoint_t),
     (''val_ptr'', vir_bytes), (''val_len'', c_int_type), (''val_ptr2'', vir_bytes),
     (''val_len2_e'', c_int_type), (''padding'', Array uint8_t 32)]"

definition mess_lsys_krn_sys_getmcontext :: fields where
  "mess_lsys_krn_sys_getmcontext = [(''endpt'', endpoint_t), (''ctx_ptr'', vir_bytes),
     (''padding'', Array uint8_t 48)]"

definition mess_lsys_krn_sys_iopenable :: fields where
  "mess_lsys_krn_sys_iopenable = [(''endpt'', endpoint_t), (''padding'', Array uint8_t 52)]"

definition mess_lsys_krn_sys_irqctl :: fields where
  "mess_lsys_krn_sys_irqctl = [(''request'', c_int_type), (''vector'', c_int_type),
     (''policy'', c_int_type), (''hook_id'', c_int_type), (''padding'', Array uint8_t 40)]"

definition mess_lsys_krn_sys_memset :: fields where
  "mess_lsys_krn_sys_memset = [(''base'', phys_bytes), (''count'', phys_bytes),
     (''pattern'', c_unsigned_long), (''process'', endpoint_t), (''padding'', Array uint8_t 40)]"

definition mess_lsys_krn_sys_privctl :: fields where
  "mess_lsys_krn_sys_privctl = [(''request'', c_int_type), (''endpt'', endpoint_t),
     (''arg_ptr'', vir_bytes), (''phys_start'', phys_bytes), (''phys_len'', phys_bytes),
     (''padding'', Array uint8_t 36)]"

definition mess_lsys_krn_sys_sdevio :: fields where
  "mess_lsys_krn_sys_sdevio = [(''request'', c_int_type), (''port'', c_long),
     (''vec_endpt'', endpoint_t), (''vec_addr'', phys_bytes), (''vec_size'', vir_bytes),
     (''offset'', vir_bytes), (''padding'', Array uint8_t 32)]"

definition mess_lsys_krn_sys_setalarm :: fields where
  "mess_lsys_krn_sys_setalarm = [(''exp_time'', clock_t), (''time_left'', clock_t),
     (''uptime'', clock_t), (''abs_time'', c_int_type), (''padding'', Array uint8_t 40)]"

definition mess_lsys_krn_sys_setgrant :: fields where
  "mess_lsys_krn_sys_setgrant = [(''addr'', vir_bytes), (''size'', c_int_type),
     (''padding'', Array uint8_t 48)]"

definition mess_lsys_krn_sys_setmcontext :: fields where
  "mess_lsys_krn_sys_setmcontext = [(''endpt'', endpoint_t), (''ctx_ptr'', vir_bytes),
     (''padding'', Array uint8_t 48)]"

definition mess_lsys_krn_sys_settime :: fields where
  "mess_lsys_krn_sys_settime = [(''sec'', time_t), (''nsec'', c_long), (''now'', c_int_type),
     (''clock_id'', clockid_t), (''padding'', Array uint8_t 36)]"

definition mess_lsys_krn_sys_sprof :: fields where
  "mess_lsys_krn_sys_sprof = [(''action'', c_int_type), (''freq'', c_int_type),
     (''intr_type'', c_int_type), (''endpt'', endpoint_t), (''ctl_ptr'', vir_bytes),
     (''mem_ptr'', vir_bytes), (''mem_size'', size_t), (''padding'', Array uint8_t 28)]"

definition mess_lsys_krn_sys_statectl :: fields where
  "mess_lsys_krn_sys_statectl = [(''request'', c_int_type), (''address'', c_pointer),
     (''length'', c_int_type), (''padding'', Array uint8_t 44)]"

definition mess_lsys_krn_sys_stime :: fields where
  "mess_lsys_krn_sys_stime = [(''boot_time'', time_t), (''padding'', Array uint8_t 48)]"

definition mess_lsys_krn_sys_times :: fields where
  "mess_lsys_krn_sys_times = [(''endpt'', endpoint_t), (''padding'', Array uint8_t 52)]"

definition mess_lsys_krn_sys_trace :: fields where
  "mess_lsys_krn_sys_trace = [(''request'', c_int_type), (''endpt'', endpoint_t),
     (''address'', vir_bytes), (''data'', c_long), (''padding'', Array uint8_t 40)]"

definition mess_lsys_krn_sys_umap :: fields where
  "mess_lsys_krn_sys_umap = [(''src_endpt'', endpoint_t), (''segment'', c_int_type),
     (''src_addr'', vir_bytes), (''dst_endpt'', endpoint_t), (''nr_bytes'', c_int_type),
     (''padding'', Array uint8_t 36)]"

definition mess_lsys_krn_sys_vdevio :: fields where
  "mess_lsys_krn_sys_vdevio = [(''request'', c_int_type), (''vec_size'', c_int_type),
     (''vec_addr'', vir_bytes), (''padding'', Array uint8_t 44)]"

definition mess_lsys_krn_sys_vumap :: fields where
  "mess_lsys_krn_sys_vumap = [(''endpt'', endpoint_t), (''vaddr'', vir_bytes),
     (''vcount'', c_int_type), (''paddr'', vir_bytes), (''pmax'', c_int_type),
     (''access'', c_int_type), (''offset'', size_t), (''padding'', Array uint8_t 28)]"

definition mess_lsys_kern_vsafecopy :: fields where
  "mess_lsys_kern_vsafecopy = [(''vec_addr'', c_pointer), (''vec_size'', c_int_type),
     (''padding'', Array uint8_t 48)]"

definition mess_lsys_mib_register :: fields where
  "mess_lsys_mib_register = [(''root_id'', uint32_t), (''flags'', uint32_t),
     (''csize'', c_unsigned_int), (''clen'', c_unsigned_int), (''miblen'', c_unsigned_int),
     (''mib'', Array c_int_type CTL_SHORTNAME), (''padding'', Array uint8_t 4)]"

definition mess_lsys_mib_reply :: fields where
  "mess_lsys_mib_reply = [(''req_id'', uint32_t), (''status'', ssize_t),
     (''padding'', Array uint8_t 48)]"

definition mess_lsys_pci_busc_get_bar :: fields where
  "mess_lsys_pci_busc_get_bar = [(''devind'', c_int_type), (''port'', c_int_type),
     (''padding'', Array uint8_t 48)]"

definition mess_lsys_pm_getepinfo :: fields where
  "mess_lsys_pm_getepinfo = [(''endpt'', endpoint_t), (''groups'', vir_bytes),
     (''ngroups'', c_int_type), (''padding'', Array uint8_t 44)]"

definition mess_lsys_pm_getprocnr :: fields where
  "mess_lsys_pm_getprocnr = [(''pid'', pid_t), (''padding'', Array uint8_t 52)]"

definition mess_lsys_pm_proceventmask :: fields where
  "mess_lsys_pm_proceventmask = [(''mask'', c_unsigned_int), (''padding'', Array uint8_t 52)]"

definition mess_lsys_pm_srv_fork :: fields where
  "mess_lsys_pm_srv_fork = [(''uid'', uid_t), (''gid'', gid_t), (''padding'', Array uint8_t 48)]"

definition mess_lsys_sched_scheduling_start :: fields where
  "mess_lsys_sched_scheduling_start = [(''endpoint'', endpoint_t), (''parent'', endpoint_t),
     (''maxprio'', c_int_type), (''quantum'', c_int_type), (''padding'', Array uint8_t 40)]"

definition mess_lsys_sched_scheduling_stop :: fields where
  "mess_lsys_sched_scheduling_stop = [(''endpoint'', endpoint_t), (''padding'', Array uint8_t 52)]"

definition mess_lsys_tty_fkey_ctl :: fields where
  "mess_lsys_tty_fkey_ctl = [(''request'', c_int_type), (''fkeys'', c_int_type),
     (''sfkeys'', c_int_type), (''padding'', Array uint8_t 44)]"

definition mess_lsys_vfs_copyfd :: fields where
  "mess_lsys_vfs_copyfd = [(''endpt'', endpoint_t), (''fd'', c_int_type), (''what'', c_int_type),
     (''padding'', Array uint8_t 44)]"

definition mess_lsys_vfs_mapdriver :: fields where
  "mess_lsys_vfs_mapdriver = [(''major'', devmajor_t), (''labellen'', size_t),
     (''label'', vir_bytes), (''ndomains'', c_int_type), (''domains'', Array c_int_type NR_DOMAIN),
     (''padding'', Array uint8_t 8)]"

definition mess_lsys_vfs_socketpath :: fields where
  "mess_lsys_vfs_socketpath = [(''endpt'', endpoint_t), (''grant'', cp_grant_id_t),
     (''count'', size_t), (''what'', c_int_type), (''padding'', Array uint8_t 40)]"

definition mess_lsys_vm_getref :: fields where
  "mess_lsys_vm_getref = [(''endpt'', endpoint_t), (''addr'', c_pointer), (''retc'', c_int_type),
     (''padding'', Array uint8_t 44)]"

definition mess_lsys_vm_info :: fields where
  "mess_lsys_vm_info = [(''what'', c_int_type), (''ep'', endpoint_t), (''count'', c_int_type),
     (''ptr'', c_pointer), (''next'', vir_bytes), (''padding'', Array uint8_t 36)]"

definition mess_lsys_vm_map_phys :: fields where
  "mess_lsys_vm_map_phys = [(''ep'', endpoint_t), (''phaddr'', phys_bytes), (''len'', size_t),
     (''reply'', c_pointer), (''padding'', Array uint8_t 40)]"

definition mess_lsys_vm_rusage :: fields where
  "mess_lsys_vm_rusage = [(''endpt'', endpoint_t), (''addr'', vir_bytes),
     (''children'', c_int_type), (''padding'', Array uint8_t 44)]"

definition mess_lsys_vm_unmap_phys :: fields where
  "mess_lsys_vm_unmap_phys = [(''ep'', endpoint_t), (''vaddr'', c_pointer),
     (''padding'', Array uint8_t 48)]"

definition mess_lsys_vm_update :: fields where
  "mess_lsys_vm_update = [(''src'', endpoint_t), (''dst'', endpoint_t), (''flags'', c_int_type),
     (''padding'', Array uint8_t 44)]"

definition mess_lsys_vm_vmremap :: fields where
  "mess_lsys_vm_vmremap = [(''destination'', endpoint_t), (''source'', endpoint_t),
     (''dest_addr'', c_pointer), (''src_addr'', c_pointer), (''size'', size_t),
     (''ret_addr'', c_pointer), (''padding'', Array uint8_t 32)]"

definition mess_mib_lc_sysctl :: fields where
  "mess_mib_lc_sysctl = [(''oldlen'', size_t), (''padding'', Array uint8_t 52)]"

definition mess_mib_lsys_call :: fields where
  "mess_mib_lsys_call = [(''req_id'', uint32_t), (''root_id'', uint32_t),
     (''name_grant'', cp_grant_id_t), (''name_len'', c_unsigned_int),
     (''oldp_grant'', cp_grant_id_t), (''oldp_len'', size_t), (''newp_grant'', cp_grant_id_t),
     (''newp_len'', size_t), (''user_endpt'', endpoint_t), (''flags'', uint32_t),
     (''root_ver'', uint32_t), (''tree_ver'', uint32_t), (''padding'', Array uint8_t 8)]"

definition mess_mib_lsys_info :: fields where
  "mess_mib_lsys_info = [(''req_id'', uint32_t), (''root_id'', uint32_t),
     (''name_grant'', cp_grant_id_t), (''name_size'', size_t), (''desc_grant'', cp_grant_id_t),
     (''desc_size'', size_t), (''padding'', Array uint8_t 32)]"

definition mess_mmap :: fields where
  "mess_mmap = [(''offset'', off_t), (''addr'', c_pointer), (''len'', size_t),
     (''prot'', c_int_type), (''flags'', c_int_type), (''fd'', c_int_type),
     (''forwhom'', endpoint_t), (''retaddr'', c_pointer), (''padding'', Array u32_t 5)]"

definition mess_ndev_netdriver_init :: fields where
  "mess_ndev_netdriver_init = [(''id'', uint32_t), (''padding'', Array uint8_t 52)]"

definition mess_ndev_netdriver_conf :: fields where
  "mess_ndev_netdriver_conf = [(''id'', uint32_t), (''set'', uint32_t), (''mode'', uint32_t),
     (''mcast_grant'', cp_grant_id_t), (''mcast_count'', c_unsigned_int), (''caps'', uint32_t),
     (''flags'', uint32_t), (''media'', uint32_t), (''hwaddr'', Array uint8_t NDEV_HWADDR_MAX),
     (''padding'', Array uint8_t 18)]"

definition mess_ndev_netdriver_transfer :: fields where
  "mess_ndev_netdriver_transfer = [(''id'', uint32_t), (''count'', uint32_t),
     (''grant'', Array cp_grant_id_t NDEV_IOV_MAX), (''len'', Array uint16_t NDEV_IOV_MAX)]"

definition mess_ndev_netdriver_status_reply :: fields where
  "mess_ndev_netdriver_status_reply = [(''id'', uint32_t), (''padding'', Array uint8_t 52)]"

definition mess_netdriver_ndev_init_reply :: fields where
  "mess_netdriver_ndev_init_reply = [(''id'', uint32_t), (''link'', uint32_t),
     (''media'', uint32_t), (''caps'', uint32_t), (''name'', Array c_char NDEV_NAME_MAX),
     (''hwaddr'', Array uint8_t NDEV_HWADDR_MAX), (''hwaddr_len'', uint8_t),
     (''max_send'', uint8_t), (''max_recv'', uint8_t), (''padding'', Array uint8_t 15)]"

definition mess_netdriver_ndev_reply :: fields where
  "mess_netdriver_ndev_reply = [(''id'', uint32_t), (''result'', int32_t),
     (''padding'', Array uint8_t 48)]"

definition mess_netdriver_ndev_status :: fields where
  "mess_netdriver_ndev_status = [(''id'', uint32_t), (''link'', uint32_t), (''media'', uint32_t),
     (''oerror'', uint32_t), (''coll'', uint32_t), (''ierror'', uint32_t), (''iqdrop'', uint32_t),
     (''padding'', Array uint8_t 28)]"

definition mess_net_netdrv_dl_conf :: fields where
  "mess_net_netdrv_dl_conf = [(''mode'', c_int_type), (''padding'', Array uint8_t 52)]"

definition mess_net_netdrv_dl_getstat_s :: fields where
  "mess_net_netdrv_dl_getstat_s = [(''grant'', cp_grant_id_t), (''padding'', Array uint8_t 52)]"

definition mess_net_netdrv_dl_readv_s :: fields where
  "mess_net_netdrv_dl_readv_s = [(''grant'', cp_grant_id_t), (''count'', c_int_type),
     (''padding'', Array uint8_t 48)]"

definition mess_net_netdrv_dl_writev_s :: fields where
  "mess_net_netdrv_dl_writev_s = [(''grant'', cp_grant_id_t), (''count'', c_int_type),
     (''padding'', Array uint8_t 48)]"

definition mess_netdrv_net_dl_conf :: fields where
  "mess_netdrv_net_dl_conf = [(''stat'', c_int_type), (''hw_addr'', Array uint8_t 6),
     (''padding'', Array uint8_t 46)]"

definition mess_netdrv_net_dl_task :: fields where
  "mess_netdrv_net_dl_task = [(''count'', c_int_type), (''flags'', uint32_t),
     (''padding'', Array uint8_t 48)]"

definition mess_notify :: fields where
  "mess_notify = [(''timestamp'', u64_t), (''interrupts'', u64_t), (''sigset'', sigset_t),
     (''padding'', Array uint8_t 24)]"

definition mess_pci_lsys_busc_get_bar :: fields where
  "mess_pci_lsys_busc_get_bar = [(''base'', c_int_type), (''size'', size_t), (''flags'', uint32_t),
     (''padding'', Array uint8_t 44)]"

definition mess_pm_lc_getgid :: fields where
  "mess_pm_lc_getgid = [(''egid'', uid_t), (''padding'', Array uint8_t 52)]"

definition mess_pm_lc_getpid :: fields where
  "mess_pm_lc_getpid = [(''parent_pid'', pid_t), (''padding'', Array uint8_t 52)]"

definition mess_pm_lc_getuid :: fields where
  "mess_pm_lc_getuid = [(''euid'', uid_t), (''padding'', Array uint8_t 52)]"

definition mess_pm_lc_ptrace :: fields where
  "mess_pm_lc_ptrace = [(''data'', c_long), (''padding'', Array uint8_t 52)]"

definition mess_pm_lc_sigset :: fields where
  "mess_pm_lc_sigset = [(''set'', sigset_t), (''padding'', Array uint8_t 40)]"

text \<open>The formats of this file by name.\<close>

definition message_formats_3 :: "(string \<times> fields) list" where
  "message_formats_3 = [(''mess_lsys_krn_sys_getinfo'', mess_lsys_krn_sys_getinfo),
     (''mess_lsys_krn_sys_getmcontext'', mess_lsys_krn_sys_getmcontext),
     (''mess_lsys_krn_sys_iopenable'', mess_lsys_krn_sys_iopenable),
     (''mess_lsys_krn_sys_irqctl'', mess_lsys_krn_sys_irqctl),
     (''mess_lsys_krn_sys_memset'', mess_lsys_krn_sys_memset),
     (''mess_lsys_krn_sys_privctl'', mess_lsys_krn_sys_privctl),
     (''mess_lsys_krn_sys_sdevio'', mess_lsys_krn_sys_sdevio),
     (''mess_lsys_krn_sys_setalarm'', mess_lsys_krn_sys_setalarm),
     (''mess_lsys_krn_sys_setgrant'', mess_lsys_krn_sys_setgrant),
     (''mess_lsys_krn_sys_setmcontext'', mess_lsys_krn_sys_setmcontext),
     (''mess_lsys_krn_sys_settime'', mess_lsys_krn_sys_settime),
     (''mess_lsys_krn_sys_sprof'', mess_lsys_krn_sys_sprof),
     (''mess_lsys_krn_sys_statectl'', mess_lsys_krn_sys_statectl),
     (''mess_lsys_krn_sys_stime'', mess_lsys_krn_sys_stime),
     (''mess_lsys_krn_sys_times'', mess_lsys_krn_sys_times),
     (''mess_lsys_krn_sys_trace'', mess_lsys_krn_sys_trace),
     (''mess_lsys_krn_sys_umap'', mess_lsys_krn_sys_umap),
     (''mess_lsys_krn_sys_vdevio'', mess_lsys_krn_sys_vdevio),
     (''mess_lsys_krn_sys_vumap'', mess_lsys_krn_sys_vumap),
     (''mess_lsys_kern_vsafecopy'', mess_lsys_kern_vsafecopy),
     (''mess_lsys_mib_register'', mess_lsys_mib_register),
     (''mess_lsys_mib_reply'', mess_lsys_mib_reply),
     (''mess_lsys_pci_busc_get_bar'', mess_lsys_pci_busc_get_bar),
     (''mess_lsys_pm_getepinfo'', mess_lsys_pm_getepinfo),
     (''mess_lsys_pm_getprocnr'', mess_lsys_pm_getprocnr),
     (''mess_lsys_pm_proceventmask'', mess_lsys_pm_proceventmask),
     (''mess_lsys_pm_srv_fork'', mess_lsys_pm_srv_fork),
     (''mess_lsys_sched_scheduling_start'', mess_lsys_sched_scheduling_start),
     (''mess_lsys_sched_scheduling_stop'', mess_lsys_sched_scheduling_stop),
     (''mess_lsys_tty_fkey_ctl'', mess_lsys_tty_fkey_ctl),
     (''mess_lsys_vfs_copyfd'', mess_lsys_vfs_copyfd),
     (''mess_lsys_vfs_mapdriver'', mess_lsys_vfs_mapdriver),
     (''mess_lsys_vfs_socketpath'', mess_lsys_vfs_socketpath),
     (''mess_lsys_vm_getref'', mess_lsys_vm_getref), (''mess_lsys_vm_info'', mess_lsys_vm_info),
     (''mess_lsys_vm_map_phys'', mess_lsys_vm_map_phys),
     (''mess_lsys_vm_rusage'', mess_lsys_vm_rusage),
     (''mess_lsys_vm_unmap_phys'', mess_lsys_vm_unmap_phys),
     (''mess_lsys_vm_update'', mess_lsys_vm_update),
     (''mess_lsys_vm_vmremap'', mess_lsys_vm_vmremap), (''mess_mib_lc_sysctl'', mess_mib_lc_sysctl),
     (''mess_mib_lsys_call'', mess_mib_lsys_call), (''mess_mib_lsys_info'', mess_mib_lsys_info),
     (''mess_mmap'', mess_mmap), (''mess_ndev_netdriver_init'', mess_ndev_netdriver_init),
     (''mess_ndev_netdriver_conf'', mess_ndev_netdriver_conf),
     (''mess_ndev_netdriver_transfer'', mess_ndev_netdriver_transfer),
     (''mess_ndev_netdriver_status_reply'', mess_ndev_netdriver_status_reply),
     (''mess_netdriver_ndev_init_reply'', mess_netdriver_ndev_init_reply),
     (''mess_netdriver_ndev_reply'', mess_netdriver_ndev_reply),
     (''mess_netdriver_ndev_status'', mess_netdriver_ndev_status),
     (''mess_net_netdrv_dl_conf'', mess_net_netdrv_dl_conf),
     (''mess_net_netdrv_dl_getstat_s'', mess_net_netdrv_dl_getstat_s),
     (''mess_net_netdrv_dl_readv_s'', mess_net_netdrv_dl_readv_s),
     (''mess_net_netdrv_dl_writev_s'', mess_net_netdrv_dl_writev_s),
     (''mess_netdrv_net_dl_conf'', mess_netdrv_net_dl_conf),
     (''mess_netdrv_net_dl_task'', mess_netdrv_net_dl_task), (''mess_notify'', mess_notify),
     (''mess_pci_lsys_busc_get_bar'', mess_pci_lsys_busc_get_bar),
     (''mess_pm_lc_getgid'', mess_pm_lc_getgid), (''mess_pm_lc_getpid'', mess_pm_lc_getpid),
     (''mess_pm_lc_getuid'', mess_pm_lc_getuid), (''mess_pm_lc_ptrace'', mess_pm_lc_ptrace),
     (''mess_pm_lc_sigset'', mess_pm_lc_sigset)]"

text \<open>They all have the size of the payload.\<close>

lemma message_formats_3_size:
  "list_all (\<lambda>(_, fs). size_of (Struct fs) = 56) message_formats_3"
  by code_simp

end
