(* ===== verification/Message_Formats_4.thy ===== *)
theory Message_Formats_4
  imports Message_Types
begin

text \<open>
  Message formats of minix/ipc.h, in the order of the file, from mess_pm_lc_time to mess_vmmcp_reply.
  Each is the list of its fields with their types; the unit of declaration is one struct.
\<close>

definition mess_pm_lc_time :: fields where
  "mess_pm_lc_time = [(''sec'', time_t), (''nsec'', c_long), (''padding'', Array uint8_t 44)]"

definition mess_pm_lc_wait4 :: fields where
  "mess_pm_lc_wait4 = [(''status'', c_int_type), (''padding'', Array uint8_t 52)]"

definition mess_pm_lexec_exec_new :: fields where
  "mess_pm_lexec_exec_new = [(''suid'', c_int_type), (''padding'', Array uint8_t 52)]"

definition mess_pm_lsys_getepinfo :: fields where
  "mess_pm_lsys_getepinfo = [(''uid'', uid_t), (''euid'', uid_t), (''gid'', gid_t),
     (''egid'', gid_t), (''ngroups'', c_int_type), (''padding'', Array uint8_t 36)]"

definition mess_pm_lsys_getprocnr :: fields where
  "mess_pm_lsys_getprocnr = [(''endpt'', endpoint_t), (''padding'', Array uint8_t 52)]"

definition mess_pm_lsys_proc_event :: fields where
  "mess_pm_lsys_proc_event = [(''endpt'', endpoint_t), (''event'', c_unsigned_int),
     (''padding'', Array uint8_t 48)]"

definition mess_pm_lsys_sigs_signal :: fields where
  "mess_pm_lsys_sigs_signal = [(''num'', c_int_type), (''padding'', Array uint8_t 52)]"

definition mess_pm_sched_scheduling_set_nice :: fields where
  "mess_pm_sched_scheduling_set_nice = [(''endpoint'', endpoint_t), (''maxprio'', uint32_t),
     (''padding'', Array uint8_t 48)]"

definition mess_pty_ptyfs_req :: fields where
  "mess_pty_ptyfs_req = [(''dev'', dev_t), (''mode'', mode_t), (''uid'', uid_t), (''gid'', gid_t),
     (''index'', uint32_t), (''padding'', Array uint8_t 32)]"

definition mess_ptyfs_pty_name :: fields where
  "mess_ptyfs_pty_name = [(''name'', Array c_char 20), (''padding'', Array uint8_t 36)]"

definition mess_readclock_lc_rtcdev :: fields where
  "mess_readclock_lc_rtcdev = [(''status'', c_int_type), (''padding'', Array uint8_t 52)]"

definition mess_rs_init :: fields where
  "mess_rs_init = [(''result'', c_int_type), (''type'', c_int_type),
     (''rproctab_gid'', cp_grant_id_t), (''old_endpoint'', endpoint_t), (''restarts'', c_int_type),
     (''flags'', c_int_type), (''buff_addr'', vir_bytes), (''buff_len'', size_t),
     (''prepare_state'', c_int_type), (''padding'', Array uint8_t 20)]"

definition mess_rs_pm_exec_restart :: fields where
  "mess_rs_pm_exec_restart = [(''endpt'', endpoint_t), (''result'', c_int_type),
     (''pc'', vir_bytes), (''ps_str'', vir_bytes), (''padding'', Array uint8_t 40)]"

definition mess_rs_pm_srv_kill :: fields where
  "mess_rs_pm_srv_kill = [(''pid'', pid_t), (''nr'', c_int_type), (''padding'', Array uint8_t 48)]"

definition mess_rs_req :: fields where
  "mess_rs_req = [(''len'', c_int_type), (''name_len'', c_int_type), (''endpoint'', endpoint_t),
     (''addr'', c_pointer), (''name'', c_pointer), (''subtype'', c_int_type),
     (''padding'', Array uint8_t 32)]"

definition mess_rs_update :: fields where
  "mess_rs_update = [(''result'', c_int_type), (''state'', c_int_type),
     (''prepare_maxtime'', c_int_type), (''flags'', c_int_type), (''state_data_gid'', gid_t),
     (''padding'', Array uint8_t 36)]"

definition mess_sched_lsys_scheduling_start :: fields where
  "mess_sched_lsys_scheduling_start = [(''scheduler'', endpoint_t), (''padding'', Array uint8_t 52)]"

definition mess_sigcalls :: fields where
  "mess_sigcalls = [(''map'', sigset_t), (''endpt'', endpoint_t), (''sig'', c_int_type),
     (''sigctx'', c_pointer), (''padding'', Array uint8_t 28)]"

definition mess_tty_lsys_fkey_ctl :: fields where
  "mess_tty_lsys_fkey_ctl = [(''fkeys'', c_int_type), (''sfkeys'', c_int_type),
     (''padding'', Array uint8_t 48)]"

definition mess_vfs_fs_breadwrite :: fields where
  "mess_vfs_fs_breadwrite = [(''device'', dev_t), (''seek_pos'', off_t), (''grant'', cp_grant_id_t),
     (''nbytes'', size_t), (''data'', Array uint8_t 32)]"

definition mess_vfs_fs_chmod :: fields where
  "mess_vfs_fs_chmod = [(''inode'', ino_t), (''mode'', mode_t), (''data'', Array uint8_t 44)]"

definition mess_vfs_fs_chown :: fields where
  "mess_vfs_fs_chown = [(''inode'', ino_t), (''uid'', uid_t), (''gid'', gid_t),
     (''data'', Array uint8_t 40)]"

definition mess_vfs_fs_create :: fields where
  "mess_vfs_fs_create = [(''inode'', ino_t), (''mode'', mode_t), (''uid'', uid_t), (''gid'', gid_t),
     (''grant'', cp_grant_id_t), (''path_len'', size_t), (''data'', Array uint8_t 28)]"

definition mess_vfs_fs_flush :: fields where
  "mess_vfs_fs_flush = [(''device'', dev_t), (''data'', Array uint8_t 48)]"

definition mess_vfs_fs_ftrunc :: fields where
  "mess_vfs_fs_ftrunc = [(''inode'', ino_t), (''trc_start'', off_t), (''trc_end'', off_t),
     (''data'', Array uint8_t 32)]"

definition mess_vfs_fs_getdents :: fields where
  "mess_vfs_fs_getdents = [(''inode'', ino_t), (''seek_pos'', off_t), (''grant'', cp_grant_id_t),
     (''mem_size'', size_t), (''data'', Array uint8_t 32)]"

definition mess_vfs_fs_inhibread :: fields where
  "mess_vfs_fs_inhibread = [(''inode'', ino_t), (''data'', Array uint8_t 48)]"

definition mess_vfs_fs_link :: fields where
  "mess_vfs_fs_link = [(''inode'', ino_t), (''dir_ino'', ino_t), (''grant'', cp_grant_id_t),
     (''path_len'', size_t), (''data'', Array uint8_t 32)]"

definition mess_vfs_fs_lookup :: fields where
  "mess_vfs_fs_lookup = [(''dir_ino'', ino_t), (''root_ino'', ino_t), (''flags'', uint32_t),
     (''path_len'', size_t), (''path_size'', size_t), (''ucred_size'', size_t),
     (''grant_path'', cp_grant_id_t), (''grant_ucred'', cp_grant_id_t), (''uid'', uid_t),
     (''gid'', gid_t), (''data'', Array uint8_t 8)]"

definition mess_vfs_fs_mkdir :: fields where
  "mess_vfs_fs_mkdir = [(''inode'', ino_t), (''mode'', mode_t), (''uid'', uid_t), (''gid'', gid_t),
     (''grant'', cp_grant_id_t), (''path_len'', size_t), (''data'', Array uint8_t 28)]"

definition mess_vfs_fs_mknod :: fields where
  "mess_vfs_fs_mknod = [(''device'', dev_t), (''inode'', ino_t), (''mode'', mode_t),
     (''uid'', uid_t), (''gid'', gid_t), (''grant'', cp_grant_id_t), (''path_len'', size_t),
     (''data'', Array uint8_t 20)]"

definition mess_vfs_fs_mountpoint :: fields where
  "mess_vfs_fs_mountpoint = [(''inode'', ino_t), (''data'', Array uint8_t 48)]"

definition mess_vfs_fs_new_driver :: fields where
  "mess_vfs_fs_new_driver = [(''device'', dev_t), (''grant'', cp_grant_id_t),
     (''path_len'', size_t), (''data'', Array uint8_t 40)]"

definition mess_vfs_fs_newnode :: fields where
  "mess_vfs_fs_newnode = [(''device'', dev_t), (''mode'', mode_t), (''uid'', uid_t),
     (''gid'', gid_t), (''data'', Array uint8_t 36)]"

definition mess_vfs_fs_putnode :: fields where
  "mess_vfs_fs_putnode = [(''inode'', ino_t), (''count'', c_unsigned_int),
     (''data'', Array uint8_t 44)]"

definition mess_vfs_fs_rdlink :: fields where
  "mess_vfs_fs_rdlink = [(''inode'', ino_t), (''grant'', cp_grant_id_t), (''mem_size'', size_t),
     (''data'', Array uint8_t 40)]"

definition mess_vfs_fs_readsuper :: fields where
  "mess_vfs_fs_readsuper = [(''device'', dev_t), (''flags'', uint32_t), (''path_len'', size_t),
     (''grant'', cp_grant_id_t), (''data'', Array uint8_t 36)]"

definition mess_vfs_fs_readwrite :: fields where
  "mess_vfs_fs_readwrite = [(''inode'', ino_t), (''seek_pos'', off_t), (''grant'', cp_grant_id_t),
     (''nbytes'', size_t), (''data'', Array uint8_t 32)]"

definition mess_vfs_fs_rename :: fields where
  "mess_vfs_fs_rename = [(''dir_old'', ino_t), (''dir_new'', ino_t), (''len_old'', size_t),
     (''len_new'', size_t), (''grant_old'', cp_grant_id_t), (''grant_new'', cp_grant_id_t),
     (''data'', Array uint8_t 24)]"

definition mess_vfs_fs_slink :: fields where
  "mess_vfs_fs_slink = [(''inode'', ino_t), (''path_len'', size_t), (''mem_size'', size_t),
     (''grant_path'', cp_grant_id_t), (''grant_target'', cp_grant_id_t), (''uid'', uid_t),
     (''gid'', gid_t), (''data'', Array uint8_t 24)]"

definition mess_vfs_fs_stat :: fields where
  "mess_vfs_fs_stat = [(''inode'', ino_t), (''grant'', cp_grant_id_t), (''data'', Array uint8_t 44)]"

definition mess_vfs_fs_statvfs :: fields where
  "mess_vfs_fs_statvfs = [(''grant'', cp_grant_id_t), (''data'', Array uint8_t 52)]"

definition mess_vfs_fs_unlink :: fields where
  "mess_vfs_fs_unlink = [(''inode'', ino_t), (''grant'', cp_grant_id_t), (''path_len'', size_t),
     (''data'', Array uint8_t 40)]"

definition mess_vfs_fs_utime :: fields where
  "mess_vfs_fs_utime = [(''inode'', ino_t), (''actime'', time_t), (''modtime'', time_t),
     (''acnsec'', uint32_t), (''modnsec'', uint32_t), (''data'', Array uint8_t 24)]"

definition mess_vfs_lc_fdpair :: fields where
  "mess_vfs_lc_fdpair = [(''fd0'', c_int_type), (''fd1'', c_int_type),
     (''padding'', Array uint8_t 48)]"

definition mess_vfs_lc_lseek :: fields where
  "mess_vfs_lc_lseek = [(''offset'', off_t), (''padding'', Array uint8_t 48)]"

definition mess_vfs_lc_socklen :: fields where
  "mess_vfs_lc_socklen = [(''len'', c_unsigned_int), (''padding'', Array uint8_t 52)]"

definition mess_vfs_lchardriver_cancel :: fields where
  "mess_vfs_lchardriver_cancel = [(''id'', endpoint_t), (''minor'', devminor_t),
     (''padding'', Array uint8_t 48)]"

definition mess_vfs_lchardriver_openclose :: fields where
  "mess_vfs_lchardriver_openclose = [(''id'', endpoint_t), (''user'', endpoint_t),
     (''minor'', devminor_t), (''access'', c_int_type), (''padding'', Array uint8_t 40)]"

definition mess_vfs_lchardriver_readwrite :: fields where
  "mess_vfs_lchardriver_readwrite = [(''pos'', off_t), (''grant'', cp_grant_id_t),
     (''count'', size_t), (''request'', c_unsigned_long), (''flags'', c_int_type),
     (''id'', endpoint_t), (''user'', endpoint_t), (''minor'', devminor_t),
     (''padding'', Array uint8_t 20)]"

definition mess_vfs_lchardriver_select :: fields where
  "mess_vfs_lchardriver_select = [(''minor'', devminor_t), (''ops'', c_int_type),
     (''padding'', Array uint8_t 48)]"

definition mess_vfs_lsockdriver_addr :: fields where
  "mess_vfs_lsockdriver_addr = [(''req_id'', int32_t), (''sock_id'', int32_t),
     (''grant'', cp_grant_id_t), (''len'', c_unsigned_int), (''user_endpt'', endpoint_t),
     (''sflags'', c_int_type), (''padding'', Array uint8_t 32)]"

definition mess_vfs_lsockdriver_getset :: fields where
  "mess_vfs_lsockdriver_getset = [(''req_id'', int32_t), (''sock_id'', int32_t),
     (''level'', c_int_type), (''name'', c_int_type), (''grant'', cp_grant_id_t),
     (''len'', c_unsigned_int), (''padding'', Array uint8_t 32)]"

definition mess_vfs_lsockdriver_ioctl :: fields where
  "mess_vfs_lsockdriver_ioctl = [(''req_id'', int32_t), (''sock_id'', int32_t),
     (''request'', c_unsigned_long), (''grant'', cp_grant_id_t), (''user_endpt'', endpoint_t),
     (''sflags'', c_int_type), (''padding'', Array uint8_t 32)]"

definition mess_vfs_lsockdriver_select :: fields where
  "mess_vfs_lsockdriver_select = [(''sock_id'', int32_t), (''ops'', c_int_type),
     (''padding'', Array uint8_t 48)]"

definition mess_vfs_lsockdriver_sendrecv :: fields where
  "mess_vfs_lsockdriver_sendrecv = [(''req_id'', int32_t), (''sock_id'', int32_t),
     (''data_grant'', cp_grant_id_t), (''data_len'', size_t), (''ctl_grant'', cp_grant_id_t),
     (''ctl_len'', c_unsigned_int), (''addr_grant'', cp_grant_id_t), (''addr_len'', c_unsigned_int),
     (''user_endpt'', endpoint_t), (''flags'', c_int_type), (''padding'', Array uint8_t 16)]"

definition mess_vfs_lsockdriver_simple :: fields where
  "mess_vfs_lsockdriver_simple = [(''req_id'', int32_t), (''sock_id'', int32_t),
     (''param'', c_int_type), (''padding'', Array uint8_t 44)]"

definition mess_vfs_lsockdriver_socket :: fields where
  "mess_vfs_lsockdriver_socket = [(''req_id'', int32_t), (''domain'', c_int_type),
     (''type'', c_int_type), (''protocol'', c_int_type), (''user_endpt'', endpoint_t),
     (''padding'', Array uint8_t 36)]"

definition mess_vfs_lsys_gcov :: fields where
  "mess_vfs_lsys_gcov = [(''grant'', cp_grant_id_t), (''size'', size_t),
     (''padding'', Array uint8_t 48)]"

definition mess_vfs_lsys_socketpath :: fields where
  "mess_vfs_lsys_socketpath = [(''device'', dev_t), (''inode'', ino_t),
     (''padding'', Array uint8_t 40)]"

definition mess_vfs_utimens :: fields where
  "mess_vfs_utimens = [(''atime'', time_t), (''mtime'', time_t), (''ansec'', c_long),
     (''mnsec'', c_long), (''len'', size_t), (''name'', c_pointer), (''fd'', c_int_type),
     (''flags'', c_int_type), (''padding'', Array uint8_t 16)]"

definition mess_vm_vfs_mmap :: fields where
  "mess_vm_vfs_mmap = [(''offset'', off_t), (''dev'', dev_t), (''ino'', ino_t),
     (''who'', endpoint_t), (''vaddr'', u32_t), (''len'', u32_t), (''flags'', u32_t),
     (''fd'', u32_t), (''clearend'', u16_t), (''padding'', Array uint8_t 8)]"

definition mess_vmmcp :: fields where
  "mess_vmmcp = [(''dev'', dev_t), (''dev_offset'', off_t), (''ino_offset'', off_t),
     (''ino'', ino_t), (''block'', c_pointer), (''flags_ptr'', c_pointer), (''pages'', u8_t),
     (''flags'', u8_t), (''padding'', Array uint8_t 12)]"

definition mess_vmmcp_reply :: fields where
  "mess_vmmcp_reply = [(''addr'', c_pointer), (''flags'', u8_t), (''padding'', Array uint8_t 51)]"

text \<open>The formats of this file by name.\<close>

definition message_formats_4 :: "(string \<times> fields) list" where
  "message_formats_4 = [(''mess_pm_lc_time'', mess_pm_lc_time),
     (''mess_pm_lc_wait4'', mess_pm_lc_wait4), (''mess_pm_lexec_exec_new'', mess_pm_lexec_exec_new),
     (''mess_pm_lsys_getepinfo'', mess_pm_lsys_getepinfo),
     (''mess_pm_lsys_getprocnr'', mess_pm_lsys_getprocnr),
     (''mess_pm_lsys_proc_event'', mess_pm_lsys_proc_event),
     (''mess_pm_lsys_sigs_signal'', mess_pm_lsys_sigs_signal),
     (''mess_pm_sched_scheduling_set_nice'', mess_pm_sched_scheduling_set_nice),
     (''mess_pty_ptyfs_req'', mess_pty_ptyfs_req), (''mess_ptyfs_pty_name'', mess_ptyfs_pty_name),
     (''mess_readclock_lc_rtcdev'', mess_readclock_lc_rtcdev), (''mess_rs_init'', mess_rs_init),
     (''mess_rs_pm_exec_restart'', mess_rs_pm_exec_restart),
     (''mess_rs_pm_srv_kill'', mess_rs_pm_srv_kill), (''mess_rs_req'', mess_rs_req),
     (''mess_rs_update'', mess_rs_update),
     (''mess_sched_lsys_scheduling_start'', mess_sched_lsys_scheduling_start),
     (''mess_sigcalls'', mess_sigcalls), (''mess_tty_lsys_fkey_ctl'', mess_tty_lsys_fkey_ctl),
     (''mess_vfs_fs_breadwrite'', mess_vfs_fs_breadwrite),
     (''mess_vfs_fs_chmod'', mess_vfs_fs_chmod), (''mess_vfs_fs_chown'', mess_vfs_fs_chown),
     (''mess_vfs_fs_create'', mess_vfs_fs_create), (''mess_vfs_fs_flush'', mess_vfs_fs_flush),
     (''mess_vfs_fs_ftrunc'', mess_vfs_fs_ftrunc), (''mess_vfs_fs_getdents'', mess_vfs_fs_getdents),
     (''mess_vfs_fs_inhibread'', mess_vfs_fs_inhibread), (''mess_vfs_fs_link'', mess_vfs_fs_link),
     (''mess_vfs_fs_lookup'', mess_vfs_fs_lookup), (''mess_vfs_fs_mkdir'', mess_vfs_fs_mkdir),
     (''mess_vfs_fs_mknod'', mess_vfs_fs_mknod),
     (''mess_vfs_fs_mountpoint'', mess_vfs_fs_mountpoint),
     (''mess_vfs_fs_new_driver'', mess_vfs_fs_new_driver),
     (''mess_vfs_fs_newnode'', mess_vfs_fs_newnode), (''mess_vfs_fs_putnode'', mess_vfs_fs_putnode),
     (''mess_vfs_fs_rdlink'', mess_vfs_fs_rdlink),
     (''mess_vfs_fs_readsuper'', mess_vfs_fs_readsuper),
     (''mess_vfs_fs_readwrite'', mess_vfs_fs_readwrite),
     (''mess_vfs_fs_rename'', mess_vfs_fs_rename), (''mess_vfs_fs_slink'', mess_vfs_fs_slink),
     (''mess_vfs_fs_stat'', mess_vfs_fs_stat), (''mess_vfs_fs_statvfs'', mess_vfs_fs_statvfs),
     (''mess_vfs_fs_unlink'', mess_vfs_fs_unlink), (''mess_vfs_fs_utime'', mess_vfs_fs_utime),
     (''mess_vfs_lc_fdpair'', mess_vfs_lc_fdpair), (''mess_vfs_lc_lseek'', mess_vfs_lc_lseek),
     (''mess_vfs_lc_socklen'', mess_vfs_lc_socklen),
     (''mess_vfs_lchardriver_cancel'', mess_vfs_lchardriver_cancel),
     (''mess_vfs_lchardriver_openclose'', mess_vfs_lchardriver_openclose),
     (''mess_vfs_lchardriver_readwrite'', mess_vfs_lchardriver_readwrite),
     (''mess_vfs_lchardriver_select'', mess_vfs_lchardriver_select),
     (''mess_vfs_lsockdriver_addr'', mess_vfs_lsockdriver_addr),
     (''mess_vfs_lsockdriver_getset'', mess_vfs_lsockdriver_getset),
     (''mess_vfs_lsockdriver_ioctl'', mess_vfs_lsockdriver_ioctl),
     (''mess_vfs_lsockdriver_select'', mess_vfs_lsockdriver_select),
     (''mess_vfs_lsockdriver_sendrecv'', mess_vfs_lsockdriver_sendrecv),
     (''mess_vfs_lsockdriver_simple'', mess_vfs_lsockdriver_simple),
     (''mess_vfs_lsockdriver_socket'', mess_vfs_lsockdriver_socket),
     (''mess_vfs_lsys_gcov'', mess_vfs_lsys_gcov),
     (''mess_vfs_lsys_socketpath'', mess_vfs_lsys_socketpath),
     (''mess_vfs_utimens'', mess_vfs_utimens), (''mess_vm_vfs_mmap'', mess_vm_vfs_mmap),
     (''mess_vmmcp'', mess_vmmcp), (''mess_vmmcp_reply'', mess_vmmcp_reply)]"

text \<open>They all have the size of the payload.\<close>

lemma message_formats_4_size:
  "list_all (\<lambda>(_, fs). size_of (Struct fs) = 56) message_formats_4"
  by code_simp

end
