(* ===== verification/Message_Formats.thy ===== *)
theory Message_Formats
  imports Message_Formats_1 Message_Formats_2 Message_Formats_3 Message_Formats_4
begin

text \<open>
  The message of MINIX's message passing, minix/ipc.h: its sender, its type and a union of all the
  payload formats (Message_Formats_1 to Message_Formats_4), and how the main loop's
  msg.m_notify.interrupts is read from its bytes.

  Every format is shown to have the 56 bytes that _ASSERT_MSG_SIZE demands and the message 64; a
  field stored in a payload is read back from it and changes no other field of its format.
\<close>

definition message_formats :: "(string \<times> fields) list" where
  "message_formats = message_formats_1 @ message_formats_2 @ message_formats_3 @ message_formats_4"

definition payload_members_1 :: fields where
  "payload_members_1 = [(''m_u8'', Struct mess_u8), (''m_u16'', Struct mess_u16),
     (''m_u32'', Struct mess_u32), (''m_u64'', Struct mess_u64), (''m_m1'', Struct mess_1),
     (''m_m2'', Struct mess_2), (''m_m3'', Struct mess_3), (''m_m4'', Struct mess_4),
     (''m_m7'', Struct mess_7), (''m_m9'', Struct mess_9), (''m_m10'', Struct mess_10),
     (''m_ds_reply'', Struct mess_ds_reply), (''m_ds_req'', Struct mess_ds_req),
     (''m_fs_vfs_breadwrite'', Struct mess_fs_vfs_breadwrite),
     (''m_fs_vfs_chmod'', Struct mess_fs_vfs_chmod), (''m_fs_vfs_chown'', Struct mess_fs_vfs_chown),
     (''m_fs_vfs_create'', Struct mess_fs_vfs_create),
     (''m_fs_vfs_getdents'', Struct mess_fs_vfs_getdents),
     (''m_fs_vfs_lookup'', Struct mess_fs_vfs_lookup),
     (''m_fs_vfs_newnode'', Struct mess_fs_vfs_newnode),
     (''m_fs_vfs_rdlink'', Struct mess_fs_vfs_rdlink),
     (''m_fs_vfs_readsuper'', Struct mess_fs_vfs_readsuper),
     (''m_fs_vfs_readwrite'', Struct mess_fs_vfs_readwrite),
     (''m_i2c_li2cdriver_busc_i2c_exec'', Struct mess_i2c_li2cdriver_busc_i2c_exec),
     (''m_i2c_li2cdriver_busc_i2c_reserve'', Struct mess_i2c_li2cdriver_busc_i2c_reserve),
     (''m_input_linputdriver_input_conf'', Struct mess_input_linputdriver_input_conf),
     (''m_input_linputdriver_setleds'', Struct mess_input_linputdriver_setleds),
     (''m_input_tty_event'', Struct mess_input_tty_event),
     (''m_krn_lsys_schedule'', Struct mess_krn_lsys_schedule),
     (''m_krn_lsys_sys_devio'', Struct mess_krn_lsys_sys_devio),
     (''m_krn_lsys_sys_fork'', Struct mess_krn_lsys_sys_fork),
     (''m_krn_lsys_sys_getwhoami'', Struct mess_krn_lsys_sys_getwhoami),
     (''m_krn_lsys_sys_irqctl'', Struct mess_krn_lsys_sys_irqctl),
     (''m_krn_lsys_sys_times'', Struct mess_krn_lsys_sys_times),
     (''m_krn_lsys_sys_trace'', Struct mess_krn_lsys_sys_trace),
     (''m_krn_lsys_sys_umap'', Struct mess_krn_lsys_sys_umap),
     (''m_krn_lsys_sys_vumap'', Struct mess_krn_lsys_sys_vumap),
     (''m_lbdev_lblockdriver_msg'', Struct mess_lbdev_lblockdriver_msg),
     (''m_lblockdriver_lbdev_reply'', Struct mess_lblockdriver_lbdev_reply),
     (''m_lc_ipc_semctl'', Struct mess_lc_ipc_semctl),
     (''m_lc_ipc_semget'', Struct mess_lc_ipc_semget),
     (''m_lc_ipc_semop'', Struct mess_lc_ipc_semop), (''m_lc_ipc_shmat'', Struct mess_lc_ipc_shmat),
     (''m_lc_ipc_shmctl'', Struct mess_lc_ipc_shmctl),
     (''m_lc_ipc_shmdt'', Struct mess_lc_ipc_shmdt),
     (''m_lc_ipc_shmget'', Struct mess_lc_ipc_shmget),
     (''m_lc_mib_sysctl'', Struct mess_lc_mib_sysctl), (''m_lc_pm_exec'', Struct mess_lc_pm_exec),
     (''m_lc_pm_exit'', Struct mess_lc_pm_exit), (''m_lc_pm_getsid'', Struct mess_lc_pm_getsid),
     (''m_lc_pm_groups'', Struct mess_lc_pm_groups), (''m_lc_pm_itimer'', Struct mess_lc_pm_itimer),
     (''m_lc_pm_mcontext'', Struct mess_lc_pm_mcontext),
     (''m_lc_pm_priority'', Struct mess_lc_pm_priority),
     (''m_lc_pm_ptrace'', Struct mess_lc_pm_ptrace), (''m_lc_pm_reboot'', Struct mess_lc_pm_reboot),
     (''m_lc_pm_rusage'', Struct mess_lc_pm_rusage), (''m_lc_pm_setgid'', Struct mess_lc_pm_setgid),
     (''m_lc_pm_setuid'', Struct mess_lc_pm_setuid), (''m_lc_pm_sig'', Struct mess_lc_pm_sig),
     (''m_lc_pm_sigset'', Struct mess_lc_pm_sigset), (''m_lc_pm_sprof'', Struct mess_lc_pm_sprof),
     (''m_lc_pm_sysuname'', Struct mess_lc_pm_sysuname), (''m_lc_pm_time'', Struct mess_lc_pm_time),
     (''m_lc_pm_wait4'', Struct mess_lc_pm_wait4),
     (''m_lc_readclock_rtcdev'', Struct mess_lc_readclock_rtcdev),
     (''m_lc_svrctl'', Struct mess_lc_svrctl), (''m_lc_vfs_chown'', Struct mess_lc_vfs_chown),
     (''m_lc_vfs_close'', Struct mess_lc_vfs_close), (''m_lc_vfs_creat'', Struct mess_lc_vfs_creat),
     (''m_lc_vfs_fchdir'', Struct mess_lc_vfs_fchdir),
     (''m_lc_vfs_fchmod'', Struct mess_lc_vfs_fchmod),
     (''m_lc_vfs_fcntl'', Struct mess_lc_vfs_fcntl), (''m_lc_vfs_fstat'', Struct mess_lc_vfs_fstat),
     (''m_lc_vfs_fsync'', Struct mess_lc_vfs_fsync), (''m_lc_vfs_gcov'', Struct mess_lc_vfs_gcov),
     (''m_lc_vfs_getvfsstat'', Struct mess_lc_vfs_getvfsstat),
     (''m_lc_vfs_ioctl'', Struct mess_lc_vfs_ioctl), (''m_lc_vfs_link'', Struct mess_lc_vfs_link),
     (''m_lc_vfs_listen'', Struct mess_lc_vfs_listen),
     (''m_lc_vfs_lseek'', Struct mess_lc_vfs_lseek), (''m_lc_vfs_mknod'', Struct mess_lc_vfs_mknod),
     (''m_lc_vfs_mount'', Struct mess_lc_vfs_mount), (''m_lc_vfs_path'', Struct mess_lc_vfs_path),
     (''m_lc_vfs_pipe2'', Struct mess_lc_vfs_pipe2),
     (''m_lc_vfs_readlink'', Struct mess_lc_vfs_readlink),
     (''m_lc_vfs_readwrite'', Struct mess_lc_vfs_readwrite),
     (''m_lc_vfs_select'', Struct mess_lc_vfs_select),
     (''m_lc_vfs_sendrecv'', Struct mess_lc_vfs_sendrecv),
     (''m_lc_vfs_shutdown'', Struct mess_lc_vfs_shutdown),
     (''m_lc_vfs_sockaddr'', Struct mess_lc_vfs_sockaddr),
     (''m_lc_vfs_socket'', Struct mess_lc_vfs_socket),
     (''m_lc_vfs_sockmsg'', Struct mess_lc_vfs_sockmsg),
     (''m_lc_vfs_sockopt'', Struct mess_lc_vfs_sockopt),
     (''m_lc_vfs_stat'', Struct mess_lc_vfs_stat),
     (''m_lc_vfs_statvfs1'', Struct mess_lc_vfs_statvfs1),
     (''m_lc_vfs_truncate'', Struct mess_lc_vfs_truncate),
     (''m_lc_vfs_umask'', Struct mess_lc_vfs_umask),
     (''m_lc_vfs_umount'', Struct mess_lc_vfs_umount), (''m_lc_vm_brk'', Struct mess_lc_vm_brk),
     (''m_lc_vm_getphys'', Struct mess_lc_vm_getphys),
     (''m_lc_vm_shm_unmap'', Struct mess_lc_vm_shm_unmap),
     (''m_lchardriver_vfs_reply'', Struct mess_lchardriver_vfs_reply),
     (''m_lchardriver_vfs_sel1'', Struct mess_lchardriver_vfs_sel1),
     (''m_lchardriver_vfs_sel2'', Struct mess_lchardriver_vfs_sel2),
     (''m_lexec_pm_exec_new'', Struct mess_lexec_pm_exec_new),
     (''m_li2cdriver_i2c_busc_i2c_exec'', Struct mess_li2cdriver_i2c_busc_i2c_exec),
     (''m_li2cdriver_i2c_busc_i2c_reserve'', Struct mess_li2cdriver_i2c_busc_i2c_reserve),
     (''m_linputdriver_input_event'', Struct mess_linputdriver_input_event),
     (''m_lsockdriver_vfs_accept_reply'', Struct mess_lsockdriver_vfs_accept_reply),
     (''m_lsockdriver_vfs_recv_reply'', Struct mess_lsockdriver_vfs_recv_reply),
     (''m_lsockdriver_vfs_reply'', Struct mess_lsockdriver_vfs_reply),
     (''m_lsockdriver_vfs_select_reply'', Struct mess_lsockdriver_vfs_select_reply),
     (''m_lsockdriver_vfs_socket_reply'', Struct mess_lsockdriver_vfs_socket_reply),
     (''m_lsys_fi_ctl'', Struct mess_lsys_fi_ctl), (''m_lsys_fi_reply'', Struct mess_lsys_fi_reply),
     (''m_lsys_getsysinfo'', Struct mess_lsys_getsysinfo),
     (''m_lsys_krn_readbios'', Struct mess_lsys_krn_readbios)]"

definition payload_members_2 :: fields where
  "payload_members_2 = [(''m_lsys_kern_safecopy'', Struct mess_lsys_kern_safecopy),
     (''m_lsys_krn_schedctl'', Struct mess_lsys_krn_schedctl),
     (''m_lsys_krn_schedule'', Struct mess_lsys_krn_schedule),
     (''m_lsys_krn_sys_abort'', Struct mess_lsys_krn_sys_abort),
     (''m_lsys_krn_sys_clear'', Struct mess_lsys_krn_sys_clear),
     (''m_lsys_krn_sys_copy'', Struct mess_lsys_krn_sys_copy),
     (''m_lsys_krn_sys_devio'', Struct mess_lsys_krn_sys_devio),
     (''m_lsys_krn_sys_diagctl'', Struct mess_lsys_krn_sys_diagctl),
     (''m_lsys_krn_sys_exec'', Struct mess_lsys_krn_sys_exec),
     (''m_lsys_krn_sys_fork'', Struct mess_lsys_krn_sys_fork),
     (''m_lsys_krn_sys_getinfo'', Struct mess_lsys_krn_sys_getinfo),
     (''m_lsys_krn_sys_getmcontext'', Struct mess_lsys_krn_sys_getmcontext),
     (''m_lsys_krn_sys_iopenable'', Struct mess_lsys_krn_sys_iopenable),
     (''m_lsys_krn_sys_irqctl'', Struct mess_lsys_krn_sys_irqctl),
     (''m_lsys_krn_sys_memset'', Struct mess_lsys_krn_sys_memset),
     (''m_lsys_krn_sys_privctl'', Struct mess_lsys_krn_sys_privctl),
     (''m_lsys_krn_sys_sdevio'', Struct mess_lsys_krn_sys_sdevio),
     (''m_lsys_krn_sys_setalarm'', Struct mess_lsys_krn_sys_setalarm),
     (''m_lsys_krn_sys_setgrant'', Struct mess_lsys_krn_sys_setgrant),
     (''m_lsys_krn_sys_setmcontext'', Struct mess_lsys_krn_sys_setmcontext),
     (''m_lsys_krn_sys_settime'', Struct mess_lsys_krn_sys_settime),
     (''m_lsys_krn_sys_sprof'', Struct mess_lsys_krn_sys_sprof),
     (''m_lsys_krn_sys_statectl'', Struct mess_lsys_krn_sys_statectl),
     (''m_lsys_krn_sys_stime'', Struct mess_lsys_krn_sys_stime),
     (''m_lsys_krn_sys_times'', Struct mess_lsys_krn_sys_times),
     (''m_lsys_krn_sys_trace'', Struct mess_lsys_krn_sys_trace),
     (''m_lsys_krn_sys_umap'', Struct mess_lsys_krn_sys_umap),
     (''m_lsys_krn_sys_vdevio'', Struct mess_lsys_krn_sys_vdevio),
     (''m_lsys_krn_sys_vumap'', Struct mess_lsys_krn_sys_vumap),
     (''m_lsys_kern_vsafecopy'', Struct mess_lsys_kern_vsafecopy),
     (''m_lsys_mib_register'', Struct mess_lsys_mib_register),
     (''m_lsys_mib_reply'', Struct mess_lsys_mib_reply),
     (''m_lsys_pci_busc_get_bar'', Struct mess_lsys_pci_busc_get_bar),
     (''m_lsys_pm_getepinfo'', Struct mess_lsys_pm_getepinfo),
     (''m_lsys_pm_getprocnr'', Struct mess_lsys_pm_getprocnr),
     (''m_lsys_pm_proceventmask'', Struct mess_lsys_pm_proceventmask),
     (''m_lsys_pm_srv_fork'', Struct mess_lsys_pm_srv_fork),
     (''m_lsys_sched_scheduling_start'', Struct mess_lsys_sched_scheduling_start),
     (''m_lsys_sched_scheduling_stop'', Struct mess_lsys_sched_scheduling_stop),
     (''m_lsys_tty_fkey_ctl'', Struct mess_lsys_tty_fkey_ctl),
     (''m_lsys_vfs_copyfd'', Struct mess_lsys_vfs_copyfd),
     (''m_lsys_vfs_mapdriver'', Struct mess_lsys_vfs_mapdriver),
     (''m_lsys_vfs_socketpath'', Struct mess_lsys_vfs_socketpath),
     (''m_lsys_vm_getref'', Struct mess_lsys_vm_getref),
     (''m_lsys_vm_info'', Struct mess_lsys_vm_info),
     (''m_lsys_vm_map_phys'', Struct mess_lsys_vm_map_phys),
     (''m_lsys_vm_rusage'', Struct mess_lsys_vm_rusage),
     (''m_lsys_vm_unmap_phys'', Struct mess_lsys_vm_unmap_phys),
     (''m_lsys_vm_update'', Struct mess_lsys_vm_update),
     (''m_lsys_vm_vmremap'', Struct mess_lsys_vm_vmremap),
     (''m_mib_lc_sysctl'', Struct mess_mib_lc_sysctl),
     (''m_mib_lsys_call'', Struct mess_mib_lsys_call),
     (''m_mib_lsys_info'', Struct mess_mib_lsys_info), (''m_mmap'', Struct mess_mmap),
     (''m_ndev_netdriver_init'', Struct mess_ndev_netdriver_init),
     (''m_ndev_netdriver_conf'', Struct mess_ndev_netdriver_conf),
     (''m_ndev_netdriver_transfer'', Struct mess_ndev_netdriver_transfer),
     (''m_ndev_netdriver_status_reply'', Struct mess_ndev_netdriver_status_reply),
     (''m_netdriver_ndev_init_reply'', Struct mess_netdriver_ndev_init_reply),
     (''m_netdriver_ndev_reply'', Struct mess_netdriver_ndev_reply),
     (''m_netdriver_ndev_status'', Struct mess_netdriver_ndev_status),
     (''m_net_netdrv_dl_conf'', Struct mess_net_netdrv_dl_conf),
     (''m_net_netdrv_dl_getstat_s'', Struct mess_net_netdrv_dl_getstat_s),
     (''m_net_netdrv_dl_readv_s'', Struct mess_net_netdrv_dl_readv_s),
     (''m_net_netdrv_dl_writev_s'', Struct mess_net_netdrv_dl_writev_s),
     (''m_netdrv_net_dl_conf'', Struct mess_netdrv_net_dl_conf),
     (''m_netdrv_net_dl_task'', Struct mess_netdrv_net_dl_task), (''m_notify'', Struct mess_notify),
     (''m_pci_lsys_busc_get_bar'', Struct mess_pci_lsys_busc_get_bar),
     (''m_pm_lc_getgid'', Struct mess_pm_lc_getgid), (''m_pm_lc_getpid'', Struct mess_pm_lc_getpid),
     (''m_pm_lc_getuid'', Struct mess_pm_lc_getuid), (''m_pm_lc_ptrace'', Struct mess_pm_lc_ptrace),
     (''m_pm_lc_sigset'', Struct mess_pm_lc_sigset), (''m_pm_lc_time'', Struct mess_pm_lc_time),
     (''m_pm_lc_wait4'', Struct mess_pm_lc_wait4),
     (''m_pm_lexec_exec_new'', Struct mess_pm_lexec_exec_new),
     (''m_pm_lsys_getepinfo'', Struct mess_pm_lsys_getepinfo),
     (''m_pm_lsys_getprocnr'', Struct mess_pm_lsys_getprocnr),
     (''m_pm_lsys_proc_event'', Struct mess_pm_lsys_proc_event),
     (''m_pm_lsys_sigs_signal'', Struct mess_pm_lsys_sigs_signal),
     (''m_pm_sched_scheduling_set_nice'', Struct mess_pm_sched_scheduling_set_nice),
     (''m_pty_ptyfs_req'', Struct mess_pty_ptyfs_req),
     (''m_ptyfs_pty_name'', Struct mess_ptyfs_pty_name),
     (''m_readclock_lc_rtcdev'', Struct mess_readclock_lc_rtcdev),
     (''m_rs_init'', Struct mess_rs_init),
     (''m_rs_pm_exec_restart'', Struct mess_rs_pm_exec_restart),
     (''m_rs_pm_srv_kill'', Struct mess_rs_pm_srv_kill), (''m_rs_req'', Struct mess_rs_req),
     (''m_rs_update'', Struct mess_rs_update),
     (''m_sched_lsys_scheduling_start'', Struct mess_sched_lsys_scheduling_start),
     (''m_sigcalls'', Struct mess_sigcalls),
     (''m_tty_lsys_fkey_ctl'', Struct mess_tty_lsys_fkey_ctl),
     (''m_vfs_fs_breadwrite'', Struct mess_vfs_fs_breadwrite),
     (''m_vfs_fs_chmod'', Struct mess_vfs_fs_chmod), (''m_vfs_fs_chown'', Struct mess_vfs_fs_chown),
     (''m_vfs_fs_create'', Struct mess_vfs_fs_create),
     (''m_vfs_fs_flush'', Struct mess_vfs_fs_flush),
     (''m_vfs_fs_ftrunc'', Struct mess_vfs_fs_ftrunc),
     (''m_vfs_fs_getdents'', Struct mess_vfs_fs_getdents),
     (''m_vfs_fs_inhibread'', Struct mess_vfs_fs_inhibread),
     (''m_vfs_fs_link'', Struct mess_vfs_fs_link), (''m_vfs_fs_lookup'', Struct mess_vfs_fs_lookup),
     (''m_vfs_fs_mkdir'', Struct mess_vfs_fs_mkdir), (''m_vfs_fs_mknod'', Struct mess_vfs_fs_mknod),
     (''m_vfs_fs_mountpoint'', Struct mess_vfs_fs_mountpoint),
     (''m_vfs_fs_new_driver'', Struct mess_vfs_fs_new_driver),
     (''m_vfs_fs_newnode'', Struct mess_vfs_fs_newnode),
     (''m_vfs_fs_putnode'', Struct mess_vfs_fs_putnode),
     (''m_vfs_fs_rdlink'', Struct mess_vfs_fs_rdlink),
     (''m_vfs_fs_readsuper'', Struct mess_vfs_fs_readsuper),
     (''m_vfs_fs_readwrite'', Struct mess_vfs_fs_readwrite),
     (''m_vfs_fs_rename'', Struct mess_vfs_fs_rename),
     (''m_vfs_fs_slink'', Struct mess_vfs_fs_slink), (''m_vfs_fs_stat'', Struct mess_vfs_fs_stat),
     (''m_vfs_fs_statvfs'', Struct mess_vfs_fs_statvfs),
     (''m_vfs_fs_unlink'', Struct mess_vfs_fs_unlink),
     (''m_vfs_fs_utime'', Struct mess_vfs_fs_utime),
     (''m_vfs_lc_fdpair'', Struct mess_vfs_lc_fdpair),
     (''m_vfs_lc_lseek'', Struct mess_vfs_lc_lseek),
     (''m_vfs_lc_socklen'', Struct mess_vfs_lc_socklen),
     (''m_vfs_lchardriver_cancel'', Struct mess_vfs_lchardriver_cancel),
     (''m_vfs_lchardriver_openclose'', Struct mess_vfs_lchardriver_openclose),
     (''m_vfs_lchardriver_readwrite'', Struct mess_vfs_lchardriver_readwrite),
     (''m_vfs_lchardriver_select'', Struct mess_vfs_lchardriver_select),
     (''m_vfs_lsockdriver_addr'', Struct mess_vfs_lsockdriver_addr),
     (''m_vfs_lsockdriver_getset'', Struct mess_vfs_lsockdriver_getset),
     (''m_vfs_lsockdriver_ioctl'', Struct mess_vfs_lsockdriver_ioctl),
     (''m_vfs_lsockdriver_select'', Struct mess_vfs_lsockdriver_select),
     (''m_vfs_lsockdriver_sendrecv'', Struct mess_vfs_lsockdriver_sendrecv),
     (''m_vfs_lsockdriver_simple'', Struct mess_vfs_lsockdriver_simple),
     (''m_vfs_lsockdriver_socket'', Struct mess_vfs_lsockdriver_socket),
     (''m_vfs_lsys_gcov'', Struct mess_vfs_lsys_gcov),
     (''m_vfs_lsys_socketpath'', Struct mess_vfs_lsys_socketpath),
     (''m_vfs_utimens'', Struct mess_vfs_utimens), (''m_vm_vfs_mmap'', Struct mess_vm_vfs_mmap),
     (''m_vmmcp'', Struct mess_vmmcp), (''m_vmmcp_reply'', Struct mess_vmmcp_reply)]"

definition payload :: ctype where
  "payload = Union (payload_members_1 @ payload_members_2 @ [(''size'', Array u8_t 56)])"

text \<open>The union has no name of its own; __ALIGNED(16) rounds the size up to a multiple of 16.\<close>

definition message_fields :: fields where
  "message_fields = [(''m_source'', endpoint_t), (''m_type'', c_int_type), (''payload'', payload)]"

definition message_size :: nat where
  "message_size = round_up (size_of (Struct message_fields)) 16"

text \<open>The offset and the size of a named field.\<close>

fun find_field :: "string \<Rightarrow> (string \<times> nat \<times> ctype) list \<Rightarrow> (nat \<times> nat) option" where
  "find_field name [] = None"
| "find_field name ((n, at, t) # xs) = (if n = name then Some (at, size_of t) else find_field name xs)"

text \<open>msg.m_source and msg.m_notify.interrupts of the 64 bytes of a message.\<close>

definition message_source :: "u8 list \<Rightarrow> int option" where
  "message_source bs =
     do {
       (at, n) \<leftarrow> find_field ''m_source'' (layout message_fields 0);
       Some (sint (word_of_int (le_value (get_bytes at n bs)) :: 32 word))
     }"

definition notify_interrupts :: "u8 list \<Rightarrow> 64 word option" where
  "notify_interrupts bs =
     do {
       (base, _) \<leftarrow> find_field ''payload'' (layout message_fields 0);
       (at, n) \<leftarrow> find_field ''interrupts'' (layout mess_notify 0);
       Some (word_of_int (le_value (get_bytes (base + at) n bs)))
     }"

subsection \<open>Properties\<close>

lemma all_formats_size: "list_all (\<lambda>(_, fs). size_of (Struct fs) = 56) message_formats"
  using message_formats_1_size message_formats_2_size message_formats_3_size message_formats_4_size
  by (simp add: message_formats_def)

text \<open>All 256 message formats have exactly the 56 bytes that _ASSERT_MSG_SIZE demands, on the 32-bit
  x86 target, and a message, the union of them all behind its sender and type, has 64 bytes.\<close>

lemma message_formats_fit:
  "list_all (\<lambda>(_, fs). size_of (Struct fs) = 56) message_formats \<and> length message_formats = 256 \<and>
   message_size = 64"
proof (intro conjI)
  show "length message_formats = 256" by code_simp
  show "message_size = 64" by code_simp
qed (rule all_formats_size)

text \<open>Storing a value in any field of any message format and reading it back gives that value, and
  every other field of the format still reads as before: no two fields of a format share a byte.\<close>

lemma message_field_roundtrip:
  assumes "(name, fs) \<in> set message_formats" and "length bs = 56"
    and "i < length (layout fs 0)" "layout fs 0 ! i = (n, a, t)" and "length v = size_of t"
  shows "get_bytes a (size_of t) (put_bytes a v bs) = v \<and> length (put_bytes a v bs) = 56 \<and>
    (\<forall>j m b u. j < length (layout fs 0) \<longrightarrow> j \<noteq> i \<longrightarrow> layout fs 0 ! j = (m, b, u) \<longrightarrow>
       get_bytes b (size_of u) (put_bytes a v bs) = get_bytes b (size_of u) bs)"
proof -
  have "size_of (Struct fs) = 56" using all_formats_size assms(1) by (auto simp: list_all_iff)
  moreover have "fields_end fs 0 \<le> round_up (fields_end fs 0) (align_fields fs)"
    by (rule round_up_le [OF align_pos(2)])
  ultimately have "fields_end fs 0 \<le> length bs" using assms(2) by simp
  then show ?thesis
    using field_access [OF assms(3,4) _ _ _ assms(5)] assms(2,3,4) by auto
qed

lemma mess_notify_layout:
  "map (\<lambda>(n, a, t). (n, a, size_of t)) (layout mess_notify 0) =
     [(''timestamp'', 0, 8), (''interrupts'', 8, 8), (''sigset'', 16, 16), (''padding'', 32, 24)]"
  by code_simp

lemma message_field_roundtrip_witness:
  "get_bytes 8 8 (put_bytes 8 (le_bytes 8 0x1080) (replicate 56 0)) = le_bytes 8 0x1080"
proof -
  have "(''mess_notify'', mess_notify) \<in> set message_formats" by code_simp
  moreover have "1 < length (layout mess_notify 0)"
    "fst (snd (layout mess_notify 0 ! 1)) = 8" "size_of (snd (snd (layout mess_notify 0 ! 1))) = 8"
    by code_simp+
  moreover obtain n a t where "layout mess_notify 0 ! 1 = (n, a, t)" by (metis prod_cases3)
  ultimately show ?thesis
    using message_field_roundtrip [of "''mess_notify''" mess_notify "replicate 56 0" 1 n a t "le_bytes 8 0x1080"]
    by simp
qed

text \<open>C34: the sender and the raised interrupts that the main loop reads from a notification are those stored in it, on 32-bit x86:
  msg.m_source is the signed number in the first 4 bytes of the 64, msg.m_notify.interrupts the 64 bits in the 8 bytes from
  offset 16, behind sender, type and time stamp, low byte first, and storing the one does not change the other.\<close>

theorem notification_read:
  "length bs = 64 \<Longrightarrow> e \<in> {-2147483648..2147483647} \<Longrightarrow>
   (let msg = put_bytes 16 (le_bytes 8 (uint ints)) (put_bytes 0 (le_bytes 4 e) bs) in
    length msg = 64 \<and> message_source msg = Some e \<and> notify_interrupts msg = Some ints)"
proof -
  assume len: "length bs = 64" and e: "e \<in> {-2147483648..2147483647}"
  let ?one = "put_bytes 0 (le_bytes 4 e) bs"
  let ?msg = "put_bytes 16 (le_bytes 8 (uint ints)) ?one"
  have find: "find_field ''m_source'' (layout message_fields 0) = Some (0, 4)"
    "map_option fst (find_field ''payload'' (layout message_fields 0)) = Some 8"
    "find_field ''interrupts'' (layout mess_notify 0) = Some (8, 8)"
    by code_simp+
  have one: "length ?one = 64" using len by simp
  then have msg: "length ?msg = 64" by simp
  have "get_bytes 0 4 ?msg = get_bytes 0 4 ?one" using one by (intro get_put_other) simp_all
  also have "\<dots> = le_bytes 4 e" using len by (intro get_put_same) simp_all
  finally have src: "le_value (get_bytes 0 4 ?msg) = e mod 256 ^ 4" by (simp add: le_round_trip)
  have "get_bytes 16 8 ?msg = le_bytes 8 (uint ints)" using one by (intro get_put_same) simp_all
  then have ints: "le_value (get_bytes 16 8 ?msg) = uint ints mod 256 ^ 8" by (simp add: le_round_trip)
  have "sint (word_of_int (e mod 256 ^ 4) :: 32 word) = e"
  proof -
    have "(word_of_int (e mod 256 ^ 4) :: 32 word) = word_of_int e"
      by (rule word_of_int_eq_iff [THEN iffD2]) (simp add: take_bit_eq_mod)
    moreover have "sint (word_of_int e :: 32 word) = e"
      using e by (simp add: sint_sbintrunc' signed_take_bit_int_eq_self)
    ultimately show ?thesis by simp
  qed
  then have "message_source ?msg = Some e" by (simp add: message_source_def find src)
  moreover have "(word_of_int (uint ints mod 256 ^ 8) :: 64 word) = ints"
    using uint_lt2p [of ints] by simp
  then have "notify_interrupts ?msg = Some ints"
    using find(2) by (auto simp: notify_interrupts_def find(3) ints)
  ultimately show ?thesis using msg by (simp add: Let_def)
qed

theorem notification_read_witness:
  "notify_interrupts (put_bytes 16 (le_bytes 8 (uint (0x81 :: 64 word))) (put_bytes 0 (le_bytes 4 (-1)) (replicate 64 0)))
     = Some 0x81"
  using notification_read [of "replicate 64 0" "-1" "0x81"] by (simp add: Let_def)

end
