(* ===== verification/Bios_Layout.thy ===== *)
theory Bios_Layout
  imports Message_Types
begin

text \<open>
  The data that the BIOS exchanges with the program: the block of information about a video mode and
  the block about the video controller (lcom/vbe.h, under #pragma pack(1)), and the register file of
  a BIOS call (machine/int86.h), a union of three views of the same bytes, by 32, 16 and 8 bits.

  The offsets of the fields that controllers/graphics.c reads and writes are shown to be those of the
  VESA standard, and the views to overlap as the processor's registers do.
\<close>

definition vbe_mode_info_fields :: fields where
  "vbe_mode_info_fields = [(''ModeAttributes'', uint16_t), (''WinAAttributes'', uint8_t),
     (''WinBAttributes'', uint8_t), (''WinGranularity'', uint16_t), (''WinSize'', uint16_t),
     (''WinASegment'', uint16_t), (''WinBSegment'', uint16_t), (''WinFuncPtr'', phys_bytes),
     (''BytesPerScanLine'', uint16_t), (''XResolution'', uint16_t), (''YResolution'', uint16_t),
     (''XCharSize'', uint8_t), (''YCharSize'', uint8_t), (''NumberOfPlanes'', uint8_t),
     (''BitsPerPixel'', uint8_t), (''NumberOfBanks'', uint8_t), (''MemoryModel'', uint8_t),
     (''BankSize'', uint8_t), (''NumberOfImagePages'', uint8_t), (''Reserved1'', uint8_t),
     (''RedMaskSize'', uint8_t), (''RedFieldPosition'', uint8_t), (''GreenMaskSize'', uint8_t),
     (''GreenFieldPosition'', uint8_t), (''BlueMaskSize'', uint8_t),
     (''BlueFieldPosition'', uint8_t), (''RsvdMaskSize'', uint8_t),
     (''RsvdFieldPosition'', uint8_t), (''DirectColorModeInfo'', uint8_t),
     (''PhysBasePtr'', phys_bytes), (''Reserved2'', Array uint8_t 4),
     (''Reserved3'', Array uint8_t 2), (''LinBytesPerScanLine'', uint16_t),
     (''BnkNumberOfImagePages'', uint8_t), (''LinNumberOfImagePages'', uint8_t),
     (''LinRedMaskSize'', uint8_t), (''LinRedFieldPosition'', uint8_t),
     (''LinGreenMaskSize'', uint8_t), (''LinGreenFieldPosition'', uint8_t),
     (''LinBlueMaskSize'', uint8_t), (''LinBlueFieldPosition'', uint8_t),
     (''LinRsvdMaskSize'', uint8_t), (''LinRsvdFieldPosition'', uint8_t),
     (''MaxPixelClock'', uint32_t), (''Reserved4'', Array uint8_t 190)]"

definition vg_vbe_contr_info_fields :: fields where
  "vg_vbe_contr_info_fields = [(''VBESignature'', Array c_char 4),
     (''VBEVersion'', Array uint8_t 2), (''OEMString'', c_pointer), (''VideoModeList'', c_pointer),
     (''TotalMemory'', uint32_t), (''OEMVendorNamePtr'', c_pointer),
     (''OEMProductNamePtr'', c_pointer), (''OEMProductRevPtr'', c_pointer)]"

text \<open>A bit field that fills a whole unit and has no name is called unused1, unused2 and so on.\<close>

definition reg86_long_view :: fields where
  "reg86_long_view = [(''ef'', u32_t), (''vec'', u32_t), (''unused1'', u32_t), (''eax'', u32_t),
     (''ebx'', u32_t), (''ecx'', u32_t), (''edx'', u32_t), (''esi'', u32_t), (''edi'', u32_t),
     (''ebp'', u32_t)]"

definition reg86_word_view :: fields where
  "reg86_word_view = [(''f'', u16_t), (''unused1'', u16_t), (''off'', u16_t), (''seg'', u16_t),
     (''ds'', u16_t), (''es'', u16_t), (''ax'', u16_t), (''unused2'', u16_t), (''bx'', u16_t),
     (''unused3'', u16_t), (''cx'', u16_t), (''unused4'', u16_t), (''dx'', u16_t),
     (''unused5'', u16_t), (''si'', u16_t), (''unused6'', u16_t), (''di'', u16_t),
     (''unused7'', u16_t), (''bp'', u16_t), (''unused8'', u16_t)]"

definition reg86_byte_view :: fields where
  "reg86_byte_view = [(''intno'', u8_t), (''unused1'', u8_t), (''unused2'', u16_t),
     (''unused3'', u32_t), (''unused4'', u32_t), (''al'', u8_t), (''ah'', u8_t),
     (''unused5'', u16_t), (''bl'', u8_t), (''bh'', u8_t), (''unused6'', u16_t), (''cl'', u8_t),
     (''ch'', u8_t), (''unused7'', u16_t), (''dl'', u8_t), (''dh'', u8_t), (''unused8'', u16_t),
     (''unused9'', u32_t), (''unused10'', u32_t), (''unused11'', u32_t)]"

definition reg86_type :: ctype where
  "reg86_type = Union [(''longs'', Struct reg86_long_view), (''words'', Struct reg86_word_view),
     (''bytes'', Struct reg86_byte_view)]"

fun field_at :: "string \<Rightarrow> (string \<times> nat \<times> ctype) list \<Rightarrow> (nat \<times> nat) option" where
  "field_at name [] = None"
| "field_at name ((n, at, t) # xs) = (if n = name then Some (at, size_of t) else field_at name xs)"

text \<open>Storing a number in a field of a view of the registers, and reading one.\<close>

definition set_reg :: "fields \<Rightarrow> string \<Rightarrow> int \<Rightarrow> u8 list \<Rightarrow> u8 list option" where
  "set_reg view name v bs =
     do { (at, n) \<leftarrow> field_at name (layout view 0); Some (put_bytes at (le_bytes n v) bs) }"

definition get_reg :: "fields \<Rightarrow> string \<Rightarrow> u8 list \<Rightarrow> int option" where
  "get_reg view name bs = do { (at, n) \<leftarrow> field_at name (layout view 0); Some (le_value (get_bytes at n bs)) }"

text \<open>The register file that setGraphicsMode passes to the BIOS.\<close>

definition graphics_mode_call :: "u16 \<Rightarrow> u8 list option" where
  "graphics_mode_call mode =
     do {
       bs \<leftarrow> Some (replicate (size_of reg86_type) 0);
       bs \<leftarrow> set_reg reg86_byte_view ''intno'' 0x10 bs;
       bs \<leftarrow> set_reg reg86_byte_view ''ah'' 0x4F bs;
       bs \<leftarrow> set_reg reg86_byte_view ''al'' 0x02 bs;
       set_reg reg86_word_view ''bx'' (uint (or mode (push_bit 14 1))) bs
     }"

text \<open>Under #pragma pack(1) the fields of the mode information that the program reads lie at the
  offsets of the VESA standard (resolution at 18 and 20, bits per pixel at 25, frame buffer address at
  40) and the block has 256 bytes; without it the compiler would move the address.\<close>

lemma vbe_mode_info_offsets:
  "field_at ''XResolution'' (packed_layout vbe_mode_info_fields 0) = Some (18, 2) \<and>
   field_at ''YResolution'' (packed_layout vbe_mode_info_fields 0) = Some (20, 2) \<and>
   field_at ''BitsPerPixel'' (packed_layout vbe_mode_info_fields 0) = Some (25, 1) \<and>
   field_at ''PhysBasePtr'' (packed_layout vbe_mode_info_fields 0) = Some (40, 4) \<and>
   packed_size vbe_mode_info_fields = 256"
  by code_simp

lemma reg86_sizes:
  "size_of (Struct reg86_long_view) = 40 \<and> size_of (Struct reg86_word_view) = 40 \<and>
   size_of (Struct reg86_byte_view) = 40 \<and> size_of reg86_type = 40"
  by code_simp

lemma reg86_fields:
  "field_at ''intno'' (layout reg86_byte_view 0) = Some (0, 1)"
  "field_at ''al'' (layout reg86_byte_view 0) = Some (12, 1)"
  "field_at ''ah'' (layout reg86_byte_view 0) = Some (13, 1)"
  "field_at ''ax'' (layout reg86_word_view 0) = Some (12, 2)"
  "field_at ''bx'' (layout reg86_word_view 0) = Some (16, 2)"
  "field_at ''ebx'' (layout reg86_long_view 0) = Some (16, 4)"
  by code_simp+

text \<open>The register file that setGraphicsMode fills through the byte and word views reads, through
  the others, as the VESA call "set mode" (AX = 0x4F02) with the mode and the linear-frame-buffer bit in
  BX; the upper half of EBX stays 0.\<close>

lemma graphics_mode_registers:
  "\<exists>bs. graphics_mode_call mode = Some bs \<and> length bs = 40 \<and>
     get_reg reg86_byte_view ''intno'' bs = Some 0x10 \<and>
     get_reg reg86_word_view ''ax'' bs = Some 0x4F02 \<and>
     get_reg reg86_word_view ''bx'' bs = Some (uint (or mode (push_bit 14 1))) \<and>
     get_reg reg86_long_view ''ebx'' bs = Some (uint (or mode (push_bit 14 1)))"
proof -
  let ?m = "uint (or mode (push_bit 14 1) :: u16)"
  have m: "0 \<le> ?m" "?m < 65536" using uint_lt2p [of "or mode (push_bit 14 1)"] by simp_all
  have u8: "uint (word_of_int v :: u8) = v mod 256" for v by (simp only: uint_word_of_int) simp
  have size: "size_of reg86_type = 40" using reg86_sizes by blast
  have zero: "replicate 40 (0 :: u8) = replicate 12 0 @ [0, 0, 0, 0] @ [0, 0, 0, 0] @ replicate 20 0"
    by (simp add: numeral_eq_Suc)
  let ?bs = "0x10 # replicate 11 0 @ [0x02, 0x4F, 0, 0, word_of_int ?m, word_of_int (?m div 256), 0, 0] @ replicate 20 0"
  have run: "graphics_mode_call mode = Some ?bs"
    by (simp add: graphics_mode_call_def set_reg_def reg86_fields size put_bytes_def numeral_eq_Suc)
  have "v mod 256 + 256 * (v div 256 mod 256) = v" if "0 \<le> v" "v < 65536" for v :: int
  proof -
    have "v div 256 < 256" using that(2) by (simp add: div_less_iff_less_mult)
    moreover have "0 \<le> v div 256" using that(1) by (simp add: pos_imp_zdiv_nonneg_iff)
    ultimately show ?thesis by simp
  qed
  from this [OF m] have "?m mod 256 + 256 * (?m div 256 mod 256) = ?m" .
  then show ?thesis
    using u8 [of ?m] u8 [of "?m div 256"]
    unfolding run by (simp add: get_reg_def reg86_fields get_bytes_def)
qed

end
